(* ===== verification/Prelude.thy ===== *)
theory Prelude
  imports Main "HOL-Library.Word" "HOL-Library.List_Lexorder" "HOL-Library.AList" "HOL-Library.Multiset"
begin

section \<open>Shared types, results, bytes, text and sorting\<close>

text \<open>
  What every component theory uses: names for Rust's machine integers and byte vectors,
  \<open>Result\<close> as a sum type, big-endian bytes (\<open>to_be_bytes\<close>, \<open>from_be_bytes\<close>),
  \<open>format!\<close> of integers in decimal and hexadecimal, \<open>str::split\<close> and \<open>join\<close>,
  \<open>std::cmp::Ordering\<close> and the stable \<open>sort_by\<close> with a comparator that may panic.
  The collections \<open>panic_free\<close>, \<open>invariants\<close> and \<open>frame_rules\<close> gather the facts that
  the components add: what does not panic, what an operation keeps of an invariant, what
  an operation leaves alone.
\<close>

unbundle bit_operations_syntax

named_theorems panic_free
named_theorems invariants
named_theorems frame_rules

type_synonym u8 = "8 word"
type_synonym u16 = "16 word"
type_synonym u32 = "32 word"
type_synonym u64 = "64 word"
type_synonym bytes = "u8 list"

text \<open>\<open>Result<T, E>\<close>: the error on the left, as in the rest of the library.\<close>

abbreviation Ok :: "'a \<Rightarrow> 'e + 'a" where "Ok \<equiv> Inr"
abbreviation Err :: "'e \<Rightarrow> 'e + 'a" where "Err \<equiv> Inl"

definition is_ok :: "'e + 'a \<Rightarrow> bool" where
  "is_ok r = (case r of Inl _ \<Rightarrow> False | Inr _ \<Rightarrow> True)"

lemma is_ok_simps [simp]: "is_ok (Ok x)" "\<not> is_ok (Err e)"
  by (simp_all add: is_ok_def)

lemma is_okE: "is_ok r \<Longrightarrow> (\<And>x. r = Ok x \<Longrightarrow> thesis) \<Longrightarrow> thesis"
  by (cases r) simp_all

lemma is_ok_unit_iff: "is_ok (r :: 'e + unit) \<longleftrightarrow> r = Ok ()"
  by (cases r) simp_all

subsection \<open>Unsigned arithmetic\<close>

lemma uint_inject [simp]: "uint (a :: 'a::len word) = uint b \<longleftrightarrow> a = b"
  by (metis word_uint_eq_iff)

lemma unat_inject [simp]: "unat (a :: 'a::len word) = unat b \<longleftrightarrow> a = b"
  by (metis word_unat_eq_iff)

text \<open>\<open>saturating_sub\<close> on an unsigned integer.\<close>

definition sat_sub :: "'a::len word \<Rightarrow> 'a word \<Rightarrow> 'a word" where
  "sat_sub a b = (if b \<le> a then a - b else 0)"

lemma unat_sat_sub: "unat (sat_sub a b) = unat a - unat b"
  by (auto simp: sat_sub_def unat_sub_if' word_le_nat_alt)

subsection \<open>Big-endian bytes\<close>

definition be_value :: "bytes \<Rightarrow> nat" where
  "be_value bs = foldl (\<lambda>acc b. acc * 256 + unat b) 0 bs"

primrec be_bytes :: "nat \<Rightarrow> nat \<Rightarrow> bytes" where
  "be_bytes 0 x = []"
| "be_bytes (Suc n) x = be_bytes n (x div 256) @ [of_nat (x mod 256)]"

lemma be_value_Nil [simp]: "be_value [] = 0"
  by (simp add: be_value_def)

lemma be_value_snoc [simp]: "be_value (bs @ [b]) = be_value bs * 256 + unat b"
  by (simp add: be_value_def)

lemma unat_u8_less [simp]: "unat (b :: u8) < 256"
  using unsigned_less [of b] by simp

lemma unat_u8_le [simp]: "unat (b :: u8) \<le> 255"
  using unat_u8_less [of b] by linarith

lemma be_value_append:
  "be_value (xs @ ys) = be_value xs * 256 ^ length ys + be_value ys"
proof (induction ys rule: rev_induct)
  case Nil
  show ?case by simp
next
  case (snoc y ys)
  have "be_value (xs @ ys @ [y]) = be_value ((xs @ ys) @ [y])" by simp
  also have "\<dots> = be_value (xs @ ys) * 256 + unat y" by (simp only: be_value_snoc)
  finally show ?case using snoc.IH by (simp add: algebra_simps)
qed

lemma be_value_single [simp]: "be_value [b] = unat b"
  by (simp add: be_value_def)

lemma be_value_Cons: "be_value (b # bs) = unat b * 256 ^ length bs + be_value bs"
  using be_value_append [of "[b]" bs] by simp

lemma be_value_bound: "be_value bs < 256 ^ length bs"
proof (induction bs)
  case Nil
  show ?case by simp
next
  case (Cons b bs)
  have "be_value (b # bs) < unat b * 256 ^ length bs + 256 ^ length bs"
    using Cons.IH by (simp add: be_value_Cons)
  also have "\<dots> = (unat b + 1) * 256 ^ length bs" by (simp add: algebra_simps)
  also have "\<dots> \<le> 256 * 256 ^ length bs"
    by (intro mult_right_mono) (use unat_u8_less [of b] in auto)
  finally show ?case by simp
qed

lemma length_be_bytes [simp]: "length (be_bytes n x) = n"
  by (induction n arbitrary: x) auto

lemma be_value_be_bytes: "be_value (be_bytes n x) = x mod 256 ^ n"
proof (induction n arbitrary: x)
  case 0
  show ?case by simp
next
  case (Suc n)
  have "unat (of_nat (x mod 256) :: u8) = x mod 256"
    by (simp add: unat_of_nat take_bit_eq_mod)
  then have "be_value (be_bytes (Suc n) x) = (x div 256) mod 256 ^ n * 256 + x mod 256"
    by (simp add: Suc.IH)
  also have "\<dots> = x mod (256 * 256 ^ n)"
    by (simp add: mod_mult2_eq)
  finally show ?case by simp
qed

lemma be_bytes_be_value: "be_bytes (length bs) (be_value bs) = bs"
proof (induction bs rule: rev_induct)
  case Nil
  show ?case by simp
next
  case (snoc b bs)
  have "(be_value bs * 256 + unat b) div 256 = be_value bs"
    by simp
  moreover have "(be_value bs * 256 + unat b) mod 256 = unat b"
    by simp
  ultimately show ?case using snoc.IH by simp
qed

lemma be_value_inject:
  "length xs = length ys \<Longrightarrow> be_value xs = be_value ys \<longleftrightarrow> xs = ys"
  by (metis be_bytes_be_value)

text \<open>Comparing byte arrays of one length as Rust does (lexicographically) compares the
  numbers they encode.\<close>

lemma be_value_less:
  "length xs = length ys \<Longrightarrow> xs < ys \<longleftrightarrow> be_value xs < be_value ys"
proof (induction xs ys rule: list_induct2)
  case Nil
  show ?case by simp
next
  case (Cons x xs y ys)
  let ?p = "256 ^ length ys :: nat"
  have bx: "be_value xs < ?p" and b_y: "be_value ys < ?p"
    using be_value_bound [of xs] be_value_bound [of ys] Cons.hyps by simp_all
  have eq: "be_value (x # xs) = unat x * ?p + be_value xs"
    "be_value (y # ys) = unat y * ?p + be_value ys"
    using Cons.hyps by (simp_all add: be_value_Cons)
  have less: "unat a * ?p + u < unat b * ?p + v"
    if "unat a < unat b" and "u < ?p" for a b :: u8 and u v
  proof -
    have "unat a * ?p + u < (unat a + 1) * ?p" using that(2) by simp
    also have "\<dots> \<le> unat b * ?p" using that(1) by (intro mult_right_mono) auto
    finally show ?thesis by simp
  qed
  consider "x < y" | "x = y" | "y < x" by (rule linorder_cases)
  then show ?case
  proof cases
    case 1
    then show ?thesis using less [of x y] bx by (simp add: eq word_less_nat_alt)
  next
    case 2
    then show ?thesis using Cons.IH Cons.hyps by (simp add: be_value_Cons)
  next
    case 3
    then have "be_value (y # ys) < be_value (x # xs)"
      using less [of y x] b_y by (simp add: eq word_less_nat_alt)
    then show ?thesis using 3 by auto
  qed
qed

lemma be_value_le:
  "length xs = length ys \<Longrightarrow> xs \<le> ys \<longleftrightarrow> be_value xs \<le> be_value ys"
  by (metis be_value_inject be_value_less linorder_not_le order_le_less)

subsection \<open>Text: formatted integers, split and join\<close>

text \<open>A Rust \<open>String\<close> is a list of UTF-8 bytes; \<open>string\<close> is a list of 8-bit
  characters, so \<open>length\<close> is \<open>str::len\<close> and \<open>as_bytes\<close> is a bijection.\<close>

definition as_bytes :: "string \<Rightarrow> bytes" where
  "as_bytes s = map (\<lambda>c. of_nat (of_char c)) s"

lemma of_char_u8_inject:
  "(of_nat (of_char c) :: u8) = of_nat (of_char d) \<longleftrightarrow> c = d"
proof -
  have unat: "unat (of_nat (of_char z) :: u8) = of_char z" for z :: char
  proof -
    have "(of_char z :: nat) < 256" by (rule nat_of_char_less_256)
    then show ?thesis by (simp only: unat_of_nat) simp
  qed
  show ?thesis
  proof
    assume "(of_nat (of_char c) :: u8) = of_nat (of_char d)"
    then have "unat (of_nat (of_char c) :: u8) = unat (of_nat (of_char d) :: u8)"
      by (rule arg_cong)
    then have "(of_char c :: nat) = of_char d" by (simp only: unat)
    then show "c = d" by (simp only: of_char_eq_iff)
  qed simp
qed

lemma as_bytes_inject [simp]: "as_bytes s = as_bytes t \<longleftrightarrow> s = t"
  unfolding as_bytes_def
  by (rule inj_map_eq_map) (auto simp: inj_def of_char_u8_inject)

lemma length_as_bytes [simp]: "length (as_bytes s) = length s"
  by (simp add: as_bytes_def)

fun nat_string :: "nat \<Rightarrow> string" where
  "nat_string n =
     (if n < 10 then [char_of (48 + n)] else nat_string (n div 10) @ [char_of (48 + n mod 10)])"

declare nat_string.simps [simp del]

definition hex_digit :: "nat \<Rightarrow> char" where
  "hex_digit d = (if d < 10 then char_of (48 + d) else char_of (87 + d))"

text \<open>\<open>{:02x}\<close> and \<open>{:04x}\<close>.\<close>

definition hex_u8 :: "u8 \<Rightarrow> string" where
  "hex_u8 b = [hex_digit (unat b div 16), hex_digit (unat b mod 16)]"

definition hex_u16 :: "u16 \<Rightarrow> string" where
  "hex_u16 w = map (\<lambda>i. hex_digit (unat w div 16 ^ i mod 16)) [3, 2, 1, 0]"

text \<open>\<open>s.split(c).collect()\<close>: always at least one part.\<close>

fun split_on :: "char \<Rightarrow> string \<Rightarrow> string list" where
  "split_on c [] = [[]]"
| "split_on c (x # xs) =
     (if x = c then [] # split_on c xs
      else case split_on c xs of [] \<Rightarrow> [[x]] | p # ps \<Rightarrow> (x # p) # ps)"

fun join_with :: "char \<Rightarrow> string list \<Rightarrow> string" where
  "join_with c [] = []"
| "join_with c [p] = p"
| "join_with c (p # q # ps) = p @ c # join_with c (q # ps)"

lemma split_on_ne [simp]: "split_on c s \<noteq> []"
  by (induction s) (auto split: list.splits)

lemma join_split [simp]: "join_with c (split_on c s) = s"
proof (induction s)
  case Nil
  show ?case by simp
next
  case (Cons x xs)
  obtain p ps where p: "split_on c xs = p # ps"
    using split_on_ne [of c xs] by (cases "split_on c xs") auto
  with Cons.IH show ?case by (cases ps) auto
qed

lemma length_split_on: "length (split_on c s) = Suc (count_list s c)"
proof (induction s)
  case Nil
  show ?case by simp
next
  case (Cons x xs)
  then show ?case by (auto split: list.splits)
qed

definition strip_prefix :: "string \<Rightarrow> string \<Rightarrow> string option" where
  "strip_prefix p s = (if take (length p) s = p then Some (drop (length p) s) else None)"

lemma strip_prefix_Some: "strip_prefix p s = Some t \<longleftrightarrow> s = p @ t"
proof
  assume "strip_prefix p s = Some t"
  then have "take (length p) s = p" "drop (length p) s = t"
    by (simp_all add: strip_prefix_def split: if_splits)
  then show "s = p @ t" using append_take_drop_id [of "length p" s] by simp
qed (simp add: strip_prefix_def)

subsection \<open>Ordering and sorting\<close>

text \<open>\<open>std::cmp::Ordering\<close>; it derives \<open>Ord\<close> with \<open>Less < Equal < Greater\<close>.\<close>

datatype ordering = Less | Equal | Greater

instantiation ordering :: linorder
begin

fun ordering_rank :: "ordering \<Rightarrow> nat" where
  "ordering_rank Less = 0" | "ordering_rank Equal = 1" | "ordering_rank Greater = 2"

definition less_eq_ordering :: "ordering \<Rightarrow> ordering \<Rightarrow> bool" where
  "less_eq_ordering a b \<longleftrightarrow> ordering_rank a \<le> ordering_rank b"

definition less_ordering :: "ordering \<Rightarrow> ordering \<Rightarrow> bool" where
  "less_ordering a b \<longleftrightarrow> ordering_rank a < ordering_rank b"

instance
proof
  fix x y z :: ordering
  show "(x < y) = (x \<le> y \<and> \<not> y \<le> x)"
    by (cases x; cases y) (simp_all add: less_eq_ordering_def less_ordering_def)
  show "x \<le> x" by (simp add: less_eq_ordering_def)
  show "x \<le> y \<Longrightarrow> y \<le> z \<Longrightarrow> x \<le> z" by (simp add: less_eq_ordering_def)
  show "x \<le> y \<Longrightarrow> y \<le> x \<Longrightarrow> x = y"
    by (cases x; cases y) (simp_all add: less_eq_ordering_def)
  show "x \<le> y \<or> y \<le> x" by (auto simp: less_eq_ordering_def)
qed

end

definition cmp_of :: "'a::linorder \<Rightarrow> 'a \<Rightarrow> ordering" where
  "cmp_of a b = (if a < b then Less else if a = b then Equal else Greater)"

definition reverse_ordering :: "ordering \<Rightarrow> ordering" where
  "reverse_ordering r = (case r of Less \<Rightarrow> Greater | Equal \<Rightarrow> Equal | Greater \<Rightarrow> Less)"

lemma cmp_of_reverse: "cmp_of b a = reverse_ordering (cmp_of a b)"
  by (auto simp: cmp_of_def reverse_ordering_def)

lemma cmp_of_iffs:
  "cmp_of a b = Less \<longleftrightarrow> a < b" "cmp_of a b = Equal \<longleftrightarrow> a = b" "cmp_of a b = Greater \<longleftrightarrow> b < a"
  by (auto simp: cmp_of_def)

text \<open>
  \<open>slice::sort_by\<close>: stable, and the comparator is the code's own closure, which may
  panic (\<open>None\<close>). A slice of at most one element never calls it.
\<close>

fun insert_by :: "('a \<Rightarrow> 'a \<Rightarrow> ordering option) \<Rightarrow> 'a \<Rightarrow> 'a list \<Rightarrow> 'a list option" where
  "insert_by c x [] = Some [x]"
| "insert_by c x (y # ys) =
     (case c x y of
        None \<Rightarrow> None
      | Some r \<Rightarrow> if r \<le> Equal then Some (x # y # ys) else map_option (Cons y) (insert_by c x ys))"

fun sort_by :: "('a \<Rightarrow> 'a \<Rightarrow> ordering option) \<Rightarrow> 'a list \<Rightarrow> 'a list option" where
  "sort_by c [] = Some []"
| "sort_by c (x # xs) =
     (case sort_by c xs of None \<Rightarrow> None | Some ys \<Rightarrow> insert_by c x ys)"

lemma cmp_of_le_Equal: "cmp_of a b \<le> Equal \<longleftrightarrow> a \<le> b"
  by (auto simp: cmp_of_def less_eq_ordering_def)

lemma insert_by_key:
  assumes "\<And>y. y \<in> set ys \<Longrightarrow> c x y = Some (cmp_of (f x) (f y))"
  shows "insert_by c x ys = Some (insort_key f x ys)"
  using assms by (induction ys) (auto simp: cmp_of_le_Equal)

text \<open>With a comparator that compares keys the sort is the library's stable \<open>sort_key\<close>.\<close>

lemma sort_by_key:
  assumes "\<And>x y. x \<in> set xs \<Longrightarrow> y \<in> set xs \<Longrightarrow> c x y = Some (cmp_of (f x) (f y))"
  shows "sort_by c xs = Some (sort_key f xs)"
  using assms
proof (induction xs)
  case Nil
  show ?case by simp
next
  case (Cons x xs)
  have "sort_by c xs = Some (sort_key f xs)" by (rule Cons.IH) (simp add: Cons.prems)
  moreover have "insert_by c x (sort_key f xs) = Some (insort_key f x (sort_key f xs))"
    by (rule insert_by_key) (simp add: Cons.prems)
  ultimately show ?case by simp
qed

text \<open>A comparator that panics on every pair makes the sort of two or more elements panic.\<close>

lemma sort_by_panics:
  assumes "\<And>x y. c x y = None"
  shows "sort_by c (x # y # xs) = None"
proof -
  have ins: "insert_by c z zs = None \<or> zs = []" for z zs
    by (cases zs) (simp_all add: assms)
  have ne: "insert_by c z zs \<noteq> Some []" for z zs
    by (cases zs) (simp_all add: assms)
  show ?thesis
  proof (cases "sort_by c (y # xs)")
    case None
    then show ?thesis by (simp add: assms)
  next
    case (Some ys)
    then have "ys \<noteq> []" using ne by (auto split: option.splits)
    then show ?thesis using Some ins [of x ys] by simp
  qed
qed

lemma mset_insert_by: "insert_by c x ys = Some zs \<Longrightarrow> mset zs = add_mset x (mset ys)"
  by (induction ys arbitrary: zs) (auto split: option.splits if_splits)

lemma mset_sort_by: "sort_by c xs = Some ys \<Longrightarrow> mset ys = mset xs"
  by (induction xs arbitrary: ys) (auto split: option.splits dest!: mset_insert_by)

lemma sort_key_prefix_closest:
  fixes f :: "'a \<Rightarrow> 'k::linorder"
  assumes "x \<in> set (take n (sort_key f xs))" and "y \<in> set xs"
    and "y \<notin> set (take n (sort_key f xs))"
  shows "f x \<le> f y"
proof -
  let ?s = "sort_key f xs"
  have "y \<in> set (drop n ?s)"
    using assms(2,3) by (metis UnE append_take_drop_id set_append set_sort)
  moreover have "sorted (map f (take n ?s) @ map f (drop n ?s))"
    by (metis append_take_drop_id map_append sorted_sort_key)
  ultimately show ?thesis using assms(1) by (auto simp: sorted_append)
qed

subsection \<open>Lists and option folds\<close>

lemma map_of_map_snd: "map_of (map (\<lambda>(k, v). (k, f v)) al) k = map_option f (map_of al k)"
  by (induction al) auto

text \<open>The first element that satisfies a test: \<open>iter().position\<close>.\<close>

fun position :: "('a \<Rightarrow> bool) \<Rightarrow> 'a list \<Rightarrow> nat option" where
  "position p [] = None"
| "position p (x # xs) = (if p x then Some 0 else map_option Suc (position p xs))"

lemma position_None: "position p xs = None \<longleftrightarrow> (\<forall>x\<in>set xs. \<not> p x)"
  by (induction xs) auto

lemma position_Some: "position p xs = Some i \<Longrightarrow> i < length xs \<and> p (xs ! i)"
  by (induction xs arbitrary: i) (auto split: if_splits)

text \<open>\<open>iter().find_map\<close>.\<close>

fun find_map :: "('a \<Rightarrow> 'b option) \<Rightarrow> 'a list \<Rightarrow> 'b option" where
  "find_map f [] = None"
| "find_map f (x # xs) = (case f x of None \<Rightarrow> find_map f xs | Some y \<Rightarrow> Some y)"

text \<open>\<open>Vec::remove\<close> at an index in range.\<close>

definition remove_at :: "nat \<Rightarrow> 'a list \<Rightarrow> 'a list" where
  "remove_at i xs = take i xs @ drop (Suc i) xs"

lemma set_remove_at_subset: "set (remove_at i xs) \<subseteq> set xs"
  by (auto simp: remove_at_def dest: in_set_takeD in_set_dropD)

lemma length_remove_at: "i < length xs \<Longrightarrow> length (remove_at i xs) = length xs - 1"
  by (simp add: remove_at_def)

lemma split_at_index: "i < length xs \<Longrightarrow> xs = take i xs @ xs ! i # drop (Suc i) xs"
  by (rule id_take_nth_drop)

lemma mset_remove_at: "i < length xs \<Longrightarrow> mset (remove_at i xs) + {#xs ! i#} = mset xs"
  by (subst (3) split_at_index [of i xs]) (simp_all add: remove_at_def)

lemma mset_move_to_end: "i < length xs \<Longrightarrow> mset (remove_at i xs @ [xs ! i]) = mset xs"
  by (simp add: mset_remove_at [symmetric])

end
