(* ===== verification/Core.thy ===== *)
theory Core
  imports Prelude
begin

section \<open>mesh-core: hashes, identities, errors, well-known keys\<close>

text \<open>
  The value types of \<open>mesh-core\<close>: \<open>Hash\<close> (hash.rs), \<open>Identity\<close> and \<open>Keypair\<close>
  (identity.rs), \<open>MeshError\<close> with its messages (error.rs), routing keys (routing.rs) and
  the well-known schema hashes (schema.rs, mesh-schemas). The cryptographic and encoding
  crates (blake3, ed25519-dalek, bs58, hex, ciborium's untyped reader and writer) are not
  part of the repository: they are the fields of the record \<open>prims\<close>, an argument of every
  definition that uses one. \<open>prims_ok\<close> collects what the code relies on.
\<close>

subsection \<open>The crates the code calls\<close>

text \<open>\<open>ciborium::Value\<close>, the dynamically typed CBOR value.\<close>

datatype cbor_value =
    CInteger int
  | CBytes bytes
  | CFloat u64
  | CText string
  | CBool bool
  | CNull
  | CTag u64 cbor_value
  | CArray "cbor_value list"
  | CMap "(cbor_value \<times> cbor_value) list"

definition as_text :: "cbor_value \<Rightarrow> string option" where
  "as_text v = (case v of CText s \<Rightarrow> Some s | _ \<Rightarrow> None)"

definition value_bytes :: "cbor_value \<Rightarrow> bytes option" where
  "value_bytes v = (case v of CBytes b \<Rightarrow> Some b | _ \<Rightarrow> None)"

definition as_integer :: "cbor_value \<Rightarrow> int option" where
  "as_integer v = (case v of CInteger i \<Rightarrow> Some i | _ \<Rightarrow> None)"

definition as_map :: "cbor_value \<Rightarrow> (cbor_value \<times> cbor_value) list option" where
  "as_map v = (case v of CMap m \<Rightarrow> Some m | _ \<Rightarrow> None)"

text \<open>
  \<open>blake3\<close> is the digest; \<open>ed_point\<close> is \<open>VerifyingKey::from_bytes(..).is_ok()\<close> on 32 bytes,
  \<open>ed_verify\<close> takes key, message and signature, \<open>ed_public\<close> and \<open>ed_sign\<close> start from the
  32 secret bytes. \<open>cbor_read\<close> returns the reader's error text or the value. \<open>debug_assertions\<close> is the
  build: whether \<open>debug_assert!\<close> is compiled in.
\<close>

record prims =
  blake3 :: "bytes \<Rightarrow> bytes"
  ed_point :: "bytes \<Rightarrow> bool"
  ed_verify :: "bytes \<Rightarrow> bytes \<Rightarrow> bytes \<Rightarrow> bool"
  ed_public :: "bytes \<Rightarrow> bytes"
  ed_sign :: "bytes \<Rightarrow> bytes \<Rightarrow> bytes"
  bs58_encode :: "bytes \<Rightarrow> string"
  hex_encode :: "bytes \<Rightarrow> string"
  hex_decode :: "string \<Rightarrow> bytes option"
  cbor_write :: "cbor_value \<Rightarrow> bytes"
  cbor_read :: "bytes \<Rightarrow> string + cbor_value"
  debug_assertions :: bool

text \<open>BLAKE3 digests have 32 bytes.\<close>

definition blake3_ok :: "prims \<Rightarrow> bool" where
  "blake3_ok P \<longleftrightarrow> (\<forall>x. length (blake3 P x) = 32)"

text \<open>An Ed25519 key pair: the public key is a valid point of 32 bytes, a signature has 64
  bytes and verifies.\<close>

definition ed25519_ok :: "prims \<Rightarrow> bool" where
  "ed25519_ok P \<longleftrightarrow>
     (\<forall>k. length (ed_public P k) = 32 \<and> ed_point P (ed_public P k)) \<and>
     (\<forall>k m. length (ed_sign P k m) = 64 \<and> ed_verify P (ed_public P k) m (ed_sign P k m))"

text \<open>Different values have different encodings, as a decodable format has to guarantee.\<close>

definition cbor_ok :: "prims \<Rightarrow> bool" where
  "cbor_ok P \<longleftrightarrow> (\<forall>v w. cbor_write P v = cbor_write P w \<longrightarrow> v = w)"

subsection \<open>Hash\<close>

definition ALG_BLAKE3 :: u8 where "ALG_BLAKE3 = 0x03"
definition ALG_SHA256 :: u8 where "ALG_SHA256 = 0x04"

record hash =
  hash_algorithm :: u8
  digest :: bytes

definition hash_blake3 :: "prims \<Rightarrow> bytes \<Rightarrow> hash" where
  "hash_blake3 P data = \<lparr>hash_algorithm = ALG_BLAKE3, digest = blake3 P data\<rparr>"

definition to_hex :: "prims \<Rightarrow> hash \<Rightarrow> string" where
  "to_hex P h = hex_encode P (digest h)"

definition is_blake3 :: "hash \<Rightarrow> bool" where
  "is_blake3 h \<longleftrightarrow> hash_algorithm h = ALG_BLAKE3"

definition hash_display :: "prims \<Rightarrow> hash \<Rightarrow> string" where
  "hash_display P h = ''0x'' @ hex_u8 (hash_algorithm h) @ '':'' @ to_hex P h"

definition schema_hash_of :: "prims \<Rightarrow> string \<Rightarrow> hash" where
  "schema_hash_of P name = hash_blake3 P (as_bytes (''mesh:schema:'' @ name))"

lemma hash_eq_iff: "(a :: hash) = b \<longleftrightarrow> hash_algorithm a = hash_algorithm b \<and> digest a = digest b"
  by (cases a; cases b) simp

lemma hash_collapse [simp]: "\<lparr>hash_algorithm = hash_algorithm h, digest = digest h\<rparr> = (h :: hash)"
  by (cases h) simp

lemma length_digest_blake3 [simp]: "blake3_ok P \<Longrightarrow> length (digest (hash_blake3 P x)) = 32"
  by (simp add: hash_blake3_def blake3_ok_def)

lemma hash_blake3_alg [simp]: "hash_algorithm (hash_blake3 P x) = ALG_BLAKE3"
  by (simp add: hash_blake3_def)

subsection \<open>Errors\<close>

datatype mesh_error =
    IdMismatch string string
  | InvalidSignature
  | Expired
  | TimestampFuture u64
  | InvalidRoutingKeys string
  | PayloadTooLarge nat nat
  | TopicTooLong nat nat
  | InvalidTtl u32 u32 u32
  | StaleSequence u64 u64
  | UnknownAlgorithm u8
  | InvalidMagic u16
  | UnsupportedVersion u8
  | FrameBody string
  | Cbor string
  | Signing string
  | Io string

fun mesh_error_display :: "mesh_error \<Rightarrow> string" where
  "mesh_error_display (IdMismatch e a) =
     ''descriptor id mismatch: expected '' @ e @ '', got '' @ a"
| "mesh_error_display InvalidSignature = ''invalid signature''"
| "mesh_error_display Expired = ''descriptor expired''"
| "mesh_error_display (TimestampFuture s) =
     ''descriptor timestamp too far in future (>'' @ nat_string (unat s) @ ''s ahead)''"
| "mesh_error_display (InvalidRoutingKeys r) = ''invalid routing keys: '' @ r"
| "mesh_error_display (PayloadTooLarge s m) =
     ''payload too large: '' @ nat_string s @ '' bytes (max '' @ nat_string m @ '')''"
| "mesh_error_display (TopicTooLong s m) =
     ''topic too long: '' @ nat_string s @ '' bytes (max '' @ nat_string m @ '')''"
| "mesh_error_display (InvalidTtl t lo hi) =
     ''invalid ttl: '' @ nat_string (unat t) @ ''s (must be '' @ nat_string (unat lo) @ ''-''
       @ nat_string (unat hi) @ ''s)''"
| "mesh_error_display (StaleSequence r e) =
     ''stale descriptor: sequence '' @ nat_string (unat r) @ '' < '' @ nat_string (unat e)"
| "mesh_error_display (UnknownAlgorithm a) = ''unknown signature algorithm: 0x'' @ hex_u8 a"
| "mesh_error_display (InvalidMagic m) = ''invalid frame magic: 0x'' @ hex_u16 m"
| "mesh_error_display (UnsupportedVersion v) =
     ''unsupported protocol version: '' @ nat_string (unat v)"
| "mesh_error_display (FrameBody e) = ''frame body error: '' @ e"
| "mesh_error_display (Cbor e) = ''cbor error: '' @ e"
| "mesh_error_display (Signing e) = ''signing error: '' @ e"
| "mesh_error_display (Io e) = ''io error: '' @ e"

subsection \<open>Identity and Keypair\<close>

definition ALG_ED25519 :: u8 where "ALG_ED25519 = 0x01"
definition ALG_ML_DSA_65 :: u8 where "ALG_ML_DSA_65 = 0x02"
definition ALG_X25519 :: u8 where "ALG_X25519 = 0x05"

record identity =
  id_algorithm :: u8
  public_key :: bytes

lemma identity_eq_iff:
  "(a :: identity) = b \<longleftrightarrow> id_algorithm a = id_algorithm b \<and> public_key a = public_key b"
  by (cases a; cases b) simp

lemma identity_collapse [simp]:
  "\<lparr>id_algorithm = id_algorithm i, public_key = public_key i\<rparr> = (i :: identity)"
  by (cases i) simp

definition did :: "prims \<Rightarrow> identity \<Rightarrow> string" where
  "did P i = ''did:mesh:z'' @ bs58_encode P (id_algorithm i # public_key i)"

definition identity_verify :: "prims \<Rightarrow> identity \<Rightarrow> bytes \<Rightarrow> bytes \<Rightarrow> mesh_error + unit" where
  "identity_verify P i message signature =
     (if id_algorithm i = ALG_ED25519 then
        if length (public_key i) \<noteq> 32 then Err InvalidSignature
        else if \<not> ed_point P (public_key i) then Err InvalidSignature
        else if length signature \<noteq> 64 then Err InvalidSignature
        else if ed_verify P (public_key i) message signature then Ok ()
        else Err InvalidSignature
      else Err (UnknownAlgorithm (id_algorithm i)))"

definition node_id :: "prims \<Rightarrow> identity \<Rightarrow> hash" where
  "node_id P i = hash_blake3 P (public_key i)"

record keypair =
  signing_key :: bytes

definition keypair_identity :: "prims \<Rightarrow> keypair \<Rightarrow> identity" where
  "keypair_identity P kp =
     \<lparr>id_algorithm = ALG_ED25519, public_key = ed_public P (signing_key kp)\<rparr>"

definition keypair_sign :: "prims \<Rightarrow> keypair \<Rightarrow> bytes \<Rightarrow> bytes" where
  "keypair_sign P kp message = ed_sign P (signing_key kp) message"

lemma identity_verify_Ok_iff:
  "identity_verify P i m s = Ok () \<longleftrightarrow>
     id_algorithm i = ALG_ED25519 \<and> length (public_key i) = 32 \<and> ed_point P (public_key i) \<and>
     length s = 64 \<and> ed_verify P (public_key i) m s"
  by (auto simp: identity_verify_def)

lemma identity_verify_Err:
  "identity_verify P i m s = Err e \<Longrightarrow>
     e = InvalidSignature \<and> id_algorithm i = ALG_ED25519 \<or>
     e = UnknownAlgorithm (id_algorithm i) \<and> id_algorithm i \<noteq> ALG_ED25519"
  by (auto simp: identity_verify_def split: if_splits)

lemma keypair_sign_verifies:
  "ed25519_ok P \<Longrightarrow> identity_verify P (keypair_identity P kp) m (keypair_sign P kp m) = Ok ()"
  by (simp add: identity_verify_Ok_iff keypair_identity_def keypair_sign_def ed25519_ok_def)

lemma length_node_id [simp]: "blake3_ok P \<Longrightarrow> length (digest (node_id P i)) = 32"
  by (simp add: node_id_def)

subsection \<open>Routing keys\<close>

definition routing_key :: "prims \<Rightarrow> string \<Rightarrow> hash" where
  "routing_key P type_string = hash_blake3 P (as_bytes (''mesh:route:'' @ type_string))"

definition hierarchical_routing_keys :: "prims \<Rightarrow> string \<Rightarrow> hash list" where
  "hierarchical_routing_keys P type_path =
     (let parts = split_on (CHR ''/'') type_path
      in map (\<lambda>i. routing_key P (join_with (CHR ''/'') (take (Suc i) parts))) [0..<length parts])"

lemma length_hierarchical_routing_keys:
  "length (hierarchical_routing_keys P p) = Suc (count_list p (CHR ''/''))"
  by (simp add: hierarchical_routing_keys_def length_split_on)

lemma last_hierarchical_routing_keys:
  "last (hierarchical_routing_keys P p) = routing_key P p"
proof -
  let ?parts = "split_on (CHR ''/'') p"
  have "length ?parts \<noteq> 0" by simp
  then obtain n where n: "length ?parts = Suc n" by (cases "length ?parts") auto
  then have "take (Suc n) ?parts = ?parts" by simp
  then show ?thesis
    by (simp add: hierarchical_routing_keys_def Let_def n del: take_Suc_conv_app_nth)
qed

subsection \<open>Well-known schema hashes and routing keys\<close>

definition SCHEMA_HASH_CORE_CAPABILITY :: "prims \<Rightarrow> hash" where
  "SCHEMA_HASH_CORE_CAPABILITY P = schema_hash_of P ''core/capability''"
definition SCHEMA_HASH_CORE_REVOCATION :: "prims \<Rightarrow> hash" where
  "SCHEMA_HASH_CORE_REVOCATION P = schema_hash_of P ''core/revocation''"
definition SCHEMA_HASH_CORE_KEY_ROTATION :: "prims \<Rightarrow> hash" where
  "SCHEMA_HASH_CORE_KEY_ROTATION P = schema_hash_of P ''core/key-rotation''"
definition SCHEMA_HASH_INFRA_HUB :: "prims \<Rightarrow> hash" where
  "SCHEMA_HASH_INFRA_HUB P = schema_hash_of P ''infrastructure/hub''"
definition ROUTING_KEY_INFRASTRUCTURE :: "prims \<Rightarrow> hash" where
  "ROUTING_KEY_INFRASTRUCTURE P = routing_key P ''infrastructure''"
definition ROUTING_KEY_INFRASTRUCTURE_HUB :: "prims \<Rightarrow> hash" where
  "ROUTING_KEY_INFRASTRUCTURE_HUB P = routing_key P ''infrastructure/hub''"

end
