(* ===== verification/Demo.thy ===== *)
theory Demo
  imports Core
begin

section \<open>A closed instance of the crates\<close>

text \<open>
  The theorems hold for every instance of \<open>prims\<close> that satisfies the stated laws; the
  witnesses need one. \<open>demo_prims\<close> has a polynomial checksum as digest, a signature made of
  the key and the digest of the message, and an injective, prefix-free tree serialisation in
  place of CBOR (a tag byte, lengths, contents). It is used by witnesses only: nothing in the
  model depends on it.
\<close>

definition demo_digest :: "bytes \<Rightarrow> bytes" where
  "demo_digest x = be_bytes 32 (foldl (\<lambda>a b. (a * 257 + unat b + 1) mod 2 ^ 256) 7 x)"

lemma length_demo_digest [simp]: "length (demo_digest x) = 32"
  by (simp add: demo_digest_def)

fun digits256 :: "nat \<Rightarrow> bytes" where
  "digits256 n = (if n = 0 then [] else of_nat (n mod 256) # digits256 (n div 256))"

declare digits256.simps [simp del]

definition enc_nat :: "nat \<Rightarrow> bytes" where
  "enc_nat n = replicate (length (digits256 n)) 1 @ 0 # digits256 n"

definition enc_int :: "int \<Rightarrow> bytes" where
  "enc_int i = (if i < 0 then 1 else 0) # enc_nat (nat \<bar>i\<bar>)"

definition enc_blob :: "bytes \<Rightarrow> bytes" where
  "enc_blob b = enc_nat (length b) @ b"

function enc_value :: "cbor_value \<Rightarrow> bytes"
  and enc_values :: "cbor_value list \<Rightarrow> bytes"
  and enc_pairs :: "(cbor_value \<times> cbor_value) list \<Rightarrow> bytes" where
  "enc_value (CInteger i) = 0 # enc_int i"
| "enc_value (CBytes b) = 1 # enc_blob b"
| "enc_value (CFloat w) = 2 # enc_nat (unat w)"
| "enc_value (CText s) = 3 # enc_blob (as_bytes s)"
| "enc_value (CBool b) = [4, if b then 1 else 0]"
| "enc_value CNull = [5]"
| "enc_value (CTag t v) = 6 # enc_nat (unat t) @ enc_value v"
| "enc_value (CArray vs) = 7 # enc_values vs"
| "enc_value (CMap ps) = 8 # enc_pairs ps"
| "enc_values [] = [0]"
| "enc_values (v # vs) = 1 # enc_value v @ enc_values vs"
| "enc_pairs [] = [0]"
| "enc_pairs ((k, v) # ps) = 1 # enc_value k @ enc_value v @ enc_pairs ps"
  by pat_completeness auto
termination
  by (relation "measure (case_sum size (case_sum (size_list size) (size_list (size_prod size size))))")
     auto

lemma digits256_inj: "digits256 m = digits256 n \<Longrightarrow> m = n"
proof (induction m arbitrary: n rule: digits256.induct)
  case (1 m)
  show ?case
  proof (cases "m = 0 \<or> n = 0")
    case True
    then show ?thesis
      using "1.prems" by (auto simp: digits256.simps [of m] digits256.simps [of n] split: if_splits)
  next
    case False
    then have eq: "(of_nat (m mod 256) :: u8) = of_nat (n mod 256)"
      and tl: "digits256 (m div 256) = digits256 (n div 256)"
      using "1.prems" by (simp_all add: digits256.simps [of m] digits256.simps [of n])
    have "unat (of_nat (k mod 256) :: u8) = k mod 256" for k
      by (simp add: unat_of_nat take_bit_eq_mod)
    then have "m mod 256 = n mod 256" using eq by metis
    moreover have "m div 256 = n div 256" using "1.IH" False tl by simp
    ultimately show ?thesis by (metis div_mult_mod_eq)
  qed
qed

lemma unary_prefix:
  "replicate j (1::u8) @ 0 # a = replicate k 1 @ 0 # b \<Longrightarrow> j = k \<and> a = b"
proof (induction j arbitrary: k)
  case 0
  then show ?case by (cases k) auto
next
  case (Suc j)
  then show ?case by (cases k) auto
qed

lemma enc_nat_prefix: "enc_nat m @ r = enc_nat n @ s \<longleftrightarrow> m = n \<and> r = s"
  by (auto simp: enc_nat_def dest!: unary_prefix dest: digits256_inj)

lemma enc_int_prefix: "enc_int i @ r = enc_int j @ s \<longleftrightarrow> i = j \<and> r = s"
  by (auto simp: enc_int_def enc_nat_prefix split: if_splits)

lemma enc_blob_prefix: "enc_blob b @ r = enc_blob c @ s \<longleftrightarrow> b = c \<and> r = s"
  by (auto simp: enc_blob_def enc_nat_prefix)

lemma enc_prefix:
  "enc_value v @ r = enc_value w @ s \<Longrightarrow> v = w \<and> r = s"
  "enc_values vs @ r = enc_values ws @ s \<Longrightarrow> vs = ws \<and> r = s"
  "enc_pairs ps @ r = enc_pairs qs @ s \<Longrightarrow> ps = qs \<and> r = s"
proof (induction v and vs and ps arbitrary: w r s and ws r s and qs r s
    rule: enc_value_enc_values_enc_pairs.induct)
  case (1 i) then show ?case by (cases w) (simp_all add: enc_int_prefix)
next
  case (2 b) then show ?case by (cases w) (simp_all add: enc_blob_prefix)
next
  case (3 f) then show ?case by (cases w) (simp_all add: enc_nat_prefix)
next
  case (4 t) then show ?case by (cases w) (simp_all add: enc_blob_prefix)
next
  case (5 b) then show ?case by (cases w) (simp_all split: if_splits)
next
  case 6 then show ?case by (cases w) simp_all
next
  case (7 t v)
  from "7.prems" obtain t' v' where w: "w = CTag t' v'" by (cases w) simp_all
  then have "t = t'" and "enc_value v @ r = enc_value v' @ s"
    using "7.prems" by (simp_all add: enc_nat_prefix)
  then show ?case using w "7.IH" by blast
next
  case (8 vs)
  from "8.prems" obtain ws where w: "w = CArray ws" by (cases w) simp_all
  then have "enc_values vs @ r = enc_values ws @ s" using "8.prems" by simp
  then show ?case using w "8.IH" by blast
next
  case (9 ps)
  from "9.prems" obtain qs where w: "w = CMap qs" by (cases w) simp_all
  then have "enc_pairs ps @ r = enc_pairs qs @ s" using "9.prems" by simp
  then show ?case using w "9.IH" by blast
next
  case 10 then show ?case by (cases ws) auto
next
  case (11 v vs)
  show ?case
  proof (cases ws)
    case Nil
    then show ?thesis using "11.prems" by simp
  next
    case (Cons w ws')
    then have "enc_value v @ (enc_values vs @ r) = enc_value w @ (enc_values ws' @ s)"
      using "11.prems" by simp
    then have "v = w" and "enc_values vs @ r = enc_values ws' @ s" using "11.IH"(1) by blast+
    then show ?thesis using Cons "11.IH"(2) by blast
  qed
next
  case 12 then show ?case by (cases qs) auto
next
  case (13 k v ps)
  show ?case
  proof (cases qs)
    case Nil
    then show ?thesis using "13.prems" by simp
  next
    case (Cons q qs')
    obtain k' v' where q: "q = (k', v')" by (cases q)
    have "enc_value k @ (enc_value v @ enc_pairs ps @ r)
          = enc_value k' @ (enc_value v' @ enc_pairs qs' @ s)"
      using "13.prems" Cons q by simp
    then have k: "k = k'" and "enc_value v @ (enc_pairs ps @ r) = enc_value v' @ (enc_pairs qs' @ s)"
      using "13.IH"(1) by blast+
    then have "v = v'" and "enc_pairs ps @ r = enc_pairs qs' @ s" using "13.IH"(2) by blast+
    then show ?thesis using Cons q k "13.IH"(3) by blast
  qed
qed

lemma enc_value_inj: "enc_value v = enc_value w \<Longrightarrow> v = w"
  using enc_prefix(1) [of v "[]" w "[]"] by simp

definition demo_prims :: prims where
  "demo_prims = \<lparr>
     blake3 = demo_digest,
     ed_point = (\<lambda>_. True),
     ed_verify = (\<lambda>k m s. s = k @ demo_digest m),
     ed_public = demo_digest,
     ed_sign = (\<lambda>k m. demo_digest k @ demo_digest m),
     bs58_encode = map (\<lambda>b. char_of (unat b)),
     hex_encode = (\<lambda>x. concat (map hex_u8 x)),
     hex_decode = (\<lambda>_. None),
     cbor_write = enc_value,
     cbor_read = (\<lambda>x. if x = [1] then Ok (CMap [(CText ''target_id'', CBytes [3, 7])])
                       else if x = [2] then Ok (CMap [(CText ''old_identity'', CBytes [1, 2]),
                         (CText ''new_identity'', CBytes [1, 5]), (CText ''rotation_seq'', CInteger 4)])
                       else Err ''unsupported''),
     debug_assertions = True\<rparr>"

lemma demo_prims_simps [simp]:
  "blake3 demo_prims = demo_digest" "ed_point demo_prims = (\<lambda>_. True)"
  "ed_verify demo_prims = (\<lambda>k m s. s = k @ demo_digest m)" "ed_public demo_prims = demo_digest"
  "ed_sign demo_prims = (\<lambda>k m. demo_digest k @ demo_digest m)"
  "cbor_write demo_prims = enc_value" "debug_assertions demo_prims"
  by (simp_all add: demo_prims_def)

lemma demo_prims_ok [simp]: "blake3_ok demo_prims" "ed25519_ok demo_prims" "cbor_ok demo_prims"
  by (auto simp: blake3_ok_def ed25519_ok_def cbor_ok_def intro: enc_value_inj)

text \<open>The same with a digest that only pads to 32 bytes: distances and buckets of node ids can
  then be read off the public keys.\<close>

definition pad_digest :: "bytes \<Rightarrow> bytes" where
  "pad_digest x = take 32 (x @ replicate 32 0)"

definition pad_prims :: prims where
  "pad_prims = demo_prims\<lparr>blake3 := pad_digest, ed_public := pad_digest,
     ed_sign := \<lambda>k m. pad_digest k @ demo_digest m\<rparr>"

lemma length_pad_digest [simp]: "length (pad_digest x) = 32"
  by (simp add: pad_digest_def)

lemma pad_prims_simps [simp]:
  "blake3 pad_prims = pad_digest" "cbor_read pad_prims = cbor_read demo_prims"
  "ed_public pad_prims = pad_digest" "debug_assertions pad_prims"
  by (simp_all add: pad_prims_def)

lemma pad_schemas_differ [simp]:
  "SCHEMA_HASH_CORE_KEY_ROTATION pad_prims \<noteq> SCHEMA_HASH_CORE_REVOCATION pad_prims"
  "SCHEMA_HASH_CORE_REVOCATION pad_prims \<noteq> SCHEMA_HASH_CORE_KEY_ROTATION pad_prims"
proof -
  have "pad_digest (as_bytes ''mesh:schema:core/key-rotation'') ! 17 \<noteq>
      pad_digest (as_bytes ''mesh:schema:core/revocation'') ! 17"
    by (simp add: pad_digest_def as_bytes_def)
  then have "pad_digest (as_bytes ''mesh:schema:core/key-rotation'') \<noteq>
      pad_digest (as_bytes ''mesh:schema:core/revocation'')"
    by metis
  then show "SCHEMA_HASH_CORE_KEY_ROTATION pad_prims \<noteq> SCHEMA_HASH_CORE_REVOCATION pad_prims"
    by (simp add: SCHEMA_HASH_CORE_KEY_ROTATION_def SCHEMA_HASH_CORE_REVOCATION_def schema_hash_of_def
        hash_blake3_def)
  then show "SCHEMA_HASH_CORE_REVOCATION pad_prims \<noteq> SCHEMA_HASH_CORE_KEY_ROTATION pad_prims"
    by (rule not_sym)
qed

lemma pad_prims_ok [simp]: "blake3_ok pad_prims" "ed25519_ok pad_prims" "cbor_ok pad_prims"
  using demo_prims_ok by (auto simp: blake3_ok_def ed25519_ok_def cbor_ok_def pad_prims_def)

definition zero_id :: hash where
  "zero_id = \<lparr>hash_algorithm = ALG_BLAKE3, digest = replicate 32 0\<rparr>"

definition short_identity :: "u8 \<Rightarrow> identity" where
  "short_identity b = \<lparr>id_algorithm = ALG_ED25519, public_key = [b]\<rparr>"

end
