(* ===== verification/Descriptor.thy ===== *)
theory Descriptor
  imports Demo
begin

section \<open>mesh-core: descriptors\<close>

text \<open>
  descriptor.rs: the envelope, the canonical CBOR form that is hashed, \<open>compute_id\<close>,
  \<open>create\<close> and \<open>validate\<close>. Timestamps and sequences are 64-bit words and the TTL a 32-bit
  word, with the wrap-around of a release build; \<open>expired\<close> is the test that validation and
  both stores repeat. The lemmas say when it agrees with arithmetic on the naturals.
\<close>

definition MAX_PAYLOAD_SIZE :: nat where "MAX_PAYLOAD_SIZE = 65536"
definition MAX_TOPIC_SIZE :: nat where "MAX_TOPIC_SIZE = 255"
definition MAX_ROUTING_KEYS :: nat where "MAX_ROUTING_KEYS = 8"
definition MAX_CLOCK_SKEW_SECS :: u64 where "MAX_CLOCK_SKEW_SECS = 120"
definition MIN_TTL_SECS :: u32 where "MIN_TTL_SECS = 60"
definition MAX_TTL_SECS :: u32 where "MAX_TTL_SECS = 86400"

lemmas limit_defs = MAX_PAYLOAD_SIZE_def MAX_TOPIC_SIZE_def MAX_ROUTING_KEYS_def MIN_TTL_SECS_def
  MAX_TTL_SECS_def

record descriptor =
  schema_hash :: hash
  topic :: string
  payload :: bytes
  publisher :: identity
  timestamp :: u64
  sequence :: u64
  ttl :: u32
  routing_keys :: "hash list"
  id_hash :: hash
  signature :: bytes

subsection \<open>The canonical form and the content hash\<close>

definition hash_value :: "hash \<Rightarrow> cbor_value" where
  "hash_value h = CArray [CInteger (uint (hash_algorithm h)), CBytes (digest h)]"

definition canonical_value ::
  "hash \<Rightarrow> string \<Rightarrow> bytes \<Rightarrow> identity \<Rightarrow> u64 \<Rightarrow> u64 \<Rightarrow> u32 \<Rightarrow> hash list \<Rightarrow> cbor_value" where
  "canonical_value sh tp pl pub ts sq tt rks = CMap
     [(CText ''ttl'', CInteger (uint tt)),
      (CText ''topic'', CText tp),
      (CText ''payload'', CBytes pl),
      (CText ''sequence'', CInteger (uint sq)),
      (CText ''publisher'', CArray [CInteger (uint (id_algorithm pub)), CBytes (public_key pub)]),
      (CText ''timestamp'', CInteger (uint ts)),
      (CText ''schema_hash'', hash_value sh),
      (CText ''routing_keys'', CArray (map hash_value rks))]"

definition canonical_cbor_bytes ::
  "prims \<Rightarrow> hash \<Rightarrow> string \<Rightarrow> bytes \<Rightarrow> identity \<Rightarrow> u64 \<Rightarrow> u64 \<Rightarrow> u32 \<Rightarrow> hash list \<Rightarrow> bytes" where
  "canonical_cbor_bytes P sh tp pl pub ts sq tt rks =
     cbor_write P (canonical_value sh tp pl pub ts sq tt rks)"

definition compute_id ::
  "prims \<Rightarrow> hash \<Rightarrow> string \<Rightarrow> bytes \<Rightarrow> identity \<Rightarrow> u64 \<Rightarrow> u64 \<Rightarrow> u32 \<Rightarrow> hash list \<Rightarrow> hash" where
  "compute_id P sh tp pl pub ts sq tt rks =
     hash_blake3 P (canonical_cbor_bytes P sh tp pl pub ts sq tt rks)"

definition create ::
  "prims \<Rightarrow> keypair \<Rightarrow> hash \<Rightarrow> string \<Rightarrow> bytes \<Rightarrow> u64 \<Rightarrow> u64 \<Rightarrow> u32 \<Rightarrow> hash list \<Rightarrow> descriptor" where
  "create P kp sh tp pl ts sq tt rks =
     (let pub = keypair_identity P kp;
          i = compute_id P sh tp pl pub ts sq tt rks
      in \<lparr>schema_hash = sh, topic = tp, payload = pl, publisher = pub, timestamp = ts,
          sequence = sq, ttl = tt, routing_keys = rks, id_hash = i,
          signature = keypair_sign P kp (digest i)\<rparr>)"

text \<open>The canonical bytes and the id of a descriptor's own fields.\<close>

definition canonical_of :: "prims \<Rightarrow> descriptor \<Rightarrow> bytes" where
  "canonical_of P d = canonical_cbor_bytes P (schema_hash d) (topic d) (payload d) (publisher d)
     (timestamp d) (sequence d) (ttl d) (routing_keys d)"

definition computed_id :: "prims \<Rightarrow> descriptor \<Rightarrow> hash" where
  "computed_id P d = compute_id P (schema_hash d) (topic d) (payload d) (publisher d)
     (timestamp d) (sequence d) (ttl d) (routing_keys d)"

lemma computed_id_canonical: "computed_id P d = hash_blake3 P (canonical_of P d)"
  by (simp add: computed_id_def canonical_of_def compute_id_def)

text \<open>The fields under the content hash.\<close>

definition same_content :: "descriptor \<Rightarrow> descriptor \<Rightarrow> bool" where
  "same_content a b \<longleftrightarrow>
     schema_hash a = schema_hash b \<and> topic a = topic b \<and> payload a = payload b \<and>
     publisher a = publisher b \<and> timestamp a = timestamp b \<and> sequence a = sequence b \<and>
     ttl a = ttl b \<and> routing_keys a = routing_keys b"

lemma hash_value_inject: "hash_value a = hash_value b \<longleftrightarrow> a = b"
  by (auto simp: hash_value_def hash_eq_iff)

lemma canonical_value_inject:
  "canonical_value sh tp pl pub ts sq tt rks = canonical_value sh' tp' pl' pub' ts' sq' tt' rks' \<longleftrightarrow>
     sh = sh' \<and> tp = tp' \<and> pl = pl' \<and> pub = pub' \<and> ts = ts' \<and> sq = sq' \<and> tt = tt' \<and> rks = rks'"
proof -
  have "map hash_value rks = map hash_value rks' \<longleftrightarrow> rks = rks'"
    by (rule inj_map_eq_map) (simp add: inj_def hash_value_inject)
  then show ?thesis
    by (auto simp: canonical_value_def hash_value_inject identity_eq_iff)
qed

lemma canonical_of_inject:
  "cbor_ok P \<Longrightarrow> canonical_of P a = canonical_of P b \<longleftrightarrow> same_content a b"
  unfolding canonical_of_def canonical_cbor_bytes_def cbor_ok_def same_content_def
  by (metis canonical_value_inject)

text \<open>Map keys in RFC 8949 order: by length of the (short) text key, then bytewise.\<close>

definition key_before :: "string \<Rightarrow> string \<Rightarrow> bool" where
  "key_before k l \<longleftrightarrow>
     length k < length l \<or> length k = length l \<and> as_bytes k < as_bytes l"

subsection \<open>Expiry\<close>

definition ttl_micros :: "u32 \<Rightarrow> u64" where
  "ttl_micros t = ucast t * 1000000"

definition expired :: "u64 \<Rightarrow> descriptor \<Rightarrow> bool" where
  "expired now d \<longleftrightarrow> min (timestamp d) now + ttl_micros (ttl d) \<le> now"

lemma unat_ttl_micros: "unat (ttl_micros t) = unat t * 1000000"
proof -
  have "unat t < 2 ^ 32" using unsigned_less [of t] by simp
  then have b: "unat t * 1000000 < 2 ^ 64" by simp
  have "unat (ucast t :: u64) = unat t"
    using \<open>unat t < 2 ^ 32\<close> by (simp add: unsigned_ucast_eq take_bit_eq_mod)
  then show ?thesis using b by (simp add: ttl_micros_def unat_mult_lem [THEN iffD1])
qed

lemma unat_ttl_micros_less: "unat (ttl_micros t) < 2 ^ 52"
proof -
  have "unat t < 2 ^ 32" using unsigned_less [of t] by simp
  then show ?thesis by (simp add: unat_ttl_micros)
qed

text \<open>Clock readings below \<open>2 ^ 63\<close> microseconds (year 294246): no addition of the
  expiry and skew tests wraps around.\<close>

definition sane_clock :: "u64 \<Rightarrow> bool" where
  "sane_clock now \<longleftrightarrow> unat now < 2 ^ 63"

lemma skew_unat:
  assumes "sane_clock now"
  shows "ts \<le> now + MAX_CLOCK_SKEW_SECS * 1000000 \<longleftrightarrow> unat ts \<le> unat now + 120000000"
proof -
  have "now + MAX_CLOCK_SKEW_SECS * 1000000 = now + 120000000"
    by (simp add: MAX_CLOCK_SKEW_SECS_def)
  moreover have "unat (now + 120000000) = unat now + 120000000"
    using assms by (simp add: sane_clock_def unat_add_lem [THEN iffD1])
  ultimately show ?thesis by (simp add: word_le_nat_alt)
qed

lemma expired_unat:
  assumes "sane_clock now"
  shows "expired now d \<longleftrightarrow> min (unat (timestamp d)) (unat now) + unat (ttl d) * 1000000 \<le> unat now"
proof -
  let ?m = "min (timestamp d) now"
  have m: "unat ?m = min (unat (timestamp d)) (unat now)"
    by (auto simp: min_def word_le_nat_alt)
  have "unat ?m + unat (ttl_micros (ttl d)) < 2 ^ 64"
    using assms unat_ttl_micros_less [of "ttl d"] m by (simp add: sane_clock_def)
  then have "unat (?m + ttl_micros (ttl d)) = unat ?m + unat (ttl_micros (ttl d))"
    by (simp add: unat_add_lem [THEN iffD1])
  then show ?thesis by (simp add: expired_def word_le_nat_alt m unat_ttl_micros)
qed

text \<open>
  The \<open>min\<close> makes no difference: with a positive TTL a descriptor expires exactly at
  \<open>timestamp + ttl\<close>, also when its timestamp was in the future when it was stored.
\<close>

lemma expired_plain:
  assumes "sane_clock now" and "0 < ttl d"
  shows "expired now d \<longleftrightarrow> unat (timestamp d) + unat (ttl d) * 1000000 \<le> unat now"
proof -
  have "0 < unat (ttl d)" using assms(2) by (simp add: word_less_nat_alt)
  then show ?thesis by (auto simp: expired_unat [OF assms(1)] min_def)
qed

lemma expired_mono:
  assumes "expired now d" and "now \<le> later" and "sane_clock later"
  shows "expired later d"
proof -
  have le: "unat now \<le> unat later" using assms(2) by (simp add: word_le_nat_alt)
  then have "sane_clock now" using assms(3) by (simp add: sane_clock_def)
  then show ?thesis using assms(1) le by (auto simp: expired_unat assms(3) min_def split: if_splits)
qed

subsection \<open>Validation\<close>

definition validate :: "prims \<Rightarrow> descriptor \<Rightarrow> u64 \<Rightarrow> mesh_error + unit" where
  "validate P d now =
     (let computed = computed_id P d in
      if computed \<noteq> id_hash d then Err (IdMismatch (to_hex P (id_hash d)) (to_hex P computed))
      else case identity_verify P (publisher d) (digest (id_hash d)) (signature d) of
        Err e \<Rightarrow> Err e
      | Ok _ \<Rightarrow>
          if min (timestamp d) now + ttl_micros (ttl d) \<le> now then Err Expired
          else if timestamp d > now + MAX_CLOCK_SKEW_SECS * 1000000
            then Err (TimestampFuture MAX_CLOCK_SKEW_SECS)
          else if ttl d < MIN_TTL_SECS \<or> ttl d > MAX_TTL_SECS
            then Err (InvalidTtl (ttl d) MIN_TTL_SECS MAX_TTL_SECS)
          else if routing_keys d = []
            then Err (InvalidRoutingKeys ''routing_keys must not be empty'')
          else if length (routing_keys d) > MAX_ROUTING_KEYS
            then Err (InvalidRoutingKeys (''too many routing keys: ''
                   @ nat_string (length (routing_keys d)) @ '' (max ''
                   @ nat_string MAX_ROUTING_KEYS @ '')''))
          else if length (payload d) > MAX_PAYLOAD_SIZE
            then Err (PayloadTooLarge (length (payload d)) MAX_PAYLOAD_SIZE)
          else if length (topic d) > MAX_TOPIC_SIZE
            then Err (TopicTooLong (length (topic d)) MAX_TOPIC_SIZE)
          else Ok ())"

definition authentic :: "prims \<Rightarrow> descriptor \<Rightarrow> bool" where
  "authentic P d \<longleftrightarrow> id_hash d = computed_id P d \<and>
     identity_verify P (publisher d) (digest (id_hash d)) (signature d) = Ok ()"

definition well_formed :: "descriptor \<Rightarrow> bool" where
  "well_formed d \<longleftrightarrow> MIN_TTL_SECS \<le> ttl d \<and> ttl d \<le> MAX_TTL_SECS \<and> routing_keys d \<noteq> [] \<and>
     length (routing_keys d) \<le> MAX_ROUTING_KEYS \<and> length (payload d) \<le> MAX_PAYLOAD_SIZE \<and>
     length (topic d) \<le> MAX_TOPIC_SIZE"

lemma validate_Ok_iff:
  "validate P d now = Ok () \<longleftrightarrow>
     authentic P d \<and> \<not> expired now d \<and>
     timestamp d \<le> now + MAX_CLOCK_SKEW_SECS * 1000000 \<and> well_formed d"
  by (cases "identity_verify P (publisher d) (digest (id_hash d)) (signature d)")
     (auto simp: validate_def Let_def authentic_def expired_def well_formed_def not_le not_less)

lemma validate_cases: "validate P d now = Ok () \<or> (\<exists>e. validate P d now = Err e)"
  by (cases "validate P d now") auto

lemma create_simps [simp]:
  "schema_hash (create P kp sh tp pl ts sq tt rks) = sh"
  "topic (create P kp sh tp pl ts sq tt rks) = tp"
  "payload (create P kp sh tp pl ts sq tt rks) = pl"
  "publisher (create P kp sh tp pl ts sq tt rks) = keypair_identity P kp"
  "timestamp (create P kp sh tp pl ts sq tt rks) = ts"
  "sequence (create P kp sh tp pl ts sq tt rks) = sq"
  "ttl (create P kp sh tp pl ts sq tt rks) = tt"
  "routing_keys (create P kp sh tp pl ts sq tt rks) = rks"
  by (simp_all add: create_def Let_def)

lemma authentic_create [simp]: "ed25519_ok P \<Longrightarrow> authentic P (create P kp sh tp pl ts sq tt rks)"
  by (simp add: authentic_def create_def Let_def computed_id_def keypair_sign_verifies)

lemma validate_create:
  assumes "ed25519_ok P"
  shows "validate P (create P kp sh tp pl ts sq tt rks) now = Ok () \<longleftrightarrow>
     \<not> min ts now + ttl_micros tt \<le> now \<and> ts \<le> now + MAX_CLOCK_SKEW_SECS * 1000000 \<and>
     well_formed (create P kp sh tp pl ts sq tt rks)"
  using assms by (simp add: validate_Ok_iff expired_def)

text \<open>Two authentic descriptors with one id agree on every hashed field, or exhibit a
  collision of the digest.\<close>

lemma authentic_same_id:
  assumes "cbor_ok P" and "authentic P a" and "authentic P b" and "id_hash a = id_hash b"
  shows "same_content a b \<or>
     canonical_of P a \<noteq> canonical_of P b \<and> blake3 P (canonical_of P a) = blake3 P (canonical_of P b)"
proof -
  have "blake3 P (canonical_of P a) = blake3 P (canonical_of P b)"
    using assms(2-4) by (simp add: authentic_def computed_id_canonical hash_blake3_def)
  then show ?thesis using canonical_of_inject [OF assms(1)] by blast
qed

subsection \<open>Properties\<close>

text \<open>C1. \<open>Descriptor::validate\<close> accepts exactly the authentic descriptors (the id is the
  hash of the canonical fields and the publisher signed it) that are live at \<open>now\<close>, dated at
  most two minutes ahead, with a TTL of one minute to one day, one to eight routing keys, and
  payload and topic within their limits. All bounds are over the natural numbers: for a clock
  below \<open>2^63\<close> microseconds no 64-bit addition of the code wraps.\<close>

theorem validate_accepts_exactly:
  assumes "sane_clock now"
  shows "validate P d now = Ok () \<longleftrightarrow>
     id_hash d = computed_id P d \<and>
     identity_verify P (publisher d) (digest (id_hash d)) (signature d) = Ok () \<and>
     unat now < unat (timestamp d) + unat (ttl d) * 1000000 \<and>
     unat (timestamp d) \<le> unat now + 120000000 \<and>
     60 \<le> unat (ttl d) \<and> unat (ttl d) \<le> 86400 \<and>
     1 \<le> length (routing_keys d) \<and> length (routing_keys d) \<le> 8 \<and>
     length (payload d) \<le> 65536 \<and> length (topic d) \<le> 255"
proof -
  note skew = skew_unat [OF assms]
  have pos: "0 < ttl d" if "60 \<le> unat (ttl d)"
    using that by (simp add: word_less_nat_alt)
  show ?thesis
    unfolding validate_Ok_iff authentic_def skew
    by (auto simp: well_formed_def limit_defs word_le_nat_alt expired_plain [OF assms] pos Suc_le_eq)
qed

text \<open>What \<open>Descriptor::create\<close> builds, \<open>validate\<close> accepts: for the whole lifetime that
  starts two minutes before the timestamp and ends with the TTL, and for no other clock
  reading, provided the caller respects the TTL, routing-key and size limits (which
  \<open>create\<close> itself does not check).\<close>

theorem create_then_validate:
  assumes "ed25519_ok P" and "sane_clock now"
    and "60 \<le> unat tt" and "unat tt \<le> 86400" and "rks \<noteq> []" and "length rks \<le> 8"
    and "length pl \<le> 65536" and "length tp \<le> 255"
  shows "validate P (create P kp sh tp pl ts sq tt rks) now = Ok () \<longleftrightarrow>
     unat ts \<le> unat now + 120000000 \<and> unat now < unat ts + unat tt * 1000000"
proof -
  let ?d = "create P kp sh tp pl ts sq tt rks"
  note skew = skew_unat [OF assms(2)]
  have "0 < ttl ?d" using assms(3) by (simp add: word_less_nat_alt)
  then have "expired now ?d \<longleftrightarrow> unat ts + unat tt * 1000000 \<le> unat now"
    by (simp add: expired_plain [OF assms(2)])
  moreover have "well_formed ?d"
    using assms(3-8) by (simp add: well_formed_def limit_defs word_le_nat_alt)
  ultimately show ?thesis
    by (auto simp: validate_Ok_iff authentic_create [OF assms(1)] skew)
qed

lemma create_then_validate_witness:
  "validate demo_prims (create demo_prims \<lparr>signing_key = [1]\<rparr> (hash_blake3 demo_prims [2]) ''t'' [5]
     1000 7 60 [routing_key demo_prims ''a'']) 60000999 = Ok ()"
  by (subst create_then_validate) (simp_all add: sane_clock_def)

lemma validate_accepts_exactly_witness:
  "\<exists>d. validate demo_prims d 2000 = Ok () \<and> unat (timestamp d) + unat (ttl d) * 1000000 = 60001000"
proof -
  let ?d = "create demo_prims \<lparr>signing_key = [1]\<rparr> (hash_blake3 demo_prims [2]) ''t'' [5]
     1000 7 60 [routing_key demo_prims ''a'']"
  have "sane_clock 2000" by (simp add: sane_clock_def)
  moreover have "id_hash ?d = computed_id demo_prims ?d \<and>
     identity_verify demo_prims (publisher ?d) (digest (id_hash ?d)) (signature ?d) = Ok ()"
    using authentic_create [OF demo_prims_ok(2)] unfolding authentic_def .
  ultimately have "validate demo_prims ?d 2000 = Ok ()"
    by (intro validate_accepts_exactly [THEN iffD2] conjI) (blast | simp)+
  then show ?thesis by (intro exI [of _ ?d]) simp
qed

text \<open>C29. Tamper evidence: two descriptors that validate (at whatever times) under one id carry
  the same schema, topic, payload, publisher, timestamp, sequence, TTL and routing keys, unless
  their canonical encodings are a BLAKE3 collision. The signature is the only field outside
  the content hash.\<close>

theorem accepted_descriptors_tamper_evident:
  assumes "cbor_ok P" and "validate P a t1 = Ok ()" and "validate P b t2 = Ok ()"
    and "id_hash a = id_hash b"
  shows "same_content a b \<or>
     canonical_of P a \<noteq> canonical_of P b \<and> blake3 P (canonical_of P a) = blake3 P (canonical_of P b)"
  using assms authentic_same_id by (simp add: validate_Ok_iff)

text \<open>With a digest that only pads, descriptors of one publisher that differ
  in the payload and the sequence have one id, which both validations accept: their canonical
  encodings are a collision.\<close>

definition padded_desc :: "bytes \<Rightarrow> u64 \<Rightarrow> descriptor" where
  "padded_desc pl sq = create pad_prims \<lparr>signing_key = [1]\<rparr> (hash_blake3 pad_prims [2]) ''t'' pl
     1000 sq 60 [routing_key pad_prims ''a'']"

lemma id_padded_desc: "id_hash (padded_desc pl sq) = id_hash (padded_desc [] 0)"
proof -
  have w: "cbor_write pad_prims = enc_value" by (simp add: pad_prims_def)
  have "pad_digest (8 # 1 # 3 # 1 # 0 # 3 # 116 # 116 # 108 # 0 # 0 # 1 # 0 # 60 # 1 # 3 # 1 # 0 # 5 #
      116 # 111 # 112 # 105 # 99 # 3 # 1 # 0 # 1 # 116 # 1 # 3 # 1 # xs) =
    pad_digest (8 # 1 # 3 # 1 # 0 # 3 # 116 # 116 # 108 # 0 # 0 # 1 # 0 # 60 # 1 # 3 # 1 # 0 # 5 #
      116 # 111 # 112 # 105 # 99 # 3 # 1 # 0 # 1 # 116 # 1 # 3 # 1 # ys)" for xs ys
    by (simp add: pad_digest_def)
  then show ?thesis
    by (simp add: padded_desc_def create_def Let_def compute_id_def canonical_cbor_bytes_def w
        hash_blake3_def canonical_value_def enc_blob_def enc_nat_def enc_int_def as_bytes_def
        digits256.simps)
qed

lemma padded_desc_validates:
  "length pl \<le> 65536 \<Longrightarrow> sane_clock now \<Longrightarrow> 1000 \<le> now \<Longrightarrow> now < 60001000 \<Longrightarrow>
     validate pad_prims (padded_desc pl sq) now = Ok ()"
  unfolding padded_desc_def
  by (subst create_then_validate) (auto simp: sane_clock_def word_le_nat_alt word_less_nat_alt)

lemma accepted_descriptors_tamper_evident_witness:
  "\<exists>a b. validate pad_prims a 2000 = Ok () \<and> validate pad_prims b 3000 = Ok () \<and>
     id_hash a = id_hash b \<and> payload a = [5] \<and> payload b = [6, 6] \<and>
     canonical_of pad_prims a \<noteq> canonical_of pad_prims b \<and>
     pad_digest (canonical_of pad_prims a) = pad_digest (canonical_of pad_prims b)"
proof -
  let ?a = "padded_desc [5] 7" and ?b = "padded_desc [6, 6] 8"
  have v: "validate pad_prims ?a 2000 = Ok ()" "validate pad_prims ?b 3000 = Ok ()"
    by (rule padded_desc_validates; simp add: sane_clock_def)+
  have i: "id_hash ?a = id_hash ?b" by (metis id_padded_desc)
  have p: "payload ?a = [5]" "payload ?b = [6, 6]" by (simp_all add: padded_desc_def create_def Let_def)
  then have "\<not> same_content ?a ?b" by (simp add: same_content_def)
  with accepted_descriptors_tamper_evident [OF pad_prims_ok(3) v i] v i p show ?thesis
    by (intro exI [of _ ?a] exI [of _ ?b]) simp
qed

text \<open>The errors of \<open>validate\<close> come in a fixed order, and each one pins down its cause: an
  error about the routing keys, for instance, is only ever reported for a descriptor whose id,
  signature, dates and TTL are in order.\<close>

theorem validate_error_causes:
  assumes "validate P d now = Err e"
  shows "(case e of
       IdMismatch _ _ \<Rightarrow> id_hash d \<noteq> computed_id P d
     | InvalidSignature \<Rightarrow> id_hash d = computed_id P d \<and> id_algorithm (publisher d) = ALG_ED25519 \<and>
         \<not> authentic P d
     | UnknownAlgorithm a \<Rightarrow> id_hash d = computed_id P d \<and> a = id_algorithm (publisher d) \<and>
         a \<noteq> ALG_ED25519
     | Expired \<Rightarrow> authentic P d \<and> expired now d
     | TimestampFuture s \<Rightarrow> authentic P d \<and> \<not> expired now d \<and> s = 120 \<and>
         now + 120000000 < timestamp d
     | InvalidTtl t lo hi \<Rightarrow> authentic P d \<and> \<not> expired now d \<and> t = ttl d \<and> lo = 60 \<and> hi = 86400 \<and>
         (t < 60 \<or> 86400 < t)
     | InvalidRoutingKeys _ \<Rightarrow> authentic P d \<and> \<not> expired now d \<and> 60 \<le> ttl d \<and> ttl d \<le> 86400 \<and>
         (routing_keys d = [] \<or> 8 < length (routing_keys d))
     | PayloadTooLarge s m \<Rightarrow> authentic P d \<and> \<not> expired now d \<and> s = length (payload d) \<and>
         m = 65536 \<and> m < s \<and> routing_keys d \<noteq> []
     | TopicTooLong s m \<Rightarrow> authentic P d \<and> \<not> expired now d \<and> s = length (topic d) \<and>
         m = 255 \<and> m < s \<and> length (payload d) \<le> 65536
     | _ \<Rightarrow> False)"
proof (cases "authentic P d")
  case True
  then show ?thesis
    using assms by (auto simp: validate_def Let_def authentic_def expired_def limit_defs
        MAX_CLOCK_SKEW_SECS_def split: if_splits)
next
  case False
  show ?thesis
  proof (cases "id_hash d = computed_id P d")
    case True
    with False obtain e' where
      e': "identity_verify P (publisher d) (digest (id_hash d)) (signature d) = Err e'"
      by (cases "identity_verify P (publisher d) (digest (id_hash d)) (signature d)")
        (auto simp: authentic_def)
    then have "e = e'" using assms True by (simp add: validate_def Let_def)
    then show ?thesis using identity_verify_Err [OF e'] True False by auto
  next
    case False
    then show ?thesis using assms by (auto simp: validate_def Let_def)
  qed
qed

lemma validate_error_causes_witness:
  "authentic demo_prims (create demo_prims \<lparr>signing_key = [1]\<rparr> (hash_blake3 demo_prims [2]) ''t'' [5]
     1000 7 60 []) \<and>
   validate demo_prims (create demo_prims \<lparr>signing_key = [1]\<rparr> (hash_blake3 demo_prims [2]) ''t'' [5]
     1000 7 60 []) 2000 = Err (InvalidRoutingKeys ''routing_keys must not be empty'')"
proof -
  let ?d = "create demo_prims \<lparr>signing_key = [1]\<rparr> (hash_blake3 demo_prims [2]) ''t'' [5] 1000 7 60 []"
  have a: "authentic demo_prims ?d" by simp
  have "\<not> expired 2000 ?d" by (simp add: expired_unat sane_clock_def)
  then have "validate demo_prims ?d 2000 = Err (InvalidRoutingKeys ''routing_keys must not be empty'')"
    using a by (auto simp: validate_def Let_def authentic_def expired_def limit_defs
        MAX_CLOCK_SKEW_SECS_def)
  from this validate_error_causes [OF this] show ?thesis by auto
qed

text \<open>The canonical form lists its eight map keys in RFC 8949 order (by length of the encoded
  key, then bytewise), so equal fields always have equal canonical bytes.\<close>

theorem canonical_keys_in_rfc8949_order:
  "\<exists>ks m. canonical_value sh tp pl pub ts sq tt rks = CMap m \<and> map (as_text \<circ> fst) m = map Some ks \<and>
     sorted_wrt key_before ks \<and> distinct ks \<and> length ks = 8"
proof -
  let ?ks = "[''ttl'', ''topic'', ''payload'', ''sequence'', ''publisher'', ''timestamp'',
     ''schema_hash'', ''routing_keys'']"
  have "sorted_wrt key_before ?ks \<and> distinct ?ks"
    by (simp add: key_before_def as_bytes_def word_less_nat_alt)
  then show ?thesis
    by (intro exI [of _ ?ks] exI conjI) (auto simp: canonical_value_def as_text_def)
qed

text \<open>The \<open>min(timestamp, now)\<close> of the expiry test has no effect: with a positive TTL a
  descriptor lives until \<open>timestamp + ttl\<close>, so one dated ahead does keep the extra lifetime
  that the comment says it is denied.\<close>

theorem future_timestamp_keeps_bonus_ttl:
  assumes "sane_clock now" and "0 < ttl d"
  shows "expired now d \<longleftrightarrow> unat (timestamp d) + unat (ttl d) * 1000000 \<le> unat now"
  by (rule expired_plain [OF assms])

lemma future_timestamp_keeps_bonus_ttl_witness:
  "\<not> expired 60000000 (create demo_prims \<lparr>signing_key = [1]\<rparr> (hash_blake3 demo_prims [2]) ''t'' [5]
     120000000 7 60 [])"
  by (subst future_timestamp_keeps_bonus_ttl) (simp_all add: sane_clock_def)

text \<open>A type path with eight or more slashes cannot be published under its hierarchical
  routing keys: one key per path prefix exceeds the limit of eight, so validation rejects every
  descriptor that carries them; a shorter path is within the limit.\<close>

theorem deep_type_paths_unpublishable:
  "validate P (d\<lparr>routing_keys := hierarchical_routing_keys P path\<rparr>) now = Ok () \<Longrightarrow>
     count_list path (CHR ''/'') < 8"
  by (simp add: validate_Ok_iff well_formed_def limit_defs length_hierarchical_routing_keys)

lemma deep_type_paths_unpublishable_witness:
  "count_list ''compute/inference'' (CHR ''/'') < 8"
proof (rule deep_type_paths_unpublishable)
  let ?d = "create demo_prims \<lparr>signing_key = [1]\<rparr> (hash_blake3 demo_prims [2]) ''t'' [5]
     1000 7 60 (hierarchical_routing_keys demo_prims ''compute/inference'')"
  have "authentic demo_prims ?d" by simp
  then show "validate demo_prims (?d\<lparr>routing_keys :=
      hierarchical_routing_keys demo_prims ''compute/inference''\<rparr>) 2000 = Ok ()"
    by (simp add: validate_Ok_iff expired_unat sane_clock_def well_formed_def limit_defs
        MAX_CLOCK_SKEW_SECS_def hierarchical_routing_keys_def create_def Let_def)
qed

end
