(* ===== verification/Frame.thy ===== *)
theory Frame
  imports Core
begin

section \<open>mesh-core frames, mesh-transport streams and certificates\<close>

text \<open>
  frame.rs: the 24-byte header and \<open>to_bytes\<close>/\<open>from_bytes\<close>. connection.rs: how a frame is
  written to and read from a QUIC stream. tls.rs: the PKCS#8 encoding of the node key and the
  search for the peer's key in its certificate. A QUIC stream (quinn) is the bytes it delivers
  before it ends; \<open>read_exact\<close> takes its first bytes or fails. The random message id is an
  argument of \<open>frame_new\<close>.
\<close>

definition FRAME_MAGIC :: u16 where "FRAME_MAGIC = 0x4D48"
definition PROTOCOL_VERSION :: u8 where "PROTOCOL_VERSION = 0x01"
definition MSG_PING :: u8 where "MSG_PING = 0x01"
definition MSG_PONG :: u8 where "MSG_PONG = 0x81"
definition MSG_STORE :: u8 where "MSG_STORE = 0x02"
definition MSG_STORE_ACK :: u8 where "MSG_STORE_ACK = 0x82"
definition MSG_FIND_NODE :: u8 where "MSG_FIND_NODE = 0x03"
definition MSG_FIND_NODE_RESULT :: u8 where "MSG_FIND_NODE_RESULT = 0x83"
definition MSG_FIND_VALUE :: u8 where "MSG_FIND_VALUE = 0x04"
definition MSG_FIND_VALUE_RESULT :: u8 where "MSG_FIND_VALUE_RESULT = 0x84"

lemmas msg_type_defs = MSG_PING_def MSG_PONG_def MSG_STORE_def MSG_STORE_ACK_def MSG_FIND_NODE_def
  MSG_FIND_NODE_RESULT_def MSG_FIND_VALUE_def MSG_FIND_VALUE_RESULT_def

record frame =
  magic :: u16
  version :: u8
  msg_type :: u8
  msg_id :: bytes
  body :: bytes

definition frame_new :: "bytes \<Rightarrow> u8 \<Rightarrow> bytes \<Rightarrow> frame" where
  "frame_new fresh_id ty b =
     \<lparr>magic = FRAME_MAGIC, version = PROTOCOL_VERSION, msg_type = ty, msg_id = fresh_id, body = b\<rparr>"

definition frame_response :: "frame \<Rightarrow> u8 \<Rightarrow> bytes \<Rightarrow> frame" where
  "frame_response request ty b =
     \<lparr>magic = FRAME_MAGIC, version = PROTOCOL_VERSION, msg_type = ty, msg_id = msg_id request,
      body = b\<rparr>"

definition is_response :: "frame \<Rightarrow> bool" where
  "is_response f \<longleftrightarrow> msg_type f AND 0x80 \<noteq> 0"

definition to_bytes :: "frame \<Rightarrow> bytes" where
  "to_bytes f =
     (let body_len = of_nat (length (body f)) :: u32
      in be_bytes 2 (unat (magic f)) @ [version f] @ [msg_type f] @ msg_id f
         @ be_bytes 4 (unat body_len) @ body f)"

definition from_bytes :: "bytes \<Rightarrow> mesh_error + frame" where
  "from_bytes data =
     (if length data < 24 then
        Err (FrameBody (''frame too short: '' @ nat_string (length data)
          @ '' bytes (need at least 24)''))
      else
        let mg = of_nat (be_value [data ! 0, data ! 1]) :: u16 in
        if mg \<noteq> FRAME_MAGIC then Err (InvalidMagic mg)
        else
          let v = data ! 2 in
          if v \<noteq> PROTOCOL_VERSION then Err (UnsupportedVersion v)
          else
            let body_len = be_value [data ! 20, data ! 21, data ! 22, data ! 23] in
            if length data < 24 + body_len then
              Err (FrameBody (''frame body truncated: expected '' @ nat_string body_len
                @ '' bytes, got '' @ nat_string (length data - 24)))
            else Ok \<lparr>magic = mg, version = v, msg_type = data ! 3,
                     msg_id = take 16 (drop 4 data), body = take body_len (drop 24 data)\<rparr>)"

subsection \<open>Encoding and decoding\<close>

text \<open>What the Rust types and \<open>Frame::new\<close> guarantee of every frame the program builds.\<close>

definition frame_ok :: "frame \<Rightarrow> bool" where
  "frame_ok f \<longleftrightarrow> magic f = FRAME_MAGIC \<and> version f = PROTOCOL_VERSION \<and> length (msg_id f) = 16"

lemma frame_ok_new [simp]:
  "frame_ok (frame_new i ty b) \<longleftrightarrow> length i = 16"
  "frame_ok (frame_response f ty b) \<longleftrightarrow> length (msg_id f) = 16"
  by (simp_all add: frame_ok_def frame_new_def frame_response_def)

lemma frame_new_sel [simp]:
  "msg_type (frame_new i ty b) = ty" "body (frame_new i ty b) = b" "msg_id (frame_new i ty b) = i"
  "msg_type (frame_response f ty b) = ty" "body (frame_response f ty b) = b"
  "msg_id (frame_response f ty b) = msg_id f"
  by (simp_all add: frame_new_def frame_response_def)

lemma split_four:
  assumes "4 \<le> length xs"
  obtains a b c d r where "xs = a # b # c # d # r"
proof -
  obtain a b c d r where "xs = a # b # c # d # r"
  proof (cases xs rule: remdups_adj.cases)
    case (3 a b ys)
    then have "2 \<le> length ys" using assms by simp
    with 3 show ?thesis using that by (cases ys rule: remdups_adj.cases) auto
  qed (use assms in auto)
  then show thesis by (rule that)
qed

lemma be_bytes_be_value_4: "be_bytes 4 (be_value [a, b, c, d]) = [a, b, c, d]"
proof -
  have "length [a, b, c, d] = 4" by simp
  then show ?thesis by (metis be_bytes_be_value)
qed

lemma be_bytes_4_split:
  obtains a b c d where "be_bytes 4 n = [a, b, c, d]"
proof -
  have "4 \<le> length (be_bytes 4 n)" by simp
  then obtain a b c d r where r: "be_bytes 4 n = a # b # c # d # r" by (rule split_four)
  then have "length (a # b # c # d # r) = 4" by (metis length_be_bytes)
  then have "r = []" by simp
  then show thesis using r that by simp
qed

lemma header_split:
  assumes "24 \<le> length data"
  obtains m0 m1 v t i l0 l1 l2 l3 r where
    "data = [m0, m1, v, t] @ i @ [l0, l1, l2, l3] @ r" and "length i = 16"
proof -
  let ?d = "drop 20 data"
  have "4 \<le> length ?d" using assms by simp
  then obtain l0 l1 l2 l3 r where d: "?d = l0 # l1 # l2 # l3 # r" by (rule split_four)
  have "4 \<le> length data" using assms by simp
  then obtain m0 m1 v t q where q: "data = m0 # m1 # v # t # q" by (rule split_four)
  then have "drop 16 q = [l0, l1, l2, l3] @ r" using d by simp
  then have "data = [m0, m1, v, t] @ take 16 q @ [l0, l1, l2, l3] @ r"
    using q by (metis append_Cons append_Nil append_take_drop_id)
  moreover have "length (take 16 q) = 16" using assms q by simp
  ultimately show thesis by (rule that)
qed

lemma from_bytes_layout:
  assumes "length i = 16"
  shows "from_bytes ([m0, m1, v, t] @ i @ [l0, l1, l2, l3] @ r) =
     (if of_nat (be_value [m0, m1]) \<noteq> FRAME_MAGIC then Err (InvalidMagic (of_nat (be_value [m0, m1])))
      else if v \<noteq> PROTOCOL_VERSION then Err (UnsupportedVersion v)
      else if length r < be_value [l0, l1, l2, l3] then
        Err (FrameBody (''frame body truncated: expected '' @ nat_string (be_value [l0, l1, l2, l3])
          @ '' bytes, got '' @ nat_string (length r)))
      else Ok \<lparr>magic = FRAME_MAGIC, version = v, msg_type = t, msg_id = i,
               body = take (be_value [l0, l1, l2, l3]) r\<rparr>)"
  using assms by (simp add: from_bytes_def Let_def nth_append nth_Cons')

lemma of_nat_be_value_2: "be_bytes 2 (unat (of_nat (be_value [a, b]) :: u16)) = [a, b]"
proof -
  have "be_value [a, b] < 2 ^ 16" using be_value_bound [of "[a, b]"] by simp
  then have "unat (of_nat (be_value [a, b]) :: u16) = be_value [a, b]"
    by (simp add: unat_of_nat take_bit_eq_mod)
  moreover have "length [a, b] = 2" by simp
  ultimately show ?thesis by (metis be_bytes_be_value)
qed

lemma to_bytes_layout:
  assumes "frame_ok f"
  obtains l0 l1 l2 l3 where
    "to_bytes f = [0x4D, 0x48, PROTOCOL_VERSION, msg_type f] @ msg_id f @ [l0, l1, l2, l3] @ body f"
    and "be_value [l0, l1, l2, l3] = length (body f) mod 2 ^ 32"
proof -
  let ?n = "unat (of_nat (length (body f)) :: u32)"
  obtain l0 l1 l2 l3 where l: "be_bytes 4 ?n = [l0, l1, l2, l3]" by (rule be_bytes_4_split)
  have n: "?n = length (body f) mod 2 ^ 32" by (simp add: unat_of_nat take_bit_eq_mod)
  have "be_value [l0, l1, l2, l3] = ?n mod 256 ^ 4"
    by (simp only: l [symmetric] be_value_be_bytes)
  then have v: "be_value [l0, l1, l2, l3] = length (body f) mod 2 ^ 32" by (simp add: n)
  have "of_nat (be_value [0x4D, 0x48]) = FRAME_MAGIC"
    by (simp add: be_value_def FRAME_MAGIC_def)
  then have "be_bytes 2 (unat FRAME_MAGIC) = [0x4D, 0x48]"
    using of_nat_be_value_2 [of "0x4D" "0x48"] by simp
  then show thesis
    using assms l v that by (simp add: to_bytes_def Let_def frame_ok_def)
qed

lemma from_to_bytes:
  assumes "frame_ok f"
  shows "from_bytes (to_bytes f @ rest) =
     Ok (f\<lparr>body := take (length (body f) mod 2 ^ 32) (body f @ rest)\<rparr>)"
proof -
  obtain l0 l1 l2 l3 where
    l: "to_bytes f = [0x4D, 0x48, PROTOCOL_VERSION, msg_type f] @ msg_id f @ [l0, l1, l2, l3] @ body f"
    and v: "be_value [l0, l1, l2, l3] = length (body f) mod 2 ^ 32"
    by (rule to_bytes_layout [OF assms])
  have magic: "of_nat (be_value [0x4D, 0x48]) = FRAME_MAGIC"
    by (simp add: be_value_def FRAME_MAGIC_def)
  have len: "length (body f) mod 2 ^ 32 \<le> length (body f)" by simp
  have i: "length (msg_id f) = 16" using assms by (simp add: frame_ok_def)
  have "from_bytes (to_bytes f @ rest) =
      from_bytes ([0x4D, 0x48, PROTOCOL_VERSION, msg_type f] @ msg_id f @ [l0, l1, l2, l3]
        @ (body f @ rest))"
    by (simp add: l)
  also have "\<dots> = Ok \<lparr>magic = FRAME_MAGIC, version = PROTOCOL_VERSION, msg_type = msg_type f,
      msg_id = msg_id f, body = take (length (body f) mod 2 ^ 32) (body f @ rest)\<rparr>"
    unfolding from_bytes_layout [OF i] magic v using len by (simp del: take_append)
  finally show ?thesis using assms by (simp add: frame_ok_def del: take_append)
qed

lemma from_bytes_OkE:
  assumes "from_bytes data = Ok f"
  obtains rest where "data = to_bytes f @ rest" and "frame_ok f" and "length (body f) < 2 ^ 32"
proof -
  have "24 \<le> length data" using assms by (auto simp: from_bytes_def split: if_splits)
  then obtain m0 m1 v t i l0 l1 l2 l3 r where
    d: "data = [m0, m1, v, t] @ i @ [l0, l1, l2, l3] @ r" and i: "length i = 16"
    by (rule header_split)
  let ?n = "be_value [l0, l1, l2, l3]"
  have mg: "of_nat (be_value [m0, m1]) = FRAME_MAGIC" and ve: "v = PROTOCOL_VERSION"
    and le: "?n \<le> length r"
    and f: "f = \<lparr>magic = FRAME_MAGIC, version = v, msg_type = t, msg_id = i, body = take ?n r\<rparr>"
    using assms unfolding d from_bytes_layout [OF i] by (auto split: if_splits)
  have b: "?n < 2 ^ 32" using be_value_bound [of "[l0, l1, l2, l3]"] by simp
  then have "unat (of_nat ?n :: u32) = ?n" by (simp add: unat_of_nat take_bit_eq_mod)
  moreover have "be_bytes 4 ?n = [l0, l1, l2, l3]" by (rule be_bytes_be_value_4)
  moreover have "be_bytes 2 (unat FRAME_MAGIC) = [m0, m1]"
    using of_nat_be_value_2 [of m0 m1] by (simp only: mg)
  ultimately have "to_bytes f = [m0, m1, v, t] @ i @ [l0, l1, l2, l3] @ take ?n r"
    using f le by (simp add: to_bytes_def Let_def min_absorb2)
  then have "data = to_bytes f @ drop ?n r" using d by simp
  moreover have "frame_ok f" using f i ve by (simp add: frame_ok_def)
  moreover have "length (body f) < 2 ^ 32" using f b le by simp
  ultimately show thesis by (rule that)
qed

lemma length_to_bytes: "frame_ok f \<Longrightarrow> length (to_bytes f) = 24 + length (body f)"
  by (simp add: to_bytes_def Let_def frame_ok_def)

subsection \<open>Streams (mesh-transport)\<close>

datatype transport_error =
    Connection string
  | Write string
  | ReadToEnd string
  | ReadExact nat
  | Connect string
  | Tls string
  | Frame_error mesh_error
  | Io_error string
  | StreamClosed
  | AlreadySent

definition MAX_FRAME_BODY :: nat where "MAX_FRAME_BODY = 1048576"

text \<open>\<open>RecvStream::read_exact\<close>: the next \<open>n\<close> bytes, or \<open>FinishedEarly\<close> with the number that
  did arrive.\<close>

definition read_exact :: "nat \<Rightarrow> bytes \<Rightarrow> transport_error + (bytes \<times> bytes)" where
  "read_exact n recv =
     (if n \<le> length recv then Ok (take n recv, drop n recv) else Err (ReadExact (length recv)))"

definition recv_frame :: "bytes \<Rightarrow> transport_error + (frame \<times> bytes)" where
  "recv_frame recv =
     (case read_exact 24 recv of
        Err e \<Rightarrow> Err e
      | Ok (header, recv1) \<Rightarrow>
          let mg = of_nat (be_value [header ! 0, header ! 1]) :: u16 in
          if mg \<noteq> FRAME_MAGIC then Err (Frame_error (InvalidMagic mg))
          else if header ! 2 \<noteq> PROTOCOL_VERSION then
            Err (Frame_error (UnsupportedVersion (header ! 2)))
          else
            let body_len = be_value [header ! 20, header ! 21, header ! 22, header ! 23] in
            if body_len > MAX_FRAME_BODY then
              Err (Frame_error (FrameBody (''body too large: '' @ nat_string body_len
                @ '' bytes (max '' @ nat_string MAX_FRAME_BODY @ '')'')))
            else
              case (if body_len > 0 then read_exact body_len recv1 else Ok ([], recv1)) of
                Err e \<Rightarrow> Err e
              | Ok (bd, recv2) \<Rightarrow>
                  (case from_bytes (header @ bd) of
                     Err e \<Rightarrow> Err (Frame_error e)
                   | Ok f \<Rightarrow> Ok (f, recv2)))"

text \<open>\<open>ResponseSender\<close>: the send half of the stream until it is taken; \<open>written\<close> is what has
  been written to the stream. Writing may fail with the stream's error.\<close>

record send_stream =
  written :: bytes
  finished :: bool
  write_fails :: "transport_error option"

definition send_frame :: "send_stream \<Rightarrow> frame \<Rightarrow> (transport_error + unit) \<times> send_stream" where
  "send_frame s f =
     (case write_fails s of
        Some e \<Rightarrow> (Err e, s)
      | None \<Rightarrow>
          let s' = s\<lparr>written := written s @ to_bytes f\<rparr> in
          if finished s then (Err StreamClosed, s') else (Ok (), s'\<lparr>finished := True\<rparr>))"

record response_sender =
  sender_send :: "send_stream option"

definition response_sender_new :: "send_stream \<Rightarrow> response_sender" where
  "response_sender_new s = \<lparr>sender_send = Some s\<rparr>"

definition response_sender_send ::
  "response_sender \<Rightarrow> frame \<Rightarrow> (transport_error + unit) \<times> send_stream option" where
  "response_sender_send r f =
     (case sender_send r of
        None \<Rightarrow> (Err AlreadySent, None)
      | Some s \<Rightarrow> (case send_frame s f of (res, s') \<Rightarrow> (res, Some s')))"

definition accept_request ::
  "send_stream \<Rightarrow> bytes \<Rightarrow> transport_error + (frame \<times> response_sender)" where
  "accept_request send recv =
     (case recv_frame recv of
        Err e \<Rightarrow> Err e
      | Ok (f, _) \<Rightarrow> Ok (f, response_sender_new send))"

text \<open>\<open>open_stream\<close> yields a fresh stream pair or the connection's error; \<open>answer\<close> is what the
  peer's side of the stream delivers when it has received the request bytes.\<close>

definition send_request ::
  "transport_error + send_stream \<Rightarrow> (bytes \<Rightarrow> bytes) \<Rightarrow> frame \<Rightarrow> transport_error + frame" where
  "send_request open_stream answer request =
     (case open_stream of
        Err e \<Rightarrow> Err e
      | Ok send \<Rightarrow>
          (case send_frame send request of
             (Err e, _) \<Rightarrow> Err e
           | (Ok _, send') \<Rightarrow>
               (case recv_frame (answer (written send')) of
                  Err e \<Rightarrow> Err e
                | Ok (response, _) \<Rightarrow> Ok response)))"

subsection \<open>Certificates (tls.rs)\<close>

definition ed25519_secret_to_pkcs8_der :: "bytes \<Rightarrow> bytes" where
  "ed25519_secret_to_pkcs8_der secret =
     [0x30, 0x2e] @ [0x02, 0x01, 0x00] @ [0x30, 0x05, 0x06, 0x03, 0x2b, 0x65, 0x70]
     @ [0x04, 0x22, 0x04, 0x20] @ secret"

definition spki_pattern :: bytes where
  "spki_pattern = [0x06, 0x03, 0x2b, 0x65, 0x70, 0x03, 0x21, 0x00]"

definition spki_at :: "bytes \<Rightarrow> nat \<Rightarrow> bool" where
  "spki_at der i \<longleftrightarrow> take (length spki_pattern) (drop i der) = spki_pattern"

definition extract_ed25519_pubkey_from_cert_der :: "bytes \<Rightarrow> bytes option" where
  "extract_ed25519_pubkey_from_cert_der der =
     (case List.find (\<lambda>i. spki_at der i \<and> i + length spki_pattern + 32 \<le> length der)
             [0..<length der - (length spki_pattern + 32)] of
        None \<Rightarrow> None
      | Some i \<Rightarrow> Some (take 32 (drop (i + length spki_pattern) der)))"

definition identity_from_cert_der :: "bytes \<Rightarrow> identity option" where
  "identity_from_cert_der der =
     (case extract_ed25519_pubkey_from_cert_der der of
        None \<Rightarrow> None
      | Some pubkey \<Rightarrow> Some \<lparr>id_algorithm = ALG_ED25519, public_key = pubkey\<rparr>)"

text \<open>Both verifiers ask only whether a key can be extracted (\<open>False\<close>: \<open>BadEncoding\<close>).\<close>

definition verify_server_cert :: "bytes \<Rightarrow> bool" where
  "verify_server_cert end_entity \<longleftrightarrow> extract_ed25519_pubkey_from_cert_der end_entity \<noteq> None"

definition verify_client_cert :: "bytes \<Rightarrow> bool" where
  "verify_client_cert end_entity \<longleftrightarrow> extract_ed25519_pubkey_from_cert_der end_entity \<noteq> None"

text \<open>\<open>peer_mesh_identity\<close>: the first certificate of the chain quinn reports, if any.\<close>

definition peer_mesh_identity :: "bytes list option \<Rightarrow> identity option" where
  "peer_mesh_identity peer_certs =
     (case peer_certs of
        None \<Rightarrow> None
      | Some [] \<Rightarrow> None
      | Some (c # _) \<Rightarrow> identity_from_cert_der c)"

lemma find_upt_first:
  assumes "i < n" and "p i" and "\<And>j. j < i \<Longrightarrow> \<not> p j"
  shows "List.find p [0..<n] = Some i"
proof -
  have "[0..<n] = [0..<i] @ i # [Suc i..<n]"
    using assms(1) by (metis le_add_diff_inverse2 less_imp_le_nat upt_add_eq_append upt_conv_Cons
        add.commute zero_le)
  moreover have "List.find p [0..<i] = None"
    using assms(3) by (simp add: find_None_iff)
  moreover have "List.find p (xs @ ys) = (case List.find p xs of None \<Rightarrow> List.find p ys | r \<Rightarrow> r)"
    for xs ys by (induction xs) auto
  ultimately show ?thesis using assms(2) by simp
qed

lemma extract_first:
  assumes "\<And>j. j < length pre \<Longrightarrow> \<not> spki_at (pre @ spki_pattern @ key @ post) j"
    and "length key = 32" and "post \<noteq> []"
  shows "extract_ed25519_pubkey_from_cert_der (pre @ spki_pattern @ key @ post) = Some key"
proof -
  let ?der = "pre @ spki_pattern @ key @ post"
  have "spki_at ?der (length pre)" by (simp add: spki_at_def)
  moreover have "length pre < length ?der - (length spki_pattern + 32)"
    using assms(2,3) by (cases post) auto
  ultimately have "List.find (\<lambda>i. spki_at ?der i \<and> i + length spki_pattern + 32 \<le> length ?der)
       [0..<length ?der - (length spki_pattern + 32)] = Some (length pre)"
    by (intro find_upt_first) (use assms in auto)
  then show ?thesis using assms(2) by (simp add: extract_ed25519_pubkey_from_cert_der_def)
qed

lemma recv_to_bytes:
  assumes "frame_ok f" and "length (body f) < 2 ^ 32"
  shows "recv_frame (to_bytes f @ rest) =
     (if length (body f) \<le> MAX_FRAME_BODY then Ok (f, rest)
      else Err (Frame_error (FrameBody (''body too large: '' @ nat_string (length (body f))
             @ '' bytes (max '' @ nat_string MAX_FRAME_BODY @ '')''))))"
proof -
  obtain l0 l1 l2 l3 where
    l: "to_bytes f = [0x4D, 0x48, PROTOCOL_VERSION, msg_type f] @ msg_id f @ [l0, l1, l2, l3] @ body f"
    and v: "be_value [l0, l1, l2, l3] = length (body f) mod 2 ^ 32"
    by (rule to_bytes_layout [OF assms(1)])
  let ?h = "[0x4D, 0x48, PROTOCOL_VERSION, msg_type f] @ msg_id f @ [l0, l1, l2, l3]"
  have i: "length (msg_id f) = 16" using assms(1) by (simp add: frame_ok_def)
  have r: "read_exact 24 (to_bytes f @ rest) = Ok (?h, body f @ rest)"
    using i by (simp add: read_exact_def l)
  have mg: "of_nat (be_value [?h ! 0, ?h ! 1]) = FRAME_MAGIC"
    by (simp add: be_value_def FRAME_MAGIC_def)
  have ve: "?h ! 2 = PROTOCOL_VERSION" by simp
  have len: "be_value [?h ! 20, ?h ! 21, ?h ! 22, ?h ! 23] = length (body f)"
    using i v assms(2) by (simp add: nth_append nth_Cons')
  have rd: "(if length (body f) > 0 then read_exact (length (body f)) (body f @ rest)
      else Ok ([], body f @ rest)) = Ok (body f, rest)"
    by (simp add: read_exact_def)
  have "?h @ body f = to_bytes f @ []" by (simp add: l)
  then have fb: "from_bytes (?h @ body f) = Ok f"
    using from_to_bytes [OF assms(1), of "[]"] assms(2) by simp
  show ?thesis
    unfolding recv_frame_def r
    by (simp only: sum.case prod.case Let_def mg ve len rd fb if_False simp_thms) simp
qed

subsection \<open>Properties\<close>

text \<open>C30. \<open>Frame::from_bytes\<close> accepts exactly the byte strings that start with the encoding of a
  well-formed frame, and returns that frame; whatever follows the body is ignored. So decoding
  inverts encoding, and no other input is taken for a frame.\<close>

theorem frame_decode_iff:
  "from_bytes data = Ok f \<longleftrightarrow>
     frame_ok f \<and> length (body f) < 2 ^ 32 \<and> (\<exists>rest. data = to_bytes f @ rest)"
proof
  assume "from_bytes data = Ok f"
  then show "frame_ok f \<and> length (body f) < 2 ^ 32 \<and> (\<exists>rest. data = to_bytes f @ rest)"
    by (rule from_bytes_OkE) blast
next
  assume "frame_ok f \<and> length (body f) < 2 ^ 32 \<and> (\<exists>rest. data = to_bytes f @ rest)"
  then show "from_bytes data = Ok f" by (auto simp: from_to_bytes)
qed

text \<open>The length field is the body length modulo \<open>2^32\<close> (\<open>as u32\<close>): a larger body is not an
  error on either side, it is silently cut.\<close>

theorem frame_body_length_wraps:
  assumes "frame_ok f"
  shows "from_bytes (to_bytes f) = Ok (f\<lparr>body := take (length (body f) mod 2 ^ 32) (body f)\<rparr>)"
  using from_to_bytes [OF assms, of "[]"] by simp

lemma frame_body_length_wraps_witness:
  "from_bytes (to_bytes (frame_new (replicate 16 9) MSG_PING [1, 2])) =
     Ok (frame_new (replicate 16 9) MSG_PING [1, 2])"
  using frame_body_length_wraps [of "frame_new (replicate 16 9) MSG_PING [1, 2]"]
  by (simp add: frame_new_def frame_ok_def)

text \<open>One frame per read: \<open>recv_frame\<close> takes from a stream exactly the bytes that
  \<open>send_frame\<close> wrote for one frame and leaves the rest, if the body has at most one megabyte;
  a larger body is refused with an error by the receiver, though the sender does not check.\<close>

theorem stream_delivers_frame:
  assumes "frame_ok f" and "length (body f) < 2 ^ 32"
    and "send_frame \<lparr>written = [], finished = False, write_fails = None\<rparr> f = (Ok (), s)"
  shows "finished s \<and> recv_frame (written s @ rest) =
     (if length (body f) \<le> 1048576 then Ok (f, rest)
      else Err (Frame_error (FrameBody (''body too large: '' @ nat_string (length (body f))
             @ '' bytes (max '' @ nat_string 1048576 @ '')''))))"
  using assms(3) recv_to_bytes [OF assms(1,2), of rest]
  by (auto simp: send_frame_def Let_def MAX_FRAME_BODY_def)

lemma stream_delivers_frame_witness:
  "recv_frame (to_bytes (frame_new (replicate 16 9) MSG_PING [1, 2]) @ [77]) =
     Ok (frame_new (replicate 16 9) MSG_PING [1, 2], [77])"
proof -
  let ?f = "frame_new (replicate 16 9) MSG_PING [1, 2]"
  have "send_frame \<lparr>written = [], finished = False, write_fails = None\<rparr> ?f =
      (Ok (), \<lparr>written = to_bytes ?f, finished = True, write_fails = None\<rparr>)"
    by (simp add: send_frame_def Let_def)
  from stream_delivers_frame [OF _ _ this, of "[77]"] show ?thesis by simp
qed

text \<open>The mesh identity taken from a certificate is the 32 bytes after the first occurrence of
  the Ed25519 pattern anywhere in the DER: a certificate that carries the pattern with another
  node's key in an earlier field (a name, say) is attributed to that node, whatever key its
  SubjectPublicKeyInfo holds and the handshake proved.\<close>

theorem certificate_first_pattern_wins:
  assumes "\<And>j. j < length pre \<Longrightarrow> \<not> spki_at (pre @ spki_pattern @ victim @ mid @ spki_pattern @ own @ post) j"
    and "length victim = 32"
  shows "identity_from_cert_der (pre @ spki_pattern @ victim @ mid @ spki_pattern @ own @ post) =
       Some \<lparr>id_algorithm = ALG_ED25519, public_key = victim\<rparr> \<and>
     verify_client_cert (pre @ spki_pattern @ victim @ mid @ spki_pattern @ own @ post)"
  using extract_first [of pre victim "mid @ spki_pattern @ own @ post"] assms
  by (simp add: identity_from_cert_der_def verify_client_cert_def spki_pattern_def)

lemma certificate_first_pattern_wins_witness:
  "identity_from_cert_der ([48] @ spki_pattern @ replicate 32 1 @ [5] @ spki_pattern @ replicate 32 2 @ [0]) =
     Some \<lparr>id_algorithm = ALG_ED25519, public_key = replicate 32 1\<rparr>"
  by (rule certificate_first_pattern_wins [THEN conjunct1])
    (simp_all add: spki_at_def spki_pattern_def)

text \<open>The search stops one position early: a certificate whose key is its last 32 bytes is
  rejected although the bound check in the loop allows that position.\<close>

theorem certificate_key_at_end_missed:
  assumes "\<And>j. j < length pre \<Longrightarrow> \<not> spki_at (pre @ spki_pattern @ key) j" and "length key = 32"
  shows "identity_from_cert_der (pre @ spki_pattern @ key) = None \<and>
     length pre + length spki_pattern + 32 \<le> length (pre @ spki_pattern @ key)"
proof -
  have "List.find p [0..<length pre] = None" if "\<And>j. j < length pre \<Longrightarrow> \<not> p j" for p
    using that by (simp add: find_None_iff)
  then show ?thesis
    using assms
    by (simp add: identity_from_cert_der_def extract_ed25519_pubkey_from_cert_der_def)
qed

lemma certificate_key_at_end_missed_witness:
  "identity_from_cert_der ([48] @ spki_pattern @ replicate 32 1) = None"
  by (rule certificate_key_at_end_missed [THEN conjunct1])
    (simp_all add: spki_at_def spki_pattern_def)

end
