(* ===== verification/Messages.thy ===== *)
theory Messages
  imports Descriptor Frame
begin

section \<open>mesh-core: protocol messages\<close>

text \<open>
  message.rs: node addresses and records, and the eight message bodies. Their CBOR encoding is
  generated by serde's derive macros and done by ciborium: it is the record \<open>codec\<close>, an
  argument of every handler that encodes or decodes a body. \<open>to_cbor\<close> takes a body of any
  type, \<open>from_cbor_*\<close> is \<open>from_cbor\<close> at one type; both may fail with \<open>MeshError::Cbor\<close>.
\<close>

record node_addr =
  protocol :: string
  address :: string

definition node_addr_quic :: "string \<Rightarrow> node_addr" where
  "node_addr_quic a = \<lparr>protocol = ''quic'', address = a\<rparr>"

record node_info =
  ni_identity :: identity
  ni_addr :: node_addr
  last_seen :: u64

record filter_set =
  fs_schema_hash :: "hash option"
  fs_min_timestamp :: "u64 option"
  fs_publisher :: "identity option"

record ping =
  ping_sender :: identity
  ping_sender_addr :: node_addr

record store_msg =
  store_sender :: identity
  store_sender_addr :: node_addr
  store_descriptor_field :: descriptor

record find_node =
  fn_sender :: identity
  fn_sender_addr :: node_addr
  fn_target :: hash

record find_value =
  fv_sender :: identity
  fv_sender_addr :: node_addr
  fv_key :: hash
  fv_max_results :: u16
  fv_filters :: "filter_set option"

record pong =
  pong_sender :: identity
  pong_sender_addr :: node_addr
  pong_observed_addr :: node_addr

record store_ack =
  stored :: bool
  reason :: "string option"

record find_node_result =
  fnr_nodes :: "node_info list"

record find_value_result =
  fvr_descriptors :: "descriptor list option"
  fvr_nodes :: "node_info list option"

datatype wire =
    WPing ping
  | WStore store_msg
  | WFindNode find_node
  | WFindValue find_value
  | WPong pong
  | WStoreAck store_ack
  | WFindNodeResult find_node_result
  | WFindValueResult find_value_result

record codec =
  to_cbor :: "wire \<Rightarrow> mesh_error + bytes"
  from_cbor_ping :: "bytes \<Rightarrow> mesh_error + ping"
  from_cbor_store :: "bytes \<Rightarrow> mesh_error + store_msg"
  from_cbor_find_node :: "bytes \<Rightarrow> mesh_error + find_node"
  from_cbor_find_value :: "bytes \<Rightarrow> mesh_error + find_value"
  from_cbor_pong :: "bytes \<Rightarrow> mesh_error + pong"
  from_cbor_store_ack :: "bytes \<Rightarrow> mesh_error + store_ack"
  from_cbor_find_node_result :: "bytes \<Rightarrow> mesh_error + find_node_result"
  from_cbor_find_value_result :: "bytes \<Rightarrow> mesh_error + find_value_result"

end
