(* ===== verification/Distance.thy ===== *)
theory Distance
  imports Demo
begin

section \<open>mesh-dht: the XOR distance\<close>

text \<open>
  distance.rs: the byte-wise XOR of two digests, its leading zeros, the k-bucket index and the
  comparison of two nodes by distance. In a build with debug assertions every digest that has not 32
  bytes panics (\<open>None\<close>); in a release build the assertions are gone, indexing a digest of fewer than
  32 bytes panics, and bytes after the 32nd are not read. \<open>dist\<close> is the number that a distance encodes;
  the lemmas relate the byte operations to it: the index is a binary logarithm and the
  distance a metric.
\<close>

definition xor_distance :: "prims \<Rightarrow> hash \<Rightarrow> hash \<Rightarrow> bytes option" where
  "xor_distance P a b =
     (if debug_assertions P \<and> (length (digest a) \<noteq> 32 \<or> length (digest b) \<noteq> 32) then None
      else if length (digest a) < 32 \<or> length (digest b) < 32 then None
      else Some (map (\<lambda>i. digest a ! i XOR digest b ! i) [0..<32]))"

text \<open>\<open>u8::leading_zeros\<close>: as many as there are powers \<open>2^0 .. 2^7\<close> above the byte.\<close>

definition u8_leading_zeros :: "u8 \<Rightarrow> nat" where
  "u8_leading_zeros b = length (filter (\<lambda>k. unat b < 2 ^ k) [0..<8])"

fun leading_zeros :: "bytes \<Rightarrow> nat" where
  "leading_zeros [] = 0"
| "leading_zeros (b # bs) = (if b = 0 then 8 + leading_zeros bs else u8_leading_zeros b)"

definition bucket_index :: "bytes \<Rightarrow> nat option" where
  "bucket_index distance =
     (let lz = leading_zeros distance in if lz \<ge> 256 then None else Some (255 - lz))"

definition distance_cmp :: "prims \<Rightarrow> hash \<Rightarrow> hash \<Rightarrow> hash \<Rightarrow> ordering option" where
  "distance_cmp P target a b =
     (case (xor_distance P target a, xor_distance P target b) of
        (Some dist_a, Some dist_b) \<Rightarrow> Some (cmp_of dist_a dist_b)
      | _ \<Rightarrow> None)"

subsection \<open>Leading zeros and binary logarithm\<close>

lemma u8_leading_zeros_bounds:
  assumes "b \<noteq> 0"
  shows "u8_leading_zeros b < 8 \<and> 2 ^ (7 - u8_leading_zeros b) \<le> unat b \<and>
     unat b < 2 ^ (8 - u8_leading_zeros b)"
proof -
  define x where "x = unat b"
  have x: "x \<noteq> 0" "x < 256" using assms unat_u8_less [of b] by (simp_all add: x_def unat_eq_zero)
  have u: "[0..<8] = [0, 1, 2, 3, 4, 5, 6, 7 :: nat]" by (simp add: upt_rec)
  consider "x < 2" | "2 \<le> x" "x < 4" | "4 \<le> x" "x < 8" | "8 \<le> x" "x < 16" | "16 \<le> x" "x < 32"
    | "32 \<le> x" "x < 64" | "64 \<le> x" "x < 128" | "128 \<le> x" by linarith
  then show ?thesis
    unfolding u8_leading_zeros_def u x_def [symmetric] using x by cases simp_all
qed

lemma leading_zeros_bounds:
  "(be_value d = 0 \<longrightarrow> leading_zeros d = 8 * length d) \<and>
   (be_value d \<noteq> 0 \<longrightarrow> leading_zeros d < 8 * length d \<and>
      2 ^ (8 * length d - 1 - leading_zeros d) \<le> be_value d \<and>
      be_value d < 2 ^ (8 * length d - leading_zeros d))"
proof (induction d)
  case Nil
  show ?case by simp
next
  case (Cons b d)
  show ?case
  proof (cases "b = 0")
    case True
    then show ?thesis using Cons.IH by (auto simp: be_value_Cons)
  next
    case False
    let ?z = "u8_leading_zeros b" and ?n = "8 * length d"
    have z: "?z < 8" "2 ^ (7 - ?z) \<le> unat b" "unat b < 2 ^ (8 - ?z)"
      using u8_leading_zeros_bounds [OF False] by auto
    have p: "(256::nat) ^ length d = 2 ^ ?n" by (simp add: power_mult)
    have v: "be_value (b # d) = unat b * 2 ^ ?n + be_value d" by (simp add: be_value_Cons p)
    have lo: "2 ^ (7 - ?z) * 2 ^ ?n \<le> be_value (b # d)"
      using z(2) v by (simp add: mult_le_mono1 trans_le_add1)
    have "be_value (b # d) < (unat b + 1) * 2 ^ ?n"
      using be_value_bound [of d] v p by simp
    also have "\<dots> \<le> 2 ^ (8 - ?z) * 2 ^ ?n" using z(3) by (intro mult_le_mono1) simp
    finally have hi: "be_value (b # d) < 2 ^ (8 - ?z + ?n)" by (simp add: power_add)
    have e: "8 * length (b # d) - 1 - ?z = 7 - ?z + ?n" "8 * length (b # d) - ?z = 8 - ?z + ?n"
      using z(1) by simp_all
    have "0 < (2::nat) ^ (7 - ?z) * 2 ^ ?n" by simp
    then have ne: "be_value (b # d) \<noteq> 0" using lo by linarith
    have lo': "2 ^ (7 - ?z + ?n) \<le> be_value (b # d)" using lo by (simp only: power_add)
    have "leading_zeros (b # d) = ?z" using False by simp
    moreover have "?z < 8 * length (b # d)" using z(1) by simp
    ultimately show ?thesis using lo' hi ne by (simp only: e) simp
  qed
qed

lemma bucket_index_None: "length d = 32 \<Longrightarrow> bucket_index d = None \<longleftrightarrow> be_value d = 0"
  using leading_zeros_bounds [of d] by (auto simp: bucket_index_def Let_def)

lemma bucket_index_Some:
  assumes "length d = 32" and "bucket_index d = Some k"
  shows "k < 256 \<and> 2 ^ k \<le> be_value d \<and> be_value d < 2 ^ Suc k"
proof -
  have "be_value d \<noteq> 0" using assms by (metis bucket_index_None option.distinct(1))
  then have b: "leading_zeros d < 256" "2 ^ (255 - leading_zeros d) \<le> be_value d"
    "be_value d < 2 ^ (256 - leading_zeros d)"
    using leading_zeros_bounds [of d] assms(1) by auto
  have k: "k = 255 - leading_zeros d" using assms(2) b(1) by (auto simp: bucket_index_def Let_def)
  then have "Suc k = 256 - leading_zeros d" using b(1) by simp
  then show ?thesis using b k by simp
qed

lemma bucket_index_less: "bucket_index d = Some k \<Longrightarrow> k < 256"
  by (auto simp: bucket_index_def Let_def split: if_splits)

subsection \<open>The number a distance encodes\<close>

definition long :: "hash \<Rightarrow> bool" where
  "long h \<longleftrightarrow> 32 \<le> length (digest h)"

text \<open>Digests with which the distance does not panic.\<close>

definition full :: "prims \<Rightarrow> hash \<Rightarrow> bool" where
  "full P h \<longleftrightarrow> (if debug_assertions P then length (digest h) = 32 else 32 \<le> length (digest h))"

definition prefix_of :: "hash \<Rightarrow> bytes" where
  "prefix_of h = take 32 (digest h)"

definition dist :: "hash \<Rightarrow> hash \<Rightarrow> nat" where
  "dist a b = be_value (map2 (XOR) (prefix_of a) (prefix_of b))"

lemma long_length [simp]: "long h \<Longrightarrow> length (prefix_of h) = 32"
  by (simp add: long_def prefix_of_def)

lemma fullI: "length (digest h) = 32 \<Longrightarrow> full P h"
  by (simp add: full_def)

lemma full_long [simp]: "full P h \<Longrightarrow> long h"
  by (simp add: full_def long_def split: if_splits)

lemma short_not_full: "length (digest h) < 32 \<Longrightarrow> \<not> full P h"
  by (simp add: full_def)

lemma full_node_id [simp]: "blake3_ok P \<Longrightarrow> full P (node_id P i)"
  by (simp add: fullI)

lemma xor_distance_Some:
  "full P a \<Longrightarrow> full P b \<Longrightarrow> xor_distance P a b = Some (map2 (XOR) (prefix_of a) (prefix_of b))"
  by (auto simp: xor_distance_def full_def prefix_of_def split: if_splits intro: nth_equalityI)

lemma xor_distance_None_iff: "xor_distance P a b = None \<longleftrightarrow> \<not> (full P a \<and> full P b)"
  by (auto simp: xor_distance_def full_def)

lemma xor_distance_length: "xor_distance P a b = Some d \<Longrightarrow> length d = 32"
  by (auto simp: xor_distance_def split: if_splits)

lemma xor_distance_dist: "xor_distance P a b = Some d \<Longrightarrow> be_value d = dist a b"
  by (metis dist_def option.distinct(1) option.inject xor_distance_None_iff xor_distance_Some)

lemma distance_cmp_dist [panic_free]:
  assumes "full P t" and "full P a" and "full P b"
  shows "distance_cmp P t a b = Some (cmp_of (dist t a) (dist t b))"
proof -
  obtain x y where x: "xor_distance P t a = Some x" and y: "xor_distance P t b = Some y"
    using assms by (simp add: xor_distance_Some)
  have "length x = length y" using x y by (simp add: xor_distance_length)
  then have "cmp_of x y = cmp_of (be_value x) (be_value y)"
    by (simp add: cmp_of_def be_value_less be_value_inject)
  then show ?thesis using x y by (simp add: distance_cmp_def xor_distance_dist)
qed

lemma distance_cmp_short: "\<not> full P t \<Longrightarrow> distance_cmp P t a b = None"
  using xor_distance_None_iff [of P t a] by (simp add: distance_cmp_def)

lemma bit_shift_add:
  fixes a u :: nat
  assumes "u < 2 ^ k"
  shows "bit (a * 2 ^ k + u) n \<longleftrightarrow> (if n < k then bit u n else bit a (n - k))"
proof (cases "n < k")
  case True
  then obtain m where k: "k = n + Suc m" by (metis less_imp_Suc_add add_Suc_right)
  have "a * 2 ^ k = (a * 2 ^ Suc m) * 2 ^ n" by (simp add: k power_add)
  then have "(a * 2 ^ k + u) div 2 ^ n = a * 2 ^ Suc m + u div 2 ^ n"
    by (simp only: div_mult_self3 power_not_zero zero_neq_numeral not_False_eq_True)
  then show ?thesis using True by (simp add: bit_iff_odd)
next
  case False
  then obtain m where n: "n = k + m" by (metis le_add_diff_inverse linorder_not_less)
  have "(a * 2 ^ k + u) div 2 ^ n = (a * 2 ^ k + u) div 2 ^ k div 2 ^ m"
    by (simp add: n power_add div_mult2_eq)
  also have "(a * 2 ^ k + u) div 2 ^ k = a" using assms by simp
  finally show ?thesis using False n by (simp add: bit_iff_odd)
qed

lemma be_value_xor:
  "length xs = length ys \<Longrightarrow> be_value (map2 (XOR) xs ys) = be_value xs XOR be_value ys"
proof (induction xs ys rule: list_induct2)
  case Nil
  show ?case by simp
next
  case (Cons x xs y ys)
  let ?k = "8 * length ys"
  have p: "(256::nat) ^ length ys = 2 ^ ?k" by (simp add: power_mult)
  have b: "be_value xs < 2 ^ ?k" "be_value ys < 2 ^ ?k"
    "be_value (map2 (XOR) xs ys) < 2 ^ ?k"
    using be_value_bound [of xs] be_value_bound [of ys] be_value_bound [of "map2 (XOR) xs ys"]
      Cons.hyps p by simp_all
  have x: "unat (x XOR y) = unat x XOR unat y" by (simp add: unsigned_xor_eq)
  have "(unat x XOR unat y) * 2 ^ ?k + be_value (map2 (XOR) xs ys)
      = (unat x * 2 ^ ?k + be_value xs) XOR (unat y * 2 ^ ?k + be_value ys)"
    by (rule bit_eqI) (simp only: bit_shift_add b bit_xor_iff, simp add: Cons.IH bit_xor_iff)
  then show ?case using Cons.hyps by (simp add: be_value_Cons p x)
qed

lemma xor_le_add: "(x :: nat) XOR y \<le> x + y"
proof (induction x arbitrary: y rule: less_induct)
  case (less x)
  show ?case
  proof (cases "x = 0")
    case True
    then show ?thesis by simp
  next
    case False
    then have "(x div 2) XOR (y div 2) \<le> x div 2 + y div 2" by (intro less) simp
    moreover have "x XOR y = of_bool (odd x \<noteq> odd y) + 2 * ((x div 2) XOR (y div 2))"
      by (rule xor_rec)
    ultimately show ?thesis by (cases "odd x"; cases "odd y") (auto elim!: oddE evenE)
  qed
qed

lemma dist_xor: "long a \<Longrightarrow> long b \<Longrightarrow> dist a b = be_value (prefix_of a) XOR be_value (prefix_of b)"
  by (simp add: dist_def be_value_xor)

lemma dist_0_iff: "long a \<Longrightarrow> long b \<Longrightarrow> dist a b = 0 \<longleftrightarrow> prefix_of a = prefix_of b"
proof -
  assume f: "long a" "long b"
  have "x XOR y = 0 \<longleftrightarrow> x = y" for x y :: nat
  proof
    assume "x XOR y = 0"
    then have "x XOR (x XOR y) = x" by simp
    then show "x = y" by (simp add: xor.assoc [symmetric])
  qed simp
  then show ?thesis using f by (simp add: dist_xor be_value_inject)
qed

lemma dist_commute: "dist a b = dist b a"
  unfolding dist_def by (rule arg_cong [where f = be_value])
    (auto intro!: nth_equalityI simp: xor.commute)

lemma dist_triangle:
  assumes "long a" and "long b" and "long c"
  shows "dist a c \<le> dist a b + dist b c"
proof -
  let ?x = "be_value (prefix_of a)" and ?y = "be_value (prefix_of b)" and ?z = "be_value (prefix_of c)"
  have "?x XOR ?z = (?x XOR ?y) XOR (?y XOR ?z)"
    by (metis xor.assoc xor.left_neutral xor_self_eq)
  then show ?thesis using xor_le_add [of "?x XOR ?y" "?y XOR ?z"] by (simp add: dist_xor assms)
qed

lemma dist_cancel:
  assumes "long t" and "long a" and "long b"
  shows "dist t a = dist t b \<longleftrightarrow> prefix_of a = prefix_of b"
proof -
  have "x XOR y = x XOR z \<longleftrightarrow> y = z" for x y z :: nat
    by (metis xor.assoc xor.left_neutral xor_self_eq)
  then show ?thesis by (simp add: dist_xor assms be_value_inject)
qed

subsection \<open>Properties\<close>

text \<open>The k-bucket of a distance is its binary logarithm: bucket \<open>k\<close> holds the nodes at
  distance \<open>2^k\<close> up to \<open>2^(k+1)\<close>, and only a node with the same 256-bit id has none. The
  comment in the source has it the other way round: bucket 255, not bucket 0, is the farthest.\<close>

theorem bucket_index_is_log2:
  assumes "xor_distance P a b = Some d"
  shows "(bucket_index d = None \<longleftrightarrow> take 32 (digest a) = take 32 (digest b)) \<and>
     (bucket_index d = Some k \<longleftrightarrow> 2 ^ k \<le> dist a b \<and> dist a b < 2 ^ (k + 1))"
proof -
  have f: "long a" "long b" using assms xor_distance_None_iff [of P a b] by auto
  have d: "length d = 32" "be_value d = dist a b"
    using assms by (simp_all add: xor_distance_length xor_distance_dist)
  have none: "bucket_index d = None \<longleftrightarrow> dist a b = 0" using bucket_index_None d by simp
  have "bucket_index d = Some k" if "2 ^ k \<le> dist a b" "dist a b < 2 ^ (k + 1)"
  proof -
    have "dist a b \<noteq> 0" using that(1) by (metis le_zero_eq power_not_zero zero_neq_numeral)
    then obtain j where j: "bucket_index d = Some j" using none by (cases "bucket_index d") auto
    from bucket_index_Some [OF d(1) j] d(2) have jk: "2 ^ j \<le> dist a b" "dist a b < 2 ^ Suc j" by auto
    have "(2::nat) ^ j < 2 ^ (k + 1)" and "(2::nat) ^ k < 2 ^ Suc j" using jk that by linarith+
    then have "j < k + 1" "k < Suc j" by (simp_all only: power_strict_increasing_iff one_less_numeral_iff semiring_norm)
    then show ?thesis using j by simp
  qed
  then show ?thesis
    using none bucket_index_Some [OF d(1), of k] d(2) dist_0_iff [OF f] by (auto simp: prefix_of_def)
qed

lemma bucket_index_is_log2_witness:
  "bucket_index (replicate 31 0 @ [6]) = Some 2"
proof -
  let ?a = "\<lparr>hash_algorithm = 3, digest = replicate 32 0\<rparr>"
  let ?b = "\<lparr>hash_algorithm = 3, digest = replicate 31 0 @ [6]\<rparr>"
  have x: "xor_distance demo_prims ?a ?b = Some (replicate 31 0 @ [6])"
    by (simp add: xor_distance_def upt_rec numeral_eq_Suc)
  have "dist ?a ?b = be_value (replicate 31 0 @ [6])" using xor_distance_dist [OF x] by simp
  also have "\<dots> = 6"
  proof -
    have "be_value (replicate 31 0) = 0" by (simp add: be_value_def numeral_eq_Suc)
    then show ?thesis by (simp add: be_value_append)
  qed
  finally show ?thesis using bucket_index_is_log2 [OF x, of 2] by simp
qed

text \<open>Where it does not panic the code's distance is a metric on 256-bit ids, and
  unidirectional: from a given point no two ids are equally far, so \<open>distance_cmp\<close> orders
  nodes totally and reports \<open>Equal\<close> for one id only.\<close>

theorem xor_distance_metric:
  assumes "xor_distance P a b = Some ab" and "xor_distance P b c = Some bc" and "xor_distance P a c = Some ac"
  shows "xor_distance P b a = Some ab \<and> (be_value ab = 0 \<longleftrightarrow> take 32 (digest a) = take 32 (digest b)) \<and>
     be_value ac \<le> be_value ab + be_value bc \<and>
     distance_cmp P a b c = Some (cmp_of (be_value ab) (be_value ac)) \<and>
     (distance_cmp P a b c = Some Equal \<longleftrightarrow> take 32 (digest b) = take 32 (digest c))"
proof -
  have F: "full P a" "full P b" "full P c"
    using assms xor_distance_None_iff [of P a b] xor_distance_None_iff [of P b c] by auto
  then have f: "long a" "long b" "long c" by simp_all
  have v: "be_value ab = dist a b" "be_value bc = dist b c" "be_value ac = dist a c"
    using assms by (simp_all add: xor_distance_dist)
  have "map2 (XOR) (prefix_of a) (prefix_of b) = map2 (XOR) (prefix_of b) (prefix_of a)"
    by (auto intro!: nth_equalityI simp: xor.commute)
  then have "xor_distance P b a = Some ab" using assms(1) F by (simp add: xor_distance_Some)
  then show ?thesis
    using dist_0_iff [OF f(1,2)] dist_triangle [OF f] distance_cmp_dist [OF F]
      dist_cancel [OF f] by (auto simp: v prefix_of_def cmp_of_iffs)
qed

lemma xor_distance_metric_witness:
  "be_value (replicate 31 0 @ [3]) \<le> be_value (replicate 31 0 @ [1]) + be_value (replicate 31 0 @ [2])"
proof -
  let ?h = "\<lambda>x. \<lparr>hash_algorithm = 3, digest = replicate 31 0 @ [x]\<rparr>"
  have "xor_distance demo_prims (?h 0) (?h 1) = Some (replicate 31 0 @ [1])"
    "xor_distance demo_prims (?h 1) (?h 3) = Some (replicate 31 0 @ [2])"
    "xor_distance demo_prims (?h 0) (?h 3) = Some (replicate 31 0 @ [3])"
    by (simp_all add: xor_distance_def upt_rec numeral_eq_Suc)
  from xor_distance_metric [OF this] show ?thesis by blast
qed

end
