(* ===== verification/Routing_Table.thy ===== *)
theory Routing_Table
  imports Messages Distance
begin

section \<open>mesh-dht: the routing table\<close>

text \<open>
  routing.rs: 256 k-buckets of at most 20 nodes, least recently seen first. \<open>add_node\<close> reports
  a full bucket to the caller, which pings its oldest entry and calls \<open>resolve_challenge\<close>.
  Every operation computes distances and so panics (\<open>None\<close>) on a short id. \<open>table_inv\<close> is
  what every sequence of operations keeps; \<open>table_step\<close> the transitions of a table shared by
  concurrent handlers.
\<close>

definition K :: nat where "K = 20"
definition NUM_BUCKETS :: nat where "NUM_BUCKETS = 256"

record k_bucket =
  entries :: "node_info list"

record routing_table =
  local_id :: hash
  buckets :: "k_bucket list"

datatype add_node_result =
    Added
  | Updated
  | BucketFull node_info node_info

definition k_bucket_new :: k_bucket where
  "k_bucket_new = \<lparr>entries = []\<rparr>"

definition routing_table_new :: "hash \<Rightarrow> routing_table" where
  "routing_table_new lid = \<lparr>local_id = lid, buckets = replicate NUM_BUCKETS k_bucket_new\<rparr>"

text \<open>\<open>None\<close> is a panic, \<open>Some None\<close> the local node itself.\<close>

definition bucket_for :: "prims \<Rightarrow> routing_table \<Rightarrow> hash \<Rightarrow> nat option option" where
  "bucket_for P t nid = map_option bucket_index (xor_distance P (local_id t) nid)"

definition set_entries :: "routing_table \<Rightarrow> nat \<Rightarrow> node_info list \<Rightarrow> routing_table" where
  "set_entries t idx es = t\<lparr>buckets := (buckets t)[idx := \<lparr>entries = es\<rparr>]\<rparr>"

definition ni_id :: "prims \<Rightarrow> node_info \<Rightarrow> hash" where
  "ni_id P n = node_id P (ni_identity n)"

definition add_node ::
  "prims \<Rightarrow> routing_table \<Rightarrow> node_info \<Rightarrow> (add_node_result \<times> routing_table) option" where
  "add_node P t node =
     (case bucket_for P t (ni_id P node) of
        None \<Rightarrow> None
      | Some None \<Rightarrow> Some (Added, t)
      | Some (Some idx) \<Rightarrow>
          let es = entries (buckets t ! idx) in
          (case position (\<lambda>e. ni_identity e = ni_identity node) es of
             Some pos \<Rightarrow> Some (Updated, set_entries t idx (remove_at pos es @ [node]))
           | None \<Rightarrow>
               if length es < K then Some (Added, set_entries t idx (es @ [node]))
               else Some (BucketFull (es ! 0) node, t)))"

definition resolve_challenge ::
  "prims \<Rightarrow> routing_table \<Rightarrow> hash \<Rightarrow> node_info \<Rightarrow> bool \<Rightarrow> routing_table option" where
  "resolve_challenge P t lrs_id candidate lrs_responded =
     (case bucket_for P t (ni_id P candidate) of
        None \<Rightarrow> None
      | Some None \<Rightarrow> Some t
      | Some (Some idx) \<Rightarrow>
          let es = entries (buckets t ! idx) in
          if lrs_responded then
            (case position (\<lambda>e. ni_id P e = lrs_id) es of
               Some pos \<Rightarrow> Some (set_entries t idx (remove_at pos es @ [es ! pos]))
             | None \<Rightarrow> Some t)
          else
            let kept = filter (\<lambda>e. ni_id P e \<noteq> lrs_id) es in
            Some (set_entries t idx (if length kept < K then kept @ [candidate] else kept)))"

definition remove_node :: "prims \<Rightarrow> routing_table \<Rightarrow> hash \<Rightarrow> routing_table option" where
  "remove_node P t nid =
     (case bucket_for P t nid of
        None \<Rightarrow> None
      | Some None \<Rightarrow> Some t
      | Some (Some idx) \<Rightarrow>
          Some (set_entries t idx (filter (\<lambda>e. ni_id P e \<noteq> nid) (entries (buckets t ! idx)))))"

definition all_nodes :: "routing_table \<Rightarrow> node_info list" where
  "all_nodes t = concat (map entries (buckets t))"

definition table_len :: "routing_table \<Rightarrow> nat" where
  "table_len t = sum_list (map (length \<circ> entries) (buckets t))"

definition table_is_empty :: "routing_table \<Rightarrow> bool" where
  "table_is_empty t \<longleftrightarrow> table_len t = 0"

definition closest_nodes ::
  "prims \<Rightarrow> routing_table \<Rightarrow> hash \<Rightarrow> nat \<Rightarrow> node_info list option" where
  "closest_nodes P t target limit =
     map_option (take limit)
       (sort_by (\<lambda>a b. distance_cmp P target (ni_id P a) (ni_id P b)) (all_nodes t))"

subsection \<open>Lemmas\<close>

lemma table_len_all_nodes: "table_len t = length (all_nodes t)"
  by (simp add: table_len_def all_nodes_def length_concat comp_def)

lemma full_ni_id [simp]: "blake3_ok P \<Longrightarrow> full P (ni_id P n)"
  by (simp add: ni_id_def)

lemma bucket_for_Some [panic_free]:
  "full P (local_id t) \<Longrightarrow> full P nid \<Longrightarrow> bucket_for P t nid \<noteq> None"
  by (simp add: bucket_for_def xor_distance_Some)

lemma bucket_for_less: "bucket_for P t nid = Some (Some i) \<Longrightarrow> i < 256"
  by (auto simp: bucket_for_def dest: bucket_index_less)

definition bucket_ok :: "prims \<Rightarrow> hash \<Rightarrow> nat \<Rightarrow> k_bucket \<Rightarrow> bool" where
  "bucket_ok P lid i b \<longleftrightarrow> length (entries b) \<le> K \<and>
     (\<forall>e \<in> set (entries b). map_option bucket_index (xor_distance P lid (ni_id P e)) = Some (Some i))"

definition table_inv :: "prims \<Rightarrow> routing_table \<Rightarrow> bool" where
  "table_inv P t \<longleftrightarrow> full P (local_id t) \<and> length (buckets t) = NUM_BUCKETS \<and>
     (\<forall>i < NUM_BUCKETS. bucket_ok P (local_id t) i (buckets t ! i))"

lemma table_inv_new [invariants]: "full P lid \<Longrightarrow> table_inv P (routing_table_new lid)"
  by (simp add: table_inv_def routing_table_new_def bucket_ok_def k_bucket_new_def)

lemma table_inv_set [invariants]:
  assumes "table_inv P t" and "i < NUM_BUCKETS" and "length es \<le> K"
    and "\<And>e. e \<in> set es \<Longrightarrow> bucket_for P t (ni_id P e) = Some (Some i)"
  shows "table_inv P (set_entries t i es)"
  using assms by (auto simp: table_inv_def set_entries_def bucket_ok_def bucket_for_def nth_list_update)

lemma table_inv_bucket:
  assumes "table_inv P t" and "i < NUM_BUCKETS"
  shows "length (entries (buckets t ! i)) \<le> K"
    and "e \<in> set (entries (buckets t ! i)) \<Longrightarrow> bucket_for P t (ni_id P e) = Some (Some i)"
  using assms by (auto simp: table_inv_def bucket_ok_def bucket_for_def)

lemma local_id_set_entries [simp]: "local_id (set_entries t i es) = local_id t"
  by (simp add: set_entries_def)

lemma set_entries_twice [simp]: "set_entries (set_entries t i a) i b = set_entries t i b"
  by (simp add: set_entries_def)

lemma entries_set_entries:
  "i < length (buckets t) \<Longrightarrow>
     entries (buckets (set_entries t i es) ! j) = (if j = i then es else entries (buckets t ! j))"
  by (simp add: set_entries_def nth_list_update)

lemma length_set_entries [simp]: "length (buckets (set_entries t i es)) = length (buckets t)"
  by (simp add: set_entries_def)

lemma set_all_nodes:
  "e \<in> set (all_nodes t) \<longleftrightarrow> (\<exists>i < length (buckets t). e \<in> set (entries (buckets t ! i)))"
  by (force simp: all_nodes_def in_set_conv_nth)

lemma inv_length: "table_inv P t \<Longrightarrow> length (buckets t) = NUM_BUCKETS"
  by (simp add: table_inv_def)

lemma bucket_for_NUM: "bucket_for P t nid = Some (Some i) \<Longrightarrow> i < NUM_BUCKETS"
  by (simp add: NUM_BUCKETS_def bucket_for_less)

subsection \<open>Every operation keeps the invariant\<close>

lemma add_node_inv [invariants]:
  assumes inv: "table_inv P t" and r: "add_node P t n = Some (res, t')"
  shows "table_inv P t' \<and> local_id t' = local_id t"
proof (cases "bucket_for P t (ni_id P n)")
  case None
  then show ?thesis using r by (simp add: add_node_def)
next
  case (Some b)
  show ?thesis
  proof (cases b)
    case None
    then show ?thesis using r Some inv by (simp add: add_node_def)
  next
    case (Some i)
    with \<open>bucket_for P t (ni_id P n) = Some b\<close> have i: "bucket_for P t (ni_id P n) = Some (Some i)" by simp
    let ?es = "entries (buckets t ! i)"
    note less = bucket_for_NUM [OF i]
    note ok = table_inv_bucket [OF inv less]
    show ?thesis
    proof (cases "position (\<lambda>e. ni_identity e = ni_identity n) ?es")
      case None
      have "table_inv P (set_entries t i (?es @ [n]))" if "length ?es < K"
        by (rule table_inv_set [OF inv less]) (use that ok i in auto)
      then show ?thesis using r i None inv by (auto simp: add_node_def Let_def split: if_splits)
    next
      case (Some pos)
      have "pos < length ?es" using position_Some [OF Some] by simp
      then have "table_inv P (set_entries t i (remove_at pos ?es @ [n]))"
        using ok i set_remove_at_subset [of pos ?es]
        by (intro table_inv_set [OF inv less]) (auto simp: length_remove_at)
      then show ?thesis using r i Some by (auto simp: add_node_def Let_def)
    qed
  qed
qed

lemma resolve_challenge_inv [invariants]:
  assumes inv: "table_inv P t" and r: "resolve_challenge P t l c responded = Some t'"
  shows "table_inv P t' \<and> local_id t' = local_id t"
proof (cases "\<exists>i. bucket_for P t (ni_id P c) = Some (Some i)")
  case False
  then show ?thesis using r inv by (auto simp: resolve_challenge_def split: option.splits)
next
  case True
  then obtain i where i: "bucket_for P t (ni_id P c) = Some (Some i)" by blast
  let ?es = "entries (buckets t ! i)"
  note less = bucket_for_NUM [OF i]
  note ok = table_inv_bucket [OF inv less]
  show ?thesis
  proof (cases responded)
    case True
    have "table_inv P (set_entries t i (remove_at pos ?es @ [?es ! pos]))"
      if "position (\<lambda>e. ni_id P e = l) ?es = Some pos" for pos
    proof -
      have "pos < length ?es" using position_Some [OF that] by simp
      then show ?thesis
        using ok set_remove_at_subset [of pos ?es]
        by (intro table_inv_set [OF inv less]) (auto simp: length_remove_at)
    qed
    then show ?thesis using r i True inv
      by (auto simp: resolve_challenge_def Let_def split: option.splits)
  next
    case False
    let ?kept = "filter (\<lambda>e. ni_id P e \<noteq> l) ?es"
    have "length ?kept \<le> K" using ok(1) le_trans length_filter_le by blast
    then have "table_inv P (set_entries t i (if length ?kept < K then ?kept @ [c] else ?kept))"
      using ok(2) i by (intro table_inv_set [OF inv less]) (auto split: if_splits)
    then show ?thesis using r i False by (auto simp: resolve_challenge_def Let_def)
  qed
qed

lemma remove_node_inv [invariants]:
  assumes inv: "table_inv P t" and r: "remove_node P t nid = Some t'"
  shows "table_inv P t' \<and> local_id t' = local_id t"
proof (cases "\<exists>i. bucket_for P t nid = Some (Some i)")
  case False
  then show ?thesis using r inv by (auto simp: remove_node_def split: option.splits)
next
  case True
  then obtain i where i: "bucket_for P t nid = Some (Some i)" by blast
  note ok = table_inv_bucket [OF inv bucket_for_NUM [OF i]]
  have "table_inv P (set_entries t i (filter (\<lambda>e. ni_id P e \<noteq> nid) (entries (buckets t ! i))))"
    using ok le_trans [OF length_filter_le]
    by (intro table_inv_set [OF inv bucket_for_NUM [OF i]]) auto
  then show ?thesis using r i by (auto simp: remove_node_def)
qed

text \<open>A table shared by handlers: any operation, in any order.\<close>

inductive table_step :: "prims \<Rightarrow> routing_table \<Rightarrow> routing_table \<Rightarrow> bool" for P where
  step_add: "add_node P t n = Some (res, t') \<Longrightarrow> table_step P t t'"
| step_resolve: "resolve_challenge P t lrs cand responded = Some t' \<Longrightarrow> table_step P t t'"
| step_remove: "remove_node P t nid = Some t' \<Longrightarrow> table_step P t t'"

inductive_cases table_stepE: "table_step P t t'"

inductive table_reachable :: "prims \<Rightarrow> hash \<Rightarrow> routing_table \<Rightarrow> bool" for P lid where
  reach_new: "table_reachable P lid (routing_table_new lid)"
| reach_step: "table_reachable P lid t \<Longrightarrow> table_step P t t' \<Longrightarrow> table_reachable P lid t'"

lemma table_step_inv [invariants]:
  "table_step P t t' \<Longrightarrow> table_inv P t \<Longrightarrow> table_inv P t' \<and> local_id t' = local_id t"
  by (erule table_stepE) (blast dest: add_node_inv resolve_challenge_inv remove_node_inv)+

lemma table_reachable_inv [invariants]:
  assumes "full P lid" and "table_reachable P lid t"
  shows "table_inv P t \<and> local_id t = lid"
  using assms(2)
proof induction
  case reach_new
  show ?case using table_inv_new [OF assms(1)] by (simp add: routing_table_new_def)
next
  case (reach_step t t')
  then show ?case using table_step_inv by blast
qed

subsection \<open>Looking up the closest nodes\<close>

lemma closest_nodes_sort [panic_free]:
  assumes "blake3_ok P" and "full P target"
  shows "closest_nodes P t target n =
     Some (take n (sort_key (\<lambda>e. dist target (ni_id P e)) (all_nodes t)))"
  using sort_by_key [of "all_nodes t" "\<lambda>a b. distance_cmp P target (ni_id P a) (ni_id P b)"
      "\<lambda>e. dist target (ni_id P e)"] assms
  by (simp add: closest_nodes_def distance_cmp_dist)

lemma closest_nodes_short:
  assumes "\<not> full P target" and "2 \<le> table_len t"
  shows "closest_nodes P t target n = None"
proof -
  obtain a b rest where "all_nodes t = a # b # rest"
    using assms(2) by (cases "all_nodes t" rule: remdups_adj.cases) (auto simp: table_len_all_nodes)
  then show ?thesis
    by (simp add: closest_nodes_def sort_by_panics distance_cmp_short [OF assms(1)] del: sort_by.simps)
qed

lemma closest_nodes_subset:
  assumes "closest_nodes P t target n = Some ns"
  shows "set ns \<subseteq> set (all_nodes t) \<and> length ns = min n (table_len t)"
proof -
  obtain ys where ys: "sort_by (\<lambda>a b. distance_cmp P target (ni_id P a) (ni_id P b)) (all_nodes t) = Some ys"
    and ns: "ns = take n ys"
    using assms by (auto simp: closest_nodes_def)
  have m: "mset ys = mset (all_nodes t)" by (rule mset_sort_by [OF ys])
  have "set ys = set (all_nodes t)" by (rule mset_eq_setD [OF m])
  moreover have "length ys = table_len t" using mset_eq_length [OF m] by (simp add: table_len_all_nodes)
  ultimately show ?thesis using ns by (auto dest: in_set_takeD)
qed

subsection \<open>No duplicates, no silent eviction\<close>

definition buckets_distinct :: "routing_table \<Rightarrow> bool" where
  "buckets_distinct t \<longleftrightarrow> (\<forall>b \<in> set (buckets t). distinct (map ni_identity (entries b)))"

definition known :: "routing_table \<Rightarrow> identity set" where
  "known t = ni_identity ` set (all_nodes t)"

lemma buckets_distinct_set:
  assumes "buckets_distinct t" and "distinct (map ni_identity es)"
  shows "buckets_distinct (set_entries t i es)"
  using assms set_update_subset_insert [of "buckets t" i "\<lparr>entries = es\<rparr>"]
  by (auto simp: buckets_distinct_def set_entries_def)

lemma buckets_distinct_nth:
  "buckets_distinct t \<Longrightarrow> i < length (buckets t) \<Longrightarrow> distinct (map ni_identity (entries (buckets t ! i)))"
  by (simp add: buckets_distinct_def)

lemma known_iff:
  "x \<in> known t \<longleftrightarrow> (\<exists>i < length (buckets t). x \<in> ni_identity ` set (entries (buckets t ! i)))"
  unfolding known_def image_iff Bex_def set_all_nodes by blast

lemma known_split:
  assumes "i < length (buckets t)"
  obtains R where "known t = ni_identity ` set (entries (buckets t ! i)) \<union> R"
    and "\<And>es. known (set_entries t i es) = ni_identity ` set es \<union> R"
proof -
  let ?R = "{x. \<exists>j < length (buckets t). j \<noteq> i \<and> x \<in> ni_identity ` set (entries (buckets t ! j))}"
  have "known t = ni_identity ` set (entries (buckets t ! i)) \<union> ?R"
    unfolding set_eq_iff Un_iff known_iff mem_Collect_eq using assms by blast
  moreover have "known (set_entries t i es) = ni_identity ` set es \<union> ?R" for es
    unfolding set_eq_iff Un_iff known_iff mem_Collect_eq length_set_entries
    using assms by (simp only: entries_set_entries [OF assms] split: if_splits) metis
  ultimately show thesis by (rule that)
qed

lemma remove_at_append_replaced:
  assumes "position (\<lambda>e. f e = f n) es = Some pos" and "distinct (map f es)"
  shows "distinct (map f (remove_at pos es @ [n])) \<and> f ` set (remove_at pos es @ [n]) = f ` set es"
proof -
  have pos: "pos < length es" "f (es ! pos) = f n" using position_Some [OF assms(1)] by auto
  have "mset (map f (remove_at pos es @ [n])) = mset (map f (remove_at pos es @ [es ! pos]))"
    using pos(2) by simp
  also have "\<dots> = mset (map f es)" using mset_move_to_end [OF pos(1)] by (simp only: mset_map)
  finally have m: "mset (map f (remove_at pos es @ [n])) = mset (map f es)" .
  then have "distinct (map f (remove_at pos es @ [n]))"
    using assms(2) by (metis mset_eq_imp_distinct_iff)
  moreover have "set (map f (remove_at pos es @ [n])) = set (map f es)" by (rule mset_eq_setD [OF m])
  ultimately show ?thesis by (simp only: set_map)
qed

lemma add_node_known:
  assumes inv: "table_inv P t" and dis: "buckets_distinct t" and r: "add_node P t n = Some (res, t')"
  shows "buckets_distinct t' \<and> known t \<subseteq> known t' \<and> known t' \<subseteq> insert (ni_identity n) (known t) \<and>
     ((\<exists>l c. res = BucketFull l c) \<longrightarrow> t' = t)"
proof (cases "\<exists>i. bucket_for P t (ni_id P n) = Some (Some i)")
  case False
  then show ?thesis using r dis by (auto simp: add_node_def split: option.splits)
next
  case True
  then obtain i where i: "bucket_for P t (ni_id P n) = Some (Some i)" by blast
  let ?es = "entries (buckets t ! i)"
  have less: "i < length (buckets t)" using bucket_for_NUM [OF i] inv_length [OF inv] by simp
  have es: "distinct (map ni_identity ?es)" by (rule buckets_distinct_nth [OF dis less])
  obtain R where R: "known t = ni_identity ` set ?es \<union> R"
    "\<And>es. known (set_entries t i es) = ni_identity ` set es \<union> R"
    by (rule known_split [OF less]) blast
  show ?thesis
  proof (cases "position (\<lambda>e. ni_identity e = ni_identity n) ?es")
    case None
    then have new: "distinct (map ni_identity (?es @ [n]))" using es by (auto simp: position_None)
    show ?thesis
    proof (cases "length ?es < K")
      case True
      then have "t' = set_entries t i (?es @ [n])" "res = Added"
        using r i None by (auto simp: add_node_def Let_def)
      then show ?thesis using buckets_distinct_set [OF dis new, of i] by (auto simp: R)
    next
      case False
      then show ?thesis using r i None dis by (auto simp: add_node_def Let_def)
    qed
  next
    case (Some pos)
    note m = remove_at_append_replaced [OF Some es]
    have "known (set_entries t i (remove_at pos ?es @ [n])) = known t"
      using m by (simp only: R)
    moreover have "t' = set_entries t i (remove_at pos ?es @ [n])" "res = Updated"
      using r i Some by (auto simp: add_node_def Let_def)
    ultimately show ?thesis using buckets_distinct_set [OF dis conjunct1 [OF m], of i] by auto
  qed
qed

lemma distinct_concat_upt:
  assumes "\<And>i. i < n \<Longrightarrow> distinct (f i)"
    and "\<And>i j x. i < n \<Longrightarrow> j < n \<Longrightarrow> x \<in> set (f i) \<Longrightarrow> x \<in> set (f j) \<Longrightarrow> i = j"
  shows "distinct (concat (map f [0..<n]))"
  using assms
proof (induction n)
  case 0
  show ?case by simp
next
  case (Suc n)
  have "distinct (concat (map f [0..<n]))" by (rule Suc.IH) (use Suc.prems in auto)
  moreover have "x \<notin> set (f n)" if x: "x \<in> set (concat (map f [0..<n]))" for x
  proof
    assume "x \<in> set (f n)"
    obtain i where i: "i < n" "x \<in> set (f i)"
      using x by auto
    then have "i = n" using Suc.prems(2) [of i n x] \<open>x \<in> set (f n)\<close> by simp
    then show False using i(1) by simp
  qed
  ultimately show ?case using Suc.prems(1) [of n] by auto
qed

lemma all_nodes_distinct:
  assumes "table_inv P t" and "buckets_distinct t"
  shows "distinct (map ni_identity (all_nodes t))"
proof -
  let ?f = "\<lambda>i. map ni_identity (entries (buckets t ! i))"
  have "map (\<lambda>b. map ni_identity (entries b)) (buckets t) = map ?f [0..<length (buckets t)]"
    by (rule nth_equalityI) simp_all
  then have "map ni_identity (all_nodes t) = concat (map ?f [0..<length (buckets t)])"
    by (simp add: all_nodes_def map_concat comp_def)
  moreover have "distinct (concat (map ?f [0..<length (buckets t)]))"
  proof (rule distinct_concat_upt)
    fix i j x
    assume l: "i < length (buckets t)" "j < length (buckets t)" "x \<in> set (?f i)" "x \<in> set (?f j)"
    then obtain a b where a: "a \<in> set (entries (buckets t ! i))" "ni_identity a = x"
      and b: "b \<in> set (entries (buckets t ! j))" "ni_identity b = x" by auto
    then have "bucket_for P t (ni_id P a) = Some (Some i)" "bucket_for P t (ni_id P b) = Some (Some j)"
      using table_inv_bucket(2) [OF assms(1)] l inv_length [OF assms(1)] by auto
    moreover have "ni_id P a = ni_id P b" using a b by (simp add: ni_id_def)
    ultimately show "i = j" by simp
  qed (simp add: buckets_distinct_nth [OF assms(2)])
  ultimately show ?thesis by simp
qed

lemma resolve_alive_known:
  assumes inv: "table_inv P t" and r: "resolve_challenge P t l c True = Some t'"
  shows "known t' = known t"
proof (cases "\<exists>i pos. bucket_for P t (ni_id P c) = Some (Some i) \<and>
    position (\<lambda>e. ni_id P e = l) (entries (buckets t ! i)) = Some pos")
  case False
  then show ?thesis using r by (auto simp: resolve_challenge_def Let_def split: option.splits)
next
  case True
  then obtain i pos where i: "bucket_for P t (ni_id P c) = Some (Some i)"
    and pos: "position (\<lambda>e. ni_id P e = l) (entries (buckets t ! i)) = Some pos" by blast
  let ?es = "entries (buckets t ! i)"
  have less: "i < length (buckets t)" using bucket_for_NUM [OF i] inv_length [OF inv] by simp
  obtain R where R: "known t = ni_identity ` set ?es \<union> R"
    "\<And>es. known (set_entries t i es) = ni_identity ` set es \<union> R"
    by (rule known_split [OF less]) blast
  have "pos < length ?es" using position_Some [OF pos] by simp
  then have "set (remove_at pos ?es @ [?es ! pos]) = set ?es"
    by (rule mset_eq_setD [OF mset_move_to_end])
  moreover have "t' = set_entries t i (remove_at pos ?es @ [?es ! pos])"
    using r i pos by (simp add: resolve_challenge_def Let_def)
  ultimately show ?thesis by (simp only: R)
qed

lemma resolve_dead_known:
  assumes inv: "table_inv P t" and r: "resolve_challenge P t l c False = Some t'"
    and x: "x \<in> known t" "node_id P x \<noteq> l"
  shows "x \<in> known t'"
proof (cases "\<exists>i. bucket_for P t (ni_id P c) = Some (Some i)")
  case False
  then show ?thesis using r x by (auto simp: resolve_challenge_def split: option.splits)
next
  case True
  then obtain i where i: "bucket_for P t (ni_id P c) = Some (Some i)" by blast
  let ?es = "entries (buckets t ! i)"
  let ?kept = "filter (\<lambda>e. ni_id P e \<noteq> l) ?es"
  have less: "i < length (buckets t)" using bucket_for_NUM [OF i] inv_length [OF inv] by simp
  obtain R where R: "known t = ni_identity ` set ?es \<union> R"
    "\<And>es. known (set_entries t i es) = ni_identity ` set es \<union> R"
    by (rule known_split [OF less]) blast
  have "t' = set_entries t i (if length ?kept < K then ?kept @ [c] else ?kept)"
    using r i by (auto simp: resolve_challenge_def Let_def)
  then show ?thesis using x by (auto simp: R ni_id_def)
qed

subsection \<open>Properties\<close>

text \<open>C16. In every table that any interleaving of additions, challenge resolutions and removals can
  produce from an empty one, each of the 256 buckets has at most 20 entries, an entry sits in
  the bucket of its binary logarithmic distance (so never the local node itself), and no
  operation can panic on a node: \<open>add_node\<close>, \<open>resolve_challenge\<close> and \<open>remove_node\<close> return.\<close>

theorem routing_table_invariant:
  assumes "blake3_ok P" and "full P lid" and "table_reachable P lid t" and "i < 256"
    and "e \<in> set (entries (buckets t ! i))"
  shows "length (buckets t) = 256 \<and> length (entries (buckets t ! i)) \<le> 20 \<and>
     2 ^ i \<le> dist lid (node_id P (ni_identity e)) \<and>
     dist lid (node_id P (ni_identity e)) < 2 ^ (i + 1) \<and>
     add_node P t n \<noteq> None \<and> resolve_challenge P t (node_id P x) n alive \<noteq> None \<and>
     remove_node P t (node_id P x) \<noteq> None"
proof -
  have inv: "table_inv P t" and l: "local_id t = lid"
    using table_reachable_inv [OF assms(2,3)] by auto
  have i: "i < NUM_BUCKETS" using assms(4) by (simp add: NUM_BUCKETS_def)
  have b: "bucket_for P t (ni_id P e) = Some (Some i)" by (rule table_inv_bucket(2) [OF inv i assms(5)])
  then obtain d where d: "xor_distance P lid (ni_id P e) = Some d" and k: "bucket_index d = Some i"
    by (auto simp: bucket_for_def l)
  have "length d = 32" "be_value d = dist lid (ni_id P e)"
    using d by (simp_all add: xor_distance_length xor_distance_dist)
  then have "2 ^ i \<le> dist lid (ni_id P e)" "dist lid (ni_id P e) < 2 ^ (i + 1)"
    using bucket_index_Some [OF _ k] by simp_all
  moreover have b: "\<exists>r. bucket_for P t (node_id P x) = Some r" for x
    using bucket_for_Some [of P t "node_id P x"] by (simp add: l assms(1,2))
  have "add_node P t n \<noteq> None"
    using b [of "ni_identity n"] by (auto simp: add_node_def ni_id_def Let_def split: option.splits)
  moreover have "resolve_challenge P t (node_id P x) n alive \<noteq> None"
    using b [of "ni_identity n"]
    by (auto simp: resolve_challenge_def ni_id_def Let_def split: option.splits)
  moreover have "remove_node P t (node_id P x) \<noteq> None"
    using b [of x] by (auto simp: remove_node_def split: option.splits)
  ultimately show ?thesis
    using table_inv_bucket(1) [OF inv i] inv_length [OF inv]
    by (simp add: ni_id_def K_def NUM_BUCKETS_def)
qed

text \<open>C17. \<open>closest_nodes\<close> never panics on a target of 32 bytes (and, in a release build, on a longer
  one, of which it reads the first 32) and is optimal: it returns
  as many nodes as asked for and available, in order of distance, and no node of the table that
  it leaves out is closer than one that it returns.\<close>

theorem closest_nodes_optimal:
  assumes "blake3_ok P" and "full P target"
  shows "\<exists>ns. closest_nodes P t target limit = Some ns \<and> length ns = min limit (table_len t) \<and>
     mset ns \<subseteq># mset (all_nodes t) \<and>
     sorted (map (\<lambda>n. dist target (node_id P (ni_identity n))) ns) \<and>
     (\<forall>a \<in> set ns. \<forall>b \<in> set (all_nodes t) - set ns.
        dist target (node_id P (ni_identity a)) \<le> dist target (node_id P (ni_identity b)))"
proof -
  let ?f = "\<lambda>e. dist target (ni_id P e)"
  let ?s = "sort_key ?f (all_nodes t)"
  have c: "closest_nodes P t target limit = Some (take limit ?s)"
    by (rule closest_nodes_sort [OF assms])
  have "mset (take limit ?s) \<subseteq># mset ?s"
    by (metis append_take_drop_id mset_append mset_subset_eq_add_left)
  moreover have "sorted (map ?f (take limit ?s))"
    by (metis sorted_sort_key sorted_wrt_take take_map)
  moreover have "?f a \<le> ?f b" if "a \<in> set (take limit ?s)" "b \<in> set (all_nodes t) - set (take limit ?s)" for a b
    using that sort_key_prefix_closest [of a limit ?f "all_nodes t" b] by simp
  ultimately show ?thesis using c
    by (intro exI [of _ "take limit ?s"]) (simp add: table_len_all_nodes min.commute ni_id_def)
qed

text \<open>A target or key of fewer than 32 bytes - in a debug build one of more, too -, which any peer may
  send, makes \<open>closest_nodes\<close> panic as soon as the table holds two nodes.\<close>

theorem closest_nodes_panics_on_short_target:
  assumes "\<not> full P target" and "2 \<le> table_len t"
  shows "closest_nodes P t target limit = None"
  by (rule closest_nodes_short [OF assms])

text \<open>Sybil resistance of the table: adding a node never removes another one and never makes a
  node appear twice; a full bucket refuses the newcomer and changes nothing; and a challenge
  that the oldest node answers keeps every node, one that it misses evicts only that node.\<close>

theorem live_nodes_keep_their_place:
  assumes "table_inv P t" and "distinct (map ni_identity (all_nodes t))"
    and "add_node P t n = Some (res, t1)"
    and "resolve_challenge P t lrs cand alive = Some t2"
  shows "distinct (map ni_identity (all_nodes t1)) \<and>
     ni_identity ` set (all_nodes t) \<subseteq> ni_identity ` set (all_nodes t1) \<and>
     ((\<exists>l c. res = BucketFull l c) \<longrightarrow> t1 = t) \<and>
     (alive \<longrightarrow> ni_identity ` set (all_nodes t2) = ni_identity ` set (all_nodes t)) \<and>
     (\<forall>x \<in> ni_identity ` set (all_nodes t). node_id P x \<noteq> lrs \<longrightarrow> x \<in> ni_identity ` set (all_nodes t2))"
proof -
  have dis: "buckets_distinct t"
    using assms(2) by (auto simp: buckets_distinct_def all_nodes_def map_concat distinct_concat_iff)
  have "distinct (map ni_identity (all_nodes t1))"
    using add_node_known [OF assms(1) dis assms(3)] add_node_inv [OF assms(1,3)]
    by (blast intro: all_nodes_distinct)
  moreover have "x \<in> known t2" if "x \<in> known t" "node_id P x \<noteq> lrs" for x
    using that resolve_alive_known [OF assms(1)] resolve_dead_known [OF assms(1) _ that] assms(4)
    by (cases alive) auto
  moreover have "alive \<longrightarrow> known t2 = known t"
    using resolve_alive_known [OF assms(1), of lrs cand t2] assms(4) by (cases alive) auto
  ultimately show ?thesis
    using add_node_known [OF assms(1) dis assms(3)] unfolding known_def [symmetric] by blast
qed

text \<open>\<open>resolve_challenge\<close> does not check whether the candidate has entered the table while the
  oldest node was being pinged: then the bucket lists it twice.\<close>

theorem resolve_challenge_duplicates_candidate:
  assumes "table_inv P t" and "bucket_for P t (node_id P (ni_identity cand)) = Some (Some i)"
    and "a \<in> set (entries (buckets t ! i))" and "ni_identity a = ni_identity cand"
    and "b \<in> set (entries (buckets t ! i))" and "node_id P (ni_identity b) = lrs"
    and "lrs \<noteq> node_id P (ni_identity cand)"
  shows "\<exists>t'. resolve_challenge P t lrs cand False = Some t' \<and>
     \<not> distinct (map ni_identity (entries (buckets t' ! i)))"
proof -
  let ?es = "entries (buckets t ! i)"
  let ?kept = "filter (\<lambda>e. ni_id P e \<noteq> lrs) ?es"
  have less: "i < length (buckets t)"
    using bucket_for_NUM [OF assms(2)] inv_length [OF assms(1)] by simp
  have "length ?kept < length ?es"
    by (rule length_filter_less [OF assms(5)]) (simp add: ni_id_def assms(6))
  then have "length ?kept < K"
    using table_inv_bucket(1) [OF assms(1) bucket_for_NUM [OF assms(2)]] by simp
  then have "resolve_challenge P t lrs cand False = Some (set_entries t i (?kept @ [cand]))"
    using assms(2) by (simp add: resolve_challenge_def Let_def ni_id_def [symmetric])
  moreover have "a \<in> set ?kept" using assms(3,4,7) by (simp add: ni_id_def)
  then have "ni_identity cand \<in> ni_identity ` set ?kept"
    using imageI [of a "set ?kept" ni_identity] assms(4) by simp
  then have "\<not> distinct (map ni_identity (?kept @ [cand]))" by simp
  ultimately show ?thesis by (simp add: entries_set_entries [OF less])
qed

subsection \<open>A concrete table\<close>

definition demo_node :: "u8 \<Rightarrow> node_info" where
  "demo_node b = \<lparr>ni_identity = short_identity b, ni_addr = node_addr_quic ''h:1'', last_seen = 0\<rparr>"

definition demo_table :: routing_table where
  "demo_table = set_entries (routing_table_new zero_id) 250 [demo_node 4, demo_node 5]"

lemma demo_node_simps [simp]:
  "ni_identity (demo_node b) = short_identity b"
  "short_identity b = short_identity c \<longleftrightarrow> b = c"
  "ni_id P (demo_node b) = node_id P (short_identity b)"
  by (simp_all add: demo_node_def ni_id_def short_identity_def)

lemma demo_bucket_index:
  assumes "b \<noteq> 0"
  shows "bucket_for pad_prims (routing_table_new zero_id) (node_id pad_prims (short_identity b)) =
     Some (Some (255 - u8_leading_zeros b))"
proof -
  have p: "take 32 (pad_digest [b]) = b # replicate 31 0"
    by (simp add: pad_digest_def numeral_eq_Suc)
  have r: "replicate 32 (0 :: u8) = 0 # replicate 31 0" by (simp add: numeral_eq_Suc)
  have "xor_distance pad_prims zero_id (node_id pad_prims (short_identity b)) =
      Some (b # map2 (XOR) (replicate 31 0) (replicate 31 0))"
    by (subst xor_distance_Some)
      (simp_all add: full_def zero_id_def node_id_def hash_blake3_def short_identity_def prefix_of_def p r)
  moreover have "u8_leading_zeros b < 8" using u8_leading_zeros_bounds [OF assms] by simp
  ultimately show ?thesis
    using assms by (simp add: bucket_for_def routing_table_new_def bucket_index_def Let_def)
qed

lemma demo_bucket:
  "bucket_for pad_prims (routing_table_new zero_id) (node_id pad_prims (short_identity 4)) = Some (Some 250)"
  "bucket_for pad_prims (routing_table_new zero_id) (node_id pad_prims (short_identity 5)) = Some (Some 250)"
  by (simp_all add: demo_bucket_index u8_leading_zeros_def upt_rec)

lemma full_zero_id [simp]: "full P zero_id"
  by (simp add: full_def zero_id_def)

lemma demo_table_inv: "table_inv pad_prims demo_table"
  unfolding demo_table_def
  by (rule table_inv_set [OF table_inv_new])
    (auto simp: NUM_BUCKETS_def K_def demo_node_def ni_id_def demo_bucket)

lemma demo_table_entries:
  "entries (buckets demo_table ! 250) = [demo_node 4, demo_node 5]"
  by (simp add: demo_table_def entries_set_entries routing_table_new_def NUM_BUCKETS_def)

lemma demo_table_bucket:
  "bucket_for pad_prims demo_table (node_id pad_prims (short_identity 4)) = Some (Some 250)"
  "bucket_for pad_prims demo_table (node_id pad_prims (short_identity 5)) = Some (Some 250)"
  using demo_bucket by (simp_all add: demo_table_def bucket_for_def)

lemma all_nodes_new [simp]: "all_nodes (routing_table_new lid) = []"
  by (simp add: all_nodes_def routing_table_new_def k_bucket_new_def)

lemma all_nodes_one_bucket:
  "i < NUM_BUCKETS \<Longrightarrow> all_nodes (set_entries (routing_table_new lid) i es) = es"
  by (simp add: all_nodes_def set_entries_def routing_table_new_def upd_conv_take_nth_drop
      k_bucket_new_def take_replicate drop_replicate)

lemma demo_all_nodes: "all_nodes demo_table = [demo_node 4, demo_node 5]"
  by (simp add: demo_table_def all_nodes_one_bucket NUM_BUCKETS_def)

lemma demo_table_reachable:
  "table_reachable pad_prims zero_id demo_table"
proof -
  let ?t0 = "routing_table_new zero_id"
  let ?t1 = "set_entries ?t0 250 [demo_node 4]"
  have e: "entries (buckets ?t0 ! 250) = []"
    by (simp add: routing_table_new_def NUM_BUCKETS_def k_bucket_new_def)
  have e1: "entries (buckets ?t1 ! 250) = [demo_node 4]"
    by (simp add: entries_set_entries routing_table_new_def NUM_BUCKETS_def)
  have b1: "bucket_for pad_prims ?t1 (node_id pad_prims (short_identity 5)) = Some (Some 250)"
    using demo_bucket by (simp add: bucket_for_def)
  have "add_node pad_prims ?t0 (demo_node 4) = Some (Added, ?t1)"
    by (simp add: add_node_def demo_bucket Let_def e K_def)
  moreover have "add_node pad_prims ?t1 (demo_node 5) = Some (Added, demo_table)"
    using b1 by (simp add: add_node_def Let_def e1 K_def demo_table_def)
  ultimately show ?thesis by (meson reach_new reach_step step_add)
qed

lemma routing_table_invariant_witness:
  "length (entries (buckets demo_table ! 250)) \<le> 20 \<and>
   2 ^ 250 \<le> dist zero_id (node_id pad_prims (short_identity 4))"
proof -
  from routing_table_invariant [OF pad_prims_ok(1) full_zero_id demo_table_reachable,
      where i = 250 and e = "demo_node 4"]
  show ?thesis by (simp add: demo_table_entries)
qed

lemma closest_nodes_optimal_witness:
  "\<exists>ns. closest_nodes pad_prims demo_table (node_id pad_prims (short_identity 5)) 1 = Some ns \<and>
     length ns = 1"
proof -
  have "full pad_prims (node_id pad_prims (short_identity 5))" by simp
  from closest_nodes_optimal [OF pad_prims_ok(1) this, of demo_table 1]
  show ?thesis by (auto simp: table_len_all_nodes demo_all_nodes)
qed

lemma closest_nodes_panics_on_short_target_witness:
  "closest_nodes pad_prims demo_table \<lparr>hash_algorithm = 3, digest = [1]\<rparr> 20 = None"
  by (rule closest_nodes_panics_on_short_target) (simp_all add: full_def table_len_all_nodes demo_all_nodes)

lemma live_nodes_keep_their_place_witness:
  "\<exists>res t1. add_node pad_prims demo_table (demo_node 5) = Some (res, t1) \<and>
     distinct (map ni_identity (all_nodes t1))"
proof -
  have dis: "distinct (map ni_identity (all_nodes demo_table))" by (simp add: demo_all_nodes)
  have a: "add_node pad_prims demo_table (demo_node 5) = Some (Updated, demo_table)"
  proof -
    have "set_entries demo_table 250 [demo_node 4, demo_node 5] = demo_table"
      by (simp add: demo_table_def)
    then show ?thesis
      using demo_table_bucket by (simp add: add_node_def Let_def demo_table_entries remove_at_def)
  qed
  obtain t2 where "resolve_challenge pad_prims demo_table zero_id (demo_node 5) True = Some t2"
    using demo_table_bucket
    by (cases "resolve_challenge pad_prims demo_table zero_id (demo_node 5) True")
      (auto simp: resolve_challenge_def Let_def split: option.splits)
  from live_nodes_keep_their_place [OF demo_table_inv dis a this, THEN conjunct1] a
  show ?thesis by (intro exI conjI)
qed

lemma resolve_challenge_duplicates_candidate_witness:
  "\<exists>t'. resolve_challenge pad_prims demo_table (node_id pad_prims (short_identity 4)) (demo_node 5) False
      = Some t' \<and> \<not> distinct (map ni_identity (entries (buckets t' ! 250)))"
proof (rule resolve_challenge_duplicates_candidate [where a = "demo_node 5" and b = "demo_node 4"])
  have "digest (node_id pad_prims (short_identity b)) ! 0 = b" for b
    by (simp add: node_id_def hash_blake3_def short_identity_def pad_digest_def)
  from this [of 4] this [of 5]
  have "node_id pad_prims (short_identity 4) \<noteq> node_id pad_prims (short_identity 5)" by auto
  then show "node_id pad_prims (short_identity 4) \<noteq> node_id pad_prims (ni_identity (demo_node 5))"
    by simp
qed (simp_all add: demo_table_inv demo_table_bucket demo_table_entries)

end
