(* ===== verification/Storage_Spec.thy ===== *)
theory Storage_Spec
  imports Messages
begin

section \<open>The descriptor storage interface\<close>

text \<open>
  The trait \<open>DescriptorStorage\<close> (storage.rs) that the DHT node is written against, its errors
  and filters, and the deduplication key. The locale \<open>descriptor_storage\<close> states the contract
  of an implementation: a descriptor that fails validation changes nothing, whatever is
  returned was validated, is live, lies under the requested key and passes the filters. What
  the contract gives for a whole history of calls is proved once, in the locale.
\<close>

datatype store_error =
    ValidationFailed string
  | StaleDescriptor u64 u64
  | RateLimited nat
  | RevocationPublisherMismatch
  | StaleRotation u64 u64
  | RotationForkDetected

fun store_error_display :: "store_error \<Rightarrow> string" where
  "store_error_display (ValidationFailed e) = ''descriptor validation failed: '' @ e"
| "store_error_display (StaleDescriptor r c) =
     ''stale descriptor: sequence '' @ nat_string (unat r) @ '' < current '' @ nat_string (unat c)"
| "store_error_display (RateLimited l) =
     ''rate limited: publisher exceeded '' @ nat_string l @ '' stores per minute''"
| "store_error_display RevocationPublisherMismatch = ''revocation rejected: publisher mismatch''"
| "store_error_display (StaleRotation r c) =
     ''stale key rotation: seq '' @ nat_string (unat r) @ '' <= current '' @ nat_string (unat c)"
| "store_error_display RotationForkDetected =
     ''key rotation fork detected: conflicting new_identity for same seq''"

record dedup_key =
  dk_publisher :: identity
  dk_schema_hash :: hash
  dk_topic :: string

definition dedup_key_of :: "descriptor \<Rightarrow> dedup_key" where
  "dedup_key_of d =
     \<lparr>dk_publisher = publisher d, dk_schema_hash = schema_hash d, dk_topic = topic d\<rparr>"

text \<open>The user filters of \<open>get_descriptors_at\<close>.\<close>

definition filter_matches :: "filter_set option \<Rightarrow> descriptor \<Rightarrow> bool" where
  "filter_matches filters d \<longleftrightarrow>
     (case filters of
        None \<Rightarrow> True
      | Some f \<Rightarrow>
          (case fs_schema_hash f of Some sh \<Rightarrow> schema_hash d = sh | None \<Rightarrow> True) \<and>
          (case fs_min_timestamp f of Some min_ts \<Rightarrow> \<not> timestamp d < min_ts | None \<Rightarrow> True) \<and>
          (case fs_publisher f of Some pub_id \<Rightarrow> publisher d = pub_id | None \<Rightarrow> True))"

lemma filter_matches_None [simp]: "filter_matches None d"
  by (simp add: filter_matches_def)

text \<open>A call that changes a store, and a history of such calls (results discarded).\<close>

datatype storage_op = Put descriptor u64 | Evict u64

fun storage_step ::
  "('s \<Rightarrow> descriptor \<Rightarrow> u64 \<Rightarrow> (store_error + unit) \<times> 's) \<Rightarrow> ('s \<Rightarrow> u64 \<Rightarrow> 's) \<Rightarrow>
   storage_op \<Rightarrow> 's \<Rightarrow> 's" where
  "storage_step put evict (Put d now) s = snd (put s d now)"
| "storage_step put evict (Evict now) s = evict s now"

fun op_time :: "storage_op \<Rightarrow> u64" where
  "op_time (Put d now) = now"
| "op_time (Evict now) = now"

definition run_storage ::
  "('s \<Rightarrow> descriptor \<Rightarrow> u64 \<Rightarrow> (store_error + unit) \<times> 's) \<Rightarrow> ('s \<Rightarrow> u64 \<Rightarrow> 's) \<Rightarrow>
   storage_op list \<Rightarrow> 's \<Rightarrow> 's" where
  "run_storage put evict ops s = fold (storage_step put evict) ops s"

lemma run_storage_simps [simp]:
  "run_storage put evict [] s = s"
  "run_storage put evict (op # ops) s = run_storage put evict ops (storage_step put evict op s)"
  by (simp_all add: run_storage_def)

lemma run_storage_append:
  "run_storage put evict (a @ b) s = run_storage put evict b (run_storage put evict a s)"
  by (simp add: run_storage_def)

text \<open>A property that both calls keep holds after every history.\<close>

lemma run_storage_invariant:
  assumes "\<And>s d now. I s \<Longrightarrow> I (snd (put s d now))" and "\<And>s now. I s \<Longrightarrow> I (evict s now)" and "I s"
  shows "I (run_storage put evict ops s)"
  using assms(3)
proof (induction ops arbitrary: s)
  case Nil
  then show ?case by simp
next
  case (Cons op ops)
  have "I (storage_step put evict op s)" by (cases op) (simp_all add: assms(1,2) Cons.prems)
  then show ?case by (simp add: Cons.IH)
qed

locale descriptor_storage =
  fixes P :: prims
    and put :: "'s \<Rightarrow> descriptor \<Rightarrow> u64 \<Rightarrow> (store_error + unit) \<times> 's"
    and get :: "'s \<Rightarrow> hash \<Rightarrow> filter_set option \<Rightarrow> u64 \<Rightarrow> descriptor list"
    and evict :: "'s \<Rightarrow> u64 \<Rightarrow> 's"
    and empty :: 's
    and inv :: "'s \<Rightarrow> bool"
  assumes inv_empty: "inv empty"
    and inv_put: "inv s \<Longrightarrow> inv (snd (put s d now))"
    and inv_evict: "inv s \<Longrightarrow> inv (evict s now)"
    and put_invalid: "validate P d now = Err e \<Longrightarrow>
          put s d now = (Err (ValidationFailed (mesh_error_display e)), s)"
    and get_sound: "inv s \<Longrightarrow> d \<in> set (get s k f now) \<Longrightarrow>
          authentic P d \<and> well_formed d \<and> k \<in> set (routing_keys d) \<and> \<not> expired now d \<and>
          filter_matches f d"
begin

abbreviation run :: "storage_op list \<Rightarrow> 's" where
  "run ops \<equiv> run_storage put evict ops empty"

lemma inv_run: "inv s \<Longrightarrow> inv (run_storage put evict ops s)"
  by (rule run_storage_invariant) (simp_all add: inv_put inv_evict)

lemma inv_history: "inv (run ops)"
  by (rule inv_run) (rule inv_empty)

lemma put_Ok_valid: "fst (put s d now) = Ok () \<Longrightarrow> validate P d now = Ok ()"
  using put_invalid [of d now _ s] validate_cases [of P d now] by fastforce

lemma answers_valid:
  assumes "d \<in> set (get (run ops) k f now)"
  shows "authentic P d \<and> well_formed d \<and> k \<in> set (routing_keys d) \<and> \<not> expired now d \<and>
     filter_matches f d"
  by (rule get_sound [OF inv_history assms])

text \<open>One id, one content: two answers with the same id, from any two histories, agree.\<close>

lemma answers_agree:
  assumes "cbor_ok P" and "a \<in> set (get (run ops) k f now)" and "b \<in> set (get (run ops') k' f' now')"
    and "id_hash a = id_hash b"
  shows "same_content a b \<or>
     canonical_of P a \<noteq> canonical_of P b \<and> blake3 P (canonical_of P a) = blake3 P (canonical_of P b)"
  using answers_valid [OF assms(2)] answers_valid [OF assms(3)] assms(1,4) authentic_same_id by blast

end

subsection \<open>Simulation\<close>

text \<open>The results of a history, and the descriptors that it submits.\<close>

fun put_results ::
  "('s \<Rightarrow> descriptor \<Rightarrow> u64 \<Rightarrow> (store_error + unit) \<times> 's) \<Rightarrow> ('s \<Rightarrow> u64 \<Rightarrow> 's) \<Rightarrow>
   storage_op list \<Rightarrow> 's \<Rightarrow> (store_error + unit) list" where
  "put_results put evict [] s = []"
| "put_results put evict (Put d now # ops) s =
     fst (put s d now) # put_results put evict ops (snd (put s d now))"
| "put_results put evict (Evict now # ops) s = put_results put evict ops (evict s now)"

fun submitted :: "storage_op list \<Rightarrow> descriptor set" where
  "submitted [] = {}"
| "submitted (Put d now # ops) = insert d (submitted ops)"
| "submitted (Evict now # ops) = submitted ops"

text \<open>A store that does what a specification says. \<open>rel\<close> relates the states, \<open>held\<close> is what a store holds,
  and \<open>fine\<close> says of a set of descriptors that no two of them get into each other's way.\<close>

locale storage_simulation =
  fixes put :: "'s \<Rightarrow> descriptor \<Rightarrow> u64 \<Rightarrow> (store_error + unit) \<times> 's"
    and get :: "'s \<Rightarrow> hash \<Rightarrow> filter_set option \<Rightarrow> u64 \<Rightarrow> descriptor list"
    and evict :: "'s \<Rightarrow> u64 \<Rightarrow> 's"
    and spec_put :: "'a \<Rightarrow> descriptor \<Rightarrow> u64 \<Rightarrow> (store_error + unit) \<times> 'a"
    and spec_get :: "'a \<Rightarrow> hash \<Rightarrow> filter_set option \<Rightarrow> u64 \<Rightarrow> descriptor set"
    and spec_evict :: "'a \<Rightarrow> u64 \<Rightarrow> 'a"
    and rel :: "'s \<Rightarrow> 'a \<Rightarrow> bool" and held :: "'s \<Rightarrow> descriptor set" and fine :: "descriptor set \<Rightarrow> bool"
  assumes fine_mono: "fine D \<Longrightarrow> D' \<subseteq> D \<Longrightarrow> fine D'"
    and held_put: "rel s a \<Longrightarrow> fine (insert d (held s)) \<Longrightarrow> held (snd (put s d now)) \<subseteq> insert d (held s)"
    and held_evict: "rel s a \<Longrightarrow> held (evict s now) \<subseteq> held s"
    and sim_put: "rel s a \<Longrightarrow> fine (insert d (held s)) \<Longrightarrow>
          fst (put s d now) = fst (spec_put a d now) \<and> rel (snd (put s d now)) (snd (spec_put a d now))"
    and sim_evict: "rel s a \<Longrightarrow> rel (evict s now) (spec_evict a now)"
    and sim_get: "rel s a \<Longrightarrow> set (get s k f now) = spec_get a k f now"
begin

lemma history:
  assumes "rel s a" and "fine (held s \<union> submitted ops)"
  shows "put_results put evict ops s = put_results spec_put spec_evict ops a \<and>
     rel (run_storage put evict ops s) (run_storage spec_put spec_evict ops a) \<and>
     held (run_storage put evict ops s) \<subseteq> held s \<union> submitted ops"
  using assms
proof (induction ops arbitrary: s a)
  case Nil
  then show ?case by simp
next
  case (Cons op ops)
  show ?case
  proof (cases op)
    case (Put d now)
    have f: "fine (insert d (held s))" by (rule fine_mono [OF Cons.prems(2)]) (auto simp: Put)
    note p = sim_put [OF Cons.prems(1) f, of now] and h = held_put [OF Cons.prems(1) f, of now]
    have "fine (held (snd (put s d now)) \<union> submitted ops)"
      by (rule fine_mono [OF Cons.prems(2)]) (use h in \<open>auto simp: Put\<close>)
    from Cons.IH [OF conjunct2 [OF p] this] show ?thesis using p h by (auto simp: Put)
  next
    case (Evict now)
    note h = held_evict [OF Cons.prems(1), of now]
    have "fine (held (evict s now) \<union> submitted ops)"
      by (rule fine_mono [OF Cons.prems(2)]) (use h in \<open>auto simp: Evict\<close>)
    from Cons.IH [OF sim_evict [OF Cons.prems(1)] this] show ?thesis using h by (auto simp: Evict)
  qed
qed

lemma history_answers:
  assumes "rel s a" and "fine (held s \<union> submitted ops)"
  shows "set (get (run_storage put evict ops s) k f now) = spec_get (run_storage spec_put spec_evict ops a) k f now"
  using history [OF assms] sim_get by blast

end

end
