(* ===== verification/Descriptor_Store.thy ===== *)
theory Descriptor_Store
  imports Storage_Spec
begin

section \<open>mesh-dht: the in-memory descriptor store\<close>

text \<open>
  \<open>DescriptorStore\<close> (storage.rs). The \<open>HashMap\<close> of descriptors, which the code iterates, is an
  association list in an arbitrary order; the sequence watermarks, the rate limiter's and the
  rotations' maps are only looked up and are maps, the revoked ids a set. The wall clock is an
  argument. An operation that fails keeps the changes it made before it failed, so every
  operation returns its result and the state.
\<close>

definition RATE_LIMIT_PER_MINUTE :: nat where "RATE_LIMIT_PER_MINUTE = 10"
definition RATE_LIMIT_WINDOW_MICROS :: u64 where "RATE_LIMIT_WINDOW_MICROS = 60000000"

record rate_limiter =
  timestamps :: "identity \<rightharpoonup> u64 list"

definition check_and_record :: "rate_limiter \<Rightarrow> identity \<Rightarrow> u64 \<Rightarrow> bool \<times> rate_limiter" where
  "check_and_record r pub now =
     (let entries0 = (case timestamps r pub of None \<Rightarrow> [] | Some ts \<Rightarrow> ts);
          kept = filter (\<lambda>ts. sat_sub now ts < RATE_LIMIT_WINDOW_MICROS) entries0
      in if length kept \<ge> RATE_LIMIT_PER_MINUTE
         then (False, r\<lparr>timestamps := (timestamps r)(pub \<mapsto> kept)\<rparr>)
         else (True, r\<lparr>timestamps := (timestamps r)(pub \<mapsto> kept @ [now])\<rparr>))"

type_synonym table = "(hash \<times> descriptor list) list"

record descriptor_store =
  store :: table
  sequences :: "dedup_key \<rightharpoonup> u64"
  rate_limiter_field :: rate_limiter
  revoked :: "hash set"
  rotations :: "bytes \<rightharpoonup> identity \<times> u64"

definition descriptor_store_new :: descriptor_store where
  "descriptor_store_new =
     \<lparr>store = [], sequences = Map.empty, rate_limiter_field = \<lparr>timestamps = Map.empty\<rparr>,
      revoked = {}, rotations = Map.empty\<rparr>"

text \<open>\<open>for descriptors in store.values_mut() { descriptors.retain(..) }\<close>,
  \<open>store.retain(|_, v| !v.is_empty())\<close>, \<open>store.entry(key).or_default().push(..)\<close> and
  \<open>store.values().flat_map(..)\<close>.\<close>

definition retain_all :: "(descriptor \<Rightarrow> bool) \<Rightarrow> table \<Rightarrow> table" where
  "retain_all p t = map (\<lambda>(k, ds). (k, filter p ds)) t"

definition drop_empty :: "table \<Rightarrow> table" where
  "drop_empty t = filter (\<lambda>(k, ds). ds \<noteq> []) t"

fun push_at :: "hash \<Rightarrow> descriptor \<Rightarrow> table \<Rightarrow> table" where
  "push_at k d [] = [(k, [d])]"
| "push_at k d ((k', ds) # t) = (if k' = k then (k', ds @ [d]) # t else (k', ds) # push_at k d t)"

definition all_values :: "table \<Rightarrow> descriptor list" where
  "all_values t = concat (map snd t)"

text \<open>The \<open>find_map\<close> over the payload's entries for a byte string or a \<open>u64\<close> under a text key.\<close>

definition bytes_field :: "string \<Rightarrow> (cbor_value \<times> cbor_value) list \<Rightarrow> bytes option" where
  "bytes_field name m =
     find_map (\<lambda>(k, v). if as_text k = Some name then value_bytes v else None) m"

definition u64_field :: "string \<Rightarrow> (cbor_value \<times> cbor_value) list \<Rightarrow> u64 option" where
  "u64_field name m =
     find_map (\<lambda>(k, v). if as_text k = Some name then
         Option.bind (as_integer v) (\<lambda>i. if 0 \<le> i \<and> i < 2 ^ 64 then Some (of_int i) else None)
       else None) m"

definition process_revocation ::
  "prims \<Rightarrow> descriptor_store \<Rightarrow> descriptor \<Rightarrow> (store_error + unit) \<times> descriptor_store" where
  "process_revocation P s revocation =
     (case cbor_read P (payload revocation) of
        Err e \<Rightarrow> (Err (ValidationFailed (''invalid revocation payload: '' @ e)), s)
      | Ok value \<Rightarrow>
          (case Option.bind (as_map value) (bytes_field ''target_id'') of
             None \<Rightarrow> (Err (ValidationFailed ''revocation payload missing target_id''), s)
           | Some bs \<Rightarrow>
               if length bs < 2 then (Err (ValidationFailed ''target_id too short''), s)
               else
                 let target_id = \<lparr>hash_algorithm = hd bs, digest = tl bs\<rparr> in
                 (case List.find (\<lambda>d. id_hash d = target_id) (all_values (store s)) of
                    Some target \<Rightarrow>
                      if publisher revocation \<noteq> publisher target then
                        (Err RevocationPublisherMismatch,
                         s\<lparr>store := retain_all (\<lambda>d. id_hash d \<noteq> id_hash revocation) (store s)\<rparr>)
                      else
                        (Ok (),
                         s\<lparr>revoked := insert target_id (revoked s),
                           store := drop_empty (retain_all (\<lambda>d. id_hash d \<noteq> target_id) (store s))\<rparr>)
                  | None \<Rightarrow> (Ok (), s\<lparr>revoked := insert target_id (revoked s)\<rparr>))))"

definition process_key_rotation ::
  "prims \<Rightarrow> descriptor_store \<Rightarrow> descriptor \<Rightarrow> (store_error + unit) \<times> descriptor_store" where
  "process_key_rotation P s rotation =
     (case cbor_read P (payload rotation) of
        Err e \<Rightarrow> (Err (ValidationFailed (''invalid key-rotation payload: '' @ e)), s)
      | Ok value \<Rightarrow>
     (case as_map value of
        None \<Rightarrow> (Err (ValidationFailed ''key-rotation payload is not a map''), s)
      | Some m \<Rightarrow>
     (case bytes_field ''old_identity'' m of
        None \<Rightarrow> (Err (ValidationFailed ''key-rotation missing old_identity''), s)
      | Some old_identity \<Rightarrow>
     (case bytes_field ''new_identity'' m of
        None \<Rightarrow> (Err (ValidationFailed ''key-rotation missing new_identity''), s)
      | Some new_bytes \<Rightarrow>
     (case u64_field ''rotation_seq'' m of
        None \<Rightarrow> (Err (ValidationFailed ''key-rotation missing rotation_seq''), s)
      | Some rotation_seq \<Rightarrow>
          if length new_bytes < 2 then (Err (ValidationFailed ''new_identity too short''), s)
          else
            let new_identity = \<lparr>id_algorithm = hd new_bytes, public_key = tl new_bytes\<rparr>;
                dropped = s\<lparr>store := retain_all (\<lambda>d. id_hash d \<noteq> id_hash rotation) (store s)\<rparr>;
                recorded = s\<lparr>rotations := (rotations s)(old_identity \<mapsto> (new_identity, rotation_seq))\<rparr>
            in (case rotations s old_identity of
                  None \<Rightarrow> (Ok (), recorded)
                | Some (existing_identity, existing_seq) \<Rightarrow>
                    if rotation_seq = existing_seq \<and> existing_identity \<noteq> new_identity then
                      (Err RotationForkDetected, dropped)
                    else if rotation_seq < existing_seq then
                      (Err (StaleRotation rotation_seq existing_seq), dropped)
                    else (Ok (), recorded)))))))"

text \<open>The part of \<open>store_descriptor_at\<close> after the checks; \<open>?\<close> returns at the first error.\<close>

definition store_accepted ::
  "prims \<Rightarrow> descriptor_store \<Rightarrow> descriptor \<Rightarrow> (store_error + unit) \<times> descriptor_store" where
  "store_accepted P s d =
     (let dk = dedup_key_of d;
          s1 = s\<lparr>sequences := (sequences s)(dk \<mapsto> sequence d)\<rparr>;
          s2 = s1\<lparr>store := retain_all (\<lambda>x. dedup_key_of x \<noteq> dk) (store s1)\<rparr>;
          s3 = s2\<lparr>store := fold (\<lambda>k t. push_at k d t) (routing_keys d) (store s2)\<rparr>;
          (r4, s4) = (if schema_hash d = SCHEMA_HASH_CORE_REVOCATION P then process_revocation P s3 d
                      else (Ok (), s3))
      in case r4 of
           Err e \<Rightarrow> (Err e, s4)
         | Ok _ \<Rightarrow>
             if schema_hash d = SCHEMA_HASH_CORE_KEY_ROTATION P then process_key_rotation P s4 d
             else (Ok (), s4))"

definition store_descriptor_at ::
  "prims \<Rightarrow> descriptor_store \<Rightarrow> descriptor \<Rightarrow> u64 \<Rightarrow> (store_error + unit) \<times> descriptor_store" where
  "store_descriptor_at P s d now =
     (case validate P d now of
        Err e \<Rightarrow> (Err (ValidationFailed (mesh_error_display e)), s)
      | Ok _ \<Rightarrow>
          let (allowed, rl) = check_and_record (rate_limiter_field s) (publisher d) now;
              s1 = s\<lparr>rate_limiter_field := rl\<rparr>
          in
          if \<not> allowed then (Err (RateLimited RATE_LIMIT_PER_MINUTE), s1)
          else
            let dk = dedup_key_of d in
            (case sequences s1 dk of
               Some current_seq \<Rightarrow>
                 if sequence d < current_seq then
                   (Err (StaleDescriptor (sequence d) current_seq), s1)
                 else store_accepted P s1 d
             | None \<Rightarrow> store_accepted P s1 d))"

definition get_descriptors_at ::
  "descriptor_store \<Rightarrow> hash \<Rightarrow> filter_set option \<Rightarrow> u64 \<Rightarrow> descriptor list" where
  "get_descriptors_at s k filters now =
     (case map_of (store s) k of
        None \<Rightarrow> []
      | Some ds \<Rightarrow>
          filter (\<lambda>d. id_hash d \<notin> revoked s \<and>
            \<not> min (timestamp d) now + ttl_micros (ttl d) \<le> now \<and> filter_matches filters d) ds)"

definition evict_expired_at :: "descriptor_store \<Rightarrow> u64 \<Rightarrow> descriptor_store" where
  "evict_expired_at s now =
     s\<lparr>store := drop_empty
         (retain_all (\<lambda>d. min (timestamp d) now + ttl_micros (ttl d) > now) (store s))\<rparr>"

definition has_descriptors :: "descriptor_store \<Rightarrow> hash \<Rightarrow> bool" where
  "has_descriptors s k = (case map_of (store s) k of None \<Rightarrow> False | Some ds \<Rightarrow> ds \<noteq> [])"

definition descriptor_count :: "descriptor_store \<Rightarrow> nat" where
  "descriptor_count s = sum_list (map (length \<circ> snd) (store s))"

definition routing_key_count :: "descriptor_store \<Rightarrow> nat" where
  "routing_key_count s = length (store s)"

subsection \<open>Tables\<close>

text \<open>What lies under a key, and everything that is stored.\<close>

definition at :: "table \<Rightarrow> hash \<Rightarrow> descriptor list" where
  "at t k = (case map_of t k of None \<Rightarrow> [] | Some ds \<Rightarrow> ds)"

definition stored_in :: "table \<Rightarrow> descriptor set" where
  "stored_in t = (\<Union>(k, ds) \<in> set t. set ds)"

definition keys_distinct :: "table \<Rightarrow> bool" where
  "keys_distinct t \<longleftrightarrow> distinct (map fst t)"

lemma map_fst_retain_all [simp]: "map fst (retain_all p t) = map fst t"
  by (simp add: retain_all_def comp_def case_prod_unfold)

lemma at_retain_all [simp]: "at (retain_all p t) k = filter p (at t k)"
  by (induction t) (auto simp: retain_all_def at_def)

lemma at_drop_empty [simp]: "keys_distinct t \<Longrightarrow> at (drop_empty t) k = at t k"
proof (induction t)
  case Nil
  show ?case by (simp add: drop_empty_def)
next
  case (Cons e t)
  obtain k' ds where e: "e = (k', ds)" by (cases e)
  have kd: "keys_distinct t" and no: "k' \<notin> fst ` set t"
    using Cons.prems by (simp_all add: keys_distinct_def e)
  have IH: "at (drop_empty t) k = at t k" by (rule Cons.IH [OF kd])
  have "at t k' = []" using no by (simp add: at_def map_of_eq_None_iff [THEN iffD2])
  then show ?case using IH by (auto simp: drop_empty_def at_def e)
qed

lemma at_push_at [simp]: "at (push_at k d t) k' = at t k' @ (if k' = k then [d] else [])"
  by (induction k d t rule: push_at.induct) (auto simp: at_def)

lemma map_fst_push_at:
  "map fst (push_at k d t) = map fst t @ (if k \<in> fst ` set t then [] else [k])"
  by (induction k d t rule: push_at.induct) auto

lemma keys_distinct_simps [simp]:
  "keys_distinct []" "keys_distinct (retain_all p t) = keys_distinct t"
  "keys_distinct t \<Longrightarrow> keys_distinct (drop_empty t)"
  "keys_distinct t \<Longrightarrow> keys_distinct (push_at k d t)"
  by (auto simp: keys_distinct_def drop_empty_def distinct_map_filter map_fst_push_at)

lemma keys_distinct_push [simp]:
  "keys_distinct t \<Longrightarrow> keys_distinct (fold (\<lambda>k t. push_at k d t) ks t)"
  by (induction ks arbitrary: t) simp_all

lemma at_push: "at (fold (\<lambda>k t. push_at k d t) ks t) k' = at t k' @ replicate (count_list ks k') d"
  by (induction ks arbitrary: t) (auto simp: replicate_app_Cons_same)

lemma stored_in_at: "keys_distinct t \<Longrightarrow> d \<in> stored_in t \<longleftrightarrow> (\<exists>k. d \<in> set (at t k))"
  by (force simp: stored_in_def at_def keys_distinct_def split: option.splits dest: map_of_SomeD)

lemma stored_in_simps [simp]:
  "stored_in [] = {}" "stored_in (retain_all p t) = {d \<in> stored_in t. p d}"
  "stored_in (drop_empty t) = stored_in t"
proof -
  show "stored_in (retain_all p t) = {d \<in> stored_in t. p d}"
    by (induction t) (auto simp: stored_in_def retain_all_def)
  show "stored_in (drop_empty t) = stored_in t"
    by (induction t) (auto simp: stored_in_def drop_empty_def)
qed (simp add: stored_in_def)

lemma stored_in_push_at [simp]: "stored_in (push_at k d t) = insert d (stored_in t)"
  by (induction k d t rule: push_at.induct) (auto simp: stored_in_def)

lemma stored_in_push: "ks \<noteq> [] \<Longrightarrow> stored_in (fold (\<lambda>k t. push_at k d t) ks t) = insert d (stored_in t)"
proof -
  have "stored_in (fold (\<lambda>k t. push_at k d t) ks t) = (if ks = [] then {} else {d}) \<union> stored_in t"
    by (induction ks arbitrary: t) auto
  then show "ks \<noteq> [] \<Longrightarrow> ?thesis" by simp
qed

lemma set_all_values [simp]: "set (all_values t) = stored_in t"
  by (auto simp: all_values_def stored_in_def)

lemma get_at: "get_descriptors_at s k f now =
    filter (\<lambda>d. id_hash d \<notin> revoked s \<and> \<not> expired now d \<and> filter_matches f d) (at (store s) k)"
  by (simp add: get_descriptors_at_def at_def expired_def split: option.splits)

lemma evict_at: "evict_expired_at s now = s\<lparr>store := drop_empty (retain_all (\<lambda>d. \<not> expired now d) (store s))\<rparr>"
  by (simp add: evict_expired_at_def expired_def not_le)

subsection \<open>The invariant\<close>

definition store_inv :: "prims \<Rightarrow> descriptor_store \<Rightarrow> bool" where
  "store_inv P s \<longleftrightarrow> keys_distinct (store s) \<and>
     (\<forall>k. \<forall>d \<in> set (at (store s) k). authentic P d \<and> well_formed d \<and> k \<in> set (routing_keys d)) \<and>
     (\<forall>d \<in> stored_in (store s). sequences s (dedup_key_of d) = Some (sequence d)) \<and>
     (\<forall>a \<in> stored_in (store s). \<forall>b \<in> stored_in (store s). dedup_key_of a = dedup_key_of b \<longrightarrow> a = b)"

text \<open>A state that differs from another one only by descriptors taken out and ids revoked.\<close>

definition trimmed :: "descriptor_store \<Rightarrow> descriptor_store \<Rightarrow> bool" where
  "trimmed s s' \<longleftrightarrow> (keys_distinct (store s) \<longrightarrow> keys_distinct (store s')) \<and>
     (\<forall>k. keys_distinct (store s) \<longrightarrow> set (at (store s') k) \<subseteq> set (at (store s) k)) \<and>
     stored_in (store s') \<subseteq> stored_in (store s) \<and>
     sequences s' = sequences s \<and> rate_limiter_field s' = rate_limiter_field s \<and>
     revoked s \<subseteq> revoked s'"

lemma trimmed_refl [simp]: "trimmed s s"
  by (simp add: trimmed_def)

lemma trimmed_trans: "trimmed s s' \<Longrightarrow> trimmed s' s'' \<Longrightarrow> trimmed s s''"
  unfolding trimmed_def by (metis subset_trans)

lemma trimmed_retain [simp]:
  "trimmed s (s\<lparr>store := retain_all p (store s)\<rparr>)"
  "trimmed s (s\<lparr>store := drop_empty (retain_all p (store s))\<rparr>)"
  "trimmed s (s\<lparr>revoked := insert t (revoked s), store := drop_empty (retain_all p (store s))\<rparr>)"
  "trimmed s (s\<lparr>revoked := insert t (revoked s)\<rparr>)"
  "trimmed s (s\<lparr>rotations := r\<rparr>)"
  by (auto simp: trimmed_def)

lemma trimmed_inv [invariants]: "trimmed s s' \<Longrightarrow> store_inv P s \<Longrightarrow> store_inv P s'"
  unfolding trimmed_def store_inv_def by (metis subsetD)

lemma process_revocation_trimmed [frame_rules]: "trimmed s (snd (process_revocation P s d))"
  by (simp add: process_revocation_def Let_def split: sum.split option.split)

lemma process_key_rotation_trimmed [frame_rules]: "trimmed s (snd (process_key_rotation P s d))"
  by (simp add: process_key_rotation_def Let_def split: sum.split option.split)

definition placed :: "descriptor_store \<Rightarrow> descriptor \<Rightarrow> descriptor_store" where
  "placed s d = s\<lparr>sequences := (sequences s)(dedup_key_of d \<mapsto> sequence d),
     store := fold (\<lambda>k t. push_at k d t) (routing_keys d)
       (retain_all (\<lambda>x. dedup_key_of x \<noteq> dedup_key_of d) (store s))\<rparr>"

lemma store_accepted_trimmed [frame_rules]: "trimmed (placed s d) (snd (store_accepted P s d))"
proof -
  have p: "s\<lparr>sequences := (sequences s)(dedup_key_of d \<mapsto> sequence d),
      store := fold (\<lambda>k t. push_at k d t) (routing_keys d)
        (retain_all (\<lambda>x. dedup_key_of x \<noteq> dedup_key_of d) (store s))\<rparr> = placed s d"
    by (simp add: placed_def)
  let ?r = "if schema_hash d = SCHEMA_HASH_CORE_REVOCATION P then process_revocation P (placed s d) d
     else (Ok (), placed s d)"
  have a: "trimmed (placed s d) (snd ?r)" by (simp add: process_revocation_trimmed)
  then have "trimmed (placed s d) (snd (process_key_rotation P (snd ?r) d))"
    by (rule trimmed_trans) (rule process_key_rotation_trimmed)
  with a show ?thesis
    unfolding store_accepted_def Let_def
    by (cases "schema_hash d = SCHEMA_HASH_CORE_REVOCATION P")
      (simp_all add: p case_prod_unfold split: sum.split)
qed

lemma placed_inv [invariants]:
  assumes "store_inv P s" and "authentic P d" and "well_formed d"
  shows "store_inv P (placed s d)"
proof -
  have kd: "keys_distinct (store s)" and ne: "routing_keys d \<noteq> []"
    using assms by (simp_all add: store_inv_def well_formed_def)
  have at: "at (store (placed s d)) k =
      filter (\<lambda>x. dedup_key_of x \<noteq> dedup_key_of d) (at (store s) k)
        @ replicate (count_list (routing_keys d) k) d" for k
    by (simp add: placed_def at_push)
  have st: "stored_in (store (placed s d)) =
      insert d {x \<in> stored_in (store s). dedup_key_of x \<noteq> dedup_key_of d}"
    using ne by (simp add: placed_def stored_in_push)
  have "keys_distinct (store (placed s d))" using kd by (simp add: placed_def)
  moreover have "authentic P x \<and> well_formed x \<and> k \<in> set (routing_keys x)"
    if "x \<in> set (at (store (placed s d)) k)" for k x
    using that assms unfolding at
    by (auto simp: store_inv_def count_list_0_iff in_set_replicate split: if_splits)
  moreover have "sequences (placed s d) (dedup_key_of x) = Some (sequence x)"
    if "x \<in> stored_in (store (placed s d))" for x
    using that assms(1) unfolding st by (auto simp: store_inv_def placed_def)
  ultimately show ?thesis
    using assms(1) unfolding store_inv_def st by auto
qed

subsection \<open>What a call to \<open>store_descriptor_at\<close> does\<close>

lemma store_at_cases:
  obtains (invalid) e where "validate P d now = Err e"
      "store_descriptor_at P s d now = (Err (ValidationFailed (mesh_error_display e)), s)"
  | (limited) rl where "validate P d now = Ok ()"
      "check_and_record (rate_limiter_field s) (publisher d) now = (False, rl)"
      "store_descriptor_at P s d now = (Err (RateLimited 10), s\<lparr>rate_limiter_field := rl\<rparr>)"
  | (stale) rl cur where "validate P d now = Ok ()"
      "check_and_record (rate_limiter_field s) (publisher d) now = (True, rl)"
      "sequences s (dedup_key_of d) = Some cur" "sequence d < cur"
      "store_descriptor_at P s d now =
         (Err (StaleDescriptor (sequence d) cur), s\<lparr>rate_limiter_field := rl\<rparr>)"
  | (accepted) rl where "validate P d now = Ok ()"
      "check_and_record (rate_limiter_field s) (publisher d) now = (True, rl)"
      "\<forall>cur. sequences s (dedup_key_of d) = Some cur \<longrightarrow> cur \<le> sequence d"
      "store_descriptor_at P s d now = store_accepted P (s\<lparr>rate_limiter_field := rl\<rparr>) d"
proof (cases "validate P d now")
  case (Inl e)
  then show ?thesis using invalid by (simp add: store_descriptor_at_def)
next
  case (Inr u)
  then have v: "validate P d now = Ok ()" by simp
  obtain al rl where cr: "check_and_record (rate_limiter_field s) (publisher d) now = (al, rl)"
    by (cases "check_and_record (rate_limiter_field s) (publisher d) now")
  show ?thesis
  proof (cases al)
    case False
    then show ?thesis using limited v cr by (simp add: store_descriptor_at_def RATE_LIMIT_PER_MINUTE_def)
  next
    case True
    show ?thesis
    proof (cases "sequences s (dedup_key_of d)")
      case None
      then show ?thesis using accepted v cr True by (simp add: store_descriptor_at_def Let_def)
    next
      case (Some cur)
      show ?thesis
      proof (cases "sequence d < cur")
        case True
        then show ?thesis
          using stale v cr \<open>al\<close> Some by (simp add: store_descriptor_at_def Let_def)
      next
        case False
        show ?thesis
          by (rule accepted)
            (use False v cr \<open>al\<close> Some in \<open>auto simp: store_descriptor_at_def Let_def not_less\<close>)
      qed
    qed
  qed
qed

lemma store_inv_limiter [simp]: "store_inv P (s\<lparr>rate_limiter_field := rl\<rparr>) = store_inv P s"
  by (simp add: store_inv_def)

lemma placed_limiter [simp]:
  "store (placed (s\<lparr>rate_limiter_field := rl\<rparr>) d) = store (placed s d)"
  "sequences (placed (s\<lparr>rate_limiter_field := rl\<rparr>) d) = sequences (placed s d)"
  "revoked (placed s d) = revoked s"
  by (simp_all add: placed_def)

lemma store_at_inv [invariants]:
  assumes "store_inv P s"
  shows "store_inv P (snd (store_descriptor_at P s d now))"
proof (cases rule: store_at_cases [of P d now s])
  case (accepted rl)
  have "authentic P d" "well_formed d" using accepted(1) by (simp_all add: validate_Ok_iff)
  then have "store_inv P (placed (s\<lparr>rate_limiter_field := rl\<rparr>) d)"
    using assms by (intro placed_inv) simp_all
  then show ?thesis unfolding accepted(4) by (rule trimmed_inv [OF store_accepted_trimmed])
qed (simp_all add: assms)

lemma evict_inv [invariants]:
  assumes "store_inv P s"
  shows "store_inv P (evict_expired_at s now)"
  by (rule trimmed_inv [OF _ assms]) (simp add: evict_at)

interpretation mem: descriptor_storage P "store_descriptor_at P" get_descriptors_at evict_expired_at
    descriptor_store_new "store_inv P"
  for P
proof unfold_locales
  show "store_inv P descriptor_store_new"
    by (simp add: store_inv_def descriptor_store_new_def at_def)
  show "store_inv P (snd (store_descriptor_at P s d now))" if "store_inv P s" for s d now
    using that by (rule store_at_inv)
  show "store_inv P (evict_expired_at s now)" if "store_inv P s" for s now
    using that by (rule evict_inv)
  show "store_descriptor_at P s d now = (Err (ValidationFailed (mesh_error_display e)), s)"
    if "validate P d now = Err e" for s d now e
    using that by (simp add: store_descriptor_at_def)
  show "authentic P d \<and> well_formed d \<and> k \<in> set (routing_keys d) \<and> \<not> expired now d \<and>
      filter_matches f d"
    if "store_inv P s" "d \<in> set (get_descriptors_at s k f now)" for s d k f now
    using that by (auto simp: get_at store_inv_def)
qed

subsection \<open>Watermarks and revocations only grow\<close>

definition seq_le :: "descriptor_store \<Rightarrow> descriptor_store \<Rightarrow> bool" where
  "seq_le s s' \<longleftrightarrow> (\<forall>dk n. sequences s dk = Some n \<longrightarrow> (\<exists>m. sequences s' dk = Some m \<and> n \<le> m))"

lemma seq_le_refl [simp]: "seq_le s s"
  by (simp add: seq_le_def)

lemma seq_leD: "seq_le s s' \<Longrightarrow> sequences s dk = Some n \<Longrightarrow> \<exists>m. sequences s' dk = Some m \<and> n \<le> m"
  by (simp add: seq_le_def)

lemma seq_le_trans:
  assumes "seq_le s s'" and "seq_le s' s''"
  shows "seq_le s s''"
  unfolding seq_le_def
proof (intro allI impI)
  fix dk n
  assume "sequences s dk = Some n"
  then obtain m where m: "sequences s' dk = Some m" "n \<le> m" using seq_leD [OF assms(1)] by blast
  then obtain l where "sequences s'' dk = Some l" "m \<le> l" using seq_leD [OF assms(2)] by blast
  then show "\<exists>l. sequences s'' dk = Some l \<and> n \<le> l" using m(2) order_trans by blast
qed

lemma accepted_watermark:
  "sequences (snd (store_accepted P s d)) = (sequences s)(dedup_key_of d \<mapsto> sequence d)"
  "revoked s \<subseteq> revoked (snd (store_accepted P s d))"
  using store_accepted_trimmed [of s d P] by (simp_all add: trimmed_def placed_def)

lemma store_at_seq_le [frame_rules]: "seq_le s (snd (store_descriptor_at P s d now))"
proof (cases rule: store_at_cases [of P d now s])
  case (accepted rl)
  then show ?thesis by (auto simp: seq_le_def accepted_watermark)
qed (simp_all add: seq_le_def)

lemma store_at_revoked [frame_rules]: "revoked s \<subseteq> revoked (snd (store_descriptor_at P s d now))"
proof (cases rule: store_at_cases [of P d now s])
  case (accepted rl)
  then show ?thesis using accepted_watermark(2) [of "s\<lparr>rate_limiter_field := rl\<rparr>" P d] by simp
qed simp_all

abbreviation mem_run :: "prims \<Rightarrow> storage_op list \<Rightarrow> descriptor_store \<Rightarrow> descriptor_store" where
  "mem_run P \<equiv> run_storage (store_descriptor_at P) evict_expired_at"

lemma mem_run_seq_le: "seq_le s (mem_run P ops s)"
proof (rule run_storage_invariant [where I = "seq_le s"])
  show "seq_le s (snd (store_descriptor_at P s' d now))" if "seq_le s s'" for s' d now
    using that store_at_seq_le by (rule seq_le_trans)
qed (simp_all add: evict_at seq_le_def)

lemma mem_run_revoked: "revoked s \<subseteq> revoked (mem_run P ops s)"
proof (rule run_storage_invariant [where I = "\<lambda>s'. revoked s \<subseteq> revoked s'"])
  show "revoked s \<subseteq> revoked (snd (store_descriptor_at P s' d now))" if "revoked s \<subseteq> revoked s'" for s' d now
    using that store_at_revoked by (rule subset_trans)
qed (simp_all add: evict_at)

lemma mem_run_inv: "store_inv P s \<Longrightarrow> store_inv P (mem_run P ops s)"
  by (rule mem.inv_run)

lemma store_at_Ok:
  assumes "fst (store_descriptor_at P s d now) = Ok ()"
  obtains rl where "store_descriptor_at P s d now = store_accepted P (s\<lparr>rate_limiter_field := rl\<rparr>) d"
    and "fst (store_accepted P (s\<lparr>rate_limiter_field := rl\<rparr>) d) = Ok ()"
    and "\<forall>cur. sequences s (dedup_key_of d) = Some cur \<longrightarrow> cur \<le> sequence d"
    and "validate P d now = Ok ()"
  using assms by (cases rule: store_at_cases [of P d now s]) auto

lemma stored_only_new:
  assumes "store_inv P s" and "store_descriptor_at P s d now = store_accepted P (s\<lparr>rate_limiter_field := rl\<rparr>) d"
    and "well_formed d" and "x \<in> stored_in (store (snd (store_descriptor_at P s d now)))"
    and "dedup_key_of x = dedup_key_of d"
  shows "x = d"
proof -
  have "x \<in> stored_in (store (placed (s\<lparr>rate_limiter_field := rl\<rparr>) d))"
    using assms(2,4) store_accepted_trimmed [of "s\<lparr>rate_limiter_field := rl\<rparr>" d P]
    unfolding trimmed_def by auto
  then show ?thesis
    using assms(3,5) by (auto simp: placed_def stored_in_push well_formed_def)
qed

lemma get_stored: "store_inv P s \<Longrightarrow> x \<in> set (get_descriptors_at s k f now) \<Longrightarrow> x \<in> stored_in (store s)"
  by (auto simp: get_at store_inv_def stored_in_at)

subsection \<open>Revocation and rotation\<close>

lemma process_revocation_Ok:
  assumes "fst (process_revocation P s r) = Ok ()"
  obtains v m bs where "cbor_read P (payload r) = Ok v" and "as_map v = Some m"
    and "bytes_field ''target_id'' m = Some bs" and "2 \<le> length bs"
    and "\<lparr>hash_algorithm = hd bs, digest = tl bs\<rparr> \<in> revoked (snd (process_revocation P s r))"
  using assms
  by (auto simp: process_revocation_def Let_def not_less
      split: sum.splits option.splits Option.bind_splits if_splits)

lemma process_key_rotation_revoked [simp]:
  "revoked (snd (process_key_rotation P s r)) = revoked s"
  by (simp add: process_key_rotation_def Let_def split: sum.split option.split)

definition revokes :: "prims \<Rightarrow> descriptor \<Rightarrow> hash \<Rightarrow> bool" where
  "revokes P r t \<longleftrightarrow> schema_hash r = SCHEMA_HASH_CORE_REVOCATION P \<and>
     (\<exists>m. cbor_read P (payload r) = Ok (CMap m) \<and>
       bytes_field ''target_id'' m = Some (hash_algorithm t # digest t) \<and> digest t \<noteq> [])"

lemma revokes_target:
  assumes "revokes P r t"
  shows "process_revocation P s r =
     (case List.find (\<lambda>d. id_hash d = t) (all_values (store s)) of
        Some target \<Rightarrow>
          if publisher r \<noteq> publisher target then
            (Err RevocationPublisherMismatch,
             s\<lparr>store := retain_all (\<lambda>d. id_hash d \<noteq> id_hash r) (store s)\<rparr>)
          else (Ok (), s\<lparr>revoked := insert t (revoked s),
                  store := drop_empty (retain_all (\<lambda>d. id_hash d \<noteq> t) (store s))\<rparr>)
      | None \<Rightarrow> (Ok (), s\<lparr>revoked := insert t (revoked s)\<rparr>))"
  using assms
  by (auto simp: process_revocation_def revokes_def as_map_def Let_def numeral_2_eq_2 less_Suc_eq
      split: option.split)

lemma accepted_revocation:
  assumes "revokes P r t" and "fst (store_accepted P s r) = Ok ()"
  shows "t \<in> revoked (snd (store_accepted P s r))"
proof -
  have sh: "schema_hash r = SCHEMA_HASH_CORE_REVOCATION P" using assms(1) by (simp add: revokes_def)
  obtain res s4 where pr: "process_revocation P (placed s r) r = (res, s4)"
    by (cases "process_revocation P (placed s r) r")
  have sa: "store_accepted P s r = (case res of Err e \<Rightarrow> (Err e, s4)
      | Ok _ \<Rightarrow> if schema_hash r = SCHEMA_HASH_CORE_KEY_ROTATION P then process_key_rotation P s4 r
             else (Ok (), s4))"
    using pr sh by (simp add: store_accepted_def Let_def placed_def)
  then have "res = Ok ()" using assms(2) by (cases res) auto
  then have "t \<in> revoked s4"
    using pr by (auto simp: revokes_target [OF assms(1)] split: option.splits if_splits)
  then show ?thesis by (simp add: sa \<open>res = Ok ()\<close>)
qed

subsection \<open>The sliding window of the rate limiter\<close>

definition in_window :: "nat \<Rightarrow> u64 list \<Rightarrow> nat" where
  "in_window t xs = length (filter (\<lambda>x. t \<le> unat x \<and> unat x < t + 60000000) xs)"

lemma in_window_append [simp]: "in_window t (xs @ ys) = in_window t xs + in_window t ys"
  by (simp add: in_window_def)

lemma in_window_Nil [simp]: "in_window t [] = 0"
  by (simp add: in_window_def)

lemma length_filter_mono:
  "(\<And>x. x \<in> set xs \<Longrightarrow> p x \<Longrightarrow> q x) \<Longrightarrow> length (filter p xs) \<le> length (filter q xs)"
  by (induction xs) (auto simp: le_SucI)

definition entries_of :: "rate_limiter \<Rightarrow> identity \<Rightarrow> u64 list" where
  "entries_of r p = (case timestamps r p of None \<Rightarrow> [] | Some ts \<Rightarrow> ts)"

lemma entries_of_upd [simp]: "entries_of (r\<lparr>timestamps := (timestamps r)(p \<mapsto> xs)\<rparr>) p = xs"
  by (simp add: entries_of_def)

definition recent :: "u64 \<Rightarrow> u64 \<Rightarrow> bool" where
  "recent now ts \<longleftrightarrow> unat now - unat ts < 60000000"

text \<open>\<open>hist\<close> is everything ever recorded for the publisher, \<open>prev\<close> the time of the prev call: what
  the limiter keeps is the recent part of it, and no window holds more than ten.\<close>

definition limiter_inv :: "rate_limiter \<Rightarrow> identity \<Rightarrow> u64 list \<Rightarrow> u64 \<Rightarrow> bool" where
  "limiter_inv r p hist prev \<longleftrightarrow> entries_of r p = filter (recent prev) hist \<and>
     (\<forall>x \<in> set hist. x \<le> prev) \<and> (\<forall>t. in_window t hist \<le> 10)"

lemma check_and_record_other:
  "check_and_record r q now = (ok, r') \<Longrightarrow> q \<noteq> p \<Longrightarrow> entries_of r' p = entries_of r p"
  by (auto simp: check_and_record_def entries_of_def Let_def split: if_splits)

lemma check_and_record_self:
  "check_and_record r p now =
     (let kept = filter (recent now) (entries_of r p)
      in if 10 \<le> length kept then (False, r\<lparr>timestamps := (timestamps r)(p \<mapsto> kept)\<rparr>)
         else (True, r\<lparr>timestamps := (timestamps r)(p \<mapsto> kept @ [now])\<rparr>))"
proof -
  have "sat_sub now ts < RATE_LIMIT_WINDOW_MICROS \<longleftrightarrow> recent now ts" for ts
    by (simp add: recent_def word_less_nat_alt unat_sat_sub RATE_LIMIT_WINDOW_MICROS_def)
  then show ?thesis
    by (simp add: check_and_record_def entries_of_def Let_def RATE_LIMIT_PER_MINUTE_def)
qed

lemma check_and_record_inv:
  assumes inv: "limiter_inv r p hist prev" and "prev \<le> now"
    and cr: "check_and_record r p now = (ok, r')"
  shows "limiter_inv r' p (hist @ (if ok then [now] else [])) now"
proof -
  have le: "x \<le> prev" "unat x \<le> unat prev" "unat prev \<le> unat now" if "x \<in> set hist" for x
    using that inv assms(2) by (simp_all add: limiter_inv_def word_le_nat_alt)
  have "filter (recent now) (filter (recent prev) hist) = filter (recent now) hist"
  proof -
    have "recent prev x" if "x \<in> set hist" "recent now x" for x
      using le [OF that(1)] that(2) unfolding recent_def by linarith
    then show ?thesis by (auto simp: filter_filter intro!: filter_cong)
  qed
  then have kept: "filter (recent now) (entries_of r p) = filter (recent now) hist"
    using inv by (simp add: limiter_inv_def)
  have le_now: "\<forall>x \<in> set hist. x \<le> now" using le assms(2) by (meson order_trans)
  show ?thesis
  proof (cases "10 \<le> length (filter (recent now) hist)")
    case True
    then have "ok = False" "entries_of r' p = filter (recent now) hist"
      using cr by (auto simp: check_and_record_self kept Let_def)
    then show ?thesis using inv le_now by (simp add: limiter_inv_def)
  next
    case False
    then have ok: "ok" "entries_of r' p = filter (recent now) hist @ [now]"
      using cr by (auto simp: check_and_record_self kept Let_def)
    have "in_window t (hist @ [now]) \<le> 10" for t
    proof (cases "t \<le> unat now \<and> unat now < t + 60000000")
      case True
      have "in_window t hist \<le> length (filter (recent now) hist)"
        unfolding in_window_def by (rule length_filter_mono) (use True in \<open>auto simp: recent_def\<close>)
      then show ?thesis using \<open>\<not> 10 \<le> _\<close> by (simp add: in_window_def)
    next
      case False
      then have "in_window t (hist @ [now]) = in_window t hist" by (auto simp: in_window_def)
      then show ?thesis using inv by (simp add: limiter_inv_def)
    qed
    then show ?thesis using ok le_now by (simp add: limiter_inv_def recent_def)
  qed
qed

text \<open>The times of the successful stores of a publisher in a history.\<close>

fun ok_times :: "prims \<Rightarrow> identity \<Rightarrow> storage_op list \<Rightarrow> descriptor_store \<Rightarrow> u64 list" where
  "ok_times P p [] s = []"
| "ok_times P p (Put d now # ops) s =
     (if publisher d = p \<and> fst (store_descriptor_at P s d now) = Ok () then [now] else [])
       @ ok_times P p ops (snd (store_descriptor_at P s d now))"
| "ok_times P p (Evict now # ops) s = ok_times P p ops (evict_expired_at s now)"

lemma store_at_limiter:
  obtains "rate_limiter_field (snd (store_descriptor_at P s d now)) = rate_limiter_field s"
      "fst (store_descriptor_at P s d now) \<noteq> Ok ()"
  | ok rl where "check_and_record (rate_limiter_field s) (publisher d) now = (ok, rl)"
      "rate_limiter_field (snd (store_descriptor_at P s d now)) = rl"
      "fst (store_descriptor_at P s d now) = Ok () \<longrightarrow> ok"
proof (cases rule: store_at_cases [of P d now s])
  case (accepted rl)
  then show ?thesis
    using that(2) store_accepted_trimmed [of "s\<lparr>rate_limiter_field := rl\<rparr>" d P]
    by (simp add: trimmed_def placed_def)
next
  case (limited rl)
  then show ?thesis using that(2) [of False rl] by simp
next
  case (stale rl cur)
  then show ?thesis using that(2) [of True rl] by simp
next
  case (invalid e)
  then show ?thesis using that(1) by simp
qed

lemma ok_times_window:
  assumes "limiter_inv (rate_limiter_field s) p hist prev" and "sorted (map op_time ops)"
    and "\<forall>op \<in> set ops. prev \<le> op_time op" and "\<forall>t. in_window t oks \<le> in_window t hist"
  shows "in_window t (oks @ ok_times P p ops s) \<le> 10"
  using assms
proof (induction ops arbitrary: s hist prev oks)
  case Nil
  then show ?case by (auto simp: limiter_inv_def intro: order_trans)
next
  case (Cons op ops)
  show ?case
  proof (cases op)
    case (Evict now)
    have "in_window t (oks @ ok_times P p ops (evict_expired_at s now)) \<le> 10"
      by (rule Cons.IH [of _ hist prev]) (use Cons.prems in \<open>auto simp: evict_at\<close>)
    then show ?thesis by (simp add: Evict)
  next
    case (Put d now)
    let ?s = "snd (store_descriptor_at P s d now)"
    let ?ok = "fst (store_descriptor_at P s d now) = Ok ()"
    note sorted = Cons.prems(2) [unfolded Put, simplified]
    have prev: "prev \<le> now" using Cons.prems(3) by (simp add: Put)
    show ?thesis
    proof (cases rule: store_at_limiter [of P s d now])
      case 1
      have "in_window t (oks @ ok_times P p ops ?s) \<le> 10"
        by (rule Cons.IH [of _ hist prev]) (use Cons.prems 1 in auto)
      then show ?thesis using 1 by (simp add: Put)
    next
      case (2 ok rl)
      show ?thesis
      proof (cases "publisher d = p")
        case True
        then have inv: "limiter_inv rl p (hist @ (if ok then [now] else [])) now"
          using check_and_record_inv [OF Cons.prems(1) prev] 2(1) by simp
        have "in_window t ((oks @ (if ?ok then [now] else [])) @ ok_times P p ops ?s) \<le> 10"
          by (rule Cons.IH [of ?s "hist @ (if ok then [now] else [])" now])
            (use inv 2 sorted Cons.prems(4) in \<open>auto intro: add_mono trans_le_add1\<close>)
        then show ?thesis using True by (simp add: Put)
      next
        case False
        then have "limiter_inv rl p hist prev"
          using Cons.prems(1) check_and_record_other [OF 2(1) False]
          by (simp add: limiter_inv_def)
        then have "in_window t (oks @ ok_times P p ops ?s) \<le> 10"
          by (intro Cons.IH [of _ hist prev]) (use Cons.prems 2 in auto)
        then show ?thesis using False by (simp add: Put)
      qed
    qed
  qed
qed

subsection \<open>Rotations\<close>

definition rotation_le :: "descriptor_store \<Rightarrow> descriptor_store \<Rightarrow> bool" where
  "rotation_le s s' \<longleftrightarrow> (\<forall>old i n. rotations s old = Some (i, n) \<longrightarrow>
     (\<exists>i' n'. rotations s' old = Some (i', n') \<and> (n < n' \<or> n = n' \<and> i = i')))"

lemma rotation_leD:
  "rotation_le s s' \<Longrightarrow> rotations s old = Some (i, n) \<Longrightarrow>
     \<exists>i' n'. rotations s' old = Some (i', n') \<and> (n < n' \<or> n = n' \<and> i = i')"
  by (simp add: rotation_le_def)

lemma rotation_le_same: "rotations s' = rotations s \<Longrightarrow> rotation_le s s'"
  by (simp add: rotation_le_def)

lemma rotation_le_trans:
  assumes "rotation_le s s'" and "rotation_le s' s''"
  shows "rotation_le s s''"
  unfolding rotation_le_def
proof (intro allI impI)
  fix old i n
  assume "rotations s old = Some (i, n)"
  then obtain i1 n1 where 1: "rotations s' old = Some (i1, n1)" "n < n1 \<or> n = n1 \<and> i = i1"
    using rotation_leD [OF assms(1)] by blast
  then obtain i2 n2 where 2: "rotations s'' old = Some (i2, n2)" "n1 < n2 \<or> n1 = n2 \<and> i1 = i2"
    using rotation_leD [OF assms(2)] by blast
  then have "n < n2 \<or> n = n2 \<and> i = i2" using 1(2) by auto
  with 2(1) show "\<exists>i' n'. rotations s'' old = Some (i', n') \<and> (n < n' \<or> n = n' \<and> i = i')"
    by blast
qed

lemma rotation_le_upd:
  "(\<And>j m. rotations s old = Some (j, m) \<Longrightarrow> m < n \<or> m = n \<and> j = i) \<Longrightarrow>
     rotation_le s (s\<lparr>rotations := (rotations s)(old \<mapsto> (i, n))\<rparr>)"
  by (auto simp: rotation_le_def)

lemma process_key_rotation_le: "rotation_le s (snd (process_key_rotation P s r))"
  by (auto simp: process_key_rotation_def Let_def rotation_le_same not_less order_le_less
      intro!: rotation_le_upd split: sum.split option.split prod.splits)

lemma process_revocation_rotations [simp]:
  "rotations (snd (process_revocation P s r)) = rotations s"
  by (simp add: process_revocation_def Let_def split: sum.split option.split)

lemma store_accepted_alt:
  "store_accepted P s d =
     (case (if schema_hash d = SCHEMA_HASH_CORE_REVOCATION P then process_revocation P (placed s d) d
            else (Ok (), placed s d)) of
        (Err e, s4) \<Rightarrow> (Err e, s4)
      | (Ok _, s4) \<Rightarrow> if schema_hash d = SCHEMA_HASH_CORE_KEY_ROTATION P then process_key_rotation P s4 d
             else (Ok (), s4))"
  by (simp add: store_accepted_def Let_def placed_def split: prod.split sum.split)

lemma placed_rotations [simp]: "rotations (placed s d) = rotations s"
  by (simp add: placed_def)

lemma store_accepted_rotation_le: "rotation_le s (snd (store_accepted P s d))"
proof -
  obtain r4 s4 where r4: "(if schema_hash d = SCHEMA_HASH_CORE_REVOCATION P
      then process_revocation P (placed s d) d else (Ok (), placed s d)) = (r4, s4)"
    by (rule prod.exhaust)
  have "rotations s4 = rotations s"
  proof (cases "schema_hash d = SCHEMA_HASH_CORE_REVOCATION P")
    case True
    then have "s4 = snd (process_revocation P (placed s d) d)" using r4 by simp
    then show ?thesis by simp
  next
    case False
    then show ?thesis using r4 by auto
  qed
  then have le: "rotation_le s s4" by (rule rotation_le_same)
  then have "rotation_le s (snd (process_key_rotation P s4 d))"
    by (rule rotation_le_trans) (rule process_key_rotation_le)
  then show ?thesis using le unfolding store_accepted_alt r4 by (auto split: sum.split)
qed

lemma mem_run_rotation_le: "rotation_le s (mem_run P ops s)"
proof (rule run_storage_invariant [where I = "rotation_le s"])
  show "rotation_le s (snd (store_descriptor_at P s' d now))" if "rotation_le s s'" for s' d now
  proof (rule rotation_le_trans [OF that])
    show "rotation_le s' (snd (store_descriptor_at P s' d now))"
    proof (cases rule: store_at_cases [of P d now s'])
      case (accepted rl)
      then show ?thesis
        using store_accepted_rotation_le [of "s'\<lparr>rate_limiter_field := rl\<rparr>" P d]
        by (simp add: rotation_le_def)
    qed (simp_all add: rotation_le_same)
  qed
qed (simp_all add: evict_at rotation_le_def)

lemma revocation_in_advance:
  assumes "revokes P r t" and "\<forall>y \<in> stored_in (store s). id_hash y \<noteq> t" and "id_hash r \<noteq> t"
    and "validate P r now = Ok ()" and "timestamps (rate_limiter_field s) (publisher r) = None"
    and "sequences s (dedup_key_of r) = None"
    and "schema_hash r \<noteq> SCHEMA_HASH_CORE_KEY_ROTATION P"
  shows "\<exists>s'. store_descriptor_at P s r now = (Ok (), s') \<and> t \<in> revoked s'"
proof -
  have cr: "\<exists>rl. check_and_record (rate_limiter_field s) (publisher r) now = (True, rl)"
    using assms(5) by (simp add: check_and_record_def Let_def RATE_LIMIT_PER_MINUTE_def)
  have ne: "routing_keys r \<noteq> []" using assms(4) by (simp add: validate_Ok_iff well_formed_def)
  obtain rl where sa: "store_descriptor_at P s r now = store_accepted P (s\<lparr>rate_limiter_field := rl\<rparr>) r"
    using cr assms(4,6) by (cases rule: store_at_cases [of P r now s]) auto
  let ?s = "placed (s\<lparr>rate_limiter_field := rl\<rparr>) r"
  have "\<forall>y \<in> stored_in (store ?s). id_hash y \<noteq> t"
    using assms(2,3) ne by (auto simp: placed_def stored_in_push)
  then have "List.find (\<lambda>d. id_hash d = t) (all_values (store ?s)) = None"
    by (simp add: find_None_iff)
  then have "process_revocation P ?s r = (Ok (), ?s\<lparr>revoked := insert t (revoked ?s)\<rparr>)"
    by (simp add: revokes_target [OF assms(1)])
  then have "store_descriptor_at P s r now = (Ok (), ?s\<lparr>revoked := insert t (revoked ?s)\<rparr>)"
    using assms(1,7) sa by (simp add: store_accepted_alt revokes_def)
  then show ?thesis by auto
qed

subsection \<open>Properties\<close>

lemma watermark_blocks:
  assumes "sequences s (dedup_key_of x) = Some n" and "sequence x < n"
  shows "fst (store_descriptor_at P s x now) \<noteq> Ok ()"
proof
  assume "fst (store_descriptor_at P s x now) = Ok ()"
  then obtain rl where "\<forall>cur. sequences s (dedup_key_of x) = Some cur \<longrightarrow> cur \<le> sequence x"
    by (rule store_at_Ok)
  then show False using assms by simp
qed

text \<open>C2. Whatever calls the store has seen, everything it answers under a key was signed by its
  publisher over its content, satisfies the limits, lists that key, has not expired, passes the
  filters and has not been revoked.\<close>

theorem mem_answers_valid:
  assumes "d \<in> set (get_descriptors_at (mem_run P ops descriptor_store_new) k f now)"
  shows "authentic P d \<and> well_formed d \<and> k \<in> set (routing_keys d) \<and> \<not> expired now d \<and>
     filter_matches f d \<and> id_hash d \<notin> revoked (mem_run P ops descriptor_store_new)"
  using mem.answers_valid [OF assms] assms by (auto simp: get_at)

text \<open>C15. Replay protection: once a descriptor has been stored, it is the only one of its slot
  (publisher, schema, topic) that is served, and an older one never comes back: no later history
  accepts or serves a smaller sequence of the slot, whether or not the newer one has expired or
  been evicted meanwhile.\<close>

theorem mem_replay_protection:
  assumes "store_descriptor_at P (mem_run P ops descriptor_store_new) d now = (Ok (), s')"
    and "dedup_key_of x = dedup_key_of d"
  shows "(x \<in> set (get_descriptors_at s' k f t) \<longrightarrow> x = d) \<and>
     (sequence x < sequence d \<longrightarrow>
        fst (store_descriptor_at P (mem_run P later s') x t) \<noteq> Ok () \<and>
        x \<notin> set (get_descriptors_at (mem_run P later s') k f t))"
proof -
  let ?s = "mem_run P ops descriptor_store_new"
  have inv: "store_inv P ?s" by (rule mem.inv_history)
  have inv': "store_inv P s'" using store_at_inv [OF inv, of d now] assms(1) by simp
  have s': "s' = snd (store_descriptor_at P ?s d now)" using assms(1) by simp
  have "fst (store_descriptor_at P ?s d now) = Ok ()" using assms(1) by simp
  then obtain rl where rl: "store_descriptor_at P ?s d now = store_accepted P (?s\<lparr>rate_limiter_field := rl\<rparr>) d"
    and v: "validate P d now = Ok ()" by (rule store_at_Ok)
  have wf: "well_formed d" using v by (simp add: validate_Ok_iff)
  have "x = d" if "x \<in> set (get_descriptors_at s' k f t)"
    using stored_only_new [OF inv rl wf _ assms(2)] get_stored [OF inv' that] by (simp add: s')
  moreover
  have "sequences s' (dedup_key_of d) = Some (sequence d)"
    using rl s' by (simp add: accepted_watermark)
  then obtain m where m: "sequences (mem_run P later s') (dedup_key_of x) = Some m" "sequence d \<le> m"
    using seq_leD [OF mem_run_seq_le] assms(2) by metis
  have "fst (store_descriptor_at P (mem_run P later s') x t) \<noteq> Ok ()"
    if "sequence x < sequence d"
    using watermark_blocks [OF m(1)] m(2) that by simp
  moreover have "x \<notin> set (get_descriptors_at (mem_run P later s') k f t)"
    if "sequence x < sequence d"
  proof
    assume "x \<in> set (get_descriptors_at (mem_run P later s') k f t)"
    then have "x \<in> stored_in (store (mem_run P later s'))"
      by (rule get_stored [OF mem_run_inv [OF inv']])
    then have "sequences (mem_run P later s') (dedup_key_of x) = Some (sequence x)"
      using mem_run_inv [OF inv'] by (simp add: store_inv_def)
    then show False using m that by simp
  qed
  ultimately show ?thesis by blast
qed

lemma put_get:
  assumes "store_descriptor_at P s d now = (Ok (), s')"
    and "schema_hash d \<noteq> SCHEMA_HASH_CORE_REVOCATION P" and "schema_hash d \<noteq> SCHEMA_HASH_CORE_KEY_ROTATION P"
    and "k \<in> set (routing_keys d)" and "id_hash d \<notin> revoked s" and "\<not> expired t d" and "filter_matches f d"
  shows "d \<in> set (get_descriptors_at s' k f t)"
proof -
  have "fst (store_descriptor_at P s d now) = Ok ()" using assms(1) by simp
  then obtain rl where "store_descriptor_at P s d now = store_accepted P (s\<lparr>rate_limiter_field := rl\<rparr>) d"
    by (rule store_at_Ok)
  then have s': "s' = placed (s\<lparr>rate_limiter_field := rl\<rparr>) d"
    using assms(1-3) by (simp add: store_accepted_alt)
  have "d \<in> set (at (store s') k)"
    using assms(4) by (simp add: s' placed_def at_push count_list_0_iff)
  then show ?thesis using assms(5-7) by (simp add: get_at s')
qed

text \<open>C39. A conflicting update is taken in: a valid descriptor of a slot (publisher, schema, topic) whose
  sequence equals that of the stored one, but which differs from it, replaces it - the stored one is
  not served any more, the new one is - unless the rate limit is reached. PROTOCOL.md (2.2, step 8)
  says that such a conflicting update is rejected. (Not a revocation or a key rotation; the id of the
  new one not revoked.)\<close>

theorem conflicting_update_replaces:
  assumes "store_descriptor_at P (mem_run P ops descriptor_store_new) d now = (Ok (), s)"
    and "validate P e now' = Ok ()" and "dedup_key_of e = dedup_key_of d" and "sequence e = sequence d" and "e \<noteq> d"
    and "fst (check_and_record (rate_limiter_field s) (publisher e) now')"
    and "schema_hash e \<noteq> SCHEMA_HASH_CORE_REVOCATION P" and "schema_hash e \<noteq> SCHEMA_HASH_CORE_KEY_ROTATION P"
    and "id_hash e \<notin> revoked s"
  shows "\<exists>s'. store_descriptor_at P s e now' = (Ok (), s') \<and> (\<forall>k f t. d \<notin> set (get_descriptors_at s' k f t)) \<and>
     (\<forall>k f t. k \<in> set (routing_keys e) \<longrightarrow> \<not> expired t e \<longrightarrow> filter_matches f e \<longrightarrow>
        e \<in> set (get_descriptors_at s' k f t))"
proof -
  let ?s0 = "mem_run P ops descriptor_store_new"
  have inv: "store_inv P s" using store_at_inv [OF mem.inv_history, of P ops d now] assms(1) by simp
  have "fst (store_descriptor_at P ?s0 d now) = Ok ()" using assms(1) by simp
  then obtain rl0 where "store_descriptor_at P ?s0 d now = store_accepted P (?s0\<lparr>rate_limiter_field := rl0\<rparr>) d"
    by (rule store_at_Ok)
  moreover have "s = snd (store_descriptor_at P ?s0 d now)" using assms(1) by simp
  ultimately have "sequences s (dedup_key_of d) = Some (sequence d)" by (simp add: accepted_watermark)
  then have seq: "sequences s (dedup_key_of e) = Some (sequence e)" using assms(3,4) by simp
  obtain rl where rl: "check_and_record (rate_limiter_field s) (publisher e) now' = (True, rl)"
    using assms(6) by (cases "check_and_record (rate_limiter_field s) (publisher e) now'") simp
  have acc: "store_descriptor_at P s e now' = store_accepted P (s\<lparr>rate_limiter_field := rl\<rparr>) e"
    using assms(2) rl seq by (cases rule: store_at_cases [of P e now' s]) auto
  let ?s' = "placed (s\<lparr>rate_limiter_field := rl\<rparr>) e"
  have ok: "store_descriptor_at P s e now' = (Ok (), ?s')" using acc assms(7,8) by (simp add: store_accepted_alt)
  have "well_formed e" using assms(2) by (simp add: validate_Ok_iff)
  then have "x = e" if "x \<in> stored_in (store ?s')" "dedup_key_of x = dedup_key_of e" for x
    using stored_only_new [OF inv acc _ _ that(2)] that(1) ok by simp
  moreover have "store_inv P ?s'" using store_at_inv [OF inv, of e now'] ok by simp
  ultimately have "d \<notin> set (get_descriptors_at ?s' k f t)" for k f t
    using get_stored [of P ?s' d k f t] assms(3,5) by auto
  moreover have "e \<in> set (get_descriptors_at ?s' k f t)"
    if "k \<in> set (routing_keys e)" "\<not> expired t e" "filter_matches f e" for k f t
    using put_get [OF ok assms(7,8) that(1) assms(9) that(2,3)] .
  ultimately show ?thesis using ok by blast
qed

text \<open>A stored descriptor is found: after a successful store, every lookup under any of its
  routing keys returns it for as long as it has not expired, also after evictions, unless its id
  had been revoked or the filters exclude it. (Revocation and key-rotation descriptors, whose
  processing may take descriptors out again, apart.)\<close>

theorem mem_store_then_get:
  assumes "store_descriptor_at P (mem_run P ops descriptor_store_new) d now = (Ok (), s')"
    and "schema_hash d \<noteq> SCHEMA_HASH_CORE_REVOCATION P" and "schema_hash d \<noteq> SCHEMA_HASH_CORE_KEY_ROTATION P"
    and "k \<in> set (routing_keys d)" and "\<not> expired t d" and "filter_matches f d"
    and "id_hash d \<notin> revoked (mem_run P ops descriptor_store_new)"
    and "sane_clock t" and "ev \<le> t"
  shows "d \<in> set (get_descriptors_at s' k f t) \<and>
     d \<in> set (get_descriptors_at (evict_expired_at s' ev) k f t)"
proof -
  let ?s = "mem_run P ops descriptor_store_new"
  have "fst (store_descriptor_at P ?s d now) = Ok ()" using assms(1) by simp
  then obtain rl where rl: "store_descriptor_at P ?s d now = store_accepted P (?s\<lparr>rate_limiter_field := rl\<rparr>) d"
    by (rule store_at_Ok)
  then have s': "s' = placed (?s\<lparr>rate_limiter_field := rl\<rparr>) d"
    using assms(1-3) by (simp add: store_accepted_alt)
  have "store_inv P ?s" by (rule mem.inv_history)
  then have kd: "keys_distinct (store s')" by (simp add: s' placed_def store_inv_def)
  have "\<not> expired ev d" using expired_mono [OF _ assms(9,8)] assms(5) by blast
  moreover have "d \<in> set (at (store s') k)"
    using assms(4) by (simp add: s' placed_def at_push count_list_0_iff)
  ultimately show ?thesis
    using assms(5-7) kd by (simp add: get_at evict_at s' keys_distinct_simps)
qed

text \<open>Revocation is permanent: after an accepted revocation no later history of the store ever
  serves a descriptor with the revoked id, from whatever publisher.\<close>

theorem mem_revocation_permanent:
  assumes "revokes P r t" and "store_descriptor_at P s r now = (Ok (), s')"
  shows "\<forall>d \<in> set (get_descriptors_at (mem_run P later s') k f tm). id_hash d \<noteq> t"
proof -
  have "fst (store_descriptor_at P s r now) = Ok ()" using assms(2) by simp
  then obtain rl where rl: "store_descriptor_at P s r now = store_accepted P (s\<lparr>rate_limiter_field := rl\<rparr>) r"
    and "fst (store_accepted P (s\<lparr>rate_limiter_field := rl\<rparr>) r) = Ok ()" by (rule store_at_Ok)
  then have "t \<in> revoked s'" using accepted_revocation [OF assms(1)] assms(2) by (metis snd_conv)
  then have "t \<in> revoked (mem_run P later s')" using mem_run_revoked by blast
  then show ?thesis by (auto simp: get_at)
qed

text \<open>A stored descriptor can be revoked by its publisher only: a revocation signed by someone
  else is refused and revokes nothing.\<close>

theorem mem_revocation_needs_publisher:
  assumes "revokes P r t" and "x \<in> stored_in (store s)" and "id_hash x = t"
    and "\<forall>y \<in> stored_in (store s). id_hash y = t \<longrightarrow> publisher y \<noteq> publisher r" and "id_hash r \<noteq> t"
    and "routing_keys r \<noteq> []"
  shows "fst (store_descriptor_at P s r now) \<noteq> Ok () \<and>
     revoked (snd (store_descriptor_at P s r now)) = revoked s"
proof (cases rule: store_at_cases [of P r now s])
  case (accepted rl)
  let ?s = "placed (s\<lparr>rate_limiter_field := rl\<rparr>) r"
  have st: "stored_in (store ?s) = insert r {y \<in> stored_in (store s). dedup_key_of y \<noteq> dedup_key_of r}"
    using assms(6) by (simp add: placed_def stored_in_push)
  have "dedup_key_of x \<noteq> dedup_key_of r" using assms(2-4) by (auto simp: dedup_key_of_def)
  then have "x \<in> stored_in (store ?s)" using assms(2) st by simp
  then obtain y where y: "List.find (\<lambda>d. id_hash d = t) (all_values (store ?s)) = Some y"
    using assms(3) by (cases "List.find (\<lambda>d. id_hash d = t) (all_values (store ?s))")
      (auto simp: find_None_iff)
  then have "y \<in> stored_in (store ?s)" "id_hash y = t"
    by (auto simp: find_Some_iff set_all_values [symmetric] simp del: set_all_values)
  then have "publisher r \<noteq> publisher y" using assms(4,5) st by auto
  then have "process_revocation P ?s r =
      (Err RevocationPublisherMismatch, ?s\<lparr>store := retain_all (\<lambda>d. id_hash d \<noteq> id_hash r) (store ?s)\<rparr>)"
    using y by (simp add: revokes_target [OF assms(1)])
  then show ?thesis using assms(1) accepted(4) by (simp add: store_accepted_alt revokes_def)
qed simp_all

text \<open>An id that is not (or not yet) stored can be revoked by anyone: the publisher check is
  skipped, and when the descriptor arrives later it is accepted but never served. So whoever
  learns an id before a node has stored the descriptor can suppress it there for good.\<close>

theorem mem_anyone_can_revoke_in_advance:
  assumes "revokes P r t" and "\<forall>y \<in> stored_in (store s). id_hash y \<noteq> t" and "id_hash r \<noteq> t"
    and "validate P r now = Ok ()" and "timestamps (rate_limiter_field s) (publisher r) = None"
    and "sequences s (dedup_key_of r) = None"
    and "schema_hash r \<noteq> SCHEMA_HASH_CORE_KEY_ROTATION P"
  shows "\<exists>s'. store_descriptor_at P s r now = (Ok (), s') \<and>
     (\<forall>later k f tm. \<forall>d \<in> set (get_descriptors_at (mem_run P later s') k f tm). id_hash d \<noteq> t)"
proof -
  obtain s' where "store_descriptor_at P s r now = (Ok (), s')" "t \<in> revoked s'"
    using revocation_in_advance [OF assms] by blast
  then show ?thesis using mem_run_revoked [of s' P] by (intro exI conjI) (auto simp: get_at)
qed

text \<open>Rate limit: in a history with a clock that does not run backwards, no 60-second window
  contains more than ten successful stores of one publisher.\<close>

theorem mem_rate_limit:
  assumes "sorted (map op_time ops)"
  shows "length (filter (\<lambda>x. t \<le> unat x \<and> unat x < t + 60000000)
     (ok_times P p ops descriptor_store_new)) \<le> 10"
proof -
  have "limiter_inv (rate_limiter_field descriptor_store_new) p [] 0"
    by (simp add: limiter_inv_def descriptor_store_new_def entries_of_def)
  from ok_times_window [OF this assms, of "[]" t P] show ?thesis by (simp add: in_window_def)
qed

text \<open>Rotations are monotone: the recorded successor of an identity changes only to one with a
  larger rotation sequence, never between two successors of one sequence.\<close>

theorem mem_rotation_no_fork:
  assumes "rotations s old = Some (i, n)"
  shows "\<exists>i' n'. rotations (mem_run P ops s) old = Some (i', n') \<and> (n < n' \<or> n = n' \<and> i' = i)"
  using rotation_leD [OF mem_run_rotation_le assms, of P ops] by blast

text \<open>Anyone can declare anyone's successor: \<open>process_key_rotation\<close> never compares the
  rotation's publisher with the old identity, so a stranger's descriptor that names a victim and
  a larger sequence redirects the victim's identity.\<close>

theorem mem_anyone_can_rotate:
  assumes "schema_hash r = SCHEMA_HASH_CORE_KEY_ROTATION P" and "schema_hash r \<noteq> SCHEMA_HASH_CORE_REVOCATION P"
    and "cbor_read P (payload r) = Ok (CMap m)" and "bytes_field ''old_identity'' m = Some old"
    and "bytes_field ''new_identity'' m = Some (a # b # key)" and "u64_field ''rotation_seq'' m = Some n"
    and "\<forall>i c. rotations s old = Some (i, c) \<longrightarrow> c < n"
    and "validate P r now = Ok ()" and "timestamps (rate_limiter_field s) (publisher r) = None"
    and "sequences s (dedup_key_of r) = None"
  shows "\<exists>s'. store_descriptor_at P s r now = (Ok (), s') \<and>
     rotations s' old = Some (\<lparr>id_algorithm = a, public_key = b # key\<rparr>, n)"
proof -
  have "\<exists>rl. check_and_record (rate_limiter_field s) (publisher r) now = (True, rl)"
    using assms(9) by (simp add: check_and_record_def Let_def RATE_LIMIT_PER_MINUTE_def)
  then obtain rl where sa: "store_descriptor_at P s r now = store_accepted P (s\<lparr>rate_limiter_field := rl\<rparr>) r"
    using assms(8,10) by (cases rule: store_at_cases [of P r now s]) auto
  let ?s = "placed (s\<lparr>rate_limiter_field := rl\<rparr>) r"
  have "process_key_rotation P ?s r = (Ok (), ?s\<lparr>rotations := (rotations ?s)(old \<mapsto>
      (\<lparr>id_algorithm = a, public_key = b # key\<rparr>, n))\<rparr>)"
    using assms(3-7) by (auto simp: process_key_rotation_def as_map_def Let_def split: option.split)
  then show ?thesis using sa assms(1,2) by (simp add: store_accepted_alt)
qed

subsection \<open>Witnesses\<close>

definition demo_desc :: "u64 \<Rightarrow> u64 \<Rightarrow> descriptor" where
  "demo_desc sq ts = create pad_prims \<lparr>signing_key = [1]\<rparr> \<lparr>hash_algorithm = 9, digest = []\<rparr> ''t'' [5]
     ts sq 60 [zero_id]"

definition demo_revocation :: descriptor where
  "demo_revocation = create pad_prims \<lparr>signing_key = [2]\<rparr> (SCHEMA_HASH_CORE_REVOCATION pad_prims)
     ''r'' [1] 1000 1 60 [zero_id]"

lemma demo_desc_sel [simp]:
  "schema_hash (demo_desc sq ts) = \<lparr>hash_algorithm = 9, digest = []\<rparr>" "sequence (demo_desc sq ts) = sq"
  "routing_keys (demo_desc sq ts) = [zero_id]" "timestamp (demo_desc sq ts) = ts"
  "ttl (demo_desc sq ts) = 60"
  by (simp_all add: demo_desc_def)

lemma demo_dedup: "dedup_key_of (demo_desc sq ts) = dedup_key_of (demo_desc sq' ts')"
  by (simp add: demo_desc_def dedup_key_of_def)

lemma demo_desc_valid [simp]: "validate pad_prims (demo_desc sq 1000) 2000 = Ok ()"
  unfolding demo_desc_def
  by (subst validate_create) (simp_all add: well_formed_def limit_defs MAX_CLOCK_SKEW_SECS_def
      ttl_micros_def)

lemma demo_schema_ne [simp]:
  "\<lparr>hash_algorithm = 9, digest = []\<rparr> \<noteq> SCHEMA_HASH_CORE_REVOCATION P"
  "\<lparr>hash_algorithm = 9, digest = []\<rparr> \<noteq> SCHEMA_HASH_CORE_KEY_ROTATION P"
  by (simp_all add: SCHEMA_HASH_CORE_REVOCATION_def SCHEMA_HASH_CORE_KEY_ROTATION_def schema_hash_of_def
      hash_blake3_def ALG_BLAKE3_def)

lemma demo_put:
  "\<exists>s'. store_descriptor_at pad_prims descriptor_store_new (demo_desc sq 1000) 2000 = (Ok (), s')"
  by (simp add: store_descriptor_at_def check_and_record_def descriptor_store_new_def Let_def
      RATE_LIMIT_PER_MINUTE_def store_accepted_alt)

lemma mem_store_then_get_witness:
  "\<exists>s'. store_descriptor_at pad_prims descriptor_store_new (demo_desc 7 1000) 2000 = (Ok (), s') \<and>
     demo_desc 7 1000 \<in> set (get_descriptors_at s' zero_id None 3000)"
proof -
  obtain s' where s': "store_descriptor_at pad_prims (mem_run pad_prims [] descriptor_store_new)
      (demo_desc 7 1000) 2000 = (Ok (), s')"
    using demo_put by auto
  have "\<not> expired 3000 (demo_desc 7 1000)" by (simp add: expired_unat sane_clock_def)
  then have "demo_desc 7 1000 \<in> set (get_descriptors_at s' zero_id None 3000)"
    using mem_store_then_get [OF s', of zero_id 3000 None 2500]
    by (simp add: sane_clock_def descriptor_store_new_def)
  then show ?thesis using s' by simp
qed

text \<open>The same with another time to live, and hence another id.\<close>

definition demo_conflict :: descriptor where
  "demo_conflict = create pad_prims \<lparr>signing_key = [1]\<rparr> \<lparr>hash_algorithm = 9, digest = []\<rparr> ''t'' [5] 1000 7 61 [zero_id]"

lemma conflicting_update_replaces_witness:
  "\<exists>s s'. store_descriptor_at pad_prims descriptor_store_new (demo_desc 7 1000) 2000 = (Ok (), s) \<and>
     store_descriptor_at pad_prims s demo_conflict 3000 = (Ok (), s') \<and> sequence demo_conflict = sequence (demo_desc 7 1000) \<and>
     demo_desc 7 1000 \<notin> set (get_descriptors_at s' zero_id None 4000) \<and>
     demo_conflict \<in> set (get_descriptors_at s' zero_id None 4000)"
proof -
  obtain s where s: "store_descriptor_at pad_prims (mem_run pad_prims [] descriptor_store_new) (demo_desc 7 1000) 2000 = (Ok (), s)"
    using demo_put by auto
  have v: "validate pad_prims demo_conflict 3000 = Ok ()"
    unfolding demo_conflict_def
    by (subst validate_create) (simp_all add: well_formed_def limit_defs MAX_CLOCK_SKEW_SECS_def ttl_micros_def)
  have sel: "sequence demo_conflict = 7" "routing_keys demo_conflict = [zero_id]" "ttl demo_conflict = 61"
    "timestamp demo_conflict = 1000" "schema_hash demo_conflict = \<lparr>hash_algorithm = 9, digest = []\<rparr>"
    "dedup_key_of demo_conflict = dedup_key_of (demo_desc 7 1000)"
    by (simp_all add: demo_conflict_def demo_desc_def dedup_key_of_def)
  have "ttl demo_conflict \<noteq> ttl (demo_desc 7 1000)" by (simp add: sel)
  then have ne: "demo_conflict \<noteq> demo_desc 7 1000" by metis
  have r: "revoked s = {}" and rl: "rate_limiter_field s = \<lparr>timestamps = [publisher (demo_desc 7 1000) \<mapsto> [2000]]\<rparr>"
    using s by (auto simp: store_descriptor_at_def check_and_record_def descriptor_store_new_def Let_def
        RATE_LIMIT_PER_MINUTE_def store_accepted_alt placed_def)
  have l: "fst (check_and_record (rate_limiter_field s) (publisher demo_conflict) 3000)"
    by (simp add: rl check_and_record_self entries_of_def)
  have "\<not> expired 4000 demo_conflict" by (simp add: expired_unat sane_clock_def sel)
  moreover obtain s' where "store_descriptor_at pad_prims s demo_conflict 3000 = (Ok (), s')"
    "demo_desc 7 1000 \<notin> set (get_descriptors_at s' zero_id None 4000)"
    "\<not> expired 4000 demo_conflict \<Longrightarrow> filter_matches None demo_conflict \<Longrightarrow>
       demo_conflict \<in> set (get_descriptors_at s' zero_id None 4000)"
    using conflicting_update_replaces [OF s v sel(6) _ ne l] by (auto simp: sel r)
  moreover have "filter_matches None demo_conflict" by (simp add: filter_matches_def)
  ultimately show ?thesis using s sel(1) by auto
qed

lemma mem_answers_valid_witness:
  "\<exists>d. d \<in> set (get_descriptors_at
       (mem_run pad_prims [Put (demo_desc 7 1000) 2000] descriptor_store_new) zero_id None 3000) \<and>
     authentic pad_prims d"
proof -
  obtain s' where s': "store_descriptor_at pad_prims descriptor_store_new (demo_desc 7 1000) 2000 = (Ok (), s')"
    "demo_desc 7 1000 \<in> set (get_descriptors_at s' zero_id None 3000)"
    using demo_put [of 7] by (auto simp: store_descriptor_at_def check_and_record_def
        descriptor_store_new_def Let_def RATE_LIMIT_PER_MINUTE_def store_accepted_alt get_at placed_def
        expired_unat sane_clock_def)
  then have g: "demo_desc 7 1000 \<in> set (get_descriptors_at
      (mem_run pad_prims [Put (demo_desc 7 1000) 2000] descriptor_store_new) zero_id None 3000)" by simp
  from mem_answers_valid [OF g] g show ?thesis by blast
qed

lemma mem_replay_protection_witness:
  "\<exists>s'. store_descriptor_at pad_prims descriptor_store_new (demo_desc 7 1000) 2000 = (Ok (), s') \<and>
     fst (store_descriptor_at pad_prims s' (demo_desc 3 1000) 2000) \<noteq> Ok ()"
proof -
  obtain s' where s': "store_descriptor_at pad_prims (mem_run pad_prims [] descriptor_store_new)
      (demo_desc 7 1000) 2000 = (Ok (), s')"
    using demo_put by auto
  have "dedup_key_of (demo_desc 3 1000) = dedup_key_of (demo_desc 7 1000)" by (rule demo_dedup)
  from mem_replay_protection [OF s' this, of zero_id None 2000 "[]"] s' show ?thesis by simp
qed

lemma demo_revocation_revokes [simp]:
  "revokes pad_prims demo_revocation \<lparr>hash_algorithm = 3, digest = [7]\<rparr>"
  by (simp add: revokes_def demo_revocation_def demo_prims_def bytes_field_def as_text_def value_bytes_def)

lemma demo_revocation_valid [simp]: "validate pad_prims demo_revocation 2000 = Ok ()"
  unfolding demo_revocation_def
  by (subst validate_create) (simp_all add: well_formed_def limit_defs MAX_CLOCK_SKEW_SECS_def
      ttl_micros_def)

lemma demo_revocation_id [simp]: "id_hash demo_revocation \<noteq> \<lparr>hash_algorithm = 3, digest = [7]\<rparr>"
proof -
  have "length (digest (id_hash demo_revocation)) = 32"
    by (simp add: demo_revocation_def create_def Let_def compute_id_def)
  then show ?thesis by auto
qed


lemma demo_put_revocation:
  "\<exists>s'. store_descriptor_at pad_prims descriptor_store_new demo_revocation 2000 = (Ok (), s')"
proof -
  have "stored_in (store descriptor_store_new) = {}" by (simp add: descriptor_store_new_def)
  moreover have "schema_hash demo_revocation \<noteq> SCHEMA_HASH_CORE_KEY_ROTATION pad_prims"
    by (simp add: demo_revocation_def)
  ultimately show ?thesis
    using revocation_in_advance [OF demo_revocation_revokes, of descriptor_store_new 2000]
    by (auto simp: descriptor_store_new_def)
qed

lemma mem_revocation_permanent_witness:
  "\<exists>s'. store_descriptor_at pad_prims descriptor_store_new demo_revocation 2000 = (Ok (), s') \<and>
     (\<forall>d \<in> set (get_descriptors_at s' zero_id None 3000). id_hash d \<noteq> \<lparr>hash_algorithm = 3, digest = [7]\<rparr>)"
proof -
  obtain s' where s': "store_descriptor_at pad_prims descriptor_store_new demo_revocation 2000 = (Ok (), s')"
    using demo_put_revocation by blast
  from mem_revocation_permanent [OF demo_revocation_revokes s', of "[]" zero_id None 3000] s'
  show ?thesis by simp
qed

lemma mem_anyone_can_revoke_in_advance_witness:
  "\<exists>s'. store_descriptor_at pad_prims descriptor_store_new demo_revocation 2000 = (Ok (), s') \<and>
     (\<forall>d \<in> set (get_descriptors_at (mem_run pad_prims [Put (demo_desc 7 1000) 2500] s') zero_id None 3000).
        id_hash d \<noteq> \<lparr>hash_algorithm = 3, digest = [7]\<rparr>)"
proof -
  have "\<forall>y \<in> stored_in (store descriptor_store_new). id_hash y \<noteq> \<lparr>hash_algorithm = 3, digest = [7]\<rparr>"
    by (simp add: descriptor_store_new_def)
  moreover have "schema_hash demo_revocation \<noteq> SCHEMA_HASH_CORE_KEY_ROTATION pad_prims"
    by (simp add: demo_revocation_def)
  ultimately show ?thesis
    using mem_anyone_can_revoke_in_advance [OF demo_revocation_revokes _ demo_revocation_id
        demo_revocation_valid, of descriptor_store_new]
    by (fastforce simp: descriptor_store_new_def)
qed

lemma mem_revocation_needs_publisher_witness:
  "fst (store_descriptor_at pad_prims (descriptor_store_new\<lparr>store :=
     [(zero_id, [(demo_desc 7 1000)\<lparr>id_hash := \<lparr>hash_algorithm = 3, digest = [7]\<rparr>\<rparr>])]\<rparr>) demo_revocation 2000) \<noteq> Ok ()"
proof (rule mem_revocation_needs_publisher [THEN conjunct1, OF demo_revocation_revokes])
  let ?x = "(demo_desc 7 1000)\<lparr>id_hash := \<lparr>hash_algorithm = 3, digest = [7]\<rparr>\<rparr>"
  let ?s = "descriptor_store_new\<lparr>store := [(zero_id, [?x])]\<rparr>"
  have "pad_digest [1] ! 0 \<noteq> pad_digest [2] ! 0" by (simp add: pad_digest_def)
  then have ne: "pad_digest [1] \<noteq> pad_digest [2]" by metis
  have st: "stored_in (store ?s) = {?x}" by (simp add: stored_in_def)
  then show "?x \<in> stored_in (store ?s)" by blast
  show "\<forall>y \<in> stored_in (store ?s). id_hash y = \<lparr>hash_algorithm = 3, digest = [7]\<rparr> \<longrightarrow>
      publisher y \<noteq> publisher demo_revocation"
    unfolding st by (simp add: demo_desc_def demo_revocation_def keypair_identity_def ne)
  show "routing_keys demo_revocation \<noteq> []" by (simp add: demo_revocation_def)
qed simp_all

lemma mem_rate_limit_witness:
  "length (filter (\<lambda>x. 0 \<le> unat x \<and> unat x < 0 + 60000000)
     (ok_times pad_prims (publisher (demo_desc 7 1000))
        [Put (demo_desc 7 1000) 2000, Evict 3000, Put (demo_desc 8 1000) 3000] descriptor_store_new)) \<le> 10"
  by (rule mem_rate_limit) simp

lemma mem_rotation_no_fork_witness:
  "\<exists>i n. rotations (mem_run pad_prims [Put (demo_desc 7 1000) 2000]
       (descriptor_store_new\<lparr>rotations := [[1] \<mapsto> (short_identity 4, 3)]\<rparr>)) [1] = Some (i, n) \<and> 3 \<le> n"
proof -
  have "rotations (descriptor_store_new\<lparr>rotations := [[1] \<mapsto> (short_identity 4, 3)]\<rparr>) [1] =
      Some (short_identity 4, 3)" by simp
  from mem_rotation_no_fork [OF this, of pad_prims "[Put (demo_desc 7 1000) 2000]"]
  show ?thesis by fastforce
qed

definition demo_rotation :: descriptor where
  "demo_rotation = create pad_prims \<lparr>signing_key = [2]\<rparr> (SCHEMA_HASH_CORE_KEY_ROTATION pad_prims)
     ''k'' [2] 1000 1 60 [zero_id]"

lemma demo_rotation_valid [simp]: "validate pad_prims demo_rotation 2000 = Ok ()"
  unfolding demo_rotation_def
  by (subst validate_create) (simp_all add: well_formed_def limit_defs MAX_CLOCK_SKEW_SECS_def
      ttl_micros_def)

lemma mem_anyone_can_rotate_witness:
  "\<exists>s'. store_descriptor_at pad_prims descriptor_store_new demo_rotation 2000 = (Ok (), s') \<and>
     rotations s' [1, 2] = Some (\<lparr>id_algorithm = 1, public_key = [5]\<rparr>, 4)"
proof (rule mem_anyone_can_rotate)
  show "cbor_read pad_prims (payload demo_rotation) = Ok (CMap [(CText ''old_identity'', CBytes [1, 2]),
      (CText ''new_identity'', CBytes [1, 5]), (CText ''rotation_seq'', CInteger 4)])"
    by (simp add: demo_rotation_def demo_prims_def)
  show "validate pad_prims demo_rotation 2000 = Ok ()" by (rule demo_rotation_valid)
qed (simp_all add: demo_rotation_def descriptor_store_new_def bytes_field_def u64_field_def as_text_def
      value_bytes_def as_integer_def)

end
