(* ===== verification/Dht_Node.thy ===== *)
theory Dht_Node
  imports Routing_Table Descriptor_Store
begin

section \<open>mesh-dht: the node and its request handlers\<close>

text \<open>
  node.rs: the sender check and the four request handlers; hooks.rs: the policy hooks. The node
  is generic in its storage (\<open>S: DescriptorStorage\<close>): \<open>backend\<close> is the record of the storage's
  operations, and the locale \<open>node_backend\<close> what a node relies on. A hook is an object behind
  a shared reference with its own state, which the calls thread through. Clock readings are
  arguments, \<open>None\<close> is a panic.
\<close>

subsection \<open>The storage backend and the hooks\<close>

record 's backend =
  be_store :: "'s \<Rightarrow> descriptor \<Rightarrow> u64 \<Rightarrow> (store_error + unit) \<times> 's"
  be_get :: "'s \<Rightarrow> hash \<Rightarrow> filter_set option \<Rightarrow> u64 \<Rightarrow> descriptor list \<times> 's"
  be_evict :: "'s \<Rightarrow> u64 \<Rightarrow> 's"

definition mem_backend :: "prims \<Rightarrow> descriptor_store backend" where
  "mem_backend P =
     \<lparr>be_store = store_descriptor_at P,
      be_get = (\<lambda>s k f now. (get_descriptors_at s k f now, s)),
      be_evict = evict_expired_at\<rparr>"

record 'h protocol_hook =
  pre_store :: "'h \<Rightarrow> descriptor \<Rightarrow> (string + unit) \<times> 'h"
  post_store :: "'h \<Rightarrow> descriptor \<Rightarrow> 'h"
  pre_query :: "'h \<Rightarrow> hash \<Rightarrow> (string + unit) \<times> 'h"
  post_query :: "'h \<Rightarrow> hash \<Rightarrow> nat \<Rightarrow> 'h"

definition no_op_hook :: "'h protocol_hook" where
  "no_op_hook =
     \<lparr>pre_store = (\<lambda>h _. (Ok (), h)), post_store = (\<lambda>h _. h),
      pre_query = (\<lambda>h _. (Ok (), h)), post_query = (\<lambda>h _ _. h)\<rparr>"

subsection \<open>Sender binding\<close>

definition verify_sender_binding :: "prims \<Rightarrow> identity \<Rightarrow> identity option \<Rightarrow> string + unit" where
  "verify_sender_binding P msg_sender peer_identity =
     (case peer_identity of
        Some peer_id \<Rightarrow>
          if msg_sender \<noteq> peer_id then
            Err (''sender-TLS binding failed: message claims '' @ did P msg_sender
              @ '' but TLS cert is '' @ did P peer_id)
          else Ok ()
      | None \<Rightarrow>
          Err (''sender-TLS binding failed: no peer identity available for sender ''
            @ did P msg_sender))"

lemma verify_sender_binding_Ok [simp]:
  "verify_sender_binding P s p = Ok () \<longleftrightarrow> p = Some s"
  by (auto simp: verify_sender_binding_def split: option.splits)

subsection \<open>The node\<close>

record dht_config =
  alpha :: nat
  max_find_value_results :: u16

definition dht_config_default :: dht_config where
  "dht_config_default = \<lparr>alpha = 3, max_find_value_results = 20\<rparr>"

record ('s, 'h) dht_node =
  dn_keypair :: keypair
  dn_identity :: identity
  dn_node_id :: hash
  dn_addr :: node_addr
  dn_routing_table :: routing_table
  dn_store :: 's
  dn_config :: dht_config
  dn_hooks :: "'h protocol_hook option"
  dn_hook_state :: 'h

definition with_store ::
  "prims \<Rightarrow> keypair \<Rightarrow> node_addr \<Rightarrow> dht_config \<Rightarrow> 's \<Rightarrow> 'h \<Rightarrow> ('s, 'h) dht_node" where
  "with_store P kp a config st h =
     (let i = keypair_identity P kp; nid = node_id P i
      in \<lparr>dn_keypair = kp, dn_identity = i, dn_node_id = nid, dn_addr = a,
          dn_routing_table = routing_table_new nid, dn_store = st, dn_config = config,
          dn_hooks = None, dn_hook_state = h\<rparr>)"

definition dht_node_new ::
  "prims \<Rightarrow> keypair \<Rightarrow> node_addr \<Rightarrow> dht_config \<Rightarrow> 'h \<Rightarrow> (descriptor_store, 'h) dht_node" where
  "dht_node_new P kp a config h = with_store P kp a config descriptor_store_new h"

definition with_hooks :: "('s, 'h) dht_node \<Rightarrow> 'h protocol_hook \<Rightarrow> ('s, 'h) dht_node" where
  "with_hooks n hk = n\<lparr>dn_hooks := Some hk\<rparr>"

definition update_routing_table ::
  "prims \<Rightarrow> ('s, 'h) dht_node \<Rightarrow> identity \<Rightarrow> node_addr \<Rightarrow> u64 \<Rightarrow> ('s, 'h) dht_node option" where
  "update_routing_table P n sender sender_addr now =
     (case add_node P (dn_routing_table n)
             \<lparr>ni_identity = sender, ni_addr = sender_addr, last_seen = now\<rparr> of
        None \<Rightarrow> None
      | Some (_, t) \<Rightarrow> Some (n\<lparr>dn_routing_table := t\<rparr>))"

definition handle_ping ::
  "prims \<Rightarrow> ('s, 'h) dht_node \<Rightarrow> ping \<Rightarrow> u64 \<Rightarrow> (pong \<times> ('s, 'h) dht_node) option" where
  "handle_ping P n p now =
     (case update_routing_table P n (ping_sender p) (ping_sender_addr p) now of
        None \<Rightarrow> None
      | Some n1 \<Rightarrow>
          Some (\<lparr>pong_sender = dn_identity n1, pong_sender_addr = dn_addr n1,
                 pong_observed_addr = ping_sender_addr p\<rparr>, n1))"

definition handle_store ::
  "prims \<Rightarrow> 's backend \<Rightarrow> ('s, 'h) dht_node \<Rightarrow> store_msg \<Rightarrow> u64 \<Rightarrow> u64 \<Rightarrow>
   (store_ack \<times> ('s, 'h) dht_node) option" where
  "handle_store P B n req now now_store =
     (case update_routing_table P n (store_sender req) (store_sender_addr req) now of
        None \<Rightarrow> None
      | Some n1 \<Rightarrow>
          let d = store_descriptor_field req;
              (pre, n2) = (case dn_hooks n1 of
                 None \<Rightarrow> (Ok (), n1)
               | Some hk \<Rightarrow> (case pre_store hk (dn_hook_state n1) d of
                     (r, h) \<Rightarrow> (r, n1\<lparr>dn_hook_state := h\<rparr>)))
          in case pre of
               Err rsn \<Rightarrow> Some (\<lparr>stored = False, reason = Some rsn\<rparr>, n2)
             | Ok _ \<Rightarrow>
                 (case be_store B (dn_store n2) d now_store of
                    (Ok _, st) \<Rightarrow>
                      let n3 = n2\<lparr>dn_store := st\<rparr> in
                      Some (\<lparr>stored = True, reason = None\<rparr>,
                        case dn_hooks n3 of
                          None \<Rightarrow> n3
                        | Some hk \<Rightarrow> n3\<lparr>dn_hook_state := post_store hk (dn_hook_state n3) d\<rparr>)
                  | (Err e, st) \<Rightarrow>
                      Some (\<lparr>stored = False, reason = Some (store_error_display e)\<rparr>,
                        n2\<lparr>dn_store := st\<rparr>)))"

definition self_info :: "('s, 'h) dht_node \<Rightarrow> u64 \<Rightarrow> node_info" where
  "self_info n now = \<lparr>ni_identity = dn_identity n, ni_addr = dn_addr n, last_seen = now\<rparr>"

definition handle_find_node ::
  "prims \<Rightarrow> ('s, 'h) dht_node \<Rightarrow> find_node \<Rightarrow> u64 \<Rightarrow> u64 \<Rightarrow>
   (find_node_result \<times> ('s, 'h) dht_node) option" where
  "handle_find_node P n req now now_self =
     (case update_routing_table P n (fn_sender req) (fn_sender_addr req) now of
        None \<Rightarrow> None
      | Some n1 \<Rightarrow>
          (case closest_nodes P (dn_routing_table n1) (fn_target req) K of
             None \<Rightarrow> None
           | Some nodes \<Rightarrow>
               Some (\<lparr>fnr_nodes =
                  if \<not> list_ex (\<lambda>e. ni_identity e = dn_identity n1) nodes \<and> length nodes < K
                  then nodes @ [self_info n1 now_self] else nodes\<rparr>, n1)))"

definition handle_find_value ::
  "prims \<Rightarrow> 's backend \<Rightarrow> ('s, 'h) dht_node \<Rightarrow> find_value \<Rightarrow> u64 \<Rightarrow> u64 \<Rightarrow>
   (find_value_result \<times> ('s, 'h) dht_node) option" where
  "handle_find_value P B n req now now_get =
     (case update_routing_table P n (fv_sender req) (fv_sender_addr req) now of
        None \<Rightarrow> None
      | Some n1 \<Rightarrow>
          let (pre, n2) = (case dn_hooks n1 of
                 None \<Rightarrow> (Ok (), n1)
               | Some hk \<Rightarrow> (case pre_query hk (dn_hook_state n1) (fv_key req) of
                     (r, h) \<Rightarrow> (r, n1\<lparr>dn_hook_state := h\<rparr>)))
          in case pre of
               Err _ \<Rightarrow> Some (\<lparr>fvr_descriptors = None, fvr_nodes = None\<rparr>, n2)
             | Ok _ \<Rightarrow>
                 let (descriptors, st) = be_get B (dn_store n2) (fv_key req) (fv_filters req) now_get;
                     n3 = n2\<lparr>dn_store := st\<rparr>;
                     result =
                       (if descriptors = [] then
                          map_option (\<lambda>nodes. \<lparr>fvr_descriptors = None, fvr_nodes = Some nodes\<rparr>)
                            (closest_nodes P (dn_routing_table n3) (fv_key req) K)
                        else
                          let max_n = min (unat (fv_max_results req))
                                          (unat (max_find_value_results (dn_config n3)))
                          in Some \<lparr>fvr_descriptors = Some
                                     (if length descriptors > max_n then take max_n descriptors
                                      else descriptors),
                                   fvr_nodes = None\<rparr>)
                 in map_option (\<lambda>r. (r,
                      case dn_hooks n3 of
                        None \<Rightarrow> n3
                      | Some hk \<Rightarrow> n3\<lparr>dn_hook_state := post_query hk (dn_hook_state n3) (fv_key req)
                          (case fvr_descriptors r of None \<Rightarrow> 0 | Some ds \<Rightarrow> length ds)\<rparr>)) result)"

subsection \<open>What a node relies on\<close>

locale node_backend =
  fixes P :: prims and B :: "'s backend" and inv :: "'s \<Rightarrow> bool"
  assumes backend_store: "inv s \<Longrightarrow> inv (snd (be_store B s d now))"
    and backend_get: "inv s \<Longrightarrow> inv (snd (be_get B s k f now))"
    and backend_evict: "inv s \<Longrightarrow> inv (be_evict B s now)"
    and backend_valid: "fst (be_store B s d now) = Ok () \<Longrightarrow> validate P d now = Ok ()"
    and backend_sound: "inv s \<Longrightarrow> d \<in> set (fst (be_get B s k f now)) \<Longrightarrow>
          authentic P d \<and> well_formed d \<and> filter_matches f d"

interpretation mem_node: node_backend P "mem_backend P" "store_inv P" for P
proof unfold_locales
  show "store_inv P (snd (be_store (mem_backend P) s d now))" if "store_inv P s" for s d now
    using that by (simp add: mem_backend_def store_at_inv)
  show "store_inv P (be_evict (mem_backend P) s now)" if "store_inv P s" for s now
    using that by (simp add: mem_backend_def evict_inv)
  show "validate P d now = Ok ()" if "fst (be_store (mem_backend P) s d now) = Ok ()" for s d now
    using that by (simp add: mem_backend_def) (rule mem.put_Ok_valid)
qed (auto simp: mem_backend_def dest: mem.get_sound)

subsection \<open>Lemmas on the handlers\<close>

definition node_ok :: "prims \<Rightarrow> ('s, 'h) dht_node \<Rightarrow> bool" where
  "node_ok P n \<longleftrightarrow> table_inv P (dn_routing_table n) \<and> local_id (dn_routing_table n) = dn_node_id n \<and>
     dn_node_id n = node_id P (dn_identity n)"

lemma node_ok_with_store [invariants]:
  "blake3_ok P \<Longrightarrow> node_ok P (with_store P kp a c st h)"
  by (simp add: node_ok_def with_store_def Let_def table_inv_new)
    (simp add: routing_table_new_def)

lemma node_ok_upd [simp]:
  "node_ok P (n\<lparr>dn_store := st\<rparr>) = node_ok P n"
  "node_ok P (n\<lparr>dn_hook_state := h\<rparr>) = node_ok P n"
  by (simp_all add: node_ok_def)

lemma update_routing_table_Some:
  assumes "update_routing_table P n s a now = Some n'"
  obtains res t where "add_node P (dn_routing_table n) \<lparr>ni_identity = s, ni_addr = a, last_seen = now\<rparr> = Some (res, t)"
    and "n' = n\<lparr>dn_routing_table := t\<rparr>"
  using assms by (auto simp: update_routing_table_def split: option.splits)

lemma update_routing_table_ok [invariants]:
  assumes "node_ok P n" and "update_routing_table P n s a now = Some n'"
  shows "node_ok P n'"
proof (rule update_routing_table_Some [OF assms(2)])
  fix res t
  assume "add_node P (dn_routing_table n) \<lparr>ni_identity = s, ni_addr = a, last_seen = now\<rparr> = Some (res, t)"
    and n': "n' = n\<lparr>dn_routing_table := t\<rparr>"
  then have "table_inv P t \<and> local_id t = local_id (dn_routing_table n)"
    using assms(1) by (intro add_node_inv) (simp_all add: node_ok_def)
  then show ?thesis using assms(1) by (simp add: n' node_ok_def)
qed

lemma update_routing_table_keeps:
  assumes "update_routing_table P n s a now = Some n'"
  shows "dn_store n' = dn_store n" "dn_hooks n' = dn_hooks n" "dn_hook_state n' = dn_hook_state n"
    "dn_identity n' = dn_identity n" "dn_config n' = dn_config n" "dn_addr n' = dn_addr n"
    "dn_node_id n' = dn_node_id n"
  using assms by (auto elim: update_routing_table_Some)

lemma add_node_Some [panic_free]:
  assumes "blake3_ok P" and "full P (local_id t)"
  shows "\<exists>r t'. add_node P t n = Some (r, t')"
proof -
  obtain b where "bucket_for P t (ni_id P n) = Some b"
    using bucket_for_Some [OF assms(2), of "ni_id P n"] assms(1) by auto
  then show ?thesis by (auto simp: add_node_def Let_def split: option.splits)
qed

lemma update_routing_table_total [panic_free]:
  assumes "blake3_ok P" and "node_ok P n"
  shows "\<exists>n'. update_routing_table P n s a now = Some n'"
proof -
  have "full P (local_id (dn_routing_table n))" using assms by (simp add: node_ok_def)
  then obtain r t where "add_node P (dn_routing_table n)
      \<lparr>ni_identity = s, ni_addr = a, last_seen = now\<rparr> = Some (r, t)"
    using add_node_Some [OF assms(1)] by blast
  then show ?thesis by (simp add: update_routing_table_def)
qed

lemma handlers_total [panic_free]:
  assumes "blake3_ok P" and "node_ok P n"
  shows "\<exists>r n'. handle_ping P n p now = Some (r, n')"
    and "\<exists>r n'. handle_store P B n s now now' = Some (r, n')"
    and "full P (fn_target f) \<Longrightarrow> \<exists>r n'. handle_find_node P n f now now' = Some (r, n')"
    and "full P (fv_key v) \<Longrightarrow> \<exists>r n'. handle_find_value P B n v now now' = Some (r, n')"
proof -
  note tot = update_routing_table_total [OF assms]
  show "\<exists>r n'. handle_ping P n p now = Some (r, n')"
    using tot [of "ping_sender p" "ping_sender_addr p" now] by (auto simp: handle_ping_def)
  show "\<exists>r n'. handle_store P B n s now now' = Some (r, n')"
    using tot [of "store_sender s" "store_sender_addr s" now]
    by (auto simp: handle_store_def Let_def split: prod.split sum.split)
  show "\<exists>r n'. handle_find_node P n f now now' = Some (r, n')" if "full P (fn_target f)"
    using tot [of "fn_sender f" "fn_sender_addr f" now] that
    by (auto simp: handle_find_node_def closest_nodes_sort assms(1))
  show "\<exists>r n'. handle_find_value P B n v now now' = Some (r, n')" if "full P (fv_key v)"
    using tot [of "fv_sender v" "fv_sender_addr v" now] that
    by (auto simp: handle_find_value_def Let_def closest_nodes_sort assms(1)
        split: prod.split sum.split)
qed

text \<open>Every way to serve a request, and the periodic eviction.\<close>

inductive node_step :: "prims \<Rightarrow> 's backend \<Rightarrow> ('s, 'h) dht_node \<Rightarrow> ('s, 'h) dht_node \<Rightarrow> bool"
  for P B where
  step_ping: "handle_ping P n p now = Some (r, n') \<Longrightarrow> node_step P B n n'"
| step_store: "handle_store P B n m now now' = Some (r, n') \<Longrightarrow> node_step P B n n'"
| step_find_node: "handle_find_node P n m now now' = Some (r, n') \<Longrightarrow> node_step P B n n'"
| step_find_value: "handle_find_value P B n m now now' = Some (r, n') \<Longrightarrow> node_step P B n n'"
| step_evict: "node_step P B n (n\<lparr>dn_store := be_evict B (dn_store n) now\<rparr>)"

inductive_cases node_stepE: "node_step P B n n'"

inductive node_reachable ::
  "prims \<Rightarrow> 's backend \<Rightarrow> ('s, 'h) dht_node \<Rightarrow> ('s, 'h) dht_node \<Rightarrow> bool" for P B n0 where
  node_start: "node_reachable P B n0 n0"
| node_next: "node_reachable P B n0 n \<Longrightarrow> node_step P B n n' \<Longrightarrow> node_reachable P B n0 n'"

lemma handle_store_store:
  assumes "handle_store P B n m now now' = Some (r, n')"
  shows "dn_store n' = dn_store n \<and> \<not> stored r \<or>
     dn_store n' = snd (be_store B (dn_store n) (store_descriptor_field m) now') \<and>
     (stored r \<longleftrightarrow> fst (be_store B (dn_store n) (store_descriptor_field m) now') = Ok ())"
  using assms
  by (auto simp: handle_store_def Let_def update_routing_table_keeps
      split: option.splits prod.splits sum.splits)

lemma handle_store_ok [invariants]:
  assumes "handle_store P B n m now now' = Some (r, n')" and "node_ok P n"
  shows "node_ok P n'"
  using assms(1) update_routing_table_ok [OF assms(2)]
  by (auto simp: handle_store_def Let_def split: option.splits prod.splits sum.splits)

lemma handle_find_value_store:
  assumes "handle_find_value P B n m now now' = Some (r, n')"
  shows "dn_store n' = dn_store n \<and> fvr_descriptors r = None \<and> fvr_nodes r = None \<or>
     dn_store n' = snd (be_get B (dn_store n) (fv_key m) (fv_filters m) now')"
  using assms
  by (auto simp: handle_find_value_def Let_def update_routing_table_keeps case_prod_unfold
      split: option.splits sum.splits if_splits)

lemma handle_find_value_ok [invariants]:
  assumes "handle_find_value P B n m now now' = Some (r, n')" and "node_ok P n"
  shows "node_ok P n'"
  using assms(1) update_routing_table_ok [OF assms(2)]
  by (auto simp: handle_find_value_def Let_def case_prod_unfold
      split: option.splits sum.splits if_splits)

lemma handle_find_value_answers:
  assumes "handle_find_value P B n m now now' = Some (r, n')" and "fvr_descriptors r = Some ds"
  shows "set ds \<subseteq> set (fst (be_get B (dn_store n) (fv_key m) (fv_filters m) now')) \<and>
     length ds \<le> unat (fv_max_results m) \<and> length ds \<le> unat (max_find_value_results (dn_config n)) \<and>
     fvr_nodes r = None"
  using assms
  by (auto simp: handle_find_value_def Let_def update_routing_table_keeps case_prod_unfold
      split: option.splits sum.splits if_splits dest: in_set_takeD)

lemma handle_find_value_nodes:
  assumes "handle_find_value P B n m now now' = Some (r, n')" and "fvr_nodes r = Some ns"
  shows "closest_nodes P (dn_routing_table n') (fv_key m) K = Some ns \<and> fvr_descriptors r = None \<and>
     fst (be_get B (dn_store n) (fv_key m) (fv_filters m) now') = []"
  using assms
  by (auto simp: handle_find_value_def Let_def update_routing_table_keeps case_prod_unfold
      split: option.splits sum.splits if_splits)

lemma handle_find_value_found:
  assumes "dn_hooks n = None" and "be_get B (dn_store n) (fv_key m) (fv_filters m) now' = (ds, st)"
    and "ds \<noteq> []" and u: "update_routing_table P n (fv_sender m) (fv_sender_addr m) now = Some n1"
  shows "handle_find_value P B n m now now' = Some (\<lparr>fvr_descriptors = Some (take
       (min (unat (fv_max_results m)) (unat (max_find_value_results (dn_config n)))) ds),
     fvr_nodes = None\<rparr>, n1\<lparr>dn_store := st\<rparr>)"
proof -
  have "(if length ds > k then take k ds else ds) = take k ds" for k by simp
  then show ?thesis
    using assms by (simp add: handle_find_value_def Let_def update_routing_table_keeps [OF u] del: take_all_iff)
qed

context node_backend
begin

lemma node_step_inv:
  assumes "node_step P B n n'" and "inv (dn_store n)" and "node_ok P n"
  shows "inv (dn_store n') \<and> node_ok P n'"
  using assms(1)
proof (rule node_stepE)
  fix p now r
  assume "handle_ping P n p now = Some (r, n')"
  then have "\<exists>s a. update_routing_table P n s a now = Some n'"
    by (auto simp: handle_ping_def split: option.splits)
  then show ?thesis using assms update_routing_table_ok update_routing_table_keeps by metis
next
  fix m now now' r
  assume h: "handle_store P B n m now now' = Some (r, n')"
  show ?thesis
    using handle_store_store [OF h] handle_store_ok [OF h assms(3)] assms(2) backend_store by auto
next
  fix m now now' r
  assume "handle_find_node P n m now now' = Some (r, n')"
  then have "\<exists>s a. update_routing_table P n s a now = Some n'"
    by (auto simp: handle_find_node_def split: option.splits)
  then show ?thesis using assms update_routing_table_ok update_routing_table_keeps by metis
next
  fix m now now' r
  assume h: "handle_find_value P B n m now now' = Some (r, n')"
  show ?thesis
    using handle_find_value_store [OF h] handle_find_value_ok [OF h assms(3)] assms(2) backend_get by auto
next
  fix now
  assume "n' = n\<lparr>dn_store := be_evict B (dn_store n) now\<rparr>"
  then show ?thesis using assms backend_evict by simp
qed

lemma node_reachable_inv:
  assumes "node_reachable P B n0 n" and "inv (dn_store n0)" and "node_ok P n0"
  shows "inv (dn_store n) \<and> node_ok P n"
  using assms
proof induction
  case node_start
  then show ?case by simp
next
  case (node_next n n')
  then show ?case using node_step_inv by blast
qed

lemma find_value_valid:
  assumes "node_reachable P B n0 n" and "inv (dn_store n0)" and "node_ok P n0"
    and "handle_find_value P B n m now now' = Some (r, n')"
    and "fvr_descriptors r = Some ds" and "d \<in> set ds"
  shows "authentic P d \<and> well_formed d \<and> filter_matches (fv_filters m) d"
proof -
  have "inv (dn_store n)" using node_reachable_inv [OF assms(1-3)] by simp
  moreover have "d \<in> set (fst (be_get B (dn_store n) (fv_key m) (fv_filters m) now'))"
    using handle_find_value_answers [OF assms(4,5)] assms(6) by blast
  ultimately show ?thesis by (rule backend_sound)
qed

lemma store_acknowledged_valid:
  assumes "handle_store P B n m now now' = Some (r, n')" and "stored r"
  shows "validate P (store_descriptor_field m) now' = Ok ()"
  using handle_store_store [OF assms(1)] assms(2) backend_valid by blast

end

subsection \<open>Properties\<close>

lemma node_step_config: "node_step P B n n' \<Longrightarrow>
    dn_identity n' = dn_identity n \<and> dn_config n' = dn_config n \<and> dn_addr n' = dn_addr n \<and> dn_hooks n' = dn_hooks n"
  by (erule node_stepE)
    (auto simp: handle_ping_def handle_store_def handle_find_node_def handle_find_value_def Let_def
      case_prod_unfold update_routing_table_keeps split: option.splits sum.splits if_splits)

text \<open>A node answers FIND_VALUE with authentic descriptors only: after any sequence of requests
  and evictions, each descriptor in the answer is signed by its publisher over its content, lies
  under the requested key and passes the requested filters; there are at most as many as the
  requester asked for and as the node's own limit allows, and they never come with nodes.\<close>

theorem find_value_serves_valid:
  assumes "blake3_ok P"
    and "node_reachable P (mem_backend P) (dht_node_new P kp a config h) n"
    and "handle_find_value P (mem_backend P) n m now now' = Some (r, n')"
    and "fvr_descriptors r = Some ds" and "d \<in> set ds"
  shows "authentic P d \<and> well_formed d \<and> fv_key m \<in> set (routing_keys d) \<and> \<not> expired now' d \<and>
     filter_matches (fv_filters m) d \<and>
     length ds \<le> min (unat (fv_max_results m)) (unat (max_find_value_results (dn_config n))) \<and>
     fvr_nodes r = None"
proof -
  have start: "store_inv P (dn_store (dht_node_new P kp a config h))"
    "node_ok P (dht_node_new P kp a config h)"
    using mem.inv_empty node_ok_with_store [OF assms(1)]
    by (simp_all add: dht_node_new_def with_store_def Let_def)
  have "store_inv P (dn_store n)"
    using mem_node.node_reachable_inv [OF assms(2) start] by simp
  moreover have "d \<in> set (get_descriptors_at (dn_store n) (fv_key m) (fv_filters m) now')"
    using handle_find_value_answers [OF assms(3,4)] assms(5) by (auto simp: mem_backend_def)
  ultimately show ?thesis
    using mem.get_sound handle_find_value_answers [OF assms(3,4)] by auto
qed

text \<open>A STORE is acknowledged exactly when the pre-store hook lets it pass and the storage
  accepts it, and the post-store hook runs exactly then; a descriptor that fails validation is
  never acknowledged and leaves the storage as it was. The sender is entered in the routing
  table in every case.\<close>

theorem store_acknowledgement:
  assumes "handle_store P (mem_backend P) n m now now' = Some (r, n')" and "dn_hooks n = Some hk"
  shows "(stored r \<longleftrightarrow> fst (pre_store hk (dn_hook_state n) (store_descriptor_field m)) = Ok () \<and>
       fst (store_descriptor_at P (dn_store n) (store_descriptor_field m) now') = Ok ()) \<and>
     (stored r \<longrightarrow> reason r = None \<and> validate P (store_descriptor_field m) now' = Ok () \<and>
       dn_store n' = snd (store_descriptor_at P (dn_store n) (store_descriptor_field m) now') \<and>
       dn_hook_state n' = post_store hk (snd (pre_store hk (dn_hook_state n) (store_descriptor_field m)))
         (store_descriptor_field m)) \<and>
     (\<not> stored r \<longrightarrow> reason r \<noteq> None \<and>
       dn_hook_state n' = snd (pre_store hk (dn_hook_state n) (store_descriptor_field m))) \<and>
     (validate P (store_descriptor_field m) now' \<noteq> Ok () \<longrightarrow> dn_store n' = dn_store n)"
proof -
  obtain n1 where u: "update_routing_table P n (store_sender m) (store_sender_addr m) now = Some n1"
    using assms(1) by (auto simp: handle_store_def split: option.splits)
  note k = update_routing_table_keeps [OF u]
  obtain pr h where pre: "pre_store hk (dn_hook_state n) (store_descriptor_field m) = (pr, h)"
    by (rule prod.exhaust)
  obtain sr st where st: "store_descriptor_at P (dn_store n) (store_descriptor_field m) now' = (sr, st)"
    by (rule prod.exhaust)
  have valid: "validate P (store_descriptor_field m) now' = Ok ()" if "sr = Ok ()"
    using mem.put_Ok_valid [of P "dn_store n" "store_descriptor_field m" now'] st that by simp
  have keep: "st = dn_store n" if nv: "validate P (store_descriptor_field m) now' \<noteq> Ok ()"
  proof -
    obtain e where "validate P (store_descriptor_field m) now' = Err e"
      using validate_cases nv by blast
    then show ?thesis using mem.put_invalid st by (metis snd_conv)
  qed
  show ?thesis
    using assms(1) valid keep
    by (cases pr; cases sr)
      (auto simp: handle_store_def Let_def u k assms(2) pre st mem_backend_def)
qed

text \<open>FIND_NODE returns at most 20 nodes, known ones or the node itself, and includes the node
  itself whenever fewer than 20 are known, so that a peer with a single seed can bootstrap.\<close>

theorem find_node_bounded_and_includes_self:
  assumes "handle_find_node P n m now now' = Some (r, n')"
  shows "length (fnr_nodes r) \<le> 20 \<and>
     set (fnr_nodes r) \<subseteq> set (all_nodes (dn_routing_table n')) \<union> {self_info n now'} \<and>
     (table_len (dn_routing_table n') < 20 \<longrightarrow>
        dn_identity n \<in> ni_identity ` set (fnr_nodes r))"
proof -
  obtain n1 ns where u: "update_routing_table P n (fn_sender m) (fn_sender_addr m) now = Some n1"
    and c: "closest_nodes P (dn_routing_table n1) (fn_target m) K = Some ns" and n': "n' = n1"
    and r: "fnr_nodes r = (if \<not> list_ex (\<lambda>e. ni_identity e = dn_identity n1) ns \<and> length ns < K
                  then ns @ [self_info n1 now'] else ns)"
    using assms by (auto simp: handle_find_node_def split: option.splits)
  have self: "self_info n1 now' = self_info n now'"
    using update_routing_table_keeps [OF u] by (simp add: self_info_def)
  have "set ns \<subseteq> set (all_nodes (dn_routing_table n1))"
    "length ns = min K (table_len (dn_routing_table n1))"
    using closest_nodes_subset [OF c] by auto
  then show ?thesis
    using update_routing_table_keeps [OF u]
    by (auto simp: r n' self K_def list_ex_iff self_info_def intro: rev_image_eqI)
qed

text \<open>With targets and keys of 32 bytes no request can make a node panic, whatever it has been
  sent before; a FIND_NODE with a shorter target (in a debug build, a longer one, too) panics the handler of any node that knows two
  nodes (the sender, just entered, counts).\<close>

theorem handlers_panic_only_on_short_keys:
  assumes "blake3_ok P"
    and "node_reachable P (mem_backend P) (dht_node_new P kp a config h) n"
  shows "handle_ping P n p now \<noteq> None \<and> handle_store P (mem_backend P) n s now now' \<noteq> None \<and>
     (full P (fn_target f) \<longrightarrow> handle_find_node P n f now now' \<noteq> None) \<and>
     (full P (fv_key v) \<longrightarrow> handle_find_value P (mem_backend P) n v now now' \<noteq> None) \<and>
     (\<not> full P (fn_target f) \<and>
        update_routing_table P n (fn_sender f) (fn_sender_addr f) now = Some n1 \<and>
        2 \<le> table_len (dn_routing_table n1) \<longrightarrow> handle_find_node P n f now now' = None)"
proof -
  have start: "store_inv P (dn_store (dht_node_new P kp a config h))"
    "node_ok P (dht_node_new P kp a config h)"
    using mem.inv_empty node_ok_with_store [OF assms(1)]
    by (simp_all add: dht_node_new_def with_store_def Let_def)
  have ok: "node_ok P n" using mem_node.node_reachable_inv [OF assms(2) start] by simp
  have "handle_find_node P n f now now' = None"
    if "\<not> full P (fn_target f)"
      "update_routing_table P n (fn_sender f) (fn_sender_addr f) now = Some n1"
      "2 \<le> table_len (dn_routing_table n1)"
    using that closest_nodes_short [of P "fn_target f" "dn_routing_table n1" K]
    by (simp add: handle_find_node_def)
  then show ?thesis using handlers_total [OF assms(1) ok] by blast
qed

subsection \<open>Witnesses\<close>

definition demo_dht :: "(descriptor_store, unit) dht_node" where
  "demo_dht = dht_node_new pad_prims \<lparr>signing_key = [9]\<rparr> (node_addr_quic ''h:9'') dht_config_default ()"

definition demo_store_msg :: store_msg where
  "demo_store_msg = \<lparr>store_sender = short_identity 4, store_sender_addr = node_addr_quic ''h:1'',
     store_descriptor_field = demo_desc 7 1000\<rparr>"

definition demo_find_value :: find_value where
  "demo_find_value = \<lparr>fv_sender = short_identity 4, fv_sender_addr = node_addr_quic ''h:1'',
     fv_key = zero_id, fv_max_results = 5, fv_filters = None\<rparr>"

lemma demo_find_value_sel [simp]:
  "fv_sender demo_find_value = short_identity 4" "fv_key demo_find_value = zero_id"
  "fv_sender_addr demo_find_value = node_addr_quic ''h:1''" "fv_max_results demo_find_value = 5"
  "fv_filters demo_find_value = None"
  by (simp_all add: demo_find_value_def)

lemma demo_dht_ok [simp]: "node_ok pad_prims demo_dht"
  unfolding demo_dht_def dht_node_new_def by (rule node_ok_with_store) simp

lemma demo_dht_sel [simp]:
  "dn_store demo_dht = descriptor_store_new" "dn_hooks demo_dht = None"
  "dn_config demo_dht = dht_config_default"
  by (simp_all add: demo_dht_def dht_node_new_def with_store_def Let_def)

lemma demo_store_accepted:
  obtains s' where "store_descriptor_at pad_prims descriptor_store_new (demo_desc 7 1000) 2000 = (Ok (), s')"
    and "demo_desc 7 1000 \<in> set (get_descriptors_at s' zero_id None 3000)"
proof -
  have "\<exists>s'. store_descriptor_at pad_prims descriptor_store_new (demo_desc 7 1000) 2000 = (Ok (), s') \<and>
     demo_desc 7 1000 \<in> set (get_descriptors_at s' zero_id None 3000)"
    by (simp add: store_descriptor_at_def check_and_record_def descriptor_store_new_def Let_def
        RATE_LIMIT_PER_MINUTE_def store_accepted_alt get_at placed_def expired_unat sane_clock_def)
  then show thesis using that by blast
qed

lemma demo_dht_stored:
  obtains n r where "node_reachable pad_prims (mem_backend pad_prims) demo_dht n"
    and "handle_store pad_prims (mem_backend pad_prims) demo_dht demo_store_msg 2000 2000 = Some (r, n)"
    and "demo_desc 7 1000 \<in> set (get_descriptors_at (dn_store n) zero_id None 3000)"
    and "dn_hooks n = None" and "node_ok pad_prims n" and "dn_config n = dht_config_default"
proof -
  obtain n1 where u: "update_routing_table pad_prims demo_dht (short_identity 4) (node_addr_quic ''h:1'') 2000
      = Some n1"
    using update_routing_table_total [OF pad_prims_ok(1) demo_dht_ok] by blast
  obtain s' where s': "store_descriptor_at pad_prims descriptor_store_new (demo_desc 7 1000) 2000 = (Ok (), s')"
    "demo_desc 7 1000 \<in> set (get_descriptors_at s' zero_id None 3000)"
    by (rule demo_store_accepted)
  have h: "handle_store pad_prims (mem_backend pad_prims) demo_dht demo_store_msg 2000 2000 =
      Some (\<lparr>stored = True, reason = None\<rparr>, n1\<lparr>dn_store := s'\<rparr>)"
    using u s'(1) by (simp add: handle_store_def demo_store_msg_def Let_def mem_backend_def
        update_routing_table_keeps [OF u])
  have "node_reachable pad_prims (mem_backend pad_prims) demo_dht (n1\<lparr>dn_store := s'\<rparr>)"
    using h by (meson node_start node_next step_store)
  moreover have "node_ok pad_prims (n1\<lparr>dn_store := s'\<rparr>)"
    using update_routing_table_ok [OF demo_dht_ok u] by simp
  ultimately show thesis
    using that [OF _ h] s' update_routing_table_keeps [OF u] by simp
qed

lemma find_value_serves_valid_witness:
  "\<exists>(n :: (descriptor_store, unit) dht_node) r n' ds. handle_find_value pad_prims (mem_backend pad_prims) n demo_find_value 3000 3000 = Some (r, n') \<and>
     fvr_descriptors r = Some ds \<and> ds \<noteq> [] \<and> (\<forall>d \<in> set ds. authentic pad_prims d)"
proof -
  obtain n r0 where n: "node_reachable pad_prims (mem_backend pad_prims) demo_dht n"
    "demo_desc 7 1000 \<in> set (get_descriptors_at (dn_store n) zero_id None 3000)"
    "dn_hooks n = None" "node_ok pad_prims n" "dn_config n = dht_config_default"
    by (rule demo_dht_stored)
  obtain n1 where u: "update_routing_table pad_prims n (short_identity 4) (node_addr_quic ''h:1'') 3000 = Some n1"
    using update_routing_table_total [OF pad_prims_ok(1) n(4)] by blast
  let ?g = "get_descriptors_at (dn_store n) zero_id None 3000"
  have g: "be_get (mem_backend pad_prims) (dn_store n) (fv_key demo_find_value)
      (fv_filters demo_find_value) 3000 = (?g, dn_store n)" by (simp add: mem_backend_def)
  have ne: "?g \<noteq> []" using n(2) by auto
  have v0: "handle_find_value pad_prims (mem_backend pad_prims) n demo_find_value 3000 3000 =
      Some (\<lparr>fvr_descriptors = Some (take 5 ?g), fvr_nodes = None\<rparr>, n1\<lparr>dn_store := dn_store n\<rparr>)"
    using handle_find_value_found [OF n(3) g ne, of pad_prims 3000 n1] u n(5)
    by (simp add: dht_config_default_def)
  then obtain r n' ds where v: "handle_find_value pad_prims (mem_backend pad_prims) n demo_find_value 3000 3000 = Some (r, n')"
    "fvr_descriptors r = Some ds" "ds \<noteq> []"
    using ne by auto
  have "\<forall>d \<in> set ds. authentic pad_prims d"
    using find_value_serves_valid [OF pad_prims_ok(1) n(1) [unfolded demo_dht_def] v(1,2)] by blast
  then show ?thesis using v by (intro exI [of _ n] exI [of _ r] exI [of _ n'] exI [of _ ds] conjI)
qed

lemma store_acknowledgement_witness:
  "\<exists>n' r. handle_store pad_prims (mem_backend pad_prims) (with_hooks demo_dht no_op_hook) demo_store_msg 2000 2000 =
     Some (r, n') \<and> stored r"
proof -
  let ?n = "with_hooks demo_dht no_op_hook"
  have ok: "node_ok pad_prims ?n" using demo_dht_ok by (simp add: with_hooks_def node_ok_def)
  obtain n1 where u: "update_routing_table pad_prims ?n (short_identity 4) (node_addr_quic ''h:1'') 2000 = Some n1"
    using update_routing_table_total [OF pad_prims_ok(1) ok] by blast
  obtain r n' where h: "handle_store pad_prims (mem_backend pad_prims) ?n demo_store_msg 2000 2000 = Some (r, n')"
    using u by (cases "handle_store pad_prims (mem_backend pad_prims) ?n demo_store_msg 2000 2000")
      (auto simp: handle_store_def demo_store_msg_def Let_def split: prod.splits sum.splits)
  have "dn_hooks ?n = Some no_op_hook" by (simp add: with_hooks_def)
  from store_acknowledgement [OF h this, THEN conjunct1]
  have "stored r \<longleftrightarrow> fst (store_descriptor_at pad_prims descriptor_store_new (demo_desc 7 1000) 2000) = Ok ()"
    by (simp add: no_op_hook_def demo_store_msg_def with_hooks_def)
  moreover obtain s' where "store_descriptor_at pad_prims descriptor_store_new (demo_desc 7 1000) 2000 = (Ok (), s')"
    by (rule demo_store_accepted)
  ultimately show ?thesis using h by simp
qed

lemma find_node_bounded_and_includes_self_witness:
  "\<exists>r n'. handle_find_node pad_prims demo_dht \<lparr>fn_sender = short_identity 4,
     fn_sender_addr = node_addr_quic ''h:1'', fn_target = zero_id\<rparr> 1 2 = Some (r, n') \<and>
     length (fnr_nodes r) \<le> 20"
proof -
  let ?m = "\<lparr>fn_sender = short_identity 4, fn_sender_addr = node_addr_quic ''h:1'', fn_target = zero_id\<rparr>"
  obtain n1 where u: "update_routing_table pad_prims demo_dht (short_identity 4) (node_addr_quic ''h:1'') 1 = Some n1"
    using update_routing_table_total [OF pad_prims_ok(1) demo_dht_ok] by blast
  then obtain r n' where h: "handle_find_node pad_prims demo_dht ?m 1 2 = Some (r, n')"
    by (auto simp: handle_find_node_def closest_nodes_sort)
  from find_node_bounded_and_includes_self [OF h] h show ?thesis by blast
qed

lemma handlers_panic_only_on_short_keys_witness:
  "handle_find_node pad_prims demo_dht \<lparr>fn_sender = short_identity 4,
     fn_sender_addr = node_addr_quic ''h:1'', fn_target = zero_id\<rparr> 1 2 \<noteq> None"
proof -
  let ?m = "\<lparr>fn_sender = short_identity 4, fn_sender_addr = node_addr_quic ''h:1'', fn_target = zero_id\<rparr>"
  have "node_reachable pad_prims (mem_backend pad_prims) demo_dht demo_dht" by (rule node_start)
  from handlers_panic_only_on_short_keys [OF pad_prims_ok(1) this [unfolded demo_dht_def],
      where f = ?m and now = 1 and now' = 2]
  show ?thesis by (simp add: demo_dht_def)
qed

end
