(* ===== verification/Redb_Storage.thy ===== *)
theory Redb_Storage
  imports Dht_Node
begin

section \<open>mesh-hub: the disk-backed store and its cache\<close>

text \<open>
  storage/redb.rs and storage/mod.rs. The database engine redb is not part of the repository:
  its tables are reached through the record \<open>redb\<close> of fallible operations (opening a table is
  part of the operation on it), and \<open>redb_ok\<close> says what the code relies on, in terms of the
  tables that a database or an open transaction holds. A write transaction is a value that only
  \<open>rd_commit\<close> turns into the new database, so returning early drops it. The descriptors' CBOR
  is the pair \<open>desc_enc\<close>, \<open>desc_dec\<close>. The cache (moka) in front of the store is a record
  \<open>cache\<close> of operations.
\<close>

subsection \<open>The engine\<close>

record redb_tables =
  tb_desc :: "bytes \<rightharpoonup> bytes"
  tb_rk :: "(bytes \<times> bytes) set"
  tb_dedup :: "bytes \<rightharpoonup> bytes"
  tb_seq :: "bytes \<rightharpoonup> u64"

record 'db redb =
  rd_begin_read :: "'db \<Rightarrow> string + 'db"
  rd_begin_write :: "'db \<Rightarrow> string + 'db"
  rd_commit :: "'db \<Rightarrow> string + 'db"
  desc_get :: "'db \<Rightarrow> bytes \<Rightarrow> string + bytes option"
  desc_insert :: "'db \<Rightarrow> bytes \<Rightarrow> bytes \<Rightarrow> string + 'db"
  desc_remove :: "'db \<Rightarrow> bytes \<Rightarrow> string + 'db"
  desc_iter :: "'db \<Rightarrow> string + (string + bytes) list"
  desc_len :: "'db \<Rightarrow> string + nat"
  rk_get :: "'db \<Rightarrow> bytes \<Rightarrow> string + (string + bytes) list"
  rk_insert :: "'db \<Rightarrow> bytes \<Rightarrow> bytes \<Rightarrow> string + 'db"
  rk_remove :: "'db \<Rightarrow> bytes \<Rightarrow> bytes \<Rightarrow> string + 'db"
  rk_len :: "'db \<Rightarrow> string + nat"
  dedup_get :: "'db \<Rightarrow> bytes \<Rightarrow> string + bytes option"
  dedup_insert :: "'db \<Rightarrow> bytes \<Rightarrow> bytes \<Rightarrow> string + 'db"
  dedup_remove :: "'db \<Rightarrow> bytes \<Rightarrow> string + 'db"
  seq_get :: "'db \<Rightarrow> bytes \<Rightarrow> string + u64 option"
  seq_insert :: "'db \<Rightarrow> bytes \<Rightarrow> u64 \<Rightarrow> string + 'db"
  seq_remove :: "'db \<Rightarrow> bytes \<Rightarrow> string + 'db"
  desc_enc :: "descriptor \<Rightarrow> mesh_error + bytes"
  desc_dec :: "bytes \<Rightarrow> mesh_error + descriptor"

definition redb_ok :: "'db redb \<Rightarrow> ('db \<Rightarrow> redb_tables) \<Rightarrow> bool" where
  "redb_ok R v \<longleftrightarrow>
     (\<forall>t t'. rd_begin_read R t = Ok t' \<longrightarrow> v t' = v t) \<and>
     (\<forall>t t'. rd_begin_write R t = Ok t' \<longrightarrow> v t' = v t) \<and>
     (\<forall>t t'. rd_commit R t = Ok t' \<longrightarrow> v t' = v t) \<and>
     (\<forall>t k r. desc_get R t k = Ok r \<longrightarrow> r = tb_desc (v t) k) \<and>
     (\<forall>t k x t'. desc_insert R t k x = Ok t' \<longrightarrow> v t' = (v t)\<lparr>tb_desc := (tb_desc (v t))(k \<mapsto> x)\<rparr>) \<and>
     (\<forall>t k t'. desc_remove R t k = Ok t' \<longrightarrow> v t' = (v t)\<lparr>tb_desc := (tb_desc (v t))(k := None)\<rparr>) \<and>
     (\<forall>t xs x. desc_iter R t = Ok xs \<longrightarrow> (Ok x \<in> set xs \<longrightarrow> x \<in> ran (tb_desc (v t)))) \<and>
     (\<forall>t k xs i. rk_get R t k = Ok xs \<longrightarrow> Ok i \<in> set xs \<longrightarrow> (k, i) \<in> tb_rk (v t)) \<and>
     (\<forall>t k x t'. rk_insert R t k x = Ok t' \<longrightarrow> v t' = (v t)\<lparr>tb_rk := insert (k, x) (tb_rk (v t))\<rparr>) \<and>
     (\<forall>t k x t'. rk_remove R t k x = Ok t' \<longrightarrow> v t' = (v t)\<lparr>tb_rk := tb_rk (v t) - {(k, x)}\<rparr>) \<and>
     (\<forall>t k r. dedup_get R t k = Ok r \<longrightarrow> r = tb_dedup (v t) k) \<and>
     (\<forall>t k x t'. dedup_insert R t k x = Ok t' \<longrightarrow> v t' = (v t)\<lparr>tb_dedup := (tb_dedup (v t))(k \<mapsto> x)\<rparr>) \<and>
     (\<forall>t k t'. dedup_remove R t k = Ok t' \<longrightarrow> v t' = (v t)\<lparr>tb_dedup := (tb_dedup (v t))(k := None)\<rparr>) \<and>
     (\<forall>t k r. seq_get R t k = Ok r \<longrightarrow> r = tb_seq (v t) k) \<and>
     (\<forall>t k x t'. seq_insert R t k x = Ok t' \<longrightarrow> v t' = (v t)\<lparr>tb_seq := (tb_seq (v t))(k \<mapsto> x)\<rparr>) \<and>
     (\<forall>t k t'. seq_remove R t k = Ok t' \<longrightarrow> v t' = (v t)\<lparr>tb_seq := (tb_seq (v t))(k := None)\<rparr>) \<and>
     (\<forall>d x. desc_enc R d = Ok x \<longrightarrow> desc_dec R x = Ok d)"

text \<open>No input/output error: every operation succeeds, and iterations are complete.\<close>

definition redb_up :: "'db redb \<Rightarrow> ('db \<Rightarrow> redb_tables) \<Rightarrow> bool" where
  "redb_up R v \<longleftrightarrow>
     (\<forall>t. is_ok (rd_begin_read R t) \<and> is_ok (rd_begin_write R t) \<and> is_ok (rd_commit R t) \<and>
        (\<exists>xs. desc_iter R t = Ok xs \<and> (\<forall>x. x \<in> ran (tb_desc (v t)) \<longrightarrow> Ok x \<in> set xs)) \<and>
        (\<forall>k. is_ok (desc_get R t k) \<and> is_ok (desc_remove R t k) \<and>
           is_ok (dedup_get R t k) \<and> is_ok (dedup_remove R t k) \<and> is_ok (seq_get R t k) \<and>
           is_ok (seq_remove R t k) \<and>
           (\<exists>xs. rk_get R t k = Ok xs \<and> (\<forall>i. (k, i) \<in> tb_rk (v t) \<longrightarrow> Ok i \<in> set xs)) \<and>
           (\<forall>x. is_ok (desc_insert R t k x) \<and> is_ok (rk_insert R t k x) \<and> is_ok (rk_remove R t k x) \<and>
              is_ok (dedup_insert R t k x)) \<and>
           (\<forall>x. is_ok (seq_insert R t k x))))"

subsection \<open>RedbStorage\<close>

record 'db redb_storage =
  rs_db :: 'db
  rs_rate :: "bytes \<rightharpoonup> u64 list"
  skip_rate_limit :: bool

definition hash_bytes :: "hash \<Rightarrow> bytes" where
  "hash_bytes h = hash_algorithm h # digest h"

definition identity_bytes :: "identity \<Rightarrow> bytes" where
  "identity_bytes i = id_algorithm i # public_key i"

definition redb_dedup_key :: "prims \<Rightarrow> descriptor \<Rightarrow> bytes" where
  "redb_dedup_key P d =
     blake3 P (identity_bytes (publisher d) @ hash_bytes (schema_hash d) @ as_bytes (topic d))"

definition db_err :: "string \<Rightarrow> store_error" where
  "db_err e = ValidationFailed (''storage: '' @ e)"

definition check_rate_limit ::
  "'db redb_storage \<Rightarrow> identity \<Rightarrow> u64 \<Rightarrow> bool \<times> 'db redb_storage" where
  "check_rate_limit s pub now =
     (let key = identity_bytes pub;
          rows0 = (case rs_rate s key of None \<Rightarrow> [] | Some ts \<Rightarrow> ts);
          kept = filter (\<lambda>ts. sat_sub now ts < RATE_LIMIT_WINDOW_MICROS) rows0
      in if length kept \<ge> RATE_LIMIT_PER_MINUTE
         then (False, s\<lparr>rs_rate := (rs_rate s)(key \<mapsto> kept)\<rparr>)
         else (True, s\<lparr>rs_rate := (rs_rate s)(key \<mapsto> kept @ [now])\<rparr>))"

text \<open>\<open>op.map_err(db_err)?\<close> followed by the rest, and \<open>let _ = op\<close>.\<close>

definition try_db :: "string + 'a \<Rightarrow> ('a \<Rightarrow> store_error + 'b) \<Rightarrow> store_error + 'b" where
  "try_db r k = (case r of Err e \<Rightarrow> Err (db_err e) | Ok x \<Rightarrow> k x)"

definition ignore_err :: "'db \<Rightarrow> string + 'db \<Rightarrow> 'db" where
  "ignore_err t r = (case r of Err _ \<Rightarrow> t | Ok t' \<Rightarrow> t')"

fun rk_insert_all :: "'db redb \<Rightarrow> bytes \<Rightarrow> hash list \<Rightarrow> 'db \<Rightarrow> store_error + 'db" where
  "rk_insert_all R i [] t = Ok t"
| "rk_insert_all R i (k # ks) t = try_db (rk_insert R t (hash_bytes k) i) (rk_insert_all R i ks)"

definition rk_remove_all :: "'db redb \<Rightarrow> bytes \<Rightarrow> hash list \<Rightarrow> 'db \<Rightarrow> 'db" where
  "rk_remove_all R i ks t = fold (\<lambda>k t. ignore_err t (rk_remove R t (hash_bytes k) i)) ks t"

definition old_routing_keys :: "'db redb \<Rightarrow> bytes option \<Rightarrow> hash list" where
  "old_routing_keys R v =
     (case v of
        None \<Rightarrow> []
      | Some b \<Rightarrow> (case desc_dec R b of Err _ \<Rightarrow> [] | Ok d \<Rightarrow> routing_keys d))"

text \<open>Removing the version that the dedup index points to, with its routing-key entries.\<close>

definition remove_old :: "'db redb \<Rightarrow> bytes option \<Rightarrow> 'db \<Rightarrow> store_error + 'db" where
  "remove_old R old_id t =
     (case old_id of
        None \<Rightarrow> Ok t
      | Some oid \<Rightarrow>
          try_db (desc_get R t oid) (\<lambda>v.
            let t' = rk_remove_all R oid (old_routing_keys R v) t
            in Ok (ignore_err t' (desc_remove R t' oid))))"

text \<open>The write transaction of \<open>store_descriptor_at\<close>: the new database.\<close>

definition redb_write :: "prims \<Rightarrow> 'db redb \<Rightarrow> 'db \<Rightarrow> descriptor \<Rightarrow> store_error + 'db" where
  "redb_write P R db d =
     (let dk = redb_dedup_key P d; i = hash_bytes (id_hash d) in
      case desc_enc R d of
        Err e \<Rightarrow> Err (db_err (mesh_error_display e))
      | Ok cbor \<Rightarrow>
          try_db (rd_begin_write R db) (\<lambda>t0.
          try_db (seq_get R t0 dk) (\<lambda>current.
            if (case current of Some c \<Rightarrow> sequence d < c | None \<Rightarrow> False)
            then Err (StaleDescriptor (sequence d) (the current))
            else
              try_db (dedup_get R t0 dk) (\<lambda>old_id.
              case remove_old R old_id t0 of Err e \<Rightarrow> Err e | Ok t1 \<Rightarrow>
              try_db (desc_insert R t1 i cbor) (\<lambda>t2.
              case rk_insert_all R i (routing_keys d) t2 of Err e \<Rightarrow> Err e | Ok t3 \<Rightarrow>
              try_db (dedup_insert R t3 dk i) (\<lambda>t4.
              try_db (seq_insert R t4 dk (sequence d)) (\<lambda>t5.
              try_db (rd_commit R t5) Ok)))))))"

definition redb_store_at ::
  "prims \<Rightarrow> 'db redb \<Rightarrow> 'db redb_storage \<Rightarrow> descriptor \<Rightarrow> u64 \<Rightarrow> (store_error + unit) \<times> 'db redb_storage" where
  "redb_store_at P R s d now =
     (case validate P d now of
        Err e \<Rightarrow> (Err (ValidationFailed (mesh_error_display e)), s)
      | Ok _ \<Rightarrow>
          let (allowed, s1) = (if skip_rate_limit s then (True, s) else check_rate_limit s (publisher d) now)
          in if \<not> allowed then (Err (RateLimited RATE_LIMIT_PER_MINUTE), s1)
             else case redb_write P R (rs_db s1) d of
                    Err e \<Rightarrow> (Err e, s1)
                  | Ok db \<Rightarrow> (Ok (), s1\<lparr>rs_db := db\<rparr>))"

fun redb_collect ::
  "'db redb \<Rightarrow> 'db \<Rightarrow> filter_set option \<Rightarrow> u64 \<Rightarrow> (string + bytes) list \<Rightarrow> descriptor list" where
  "redb_collect R t filters now [] = []"
| "redb_collect R t filters now (Inl e # es) = redb_collect R t filters now es"
| "redb_collect R t filters now (Inr i # es) =
     (case desc_get R t i of
        Ok (Some b) \<Rightarrow>
          (case desc_dec R b of
             Err _ \<Rightarrow> redb_collect R t filters now es
           | Ok d \<Rightarrow>
               if min (timestamp d) now + ttl_micros (ttl d) \<le> now then redb_collect R t filters now es
               else if \<not> filter_matches filters d then redb_collect R t filters now es
               else d # redb_collect R t filters now es)
      | _ \<Rightarrow> redb_collect R t filters now es)"

definition redb_get_at ::
  "'db redb \<Rightarrow> 'db redb_storage \<Rightarrow> hash \<Rightarrow> filter_set option \<Rightarrow> u64 \<Rightarrow> descriptor list" where
  "redb_get_at R s k filters now =
     (case rd_begin_read R (rs_db s) of
        Err _ \<Rightarrow> []
      | Ok t \<Rightarrow>
          (case rk_get R t (hash_bytes k) of
             Err _ \<Rightarrow> []
           | Ok rows \<Rightarrow> redb_collect R t filters now rows))"

fun redb_expired :: "'db redb \<Rightarrow> u64 \<Rightarrow> (string + bytes) list \<Rightarrow> descriptor list" where
  "redb_expired R now [] = []"
| "redb_expired R now (Inl e # es) = redb_expired R now es"
| "redb_expired R now (Inr b # es) =
     (case desc_dec R b of
        Err _ \<Rightarrow> redb_expired R now es
      | Ok d \<Rightarrow>
          if min (timestamp d) now + ttl_micros (ttl d) \<le> now then d # redb_expired R now es
          else redb_expired R now es)"

text \<open>The four removals for one expired descriptor, the watermark included.\<close>

definition redb_drop :: "prims \<Rightarrow> 'db redb \<Rightarrow> descriptor \<Rightarrow> 'db \<Rightarrow> 'db" where
  "redb_drop P R d t =
     (let i = hash_bytes (id_hash d); dk = redb_dedup_key P d;
          t1 = ignore_err t (desc_remove R t i);
          t2 = rk_remove_all R i (routing_keys d) t1;
          t3 = ignore_err t2 (dedup_remove R t2 dk)
      in ignore_err t3 (seq_remove R t3 dk))"

definition redb_evict_at :: "prims \<Rightarrow> 'db redb \<Rightarrow> 'db redb_storage \<Rightarrow> u64 \<Rightarrow> 'db redb_storage" where
  "redb_evict_at P R s now =
     (case rd_begin_write R (rs_db s) of
        Err _ \<Rightarrow> s
      | Ok t \<Rightarrow>
          (case desc_iter R t of
             Err _ \<Rightarrow> s
           | Ok rows \<Rightarrow>
               s\<lparr>rs_db := ignore_err (rs_db s)
                   (rd_commit R (fold (redb_drop P R) (redb_expired R now rows) t))\<rparr>))"

definition redb_has_descriptors :: "'db redb \<Rightarrow> 'db redb_storage \<Rightarrow> hash \<Rightarrow> bool" where
  "redb_has_descriptors R s k =
     (case rd_begin_read R (rs_db s) of
        Err _ \<Rightarrow> False
      | Ok t \<Rightarrow> (case rk_get R t (hash_bytes k) of Err _ \<Rightarrow> False | Ok rows \<Rightarrow> rows \<noteq> []))"

definition redb_descriptor_count :: "'db redb \<Rightarrow> 'db redb_storage \<Rightarrow> nat" where
  "redb_descriptor_count R s =
     (case rd_begin_read R (rs_db s) of
        Err _ \<Rightarrow> 0
      | Ok t \<Rightarrow> (case desc_len R t of Err _ \<Rightarrow> 0 | Ok n \<Rightarrow> n))"

definition redb_routing_key_count :: "'db redb \<Rightarrow> 'db redb_storage \<Rightarrow> nat" where
  "redb_routing_key_count R s =
     (case rd_begin_read R (rs_db s) of
        Err _ \<Rightarrow> 0
      | Ok t \<Rightarrow> (case rk_len R t of Err _ \<Rightarrow> 0 | Ok n \<Rightarrow> n))"

fun redb_live :: "'db redb \<Rightarrow> u64 \<Rightarrow> (string + bytes) list \<Rightarrow> descriptor list" where
  "redb_live R now [] = []"
| "redb_live R now (Inl e # es) = redb_live R now es"
| "redb_live R now (Inr b # es) =
     (case desc_dec R b of
        Err _ \<Rightarrow> redb_live R now es
      | Ok d \<Rightarrow>
          if min (timestamp d) now + ttl_micros (ttl d) \<le> now then redb_live R now es
          else d # redb_live R now es)"

definition all_descriptors :: "'db redb \<Rightarrow> 'db redb_storage \<Rightarrow> u64 \<Rightarrow> descriptor list" where
  "all_descriptors R s now =
     (case rd_begin_read R (rs_db s) of
        Err _ \<Rightarrow> []
      | Ok t \<Rightarrow> (case desc_iter R t of Err _ \<Rightarrow> [] | Ok rows \<Rightarrow> redb_live R now rows))"

definition redb_backend :: "prims \<Rightarrow> 'db redb \<Rightarrow> 'db redb_storage backend" where
  "redb_backend P R =
     \<lparr>be_store = redb_store_at P R, be_get = (\<lambda>s k f now. (redb_get_at R s k f now, s)),
      be_evict = redb_evict_at P R\<rparr>"

subsection \<open>CachedStorage\<close>

text \<open>moka: \<open>get\<close> may miss at any time (the cache evicts on its own), and may change the cache.\<close>

record 'c cache =
  cache_get :: "'c \<Rightarrow> bytes \<Rightarrow> descriptor list option \<times> 'c"
  cache_insert :: "'c \<Rightarrow> bytes \<Rightarrow> descriptor list \<Rightarrow> 'c"
  cache_invalidate :: "'c \<Rightarrow> bytes \<Rightarrow> 'c"
  cache_invalidate_all :: "'c \<Rightarrow> 'c"

record ('s, 'c) cached_storage =
  cs_inner :: 's
  cs_cache :: 'c

definition cached_store ::
  "'s backend \<Rightarrow> 'c cache \<Rightarrow> ('s, 'c) cached_storage \<Rightarrow> descriptor \<Rightarrow> u64 \<Rightarrow>
   (store_error + unit) \<times> ('s, 'c) cached_storage" where
  "cached_store B M s d now =
     (let rk_keys = map hash_bytes (routing_keys d) in
      case be_store B (cs_inner s) d now of
        (Err e, i) \<Rightarrow> (Err e, s\<lparr>cs_inner := i\<rparr>)
      | (Ok _, i) \<Rightarrow>
          (Ok (), s\<lparr>cs_inner := i, cs_cache := fold (\<lambda>rk c. cache_invalidate M c rk) rk_keys (cs_cache s)\<rparr>))"

definition cached_get ::
  "'s backend \<Rightarrow> 'c cache \<Rightarrow> ('s, 'c) cached_storage \<Rightarrow> hash \<Rightarrow> filter_set option \<Rightarrow> u64 \<Rightarrow>
   descriptor list \<times> ('s, 'c) cached_storage" where
  "cached_get B M s k filters now =
     (let rk = hash_bytes k;
          (hit, c1) = cache_get M (cs_cache s) rk;
          (all, s2) = (case hit of
             Some cached \<Rightarrow> (cached, s\<lparr>cs_cache := c1\<rparr>)
           | None \<Rightarrow>
               let (loaded, i) = be_get B (cs_inner s) k None now
               in (loaded, s\<lparr>cs_inner := i, cs_cache := cache_insert M c1 rk loaded\<rparr>))
      in (case filters of None \<Rightarrow> all | Some f \<Rightarrow> filter (filter_matches (Some f)) all, s2))"

definition cached_get_at ::
  "'s backend \<Rightarrow> ('s, 'c) cached_storage \<Rightarrow> hash \<Rightarrow> filter_set option \<Rightarrow> u64 \<Rightarrow> descriptor list" where
  "cached_get_at B s k filters now = fst (be_get B (cs_inner s) k filters now)"

definition cached_evict :: "'s backend \<Rightarrow> 'c cache \<Rightarrow> ('s, 'c) cached_storage \<Rightarrow> u64 \<Rightarrow> ('s, 'c) cached_storage" where
  "cached_evict B M s now =
     s\<lparr>cs_inner := be_evict B (cs_inner s) now, cs_cache := cache_invalidate_all M (cs_cache s)\<rparr>"

definition cached_has_descriptors ::
  "('s \<Rightarrow> hash \<Rightarrow> bool) \<Rightarrow> 'c cache \<Rightarrow> ('s, 'c) cached_storage \<Rightarrow> hash \<Rightarrow> bool" where
  "cached_has_descriptors inner_has M s k =
     (case fst (cache_get M (cs_cache s) (hash_bytes k)) of
        Some cached \<Rightarrow> cached \<noteq> []
      | None \<Rightarrow> inner_has (cs_inner s) k)"

definition cached_backend :: "'s backend \<Rightarrow> 'c cache \<Rightarrow> ('s, 'c) cached_storage backend" where
  "cached_backend B M =
     \<lparr>be_store = cached_store B M, be_get = cached_get B M, be_evict = cached_evict B M\<rparr>"

subsection \<open>Lemmas on the engine\<close>

lemma redb_okD:
  assumes "redb_ok R v"
  shows "rd_begin_read R t = Ok t' \<Longrightarrow> v t' = v t" "rd_begin_write R t = Ok t' \<Longrightarrow> v t' = v t"
    "rd_commit R t = Ok t' \<Longrightarrow> v t' = v t"
    "desc_get R t k = Ok r \<Longrightarrow> r = tb_desc (v t) k"
    "desc_insert R t k x = Ok t' \<Longrightarrow> v t' = (v t)\<lparr>tb_desc := (tb_desc (v t))(k \<mapsto> x)\<rparr>"
    "desc_remove R t k = Ok t' \<Longrightarrow> v t' = (v t)\<lparr>tb_desc := (tb_desc (v t))(k := None)\<rparr>"
    "desc_iter R t = Ok xs \<Longrightarrow> Ok x \<in> set xs \<Longrightarrow> x \<in> ran (tb_desc (v t))"
    "rk_get R t k = Ok ys \<Longrightarrow> Ok i \<in> set ys \<Longrightarrow> (k, i) \<in> tb_rk (v t)"
    "rk_insert R t k x = Ok t' \<Longrightarrow> v t' = (v t)\<lparr>tb_rk := insert (k, x) (tb_rk (v t))\<rparr>"
    "rk_remove R t k x = Ok t' \<Longrightarrow> v t' = (v t)\<lparr>tb_rk := tb_rk (v t) - {(k, x)}\<rparr>"
    "dedup_get R t k = Ok r \<Longrightarrow> r = tb_dedup (v t) k"
    "dedup_insert R t k x = Ok t' \<Longrightarrow> v t' = (v t)\<lparr>tb_dedup := (tb_dedup (v t))(k \<mapsto> x)\<rparr>"
    "dedup_remove R t k = Ok t' \<Longrightarrow> v t' = (v t)\<lparr>tb_dedup := (tb_dedup (v t))(k := None)\<rparr>"
    "seq_get R t k = Ok q \<Longrightarrow> q = tb_seq (v t) k"
    "seq_insert R t k n = Ok t' \<Longrightarrow> v t' = (v t)\<lparr>tb_seq := (tb_seq (v t))(k \<mapsto> n)\<rparr>"
    "seq_remove R t k = Ok t' \<Longrightarrow> v t' = (v t)\<lparr>tb_seq := (tb_seq (v t))(k := None)\<rparr>"
    "desc_enc R d = Ok x \<Longrightarrow> desc_dec R x = Ok d"
  using assms by (simp_all only: redb_ok_def)

lemma redb_upD:
  assumes "redb_up R v"
  shows "\<exists>t'. rd_begin_read R t = Ok t'" "\<exists>t'. rd_begin_write R t = Ok t'" "\<exists>t'. rd_commit R t = Ok t'"
    "\<exists>xs. desc_iter R t = Ok xs \<and> (\<forall>x. x \<in> ran (tb_desc (v t)) \<longrightarrow> Ok x \<in> set xs)"
    "\<exists>r. desc_get R t k = Ok r" "\<exists>t'. desc_insert R t k x = Ok t'" "\<exists>t'. desc_remove R t k = Ok t'"
    "\<exists>xs. rk_get R t k = Ok xs \<and> (\<forall>i. (k, i) \<in> tb_rk (v t) \<longrightarrow> Ok i \<in> set xs)"
    "\<exists>t'. rk_insert R t k x = Ok t'" "\<exists>t'. rk_remove R t k x = Ok t'"
    "\<exists>r. dedup_get R t k = Ok r" "\<exists>t'. dedup_insert R t k x = Ok t'" "\<exists>t'. dedup_remove R t k = Ok t'"
    "\<exists>r. seq_get R t k = Ok r" "\<exists>t'. seq_insert R t k n = Ok t'" "\<exists>t'. seq_remove R t k = Ok t'"
  using assms unfolding redb_up_def by (blast elim: is_okE)+

lemma try_db_Ok: "try_db r k = Ok y \<longleftrightarrow> (\<exists>x. r = Ok x \<and> k x = Ok y)"
  by (auto simp: try_db_def split: sum.split)

lemma try_db_simps [simp]: "try_db (Ok x) k = k x" "try_db (Err e) k = Err (db_err e)"
  by (simp_all add: try_db_def)

lemma ignore_err_simps [simp]: "ignore_err t (Ok t') = t'" "ignore_err t (Err e) = t"
  by (simp_all add: ignore_err_def)

text \<open>What the steps do to the tables, with or without ignored errors.\<close>

lemma ignore_desc_remove:
  "redb_ok R v \<Longrightarrow> v (ignore_err t (desc_remove R t k)) =
     (case desc_remove R t k of Err _ \<Rightarrow> v t | Ok _ \<Rightarrow> (v t)\<lparr>tb_desc := (tb_desc (v t))(k := None)\<rparr>)"
  by (cases "desc_remove R t k") (simp_all add: redb_okD)

lemma rk_remove_all_tables:
  assumes "redb_ok R v"
  shows "tb_desc (v (rk_remove_all R i ks t)) = tb_desc (v t) \<and>
     tb_dedup (v (rk_remove_all R i ks t)) = tb_dedup (v t) \<and>
     tb_seq (v (rk_remove_all R i ks t)) = tb_seq (v t) \<and>
     tb_rk (v (rk_remove_all R i ks t)) \<subseteq> tb_rk (v t) \<and>
     (\<forall>k j. j \<noteq> i \<longrightarrow> (k, j) \<in> tb_rk (v t) \<longrightarrow> (k, j) \<in> tb_rk (v (rk_remove_all R i ks t)))"
proof (induction ks arbitrary: t)
  case Nil
  show ?case by (simp add: rk_remove_all_def)
next
  case (Cons k ks)
  let ?t = "ignore_err t (rk_remove R t (hash_bytes k) i)"
  have r: "rk_remove_all R i (k # ks) t = rk_remove_all R i ks ?t" by (simp add: rk_remove_all_def)
  have "v ?t = v t \<or> v ?t = (v t)\<lparr>tb_rk := tb_rk (v t) - {(hash_bytes k, i)}\<rparr>"
    by (cases "rk_remove R t (hash_bytes k) i") (simp_all add: redb_okD(10) [OF assms])
  then show ?case using Cons.IH [of ?t] unfolding r by auto
qed

lemma rk_insert_all_tables:
  assumes "redb_ok R v"
  shows "rk_insert_all R i ks t = Ok t' \<Longrightarrow>
     v t' = (v t)\<lparr>tb_rk := tb_rk (v t) \<union> {(hash_bytes k, i) |k. k \<in> set ks}\<rparr>"
proof (induction ks arbitrary: t)
  case Nil
  then show ?case by simp
next
  case (Cons k ks)
  then obtain t1 where t1: "rk_insert R t (hash_bytes k) i = Ok t1" "rk_insert_all R i ks t1 = Ok t'"
    by (auto simp: try_db_Ok)
  have "tb_rk (v t1) \<union> {(hash_bytes k', i) |k'. k' \<in> set ks}
      = tb_rk (v t) \<union> {(hash_bytes k', i) |k'. k' \<in> set (k # ks)}"
    by (auto simp: redb_okD(9) [OF assms t1(1)])
  then show ?case using Cons.IH [OF t1(2)] redb_okD(9) [OF assms t1(1)] by simp
qed

lemma remove_old_tables:
  assumes "redb_ok R v" and "remove_old R old t = Ok t'"
  shows "(\<forall>k. tb_desc (v t') k = tb_desc (v t) k \<or> old = Some k \<and> tb_desc (v t') k = None) \<and>
     tb_seq (v t') = tb_seq (v t) \<and>
     (\<forall>k j. old \<noteq> Some j \<longrightarrow> (k, j) \<in> tb_rk (v t) \<longrightarrow> (k, j) \<in> tb_rk (v t'))"
proof (cases old)
  case None
  then show ?thesis using assms by (simp add: remove_old_def)
next
  case (Some oid)
  obtain ov where ov: "desc_get R t oid = Ok ov"
    using assms(2) Some by (auto simp: remove_old_def try_db_Ok)
  let ?t = "rk_remove_all R oid (old_routing_keys R ov) t"
  have t': "t' = ignore_err ?t (desc_remove R ?t oid)"
    using assms(2) Some ov by (simp add: remove_old_def Let_def)
  note k = rk_remove_all_tables [OF assms(1), of oid "old_routing_keys R ov" t]
  show ?thesis
    unfolding t' ignore_desc_remove [OF assms(1)] using k Some by (auto split: sum.split)
qed

text \<open>A successful write: everything that is in the tables afterwards.\<close>

lemma redb_write_Ok:
  assumes ok: "redb_ok R v" and w: "redb_write P R db d = Ok db'"
  obtains cbor old where "desc_enc R d = Ok cbor" and "desc_dec R cbor = Ok d"
    and "old = tb_dedup (v db) (redb_dedup_key P d)"
    and "tb_desc (v db') (hash_bytes (id_hash d)) = Some cbor"
    and "\<And>k. k \<noteq> hash_bytes (id_hash d) \<Longrightarrow>
          tb_desc (v db') k = tb_desc (v db) k \<or> old = Some k \<and> tb_desc (v db') k = None"
    and "\<And>k. k \<in> set (routing_keys d) \<Longrightarrow> (hash_bytes k, hash_bytes (id_hash d)) \<in> tb_rk (v db')"
    and "\<And>k j. old \<noteq> Some j \<Longrightarrow> (k, j) \<in> tb_rk (v db) \<Longrightarrow> (k, j) \<in> tb_rk (v db')"
    and "tb_seq (v db') = (tb_seq (v db))(redb_dedup_key P d \<mapsto> sequence d)"
    and "\<And>c. tb_seq (v db) (redb_dedup_key P d) = Some c \<Longrightarrow> c \<le> sequence d"
proof -
  let ?dk = "redb_dedup_key P d" and ?i = "hash_bytes (id_hash d)"
  obtain cbor where e: "desc_enc R d = Ok cbor"
    using w by (auto simp: redb_write_def Let_def split: sum.splits)
  obtain t0 cur where t0: "rd_begin_write R db = Ok t0" and cur: "seq_get R t0 ?dk = Ok cur"
    using w e by (auto simp: redb_write_def Let_def try_db_Ok)
  have nl: "\<not> (case cur of Some c \<Rightarrow> sequence d < c | None \<Rightarrow> False)"
    using w e t0 cur by (auto simp: redb_write_def Let_def)
  obtain old where old: "dedup_get R t0 ?dk = Ok old"
    using w e t0 cur nl by (auto simp: redb_write_def Let_def try_db_Ok)
  obtain t1 where t1: "remove_old R old t0 = Ok t1"
    using w e t0 cur nl old by (auto simp: redb_write_def Let_def split: sum.splits)
  obtain t2 where t2: "desc_insert R t1 ?i cbor = Ok t2"
    using w e t0 cur nl old t1 by (auto simp: redb_write_def Let_def try_db_Ok)
  obtain t3 where t3: "rk_insert_all R ?i (routing_keys d) t2 = Ok t3"
    using w e t0 cur nl old t1 t2 by (auto simp: redb_write_def Let_def split: sum.splits)
  obtain t4 t5 where t4: "dedup_insert R t3 ?dk ?i = Ok t4" and t5: "seq_insert R t4 ?dk (sequence d) = Ok t5"
    and c: "rd_commit R t5 = Ok db'"
    using w e t0 cur nl old t1 t2 t3 by (auto simp: redb_write_def Let_def try_db_Ok)
  note r = remove_old_tables [OF ok t1]
  have v0: "v t0 = v db" by (rule redb_okD(2) [OF ok t0])
  have v3: "v t3 = (v t1)\<lparr>tb_desc := (tb_desc (v t1))(?i \<mapsto> cbor),
      tb_rk := tb_rk (v t1) \<union> {(hash_bytes k, ?i) |k. k \<in> set (routing_keys d)}\<rparr>"
    by (simp add: rk_insert_all_tables [OF ok t3] redb_okD(5) [OF ok t2])
  have v': "v db' = (v t3)\<lparr>tb_dedup := (tb_dedup (v t3))(?dk \<mapsto> ?i), tb_seq := (tb_seq (v t3))(?dk \<mapsto> sequence d)\<rparr>"
    by (simp add: redb_okD(3) [OF ok c] redb_okD(15) [OF ok t5] redb_okD(12) [OF ok t4])
  have old': "old = tb_dedup (v db) ?dk" using redb_okD(11) [OF ok old] v0 by simp
  have seq: "cur = tb_seq (v db) ?dk" using redb_okD(14) [OF ok cur] v0 by simp
  show thesis
  proof (rule that [OF e redb_okD(17) [OF ok e] old'])
    show "tb_desc (v db') k = tb_desc (v db) k \<or> old = Some k \<and> tb_desc (v db') k = None"
      if "k \<noteq> ?i" for k
      using r that by (simp add: v' v3 v0)
    show "(k, j) \<in> tb_rk (v db')" if "old \<noteq> Some j" "(k, j) \<in> tb_rk (v db)" for k j
      using r that by (simp add: v' v3 v0)
    show "c \<le> sequence d" if "tb_seq (v db) ?dk = Some c" for c
      using nl that by (simp add: seq)
  qed (use r in \<open>auto simp: v' v3 v0\<close>)
qed

subsection \<open>What the store serves\<close>

definition desc_good :: "prims \<Rightarrow> descriptor \<Rightarrow> bool" where
  "desc_good P d \<longleftrightarrow> authentic P d \<and> well_formed d"

definition redb_inv :: "prims \<Rightarrow> 'db redb \<Rightarrow> ('db \<Rightarrow> redb_tables) \<Rightarrow> 'db redb_storage \<Rightarrow> bool" where
  "redb_inv P R v s \<longleftrightarrow>
     (\<forall>k b. tb_desc (v (rs_db s)) k = Some b \<longrightarrow> 
        (\<exists>d. desc_dec R b = Ok d \<and> desc_good P d \<and> k = hash_bytes (id_hash d)))"

lemma check_rate_limit_db: "check_rate_limit s p now = (ok, s') \<Longrightarrow>
    rs_db s' = rs_db s \<and> skip_rate_limit s' = skip_rate_limit s"
  by (auto simp: check_rate_limit_def Let_def split: if_splits)

lemma redb_store_cases:
  obtains (refused) e s1 where "redb_store_at P R s d now = (Err e, s1)" and "rs_db s1 = rs_db s"
  | (written_back) db s1 where "redb_store_at P R s d now = (Ok (), s1)" and "rs_db s1 = db"
      and "redb_write P R (rs_db s) d = Ok db" and "validate P d now = Ok ()"
proof -
  obtain al s1 where c: "(if skip_rate_limit s then (True, s) else check_rate_limit s (publisher d) now) = (al, s1)"
    by (rule prod.exhaust)
  then have db: "rs_db s1 = rs_db s" using check_rate_limit_db [of s "publisher d" now al s1]
    by (auto split: if_splits)
  show thesis
  proof (cases "validate P d now")
    case (Inl e)
    then show ?thesis using refused by (simp add: redb_store_at_def)
  next
    case (Inr u)
    show ?thesis
      using Inr c db refused written_back
      by (cases al; cases "redb_write P R (rs_db s) d") (auto simp: redb_store_at_def)
  qed
qed

lemma redb_store_inv [invariants]:
  assumes "redb_ok R v" and "redb_inv P R v s"
  shows "redb_inv P R v (snd (redb_store_at P R s d now))"
proof (cases rule: redb_store_cases [of P R s d now])
  case (refused e s1)
  then show ?thesis using assms(2) by (simp add: redb_inv_def)
next
  case (written_back db s1)
  obtain cbor old where w: "desc_dec R cbor = Ok d"
    "tb_desc (v db) (hash_bytes (id_hash d)) = Some cbor"
    "\<And>k. k \<noteq> hash_bytes (id_hash d) \<Longrightarrow>
       tb_desc (v db) k = tb_desc (v (rs_db s)) k \<or> old = Some k \<and> tb_desc (v db) k = None"
    by (rule redb_write_Ok [OF assms(1) written_back(3)]) blast
  have good: "desc_good P d" using written_back(4) by (simp add: desc_good_def validate_Ok_iff)
  have "\<exists>d'. desc_dec R b = Ok d' \<and> desc_good P d' \<and> k = hash_bytes (id_hash d')" if "tb_desc (v db) k = Some b" for k b
  proof (cases "k = hash_bytes (id_hash d)")
    case True
    then show ?thesis using w(1,2) good that by auto
  next
    case False
    then have "tb_desc (v (rs_db s)) k = Some b" using w(3) [OF False] that by auto
    then show ?thesis using assms(2) by (simp add: redb_inv_def)
  qed
  then show ?thesis using written_back(1,2) by (simp add: redb_inv_def)
qed

lemma redb_drop_tables:
  assumes "redb_ok R v"
  shows "(\<forall>k. tb_desc (v (redb_drop P R d t)) k = tb_desc (v t) k \<or>
       tb_desc (v (redb_drop P R d t)) k = None) \<and>
     (\<forall>k. tb_seq (v (redb_drop P R d t)) k = tb_seq (v t) k \<or>
       tb_seq (v (redb_drop P R d t)) k = None) \<and>
     (redb_up R v \<longrightarrow> tb_seq (v (redb_drop P R d t)) (redb_dedup_key P d) = None)"
proof -
  let ?i = "hash_bytes (id_hash d)" and ?dk = "redb_dedup_key P d"
  let ?t1 = "ignore_err t (desc_remove R t ?i)"
  let ?t2 = "rk_remove_all R ?i (routing_keys d) ?t1"
  let ?t3 = "ignore_err ?t2 (dedup_remove R ?t2 ?dk)"
  have 1: "\<forall>k. tb_desc (v ?t1) k = tb_desc (v t) k \<or> tb_desc (v ?t1) k = None"
    "tb_seq (v ?t1) = tb_seq (v t)"
    by (simp_all add: ignore_desc_remove [OF assms] split: sum.split)
  note 2 = rk_remove_all_tables [OF assms, of ?i "routing_keys d" ?t1]
  have 3: "tb_desc (v ?t3) = tb_desc (v ?t2)" "tb_seq (v ?t3) = tb_seq (v ?t2)"
    by (cases "dedup_remove R ?t2 ?dk"; simp add: redb_okD(13) [OF assms])+
  have d: "redb_drop P R d t = ignore_err ?t3 (seq_remove R ?t3 ?dk)"
    by (simp add: redb_drop_def Let_def)
  show ?thesis
  proof (cases "seq_remove R ?t3 ?dk")
    case (Inl e)
    then have "\<not> redb_up R v" using redb_upD(16) [of R v ?t3 ?dk] by auto
    then show ?thesis using Inl 1 2 3 by (simp add: d)
  next
    case (Inr t4)
    then show ?thesis using 1 2 3 redb_okD(16) [OF assms Inr] by (simp add: d)
  qed
qed

lemma fold_redb_drop_tables:
  assumes "redb_ok R v"
  shows "(\<forall>k. tb_desc (v (fold (redb_drop P R) ds t)) k = tb_desc (v t) k \<or>
       tb_desc (v (fold (redb_drop P R) ds t)) k = None) \<and>
     (\<forall>k. tb_seq (v (fold (redb_drop P R) ds t)) k = tb_seq (v t) k \<or>
       tb_seq (v (fold (redb_drop P R) ds t)) k = None) \<and>
     (redb_up R v \<longrightarrow> (\<forall>d \<in> set ds. tb_seq (v (fold (redb_drop P R) ds t)) (redb_dedup_key P d) = None))"
proof (induction ds arbitrary: t)
  case Nil
  show ?case by simp
next
  case (Cons d ds)
  have r: "fold (redb_drop P R) (d # ds) t = fold (redb_drop P R) ds (redb_drop P R d t)" by simp
  note i = Cons.IH [of "redb_drop P R d t"] and s = redb_drop_tables [OF assms, of P d t]
  show ?case unfolding r using i s by (metis set_ConsD)
qed

lemma redb_evict_cases:
  assumes "redb_ok R v"
  obtains (same) "v (rs_db (redb_evict_at P R s now)) = v (rs_db s)" and "\<not> redb_up R v"
  | (dropped) t rows where "rd_begin_write R (rs_db s) = Ok t" and "desc_iter R t = Ok rows"
      and "v (rs_db (redb_evict_at P R s now)) = v (fold (redb_drop P R) (redb_expired R now rows) t)"
      and "v t = v (rs_db s)"
proof (cases "rd_begin_write R (rs_db s)")
  case (Inl e)
  have "\<not> redb_up R v" using redb_upD(2) [of R v "rs_db s"] Inl by auto
  then show thesis using same Inl by (simp add: redb_evict_at_def)
next
  case (Inr t)
  show thesis
  proof (cases "desc_iter R t")
    case (Inl e)
    then have "\<not> redb_up R v" using redb_upD(4) [of R v t] by auto
    then show thesis using same Inl Inr by (simp add: redb_evict_at_def)
  next
    case (Inr rows)
    let ?t = "fold (redb_drop P R) (redb_expired R now rows) t"
    show thesis
    proof (cases "rd_commit R ?t")
      case (Inl e)
      then have "\<not> redb_up R v" using redb_upD(3) [of R v ?t] by auto
      then show thesis using same Inl Inr \<open>rd_begin_write R (rs_db s) = Inr t\<close>
        by (simp add: redb_evict_at_def)
    next
      case (Inr db)
      then show thesis
        using dropped \<open>rd_begin_write R (rs_db s) = Inr t\<close> \<open>desc_iter R t = Inr rows\<close>
          redb_okD(3) [OF assms Inr] redb_okD(2) [OF assms \<open>rd_begin_write R (rs_db s) = Inr t\<close>]
        by (simp add: redb_evict_at_def)
    qed
  qed
qed

lemma redb_evict_inv [invariants]:
  assumes "redb_ok R v" and "redb_inv P R v s"
  shows "redb_inv P R v (redb_evict_at P R s now)"
proof (rule redb_evict_cases [OF assms(1), of P s now])
  assume "v (rs_db (redb_evict_at P R s now)) = v (rs_db s)"
  then show ?thesis using assms(2) by (simp add: redb_inv_def)
next
  fix t rows
  assume "v (rs_db (redb_evict_at P R s now)) = v (fold (redb_drop P R) (redb_expired R now rows) t)"
    and "v t = v (rs_db s)"
  then show ?thesis
    using assms(2) fold_redb_drop_tables [OF assms(1), of P "redb_expired R now rows" t]
    unfolding redb_inv_def by (metis option.distinct(1))
qed

lemma redb_collect_set:
  "d \<in> set (redb_collect R t f now rows) \<longleftrightarrow>
     \<not> expired now d \<and> filter_matches f d \<and>
     (\<exists>i b. Ok i \<in> set rows \<and> desc_get R t i = Ok (Some b) \<and> desc_dec R b = Ok d)"
  by (induction R t f now rows rule: redb_collect.induct)
    (auto simp: expired_def split: sum.splits option.splits)

lemma redb_get_sound:
  assumes "redb_ok R v" and "redb_inv P R v s" and "d \<in> set (redb_get_at R s k f now)"
  shows "authentic P d \<and> well_formed d \<and> \<not> expired now d \<and> filter_matches f d"
proof -
  obtain t rows where t: "rd_begin_read R (rs_db s) = Ok t" and "d \<in> set (redb_collect R t f now rows)"
  proof -
    obtain t where t: "rd_begin_read R (rs_db s) = Ok t"
      using assms(3) by (cases "rd_begin_read R (rs_db s)") (auto simp: redb_get_at_def)
    then show thesis using that assms(3)
      by (cases "rk_get R t (hash_bytes k)") (auto simp: redb_get_at_def)
  qed
  then obtain i b where f: "\<not> expired now d" "filter_matches f d"
    and b: "desc_get R t i = Ok (Some b)" "desc_dec R b = Ok d"
    by (auto simp: redb_collect_set)
  have "tb_desc (v (rs_db s)) i = Some b"
    using redb_okD(4) [OF assms(1) b(1)] redb_okD(1) [OF assms(1) t] by simp
  then show ?thesis using assms(2) b(2) f by (fastforce simp: redb_inv_def desc_good_def)
qed

lemma redb_get_complete:
  assumes "redb_ok R v" and "redb_up R v" and "(hash_bytes k, i) \<in> tb_rk (v (rs_db s))"
    and "tb_desc (v (rs_db s)) i = Some b" and "desc_dec R b = Ok d"
    and "\<not> expired now d" and "filter_matches f d"
  shows "d \<in> set (redb_get_at R s k f now)"
proof -
  obtain t where t: "rd_begin_read R (rs_db s) = Ok t" using redb_upD(1) [OF assms(2)] by blast
  have v: "v t = v (rs_db s)" by (rule redb_okD(1) [OF assms(1) t])
  obtain rows where rows: "rk_get R t (hash_bytes k) = Ok rows" "Ok i \<in> set rows"
    using redb_upD(8) [OF assms(2), of t "hash_bytes k"] assms(3) v by auto
  obtain r where "desc_get R t i = Ok r" using redb_upD(5) [OF assms(2)] by blast
  then have "desc_get R t i = Ok (Some b)" using redb_okD(4) [OF assms(1)] assms(4) v by fastforce
  then show ?thesis using rows assms(5-7) t by (auto simp: redb_get_at_def redb_collect_set)
qed

lemma redb_node_backend:
  assumes "redb_ok R v"
  shows "node_backend P (redb_backend P R) (redb_inv P R v)"
proof (unfold_locales, unfold redb_backend_def, simp_all)
  show "redb_inv P R v (snd (redb_store_at P R s d now))" if "redb_inv P R v s" for s d now
    using assms that by (rule redb_store_inv)
  show "redb_inv P R v (redb_evict_at P R s now)" if "redb_inv P R v s" for s now
    using assms that by (rule redb_evict_inv)
  show "validate P d now = Ok ()" if "fst (redb_store_at P R s d now) = Ok ()" for s d now
    using that by (cases rule: redb_store_cases [of P R s d now]) simp_all
  show "authentic P d \<and> well_formed d \<and> filter_matches f d"
    if "redb_inv P R v s" "d \<in> set (redb_get_at R s k f now)" for s d k f now
    using redb_get_sound [OF assms that] by simp
qed

end
