(* ===== verification/Hub_Storage.thy ===== *)
theory Hub_Storage
  imports Redb_Storage "HOL-Library.AList"
begin

section \<open>mesh-hub: properties of the disk-backed store and of the cache\<close>

text \<open>
  What the operations of Redb_Storage promise: a store is atomic, what was stored is served
  until it expires, other slots are left alone (revocations included, which this store does not
  interpret), the watermark of a slot disappears with the eviction of its descriptor; the cache
  may answer with descriptors that have expired since, but never with one that was not stored.
\<close>

lemma hash_bytes_inj [simp]: "hash_bytes a = hash_bytes b \<longleftrightarrow> a = b"
  by (auto simp: hash_bytes_def hash_eq_iff)

lemma redb_store_keeps_on_error: "fst (redb_store_at P R s d now) = Err e \<Longrightarrow>
    rs_db (snd (redb_store_at P R s d now)) = rs_db s"
  by (cases rule: redb_store_cases [of P R s d now]) simp_all

lemma redb_store_Ok:
  assumes "fst (redb_store_at P R s d now) = Ok ()"
  obtains db where "redb_write P R (rs_db s) d = Ok db" and "rs_db (snd (redb_store_at P R s d now)) = db"
    and "validate P d now = Ok ()"
  using assms by (cases rule: redb_store_cases [of P R s d now]) auto

text \<open>A descriptor that is served comes from the row of its own id.\<close>

lemma redb_get_row:
  assumes "redb_ok R v" and "redb_inv P R v s" and "x \<in> set (redb_get_at R s k f now)"
  obtains b where "tb_desc (v (rs_db s)) (hash_bytes (id_hash x)) = Some b" and "desc_dec R b = Ok x"
    and "(hash_bytes k, hash_bytes (id_hash x)) \<in> tb_rk (v (rs_db s))"
    and "\<not> expired now x" and "filter_matches f x"
proof -
  obtain t where t: "rd_begin_read R (rs_db s) = Ok t"
    using assms(3) by (cases "rd_begin_read R (rs_db s)") (auto simp: redb_get_at_def)
  then obtain rows where r: "rk_get R t (hash_bytes k) = Ok rows" "x \<in> set (redb_collect R t f now rows)"
    using assms(3) by (cases "rk_get R t (hash_bytes k)") (auto simp: redb_get_at_def)
  then obtain i b where f: "\<not> expired now x" "filter_matches f x" "Ok i \<in> set rows"
    and b: "desc_get R t i = Ok (Some b)" "desc_dec R b = Ok x"
    by (auto simp: redb_collect_set)
  have v: "v t = v (rs_db s)" by (rule redb_okD(1) [OF assms(1) t])
  have row: "tb_desc (v (rs_db s)) i = Some b" using redb_okD(4) [OF assms(1) b(1)] v by simp
  then have "i = hash_bytes (id_hash x)" using assms(2) b(2) by (fastforce simp: redb_inv_def)
  then show thesis
    using that row b(2) f redb_okD(8) [OF assms(1) r(1) f(3)] v by auto
qed

text \<open>Without input/output errors a write fails on a stale sequence only.\<close>

lemma remove_old_total: "redb_up R v \<Longrightarrow> \<exists>t'. remove_old R old t = Ok t'"
  using redb_upD(5) [of R v t "the old"] by (cases old) (auto simp: remove_old_def Let_def)

lemma rk_insert_all_total: "redb_up R v \<Longrightarrow> \<exists>t'. rk_insert_all R i ks t = Ok t'"
proof (induction ks arbitrary: t)
  case Nil
  show ?case by simp
next
  case (Cons k ks)
  then show ?case using redb_upD(9) [of R v t "hash_bytes k" i] by auto
qed

lemma redb_write_total:
  assumes ok: "redb_ok R v" and up: "redb_up R v" and e: "desc_enc R d = Ok c"
  shows "(\<forall>n. tb_seq (v db) (redb_dedup_key P d) = Some n \<longrightarrow> sequence d < n \<longrightarrow>
        redb_write P R db d = Err (StaleDescriptor (sequence d) n)) \<and>
     ((\<forall>n. tb_seq (v db) (redb_dedup_key P d) = Some n \<longrightarrow> n \<le> sequence d) \<longrightarrow>
        (\<exists>db'. redb_write P R db d = Ok db'))"
proof -
  let ?dk = "redb_dedup_key P d" and ?i = "hash_bytes (id_hash d)"
  obtain t0 where t0: "rd_begin_write R db = Ok t0" using redb_upD(2) [OF up] by blast
  obtain cur where cur: "seq_get R t0 ?dk = Ok cur" using redb_upD(14) [OF up] by blast
  have seq: "cur = tb_seq (v db) ?dk" using redb_okD(14) [OF ok cur] redb_okD(2) [OF ok t0] by simp
  obtain old where old: "dedup_get R t0 ?dk = Ok old" using redb_upD(11) [OF up] by blast
  obtain t1 where t1: "remove_old R old t0 = Ok t1" using remove_old_total [OF up] by blast
  obtain t2 where t2: "desc_insert R t1 ?i c = Ok t2" using redb_upD(6) [OF up] by blast
  obtain t3 where t3: "rk_insert_all R ?i (routing_keys d) t2 = Ok t3" using rk_insert_all_total [OF up] by blast
  obtain t4 where t4: "dedup_insert R t3 ?dk ?i = Ok t4" using redb_upD(12) [OF up] by blast
  obtain t5 where t5: "seq_insert R t4 ?dk (sequence d) = Ok t5" using redb_upD(15) [OF up] by blast
  obtain t6 where t6: "rd_commit R t5 = Ok t6" using redb_upD(3) [OF up] by blast
  have "redb_write P R db d = (if (case cur of Some c \<Rightarrow> sequence d < c | None \<Rightarrow> False)
      then Err (StaleDescriptor (sequence d) (the cur)) else Ok t6)"
    by (simp add: redb_write_def Let_def e t0 cur old t1 t2 t3 t4 t5 t6)
  then show ?thesis by (auto simp: seq split: option.split)
qed

text \<open>The state after an eviction.\<close>

lemma redb_evict_up:
  assumes ok: "redb_ok R v" and up: "redb_up R v"
  obtains t ds where "v t = v (rs_db s)"
    and "v (rs_db (redb_evict_at P R s now)) = v (fold (redb_drop P R) ds t)"
    and "\<And>k b d. tb_desc (v (rs_db s)) k = Some b \<Longrightarrow> desc_dec R b = Ok d \<Longrightarrow> expired now d \<Longrightarrow> d \<in> set ds"
proof (rule redb_evict_cases [OF ok, of P s now])
  assume "\<not> redb_up R v"
  then show thesis using up by simp
next
  fix t rows
  assume r: "desc_iter R t = Ok rows"
    and e: "v (rs_db (redb_evict_at P R s now)) = v (fold (redb_drop P R) (redb_expired R now rows) t)"
    and v: "v t = v (rs_db s)"
  have mem: "d \<in> set (redb_expired R now rows)" if "Ok b \<in> set rows" "desc_dec R b = Ok d" "expired now d" for b d
    using that by (induction R now rows rule: redb_expired.induct) (auto simp: expired_def split: sum.splits)
  have "d \<in> set (redb_expired R now rows)"
    if "tb_desc (v (rs_db s)) k = Some b" "desc_dec R b = Ok d" "expired now d" for k b d
  proof -
    have "b \<in> ran (tb_desc (v t))" using that(1) v by (auto simp: ran_def)
    then have "Ok b \<in> set rows" using redb_upD(4) [OF up, of t] r by auto
    then show ?thesis using mem that by blast
  qed
  then show thesis by (rule that [OF v e])
qed

lemma redb_evict_rate: "rs_rate (redb_evict_at P R s now) = rs_rate s \<and>
    skip_rate_limit (redb_evict_at P R s now) = skip_rate_limit s"
  by (auto simp: redb_evict_at_def split: sum.split)

text \<open>The limiter lets a call of this publisher through.\<close>

definition redb_allows :: "'db redb_storage \<Rightarrow> identity \<Rightarrow> u64 \<Rightarrow> bool" where
  "redb_allows s i now \<longleftrightarrow> skip_rate_limit s \<or> fst (check_rate_limit s i now)"

lemma redb_allows_evict: "redb_allows (redb_evict_at P R s t) i now = redb_allows s i now"
  by (simp add: redb_allows_def redb_evict_rate check_rate_limit_def Let_def)

lemma redb_store_allowed:
  assumes "validate P d now = Ok ()" and "redb_allows s (publisher d) now"
  shows "fst (redb_store_at P R s d now) =
     (case redb_write P R (rs_db s) d of Err e \<Rightarrow> Err e | Ok db \<Rightarrow> Ok ())"
proof -
  obtain al s1 where c: "(if skip_rate_limit s then (True, s) else check_rate_limit s (publisher d) now) = (al, s1)"
    by (rule prod.exhaust)
  have "al" using c assms(2) by (auto simp: redb_allows_def split: if_splits)
  moreover have "rs_db s1 = rs_db s"
    using c check_rate_limit_db [of s "publisher d" now al s1] by (auto split: if_splits)
  ultimately show ?thesis using assms(1) c by (simp add: redb_store_at_def split: sum.split)
qed

subsection \<open>The store\<close>

lemma redb_stored_is_served:
  assumes "redb_ok R v" and "redb_up R v" and "redb_store_at P R s d now = (Ok (), s')"
    and "k \<in> set (routing_keys d)" and "\<not> expired later d" and "filter_matches f d"
  shows "d \<in> set (redb_get_at R s' k f later)"
proof -
  obtain db where w: "redb_write P R (rs_db s) d = Ok db" and s': "rs_db s' = db"
    using assms(3) redb_store_Ok [of P R s d now] by auto
  obtain cbor where t: "desc_dec R cbor = Ok d" "tb_desc (v db) (hash_bytes (id_hash d)) = Some cbor"
    "(hash_bytes k, hash_bytes (id_hash d)) \<in> tb_rk (v db)"
    by (rule redb_write_Ok [OF assms(1) w]) (use assms(4) in blast)
  show ?thesis
    by (rule redb_get_complete [OF assms(1,2) t(3) [folded s'] t(2) [folded s'] t(1) assms(5,6)])
qed

text \<open>The disk-backed store is atomic and serves what it stores: a call that fails leaves the
  database as it was; after a successful one the descriptor is found under each of its routing
  keys until it expires, and everything that was served before still is, apart from the version
  that the slot held. In particular a stored revocation takes nothing away.\<close>

theorem redb_store_serves:
  assumes "redb_ok R v" and "redb_up R v" and "redb_inv P R v s"
    and "redb_store_at P R s d now = (r, s')"
  shows "case r of
       Err e \<Rightarrow> rs_db s' = rs_db s
     | Ok _ \<Rightarrow>
         (\<forall>k f later. k \<in> set (routing_keys d) \<longrightarrow> \<not> expired later d \<longrightarrow> filter_matches f d \<longrightarrow>
            d \<in> set (redb_get_at R s' k f later)) \<and>
         (\<forall>x k f later. x \<in> set (redb_get_at R s k f later) \<longrightarrow> id_hash x \<noteq> id_hash d \<longrightarrow>
            tb_dedup (v (rs_db s)) (redb_dedup_key P d) \<noteq> Some (hash_bytes (id_hash x)) \<longrightarrow>
            x \<in> set (redb_get_at R s' k f later))"
proof (cases r)
  case (Inl e)
  then show ?thesis using redb_store_keeps_on_error [of P R s d now e] assms(4) by simp
next
  case (Inr u)
  then have "fst (redb_store_at P R s d now) = Ok ()" using assms(4) by simp
  then obtain db where w: "redb_write P R (rs_db s) d = Ok db" and s': "rs_db s' = db"
    using assms(4) by (elim redb_store_Ok) simp
  obtain cbor old where t: "desc_dec R cbor = Ok d" "old = tb_dedup (v (rs_db s)) (redb_dedup_key P d)"
    "tb_desc (v db) (hash_bytes (id_hash d)) = Some cbor"
    "\<And>k. k \<noteq> hash_bytes (id_hash d) \<Longrightarrow>
       tb_desc (v db) k = tb_desc (v (rs_db s)) k \<or> old = Some k \<and> tb_desc (v db) k = None"
    "\<And>k j. old \<noteq> Some j \<Longrightarrow> (k, j) \<in> tb_rk (v (rs_db s)) \<Longrightarrow> (k, j) \<in> tb_rk (v db)"
    by (rule redb_write_Ok [OF assms(1) w]) blast
  have "d \<in> set (redb_get_at R s' k f later)"
    if "k \<in> set (routing_keys d)" "\<not> expired later d" "filter_matches f d" for k f later
    using redb_stored_is_served [OF assms(1,2) _ that] assms(4) Inr by simp
  moreover have "x \<in> set (redb_get_at R s' k f later)"
    if x: "x \<in> set (redb_get_at R s k f later)" and i: "id_hash x \<noteq> id_hash d"
      and o: "tb_dedup (v (rs_db s)) (redb_dedup_key P d) \<noteq> Some (hash_bytes (id_hash x))" for x k f later
  proof (rule redb_get_row [OF assms(1,3) x])
    fix b
    assume r: "tb_desc (v (rs_db s)) (hash_bytes (id_hash x)) = Some b" "desc_dec R b = Ok x"
      "(hash_bytes k, hash_bytes (id_hash x)) \<in> tb_rk (v (rs_db s))"
      "\<not> expired later x" "filter_matches f x"
    have "tb_desc (v (rs_db s')) (hash_bytes (id_hash x)) = Some b"
      using t(4) [of "hash_bytes (id_hash x)"] t(2) i o r(1) by (auto simp: s')
    moreover have "(hash_bytes k, hash_bytes (id_hash x)) \<in> tb_rk (v (rs_db s'))"
      using t(5) t(2) o r(3) by (simp add: s')
    ultimately show ?thesis by (intro redb_get_complete [OF assms(1,2) _ _ r(2,4,5)])
  qed
  ultimately show ?thesis using Inr by auto
qed

text \<open>C38. The sequence watermark dies with the eviction of the descriptor. Before it, an older
  version is refused as stale; after it, the same older version (if still valid) is stored: the
  replay protection that the comments promise across restarts ends with the first eviction.\<close>

theorem redb_replay_after_eviction:
  assumes "redb_ok R v" and "redb_up R v" and "redb_store_at P R s d now = (Ok (), s')"
    and "expired later d" and "validate P old later = Ok ()" and "desc_enc R old = Ok c"
    and "redb_dedup_key P old = redb_dedup_key P d" and "sequence old < sequence d"
    and "redb_allows s' (publisher old) later"
  shows "fst (redb_store_at P R s' old later) = Err (StaleDescriptor (sequence old) (sequence d)) \<and>
     fst (redb_store_at P R (redb_evict_at P R s' later) old later) = Ok ()"
proof
  note tot = redb_write_total [OF assms(1,2,6)]
  obtain db where w: "redb_write P R (rs_db s) d = Ok db" and s': "rs_db s' = db"
    using assms(3) redb_store_Ok [of P R s d now] by auto
  obtain cbor where t: "desc_dec R cbor = Ok d" "tb_desc (v db) (hash_bytes (id_hash d)) = Some cbor"
    "tb_seq (v db) = (tb_seq (v (rs_db s)))(redb_dedup_key P d \<mapsto> sequence d)"
    by (rule redb_write_Ok [OF assms(1) w]) blast
  have "redb_write P R (rs_db s') old = Err (StaleDescriptor (sequence old) (sequence d))"
    using tot [where P = P and db = "rs_db s'"] t(3) assms(7,8) by (simp add: s')
  then show "fst (redb_store_at P R s' old later) = Err (StaleDescriptor (sequence old) (sequence d))"
    using redb_store_allowed [OF assms(5,9)] by simp
  let ?s = "redb_evict_at P R s' later"
  obtain t ds where e: "v (rs_db ?s) = v (fold (redb_drop P R) ds t)"
    and ds: "\<And>k b d. tb_desc (v (rs_db s')) k = Some b \<Longrightarrow> desc_dec R b = Ok d \<Longrightarrow> expired later d \<Longrightarrow> d \<in> set ds"
    by (rule redb_evict_up [OF assms(1,2), where P = P and s = s' and now = later]) blast
  have "d \<in> set ds" using ds t assms(4) by (simp add: s')
  then have "tb_seq (v (rs_db ?s)) (redb_dedup_key P old) = None"
    using fold_redb_drop_tables [OF assms(1), of P ds t] assms(2,7) by (simp add: e)
  then obtain db' where "redb_write P R (rs_db ?s) old = Ok db'" using tot [where P = P and db = "rs_db ?s"] by auto
  moreover have al: "redb_allows ?s (publisher old) later" using assms(9) by (simp add: redb_allows_evict)
  ultimately show "fst (redb_store_at P R ?s old later) = Ok ()"
    using redb_store_allowed [OF assms(5) al] by simp
qed

subsection \<open>The cache\<close>

text \<open>What the code relies on of the cache, in terms of its content: a lookup answers with the
  content, nothing appears by itself, an insertion replaces one entry, an invalidation removes
  it. The cache may drop entries whenever it likes.\<close>

definition cache_ok :: "'c cache \<Rightarrow> ('c \<Rightarrow> bytes \<rightharpoonup> descriptor list) \<Rightarrow> bool" where
  "cache_ok M cv \<longleftrightarrow>
     (\<forall>c k r c'. cache_get M c k = (r, c') \<longrightarrow> cv c' \<subseteq>\<^sub>m cv c \<and> (r \<noteq> None \<longrightarrow> r = cv c k)) \<and>
     (\<forall>c k x. cv (cache_insert M c k x) \<subseteq>\<^sub>m (cv c)(k \<mapsto> x)) \<and>
     (\<forall>c k. cv (cache_invalidate M c k) \<subseteq>\<^sub>m (cv c)(k := None)) \<and>
     (\<forall>c. cv (cache_invalidate_all M c) = Map.empty)"

definition cached_inv ::
  "prims \<Rightarrow> ('s \<Rightarrow> bool) \<Rightarrow> ('c \<Rightarrow> bytes \<rightharpoonup> descriptor list) \<Rightarrow> ('s, 'c) cached_storage \<Rightarrow> bool" where
  "cached_inv P inner_inv cv s \<longleftrightarrow> inner_inv (cs_inner s) \<and>
     (\<forall>k ds d. cv (cs_cache s) k = Some ds \<longrightarrow> d \<in> set ds \<longrightarrow> desc_good P d)"

lemma cache_okD:
  assumes "cache_ok M cv"
  shows "cache_get M c k = (r, c') \<Longrightarrow> cv c' j = Some ds \<Longrightarrow> cv c j = Some ds"
    "cache_get M c k = (Some ds, c') \<Longrightarrow> cv c k = Some ds"
    "cv (cache_insert M c k x) j = Some ds \<Longrightarrow> j = k \<and> ds = x \<or> j \<noteq> k \<and> cv c j = Some ds"
    "cv (cache_invalidate M c k) j = Some ds \<Longrightarrow> j \<noteq> k \<and> cv c j = Some ds"
    "cv (cache_invalidate_all M c) = Map.empty"
proof -
  have law: "cache_get M c k = (r, c') \<Longrightarrow> cv c' \<subseteq>\<^sub>m cv c \<and> (r \<noteq> None \<longrightarrow> r = cv c k)"
    "cv (cache_insert M c k x) \<subseteq>\<^sub>m (cv c)(k \<mapsto> x)"
    "cv (cache_invalidate M c k) \<subseteq>\<^sub>m (cv c)(k := None)"
    "cv (cache_invalidate_all M c) = Map.empty" for c k r c' x
    using assms unfolding cache_ok_def by blast+
  have le: "m \<subseteq>\<^sub>m m' \<Longrightarrow> m j = Some ds \<Longrightarrow> m' j = Some ds" for m m' :: "bytes \<rightharpoonup> descriptor list" and j
    by (auto simp: map_le_def dom_def)
  show "cv c j = Some ds" if "cache_get M c k = (r, c')" "cv c' j = Some ds"
    by (rule le [where m = "cv c'" and m' = "cv c" and j = j]) (use law(1) [OF that(1)] that(2) in simp_all)
  show "cv c k = Some ds" if "cache_get M c k = (Some ds, c')"
    using law(1) [OF that] by simp
  show "j = k \<and> ds = x \<or> j \<noteq> k \<and> cv c j = Some ds" if "cv (cache_insert M c k x) j = Some ds"
    using le [where j = j, OF law(2) that] by (simp split: if_splits)
  show "j \<noteq> k \<and> cv c j = Some ds" if "cv (cache_invalidate M c k) j = Some ds"
    using le [where j = j, OF law(3) that] by (simp split: if_splits)
  show "cv (cache_invalidate_all M c) = Map.empty" by (rule law(4))
qed

lemma cache_invalidates: "cache_ok M cv \<Longrightarrow>
    cv (fold (\<lambda>rk c. cache_invalidate M c rk) ks c) j = Some ds \<Longrightarrow> cv c j = Some ds \<and> j \<notin> set ks"
proof (induction ks arbitrary: c)
  case Nil
  then show ?case by simp
next
  case (Cons k ks)
  have "cv (cache_invalidate M c k) j = Some ds \<and> j \<notin> set ks"
    by (rule Cons.IH [OF Cons.prems(1)]) (use Cons.prems(2) in \<open>simp only: fold_simps\<close>)
  then show ?case using cache_okD(4) [OF Cons.prems(1), of c k j ds] by simp
qed

lemma filtered_subset: "set (case f of None \<Rightarrow> ds | Some g \<Rightarrow> filter (filter_matches (Some g)) ds) =
    {d \<in> set ds. filter_matches f d}"
  by (auto split: option.split)

text \<open>A cached backend keeps the contract of the backend under it.\<close>

lemma cached_get_cases:
  obtains (hit) ds c1 where "cache_get M (cs_cache s) (hash_bytes k) = (Some ds, c1)"
    and "cached_get B M s k f now =
      (case f of None \<Rightarrow> ds | Some g \<Rightarrow> filter (filter_matches (Some g)) ds, s\<lparr>cs_cache := c1\<rparr>)"
  | (miss) ds c1 i where "cache_get M (cs_cache s) (hash_bytes k) = (None, c1)"
    and "be_get B (cs_inner s) k None now = (ds, i)"
    and "cached_get B M s k f now =
      (case f of None \<Rightarrow> ds | Some g \<Rightarrow> filter (filter_matches (Some g)) ds,
       s\<lparr>cs_inner := i, cs_cache := cache_insert M c1 (hash_bytes k) ds\<rparr>)"
proof -
  obtain h c1 where c: "cache_get M (cs_cache s) (hash_bytes k) = (h, c1)" by (rule prod.exhaust)
  obtain ds i where g: "be_get B (cs_inner s) k None now = (ds, i)" by (rule prod.exhaust)
  show thesis
    using c g hit miss by (cases h) (simp_all add: cached_get_def Let_def)
qed

lemma cached_node_backend:
  fixes M :: "'a cache" and B :: "'b backend"
  assumes m: "cache_ok M cv" and n: "node_backend P B I"
  shows "node_backend P (cached_backend B M) (cached_inv P I cv)"
proof (unfold_locales, unfold cached_backend_def, simp_all)
  fix s :: "('b, 'a) cached_storage" and d now
  obtain r i where st: "be_store B (cs_inner s) d now = (r, i)" by (rule prod.exhaust)
  show "cached_inv P I cv (snd (cached_store B M s d now))" if "cached_inv P I cv s"
  proof -
    have "I i" using node_backend.backend_store [OF n, of "cs_inner s" d now] st that
      by (simp add: cached_inv_def)
    moreover have "cv (cs_cache s) j = Some es"
      if "cv (fold (\<lambda>rk c. cache_invalidate M c rk) ks (cs_cache s)) j = Some es" for ks j es
      using cache_invalidates [OF m that] by simp
    ultimately show ?thesis using that
      by (cases r) (simp_all add: cached_store_def Let_def st cached_inv_def, blast)
  qed
  show "validate P d now = Ok ()" if "fst (cached_store B M s d now) = Ok ()"
    using that node_backend.backend_valid [OF n, of "cs_inner s" d now]
    by (cases r) (auto simp: cached_store_def Let_def st)
next
  fix s :: "('b, 'a) cached_storage" and now
  assume "cached_inv P I cv s"
  then show "cached_inv P I cv (cached_evict B M s now)"
    using node_backend.backend_evict [OF n] cache_okD(5) [OF m]
    by (simp add: cached_inv_def cached_evict_def)
next
  fix s :: "('b, 'a) cached_storage" and k f now
  assume i: "cached_inv P I cv s"
  have main: "cached_inv P I cv (snd (cached_get B M s k f now)) \<and>
      (\<forall>d \<in> set (fst (cached_get B M s k f now)). desc_good P d \<and> filter_matches f d)"
  proof (cases rule: cached_get_cases [of M s k B f now])
    case (hit ds c1)
    have "\<And>j es. cv c1 j = Some es \<Longrightarrow> cv (cs_cache s) j = Some es" by (rule cache_okD(1) [OF m hit(1)])
    moreover have "cv (cs_cache s) (hash_bytes k) = Some ds" by (rule cache_okD(2) [OF m hit(1)])
    ultimately show ?thesis using i unfolding hit(2) filtered_subset cached_inv_def fst_conv snd_conv
      by (simp add: filtered_subset) blast
  next
    case (miss ds c1 i')
    have good: "desc_good P d" if "d \<in> set ds" for d
      using node_backend.backend_sound [OF n, of "cs_inner s" d k None now] that i miss(2)
      by (simp add: desc_good_def cached_inv_def)
    have "I i'" using node_backend.backend_get [OF n, of "cs_inner s" k None now] i miss(2)
      by (simp add: cached_inv_def)
    moreover have "desc_good P d"
      if "cv (cache_insert M c1 (hash_bytes k) ds) j = Some es" "d \<in> set es" for j es d
      using cache_okD(3) [OF m that(1)] cache_okD(1) [OF m miss(1)] i good that(2)
      unfolding cached_inv_def by blast
    ultimately show ?thesis using good by (auto simp: miss(3) filtered_subset cached_inv_def)
  qed
  then show "cached_inv P I cv (snd (cached_get B M s k f now))" by simp
  show "authentic P d \<and> well_formed d \<and> filter_matches f d"
    if "d \<in> set (fst (cached_get B M s k f now))" for d
    using main that by (auto simp: desc_good_def)
qed

subsection \<open>The hub's node over the cached store\<close>

text \<open>The hub serves valid descriptors only: from an empty database and cache, whatever requests
  the node has handled over the cached, disk-backed store, with input/output errors at any point
  and a cache that may forget, every descriptor it answers a FIND_VALUE with was signed by its
  publisher, is well-formed and passes the filters of the request, within both limits.\<close>

theorem hub_find_value_valid:
  assumes "blake3_ok P" and "redb_ok R v" and "cache_ok M cv"
    and "tb_desc (v (rs_db (cs_inner st))) = Map.empty" and "cv (cs_cache st) = Map.empty"
    and "node_reachable P (cached_backend (redb_backend P R) M) (with_store P kp a config st h) n"
    and "handle_find_value P (cached_backend (redb_backend P R) M) n m now now' = Some (r, n')"
    and "fvr_descriptors r = Some ds" and "d \<in> set ds"
  shows "authentic P d \<and> well_formed d \<and> filter_matches (fv_filters m) d \<and>
     length ds \<le> min (unat (fv_max_results m)) (unat (max_find_value_results (dn_config n)))"
proof -
  note hub = cached_node_backend [OF assms(3) redb_node_backend [OF assms(2)]]
  have start: "cached_inv P (redb_inv P R v) cv (dn_store (with_store P kp a config st h))"
    "node_ok P (with_store P kp a config st h)"
    using assms(4,5) node_ok_with_store [OF assms(1)]
    by (simp_all add: with_store_def Let_def cached_inv_def redb_inv_def)
  show ?thesis
    using node_backend.find_value_valid [OF hub assms(6) start assms(7-9)]
      handle_find_value_answers [OF assms(7,8)] by simp
qed

text \<open>The cache answers with expired descriptors: a list that was loaded once is served again at
  any later time as long as the cache keeps it, while the store itself filters the expired ones
  out (as the query with an explicit time, which skips the cache, does).\<close>

theorem cached_get_serves_expired:
  assumes "redb_ok R v" and "redb_inv P R v (cs_inner s)"
    and "\<And>c k x. fst (cache_get M (cache_insert M c k x) k) = Some x"
    and "fst (cache_get M (cs_cache s) (hash_bytes k)) = None"
    and "cached_get (redb_backend P R) M s k None now = (ds, s')"
  shows "fst (cached_get (redb_backend P R) M s' k None later) = ds \<and>
     (\<forall>d \<in> set ds. expired later d \<longrightarrow> d \<notin> set (cached_get_at (redb_backend P R) s' k None later))"
proof
  obtain c1 where c1: "cache_get M (cs_cache s) (hash_bytes k) = (None, c1)"
    using assms(4) by (cases "cache_get M (cs_cache s) (hash_bytes k)") simp
  have s': "cs_inner s' = cs_inner s" "cs_cache s' = cache_insert M c1 (hash_bytes k) ds"
    using assms(5) by (auto simp: cached_get_def Let_def c1 redb_backend_def)
  obtain c2 where "cache_get M (cs_cache s') (hash_bytes k) = (Some ds, c2)"
    using assms(3) [of c1 "hash_bytes k" ds]
    by (cases "cache_get M (cs_cache s') (hash_bytes k)") (simp add: s')
  then show "fst (cached_get (redb_backend P R) M s' k None later) = ds"
    by (simp add: cached_get_def)
  show "\<forall>d \<in> set ds. expired later d \<longrightarrow> d \<notin> set (cached_get_at (redb_backend P R) s' k None later)"
    using redb_get_sound [OF assms(1,2)] by (auto simp: cached_get_at_def redb_backend_def s')
qed

subsection \<open>Witnesses\<close>

record demo_db =
  db_desc :: "(bytes \<times> bytes) list"
  db_rk :: "(bytes \<times> bytes) list"
  db_dedup :: "bytes \<rightharpoonup> bytes"
  db_seq :: "bytes \<rightharpoonup> u64"

definition demo_view :: "demo_db \<Rightarrow> redb_tables" where
  "demo_view t = \<lparr>tb_desc = map_of (db_desc t), tb_rk = set (db_rk t), tb_dedup = db_dedup t, tb_seq = db_seq t\<rparr>"

definition demo_enc :: "descriptor \<Rightarrow> mesh_error + bytes" where
  "demo_enc d = (if d = demo_desc 7 1000 then Ok [1]
     else if d = demo_desc 6 60000000 then Ok [2] else Err (Cbor ''unsupported''))"

definition demo_dec :: "bytes \<Rightarrow> mesh_error + descriptor" where
  "demo_dec b = (if b = [1] then Ok (demo_desc 7 1000)
     else if b = [2] then Ok (demo_desc 6 60000000) else Err (Cbor ''unsupported''))"

definition demo_redb :: "demo_db redb" where
  "demo_redb = \<lparr>
     rd_begin_read = Ok, rd_begin_write = Ok, rd_commit = Ok,
     desc_get = \<lambda>t k. Ok (map_of (db_desc t) k),
     desc_insert = \<lambda>t k x. Ok (t\<lparr>db_desc := AList.update k x (db_desc t)\<rparr>),
     desc_remove = \<lambda>t k. Ok (t\<lparr>db_desc := AList.delete k (db_desc t)\<rparr>),
     desc_iter = \<lambda>t. Ok (map (\<lambda>p. Ok (the (map_of (db_desc t) (fst p)))) (db_desc t)),
     desc_len = \<lambda>t. Ok (length (db_desc t)),
     rk_get = \<lambda>t k. Ok (map (\<lambda>p. Ok (snd p)) (filter (\<lambda>p. fst p = k) (db_rk t))),
     rk_insert = \<lambda>t k x. Ok (t\<lparr>db_rk := (k, x) # db_rk t\<rparr>),
     rk_remove = \<lambda>t k x. Ok (t\<lparr>db_rk := filter (\<lambda>p. p \<noteq> (k, x)) (db_rk t)\<rparr>),
     rk_len = \<lambda>t. Ok (length (db_rk t)),
     dedup_get = \<lambda>t k. Ok (db_dedup t k),
     dedup_insert = \<lambda>t k x. Ok (t\<lparr>db_dedup := (db_dedup t)(k \<mapsto> x)\<rparr>),
     dedup_remove = \<lambda>t k. Ok (t\<lparr>db_dedup := (db_dedup t)(k := None)\<rparr>),
     seq_get = \<lambda>t k. Ok (db_seq t k),
     seq_insert = \<lambda>t k x. Ok (t\<lparr>db_seq := (db_seq t)(k \<mapsto> x)\<rparr>),
     seq_remove = \<lambda>t k. Ok (t\<lparr>db_seq := (db_seq t)(k := None)\<rparr>),
     desc_enc = demo_enc, desc_dec = demo_dec\<rparr>"

definition demo_store0 :: "demo_db redb_storage" where
  "demo_store0 = \<lparr>rs_db = \<lparr>db_desc = [], db_rk = [], db_dedup = Map.empty, db_seq = Map.empty\<rparr>,
     rs_rate = Map.empty, skip_rate_limit = False\<rparr>"

lemma demo_iter_sound: "p \<in> set al \<Longrightarrow> the (map_of al (fst p)) \<in> ran (map_of al)"
proof -
  assume "p \<in> set al"
  then obtain y where "map_of al (fst p) = Some y" by (metis domD imageI dom_map_of_conv_image_fst)
  then show ?thesis by (auto simp: ran_def)
qed

lemma demo_iter_complete: "x \<in> ran (map_of al) \<Longrightarrow> \<exists>p \<in> set al. x = the (map_of al (fst p))"
proof -
  assume "x \<in> ran (map_of al)"
  then obtain k where "map_of al k = Some x" by (auto simp: ran_def)
  then show ?thesis using map_of_SomeD by force
qed

lemma demo_redb_ok: "redb_ok demo_redb demo_view"
  unfolding redb_ok_def
  by (intro conjI) (auto simp: demo_redb_def demo_view_def update_conv' delete_conv' demo_enc_def demo_dec_def
      split: if_splits dest: demo_iter_sound)

lemma demo_redb_up: "redb_up demo_redb demo_view"
  unfolding redb_up_def
  using demo_iter_complete by (auto simp: demo_redb_def demo_view_def image_iff)

text \<open>The first store into the empty database.\<close>

lemma demo_desc2_valid [simp]: "validate pad_prims (demo_desc sq 60000000) 61000000 = Ok ()"
  unfolding demo_desc_def
  by (subst validate_create) (simp_all add: well_formed_def limit_defs MAX_CLOCK_SKEW_SECS_def
      ttl_micros_def)

lemma demo_dedup_key: "redb_dedup_key P (demo_desc sq ts) = redb_dedup_key P (demo_desc sq' ts')"
  by (simp add: redb_dedup_key_def demo_desc_def)

lemma demo_redb_stored:
  obtains s' where "redb_store_at pad_prims demo_redb demo_store0 (demo_desc 7 1000) 2000 = (Ok (), s')"
    and "redb_allows s' (publisher (demo_desc 7 1000)) 61000000"
proof -
  have al: "redb_allows demo_store0 (publisher (demo_desc 7 1000)) 2000"
    by (simp add: redb_allows_def demo_store0_def check_rate_limit_def RATE_LIMIT_PER_MINUTE_def)
  have "\<exists>db. redb_write pad_prims demo_redb (rs_db demo_store0) (demo_desc 7 1000) = Ok db"
    using redb_write_total [OF demo_redb_ok demo_redb_up, of "demo_desc 7 1000" "[1]"]
    by (simp add: demo_redb_def demo_enc_def demo_view_def demo_store0_def)
  then have ok: "fst (redb_store_at pad_prims demo_redb demo_store0 (demo_desc 7 1000) 2000) = Ok ()"
    using redb_store_allowed [OF _ al] by auto
  then obtain s' where s': "redb_store_at pad_prims demo_redb demo_store0 (demo_desc 7 1000) 2000 = (Ok (), s')"
    by (cases "redb_store_at pad_prims demo_redb demo_store0 (demo_desc 7 1000) 2000") auto
  have "redb_allows s' (publisher (demo_desc 7 1000)) 61000000"
    using s' by (auto simp: redb_store_at_def Let_def check_rate_limit_def demo_store0_def redb_allows_def
        RATE_LIMIT_PER_MINUTE_def split: sum.splits if_splits)
  then show thesis using that s' by blast
qed

lemma demo_redb_inv: "redb_inv P R demo_view demo_store0"
  by (simp add: redb_inv_def demo_view_def demo_store0_def)

lemma demo_not_expired: "\<not> expired 3000 (demo_desc 7 1000)"
  by (simp add: expired_unat sane_clock_def)

lemma demo_expired: "expired 61000000 (demo_desc 7 1000)"
  by (simp add: expired_unat sane_clock_def)

lemma redb_store_serves_witness:
  "\<exists>s'. redb_store_at pad_prims demo_redb demo_store0 (demo_desc 7 1000) 2000 = (Ok (), s') \<and>
     demo_desc 7 1000 \<in> set (redb_get_at demo_redb s' zero_id None 3000)"
proof -
  obtain s' where s': "redb_store_at pad_prims demo_redb demo_store0 (demo_desc 7 1000) 2000 = (Ok (), s')"
    by (rule demo_redb_stored)
  from redb_store_serves [OF demo_redb_ok demo_redb_up demo_redb_inv s'] demo_not_expired s' show ?thesis
    by auto
qed

lemma redb_replay_after_eviction_witness:
  "\<exists>s'. redb_store_at pad_prims demo_redb demo_store0 (demo_desc 7 1000) 2000 = (Ok (), s') \<and>
     fst (redb_store_at pad_prims demo_redb (redb_evict_at pad_prims demo_redb s' 61000000)
       (demo_desc 6 60000000) 61000000) = Ok ()"
proof -
  obtain s' where s': "redb_store_at pad_prims demo_redb demo_store0 (demo_desc 7 1000) 2000 = (Ok (), s')"
    and al: "redb_allows s' (publisher (demo_desc 7 1000)) 61000000"
    by (rule demo_redb_stored)
  have "publisher (demo_desc 6 60000000) = publisher (demo_desc 7 1000)" by (simp add: demo_desc_def)
  moreover have "desc_enc demo_redb (demo_desc 6 60000000) = Ok [2]"
    by (auto simp: demo_redb_def demo_enc_def dest: arg_cong [where f = sequence])
  ultimately show ?thesis
    using redb_replay_after_eviction [OF demo_redb_ok demo_redb_up s' demo_expired demo_desc2_valid _
        demo_dedup_key] s' al by auto
qed

text \<open>The hub's node on this store, with a map as cache.\<close>

definition demo_cache :: "(bytes \<rightharpoonup> descriptor list) cache" where
  "demo_cache = \<lparr>cache_get = \<lambda>c k. (c k, c), cache_insert = \<lambda>c k x. c(k \<mapsto> x),
     cache_invalidate = \<lambda>c k. c(k := None), cache_invalidate_all = \<lambda>c. Map.empty\<rparr>"

lemma demo_cache_ok: "cache_ok demo_cache id"
  by (simp add: cache_ok_def demo_cache_def)

definition demo_cached0 :: "(demo_db redb_storage, bytes \<rightharpoonup> descriptor list) cached_storage" where
  "demo_cached0 = \<lparr>cs_inner = demo_store0, cs_cache = Map.empty\<rparr>"

definition demo_hub_backend :: "(demo_db redb_storage, bytes \<rightharpoonup> descriptor list) cached_storage backend" where
  "demo_hub_backend = cached_backend (redb_backend pad_prims demo_redb) demo_cache"

definition demo_hub_node ::
  "((demo_db redb_storage, bytes \<rightharpoonup> descriptor list) cached_storage, unit) dht_node" where
  "demo_hub_node = with_store pad_prims \<lparr>signing_key = [9]\<rparr> (node_addr_quic ''h:9'') dht_config_default
     demo_cached0 ()"

lemma demo_hub_node_ok: "node_ok pad_prims demo_hub_node" "dn_hooks demo_hub_node = None"
  "dn_store demo_hub_node = demo_cached0" "dn_config demo_hub_node = dht_config_default"
  using node_ok_with_store [OF pad_prims_ok(1)] by (simp_all add: demo_hub_node_def) (simp_all add: with_store_def Let_def)

lemma demo_hub_stored:
  obtains n where "node_reachable pad_prims demo_hub_backend demo_hub_node n"
    and "demo_desc 7 1000 \<in> set (redb_get_at demo_redb (cs_inner (dn_store n)) zero_id None 3000)"
    and "cs_cache (dn_store n) = Map.empty" and "dn_hooks n = None" and "node_ok pad_prims n"
    and "dn_config n = dht_config_default"
proof -
  obtain s' where s': "redb_store_at pad_prims demo_redb demo_store0 (demo_desc 7 1000) 2000 = (Ok (), s')"
    by (rule demo_redb_stored)
  have get: "demo_desc 7 1000 \<in> set (redb_get_at demo_redb s' zero_id None 3000)"
    by (rule redb_stored_is_served [OF demo_redb_ok demo_redb_up s']) (simp_all add: demo_not_expired)
  let ?s = "demo_cached0\<lparr>cs_inner := s'\<rparr>"
  obtain n1 where u: "update_routing_table pad_prims demo_hub_node (short_identity 4) (node_addr_quic ''h:1'') 2000
      = Some n1"
    using update_routing_table_total [OF pad_prims_ok(1) demo_hub_node_ok(1)] by blast
  have "handle_store pad_prims demo_hub_backend demo_hub_node demo_store_msg 2000 2000 =
      Some (\<lparr>stored = True, reason = None\<rparr>, n1\<lparr>dn_store := ?s\<rparr>)"
    using u s' demo_hub_node_ok
    by (simp add: handle_store_def demo_store_msg_def Let_def demo_hub_backend_def cached_backend_def
        cached_store_def redb_backend_def demo_cached0_def demo_cache_def update_routing_table_keeps [OF u])
  then have "node_reachable pad_prims demo_hub_backend demo_hub_node (n1\<lparr>dn_store := ?s\<rparr>)"
    by (meson node_start node_next step_store)
  moreover have "node_ok pad_prims (n1\<lparr>dn_store := ?s\<rparr>)"
    using update_routing_table_ok [OF demo_hub_node_ok(1) u] by simp
  ultimately show thesis
    using that get update_routing_table_keeps [OF u] demo_hub_node_ok by (simp add: demo_cached0_def)
qed

lemma hub_find_value_valid_witness:
  "\<exists>(n :: ((demo_db redb_storage, bytes \<rightharpoonup> descriptor list) cached_storage, unit) dht_node) r n' ds.
     handle_find_value pad_prims demo_hub_backend n demo_find_value 3000 3000 = Some (r, n') \<and>
     fvr_descriptors r = Some ds \<and> ds \<noteq> [] \<and> (\<forall>d \<in> set ds. authentic pad_prims d)"
proof -
  obtain n where n: "node_reachable pad_prims demo_hub_backend demo_hub_node n"
    "demo_desc 7 1000 \<in> set (redb_get_at demo_redb (cs_inner (dn_store n)) zero_id None 3000)"
    "cs_cache (dn_store n) = Map.empty" "dn_hooks n = None" "node_ok pad_prims n"
    "dn_config n = dht_config_default"
    by (rule demo_hub_stored)
  obtain n1 where u: "update_routing_table pad_prims n (short_identity 4) (node_addr_quic ''h:1'') 3000 = Some n1"
    using update_routing_table_total [OF pad_prims_ok(1) n(5)] by blast
  let ?g = "redb_get_at demo_redb (cs_inner (dn_store n)) zero_id None 3000"
  obtain st where g: "be_get demo_hub_backend (dn_store n) (fv_key demo_find_value)
      (fv_filters demo_find_value) 3000 = (?g, st)"
    using n(3) by (simp add: demo_hub_backend_def cached_backend_def cached_get_def demo_cache_def
        redb_backend_def Let_def)
  have ne: "?g \<noteq> []" using n(2) by auto
  have v: "handle_find_value pad_prims demo_hub_backend n demo_find_value 3000 3000 =
      Some (\<lparr>fvr_descriptors = Some (take 5 ?g), fvr_nodes = None\<rparr>, n1\<lparr>dn_store := st\<rparr>)"
    using handle_find_value_found [OF n(4) g ne, of pad_prims 3000 n1] u n(6)
    by (simp add: dht_config_default_def)
  have e: "tb_desc (demo_view (rs_db (cs_inner demo_cached0))) = Map.empty" "id (cs_cache demo_cached0) = Map.empty"
    by (simp_all add: demo_cached0_def demo_store0_def demo_view_def)
  have a: "authentic pad_prims d" if "d \<in> set (take 5 ?g)" for d
    using hub_find_value_valid [OF pad_prims_ok(1) demo_redb_ok demo_cache_ok e
        n(1) [unfolded demo_hub_node_def demo_hub_backend_def] v [unfolded demo_hub_backend_def] _ that]
    by simp
  have "take 5 ?g \<noteq> []" using ne by simp
  then show ?thesis using v a
    by (intro exI [of _ n] exI [of _ "\<lparr>fvr_descriptors = Some (take 5 ?g), fvr_nodes = None\<rparr>"]
        exI [of _ "n1\<lparr>dn_store := st\<rparr>"] exI [of _ "take 5 ?g"] conjI ballI) simp_all
qed

lemma cached_get_serves_expired_witness:
  "\<exists>s k ds s'. cached_get (redb_backend pad_prims demo_redb) demo_cache s k None 3000 = (ds, s') \<and>
     (\<exists>d \<in> set ds. expired 61000000 d \<and>
        d \<in> set (fst (cached_get (redb_backend pad_prims demo_redb) demo_cache s' k None 61000000)) \<and>
        d \<notin> set (cached_get_at (redb_backend pad_prims demo_redb) s' k None 61000000))"
proof -
  obtain r where r: "redb_store_at pad_prims demo_redb demo_store0 (demo_desc 7 1000) 2000 = (Ok (), r)"
    by (rule demo_redb_stored)
  have get: "demo_desc 7 1000 \<in> set (redb_get_at demo_redb r zero_id None 3000)"
    by (rule redb_stored_is_served [OF demo_redb_ok demo_redb_up r]) (simp_all add: demo_not_expired)
  let ?s = "\<lparr>cs_inner = r, cs_cache = Map.empty\<rparr>"
  have inv: "redb_inv pad_prims demo_redb demo_view (cs_inner ?s)"
    using redb_store_inv [OF demo_redb_ok demo_redb_inv, of pad_prims "demo_desc 7 1000" 2000] r by simp
  obtain ds s' where c: "cached_get (redb_backend pad_prims demo_redb) demo_cache ?s zero_id None 3000 = (ds, s')"
    by (rule prod.exhaust)
  have d: "demo_desc 7 1000 \<in> set ds"
    using c get by (auto simp: cached_get_def demo_cache_def redb_backend_def Let_def)
  from cached_get_serves_expired [OF demo_redb_ok inv _ _ c, of 61000000]
  show ?thesis using c d demo_expired
    by (intro exI [of _ ?s] exI [of _ zero_id] exI [of _ ds] exI [of _ s']) (auto simp: demo_cache_def)
qed

end
