(* ===== verification/Catalog.thy ===== *)
theory Catalog
  imports Descriptor_Store
begin

section \<open>An abstract specification of descriptor storage\<close>

text \<open>
  What \<open>DescriptorStore\<close> promises, without its tables: a catalog has one slot per publisher,
  schema and topic, and queries are sets over the slots. The lookup of a revocation's target,
  which the code does by the first descriptor of an unordered table, is a quantifier here.
  \<open>catalog_of\<close> abstracts a store to its catalog; every operation of the store commutes with it,
  and results and answers are those of the catalog, unless two stored descriptors exhibit a
  BLAKE3 collision (then the code's choice of the target depends on the table's order).
\<close>

record catalog =
  slots :: "dedup_key \<rightharpoonup> descriptor"
  floors :: "dedup_key \<rightharpoonup> u64"
  publisher_log :: rate_limiter
  withdrawn :: "hash set"
  successors :: "bytes \<rightharpoonup> identity \<times> u64"

definition catalog_new :: catalog where
  "catalog_new = \<lparr>slots = Map.empty, floors = Map.empty, publisher_log = \<lparr>timestamps = Map.empty\<rparr>,
     withdrawn = {}, successors = Map.empty\<rparr>"

definition keep :: "(descriptor \<Rightarrow> bool) \<Rightarrow> catalog \<Rightarrow> catalog" where
  "keep p c = c\<lparr>slots := (\<lambda>dk. Option.bind (slots c dk) (\<lambda>d. if p d then Some d else None))\<rparr>"

text \<open>The target of a revocation's payload, and the fields of a rotation's payload.\<close>

definition revocation_target :: "prims \<Rightarrow> bytes \<Rightarrow> store_error + hash" where
  "revocation_target P pl =
     (case cbor_read P pl of
        Err e \<Rightarrow> Err (ValidationFailed (''invalid revocation payload: '' @ e))
      | Ok value \<Rightarrow>
          (case Option.bind (as_map value) (bytes_field ''target_id'') of
             None \<Rightarrow> Err (ValidationFailed ''revocation payload missing target_id'')
           | Some bs \<Rightarrow> if length bs < 2 then Err (ValidationFailed ''target_id too short'')
                        else Ok \<lparr>hash_algorithm = hd bs, digest = tl bs\<rparr>))"

definition cat_revoke :: "prims \<Rightarrow> catalog \<Rightarrow> descriptor \<Rightarrow> (store_error + unit) \<times> catalog" where
  "cat_revoke P c r =
     (case revocation_target P (payload r) of
        Err e \<Rightarrow> (Err e, c)
      | Ok t \<Rightarrow>
          if \<exists>d \<in> ran (slots c). id_hash d = t \<and> publisher d \<noteq> publisher r
          then (Err RevocationPublisherMismatch, keep (\<lambda>d. id_hash d \<noteq> id_hash r) c)
          else (Ok (), keep (\<lambda>d. id_hash d \<noteq> t) (c\<lparr>withdrawn := insert t (withdrawn c)\<rparr>)))"

definition rotation_fields :: "prims \<Rightarrow> bytes \<Rightarrow> store_error + bytes \<times> identity \<times> u64" where
  "rotation_fields P pl =
     (case cbor_read P pl of
        Err e \<Rightarrow> Err (ValidationFailed (''invalid key-rotation payload: '' @ e))
      | Ok value \<Rightarrow>
     (case as_map value of
        None \<Rightarrow> Err (ValidationFailed ''key-rotation payload is not a map'')
      | Some m \<Rightarrow>
     (case bytes_field ''old_identity'' m of
        None \<Rightarrow> Err (ValidationFailed ''key-rotation missing old_identity'')
      | Some old_identity \<Rightarrow>
     (case bytes_field ''new_identity'' m of
        None \<Rightarrow> Err (ValidationFailed ''key-rotation missing new_identity'')
      | Some new_bytes \<Rightarrow>
     (case u64_field ''rotation_seq'' m of
        None \<Rightarrow> Err (ValidationFailed ''key-rotation missing rotation_seq'')
      | Some n \<Rightarrow>
          if length new_bytes < 2 then Err (ValidationFailed ''new_identity too short'')
          else Ok (old_identity, \<lparr>id_algorithm = hd new_bytes, public_key = tl new_bytes\<rparr>, n))))))"

definition cat_rotate :: "prims \<Rightarrow> catalog \<Rightarrow> descriptor \<Rightarrow> (store_error + unit) \<times> catalog" where
  "cat_rotate P c r =
     (case rotation_fields P (payload r) of
        Err e \<Rightarrow> (Err e, c)
      | Ok (old, i, n) \<Rightarrow>
          (case successors c old of
             Some (i', n') \<Rightarrow>
               if n = n' \<and> i' \<noteq> i then (Err RotationForkDetected, keep (\<lambda>d. id_hash d \<noteq> id_hash r) c)
               else if n < n' then (Err (StaleRotation n n'), keep (\<lambda>d. id_hash d \<noteq> id_hash r) c)
               else (Ok (), c\<lparr>successors := (successors c)(old \<mapsto> (i, n))\<rparr>)
           | None \<Rightarrow> (Ok (), c\<lparr>successors := (successors c)(old \<mapsto> (i, n))\<rparr>)))"

definition cat_accept :: "prims \<Rightarrow> catalog \<Rightarrow> descriptor \<Rightarrow> (store_error + unit) \<times> catalog" where
  "cat_accept P c d =
     (let dk = dedup_key_of d;
          c1 = c\<lparr>floors := (floors c)(dk \<mapsto> sequence d), slots := (slots c)(dk \<mapsto> d)\<rparr>
      in if schema_hash d = SCHEMA_HASH_CORE_REVOCATION P then
           (case cat_revoke P c1 d of
              (Err e, c2) \<Rightarrow> (Err e, c2)
            | (Ok _, c2) \<Rightarrow>
                if schema_hash d = SCHEMA_HASH_CORE_KEY_ROTATION P then cat_rotate P c2 d else (Ok (), c2))
         else if schema_hash d = SCHEMA_HASH_CORE_KEY_ROTATION P then cat_rotate P c1 d
         else (Ok (), c1))"

definition cat_put :: "prims \<Rightarrow> catalog \<Rightarrow> descriptor \<Rightarrow> u64 \<Rightarrow> (store_error + unit) \<times> catalog" where
  "cat_put P c d now =
     (case validate P d now of
        Err e \<Rightarrow> (Err (ValidationFailed (mesh_error_display e)), c)
      | Ok _ \<Rightarrow>
          let (allowed, rl) = check_and_record (publisher_log c) (publisher d) now;
              c1 = c\<lparr>publisher_log := rl\<rparr>
          in if \<not> allowed then (Err (RateLimited 10), c1)
             else (case floors c (dedup_key_of d) of
                     Some n \<Rightarrow> if sequence d < n then (Err (StaleDescriptor (sequence d) n), c1)
                               else cat_accept P c1 d
                   | None \<Rightarrow> cat_accept P c1 d))"

definition cat_get :: "catalog \<Rightarrow> hash \<Rightarrow> filter_set option \<Rightarrow> u64 \<Rightarrow> descriptor set" where
  "cat_get c k f now =
     {d \<in> ran (slots c). k \<in> set (routing_keys d) \<and> id_hash d \<notin> withdrawn c \<and> \<not> expired now d \<and> filter_matches f d}"

definition cat_evict :: "catalog \<Rightarrow> u64 \<Rightarrow> catalog" where
  "cat_evict c now = keep (\<lambda>d. \<not> expired now d) c"

subsection \<open>The abstraction\<close>

definition slot_in :: "table \<Rightarrow> dedup_key \<rightharpoonup> descriptor" where
  "slot_in t dk = List.find (\<lambda>d. dedup_key_of d = dk) (all_values t)"

definition catalog_of :: "descriptor_store \<Rightarrow> catalog" where
  "catalog_of s = \<lparr>slots = slot_in (store s), floors = sequences s, publisher_log = rate_limiter_field s,
     withdrawn = revoked s, successors = rotations s\<rparr>"

lemma catalog_of_sel [simp]:
  "slots (catalog_of s) = slot_in (store s)" "floors (catalog_of s) = sequences s"
  "publisher_log (catalog_of s) = rate_limiter_field s" "withdrawn (catalog_of s) = revoked s"
  "successors (catalog_of s) = rotations s"
  by (simp_all add: catalog_of_def)

lemma catalog_of_limiter [simp]:
  "catalog_of (s\<lparr>rate_limiter_field := rl\<rparr>) = (catalog_of s)\<lparr>publisher_log := rl\<rparr>"
  by (simp add: catalog_of_def)

definition one_per_slot :: "table \<Rightarrow> bool" where
  "one_per_slot t \<longleftrightarrow> (\<forall>a \<in> stored_in t. \<forall>b \<in> stored_in t. dedup_key_of a = dedup_key_of b \<longrightarrow> a = b)"

lemma one_per_slotD: "store_inv P s \<Longrightarrow> one_per_slot (store s)"
  by (simp add: store_inv_def one_per_slot_def)

lemma find_SomeD: "List.find p xs = Some x \<Longrightarrow> x \<in> set xs \<and> p x"
  by (auto simp: find_Some_iff)

lemma slot_in_Some: "slot_in t dk = Some d \<Longrightarrow> d \<in> stored_in t \<and> dedup_key_of d = dk"
  using find_SomeD [of "\<lambda>d. dedup_key_of d = dk" "all_values t" d] by (simp add: slot_in_def)

lemma slot_in_iff:
  assumes "one_per_slot t"
  shows "slot_in t dk = Some d \<longleftrightarrow> d \<in> stored_in t \<and> dedup_key_of d = dk"
proof
  show "slot_in t dk = Some d \<Longrightarrow> d \<in> stored_in t \<and> dedup_key_of d = dk" by (rule slot_in_Some)
next
  assume d: "d \<in> stored_in t \<and> dedup_key_of d = dk"
  then obtain x where x: "slot_in t dk = Some x"
    by (cases "slot_in t dk") (auto simp: slot_in_def find_None_iff)
  then have "x = d" using d assms slot_in_Some [OF x] by (simp add: one_per_slot_def)
  then show "slot_in t dk = Some d" using x by simp
qed

lemma map_eqI: "(\<And>k v. m k = Some v \<longleftrightarrow> m' k = Some v) \<Longrightarrow> m = m'"
  by (rule ext) (metis not_None_eq)

lemma ran_slot_in: "one_per_slot t \<Longrightarrow> ran (slot_in t) = stored_in t"
  by (auto simp: ran_def slot_in_iff)

lemma slot_in_eqI:
  assumes "one_per_slot t" and "\<And>dk d. m dk = Some d \<longleftrightarrow> d \<in> stored_in t \<and> dedup_key_of d = dk"
  shows "slot_in t = m"
  by (rule map_eqI) (simp add: slot_in_iff [OF assms(1)] assms(2))

lemma one_per_slot_sub: "one_per_slot t \<Longrightarrow> stored_in t' \<subseteq> stored_in t \<Longrightarrow> one_per_slot t'"
  unfolding one_per_slot_def by blast

text \<open>Taking descriptors out of the table is \<open>keep\<close> on the catalog.\<close>

lemma slot_in_keep:
  assumes "one_per_slot t" and "stored_in t' = {d \<in> stored_in t. p d}"
  shows "slot_in t' = (\<lambda>dk. Option.bind (slot_in t dk) (\<lambda>d. if p d then Some d else None))"
proof (rule slot_in_eqI)
  show "one_per_slot t'" by (rule one_per_slot_sub [OF assms(1)]) (simp add: assms(2))
  show "Option.bind (slot_in t dk) (\<lambda>d. if p d then Some d else None) = Some d \<longleftrightarrow>
      d \<in> stored_in t' \<and> dedup_key_of d = dk" for dk d
    by (auto simp: assms(2) slot_in_iff [OF assms(1)] Option.bind_eq_Some_conv)
qed

lemma catalog_of_retain:
  assumes "one_per_slot (store s)"
  shows "catalog_of (s\<lparr>store := retain_all p (store s)\<rparr>) = keep p (catalog_of s)"
    and "catalog_of (s\<lparr>store := drop_empty (retain_all p (store s))\<rparr>) = keep p (catalog_of s)"
  by (simp_all add: catalog_of_def keep_def slot_in_keep [OF assms, of _ p])

lemma catalog_of_placed:
  assumes "store_inv P s" and "authentic P d" and "well_formed d"
  shows "catalog_of (placed s d) = (catalog_of s)\<lparr>floors := (sequences s)(dedup_key_of d \<mapsto> sequence d),
     slots := (slot_in (store s))(dedup_key_of d \<mapsto> d)\<rparr>"
proof -
  have ne: "routing_keys d \<noteq> []" using assms(3) by (simp add: well_formed_def)
  have st: "stored_in (store (placed s d)) =
      insert d {x \<in> stored_in (store s). dedup_key_of x \<noteq> dedup_key_of d}"
    using ne by (simp add: placed_def stored_in_push)
  have "slot_in (store (placed s d)) = (slot_in (store s))(dedup_key_of d \<mapsto> d)"
  proof (rule slot_in_eqI)
    show "one_per_slot (store (placed s d))"
      by (rule one_per_slotD [OF placed_inv [OF assms]])
    show "((slot_in (store s))(dedup_key_of d \<mapsto> d)) dk = Some x \<longleftrightarrow>
        x \<in> stored_in (store (placed s d)) \<and> dedup_key_of x = dk" for dk x
      using slot_in_iff [OF one_per_slotD [OF assms(1)]] by (auto simp: st)
  qed
  then show ?thesis by (simp add: catalog_of_def placed_def)
qed

text \<open>Descriptors whose content collides under BLAKE3.\<close>

definition collision :: "prims \<Rightarrow> descriptor set \<Rightarrow> bool" where
  "collision P D \<longleftrightarrow> (\<exists>a \<in> D. \<exists>b \<in> D. canonical_of P a \<noteq> canonical_of P b \<and>
     blake3 P (canonical_of P a) = blake3 P (canonical_of P b))"

lemma collision_mono: "collision P D \<Longrightarrow> D \<subseteq> D' \<Longrightarrow> collision P D'"
  unfolding collision_def by blast

lemma stored_id_unique:
  assumes "cbor_ok P" and "store_inv P s" and "\<not> collision P (stored_in (store s))"
    and "a \<in> stored_in (store s)" and "b \<in> stored_in (store s)" and "id_hash a = id_hash b"
  shows "a = b"
proof -
  have auth: "authentic P x" if "x \<in> stored_in (store s)" for x
    using that assms(2) by (auto simp: store_inv_def stored_in_at)
  have "same_content a b"
    using authentic_same_id [OF assms(1) auth [OF assms(4)] auth [OF assms(5)] assms(6)] assms(3-5)
    unfolding collision_def by blast
  then have "dedup_key_of a = dedup_key_of b" by (simp add: same_content_def dedup_key_of_def)
  then show ?thesis using one_per_slotD [OF assms(2)] assms(4,5) by (simp add: one_per_slot_def)
qed

subsection \<open>Each operation commutes with the abstraction\<close>

lemma process_revocation_target:
  "process_revocation P s r =
     (case revocation_target P (payload r) of
        Err e \<Rightarrow> (Err e, s)
      | Ok t \<Rightarrow>
          (case List.find (\<lambda>d. id_hash d = t) (all_values (store s)) of
             Some target \<Rightarrow>
               if publisher r \<noteq> publisher target then
                 (Err RevocationPublisherMismatch,
                  s\<lparr>store := retain_all (\<lambda>d. id_hash d \<noteq> id_hash r) (store s)\<rparr>)
               else
                 (Ok (), s\<lparr>revoked := insert t (revoked s),
                    store := drop_empty (retain_all (\<lambda>d. id_hash d \<noteq> t) (store s))\<rparr>)
           | None \<Rightarrow> (Ok (), s\<lparr>revoked := insert t (revoked s)\<rparr>)))"
  by (auto simp: process_revocation_def revocation_target_def Let_def split: sum.split option.split)

lemma keep_all: "\<forall>d \<in> ran (slots c). p d \<Longrightarrow> keep p c = c"
proof -
  assume "\<forall>d \<in> ran (slots c). p d"
  then have "Option.bind (slots c dk) (\<lambda>d. if p d then Some d else None) = slots c dk" for dk
    by (cases "slots c dk") (auto intro: ranI)
  then show ?thesis by (simp add: keep_def)
qed

lemma process_revocation_refines:
  assumes "cbor_ok P" and "store_inv P s" and "\<not> collision P (stored_in (store s))"
    and "process_revocation P s r = (res, s')"
  shows "cat_revoke P (catalog_of s) r = (res, catalog_of s')"
proof (cases "revocation_target P (payload r)")
  case (Inl e)
  then show ?thesis using assms(4) by (simp add: process_revocation_target cat_revoke_def)
next
  case (Inr t)
  note one = one_per_slotD [OF assms(2)]
  show ?thesis
  proof (cases "List.find (\<lambda>d. id_hash d = t) (all_values (store s))")
    case None
    then have no: "\<forall>d \<in> stored_in (store s). id_hash d \<noteq> t" by (simp add: find_None_iff)
    moreover have "keep (\<lambda>d. id_hash d \<noteq> t) ((catalog_of s)\<lparr>withdrawn := insert t (revoked s)\<rparr>) =
        (catalog_of s)\<lparr>withdrawn := insert t (revoked s)\<rparr>"
      by (rule keep_all) (use no ran_slot_in [OF one] in simp)
    ultimately show ?thesis
      using assms(4) Inr None ran_slot_in [OF one]
      by (auto simp: process_revocation_target cat_revoke_def catalog_of_def)
  next
    case (Some target)
    then have target: "target \<in> stored_in (store s)" "id_hash target = t"
      using find_SomeD [OF Some] by simp_all
    then have uniq: "(\<exists>d \<in> ran (slot_in (store s)). id_hash d = t \<and> publisher d \<noteq> publisher r) \<longleftrightarrow>
        publisher r \<noteq> publisher target"
      using stored_id_unique [OF assms(1-3) _ target(1)] target unfolding ran_slot_in [OF one] by metis
    have "catalog_of (s\<lparr>revoked := insert t (revoked s),
        store := drop_empty (retain_all (\<lambda>d. id_hash d \<noteq> t) (store s))\<rparr>) =
        keep (\<lambda>d. id_hash d \<noteq> t) ((catalog_of s)\<lparr>withdrawn := insert t (revoked s)\<rparr>)"
      by (simp add: catalog_of_def keep_def slot_in_keep [OF one, of _ "\<lambda>d. id_hash d \<noteq> t"])
    then show ?thesis
      using assms(4) Inr Some uniq catalog_of_retain(1) [OF one, of "\<lambda>d. id_hash d \<noteq> id_hash r"]
      by (auto simp: process_revocation_target cat_revoke_def split: if_splits)
  qed
qed

lemma process_key_rotation_fields:
  "process_key_rotation P s r =
     (case rotation_fields P (payload r) of
        Err e \<Rightarrow> (Err e, s)
      | Ok (old, i, n) \<Rightarrow>
          (case rotations s old of
             None \<Rightarrow> (Ok (), s\<lparr>rotations := (rotations s)(old \<mapsto> (i, n))\<rparr>)
           | Some (i', n') \<Rightarrow>
               if n = n' \<and> i' \<noteq> i then
                 (Err RotationForkDetected, s\<lparr>store := retain_all (\<lambda>d. id_hash d \<noteq> id_hash r) (store s)\<rparr>)
               else if n < n' then
                 (Err (StaleRotation n n'), s\<lparr>store := retain_all (\<lambda>d. id_hash d \<noteq> id_hash r) (store s)\<rparr>)
               else (Ok (), s\<lparr>rotations := (rotations s)(old \<mapsto> (i, n))\<rparr>)))"
  by (auto simp: process_key_rotation_def rotation_fields_def Let_def split: sum.split option.split)

lemma process_key_rotation_refines:
  assumes "store_inv P s" and "process_key_rotation P s r = (res, s')"
  shows "cat_rotate P (catalog_of s) r = (res, catalog_of s')"
proof (cases "rotation_fields P (payload r)")
  case (Inl e)
  then show ?thesis using assms(2) by (simp add: process_key_rotation_fields cat_rotate_def)
next
  case (Inr f)
  obtain old i n where f: "f = (old, i, n)" by (cases f)
  have rot: "catalog_of (s\<lparr>rotations := m\<rparr>) = (catalog_of s)\<lparr>successors := m\<rparr>" for m
    by (simp add: catalog_of_def)
  show ?thesis
    using assms(2) Inr catalog_of_retain(1) [OF one_per_slotD [OF assms(1)], of "\<lambda>d. id_hash d \<noteq> id_hash r"]
    by (auto simp: process_key_rotation_fields cat_rotate_def f rot split: option.splits if_splits)
qed

lemma trimmed_stored: "trimmed s s' \<Longrightarrow> stored_in (store s') \<subseteq> stored_in (store s)"
  by (simp add: trimmed_def)

lemma store_accepted_refines:
  assumes "cbor_ok P" and "store_inv P s" and "authentic P d" and "well_formed d"
    and "\<not> collision P (insert d (stored_in (store s)))"
    and "store_accepted P s d = (res, s')"
  shows "cat_accept P (catalog_of s) d = (res, catalog_of s')"
proof -
  note placed = placed_inv [OF assms(2-4)]
  have st: "stored_in (store (placed s d)) \<subseteq> insert d (stored_in (store s))"
    using assms(4) by (auto simp: placed_def stored_in_push well_formed_def)
  then have nc: "\<not> collision P (stored_in (store (placed s d)))"
    using assms(5) collision_mono by blast
  have p: "s\<lparr>sequences := (sequences s)(dedup_key_of d \<mapsto> sequence d),
      store := fold (\<lambda>k t. push_at k d t) (routing_keys d)
        (retain_all (\<lambda>x. dedup_key_of x \<noteq> dedup_key_of d) (store s))\<rparr> = placed s d"
    by (simp add: placed_def)
  let ?rev = "process_revocation P (placed s d) d"
  have rev: "cat_revoke P (catalog_of (placed s d)) d = (fst ?rev, catalog_of (snd ?rev))"
    by (rule process_revocation_refines [OF assms(1) placed nc]) simp
  have rot: "cat_rotate P (catalog_of x) d = (fst (process_key_rotation P x d), catalog_of (snd (process_key_rotation P x d)))"
    if "store_inv P x" for x
    by (rule process_key_rotation_refines [OF that]) simp
  have inv: "store_inv P (snd ?rev)"
    by (rule trimmed_inv [OF process_revocation_trimmed placed])
  show ?thesis
    using assms(6) rot [OF placed] rot [OF inv] rev
    by (cases "fst ?rev")
      (auto simp: store_accepted_def cat_accept_def Let_def p catalog_of_placed [OF assms(2-4), symmetric]
        case_prod_unfold simp del: fun_upd_apply split: if_splits)
qed

subsection \<open>Every descriptor lies under all of its keys\<close>

definition indexed :: "table \<Rightarrow> bool" where
  "indexed t \<longleftrightarrow> (\<forall>d \<in> stored_in t. \<forall>k \<in> set (routing_keys d). d \<in> set (at t k))"

lemma indexed_simps [simp]:
  "indexed []" "indexed t \<Longrightarrow> indexed (retain_all p t)"
  "keys_distinct t \<Longrightarrow> indexed t \<Longrightarrow> indexed (drop_empty t)"
  by (simp_all add: indexed_def)

lemma indexed_push:
  assumes "indexed t" and "routing_keys d \<noteq> []"
  shows "indexed (fold (\<lambda>k t. push_at k d t) (routing_keys d) t)"
  using assms by (auto simp: indexed_def stored_in_push at_push in_set_replicate count_list_0_iff)

lemma store_accepted_indexed:
  assumes "keys_distinct (store s)" and "indexed (store s)" and "well_formed d"
  shows "indexed (store (snd (store_accepted P s d)))"
proof -
  have rev: "indexed (store (snd (process_revocation P x r)))"
    if "keys_distinct (store x)" "indexed (store x)" for x r
    using that by (auto simp: process_revocation_target split: sum.split option.split)
  have rot: "indexed (store (snd (process_key_rotation P x r)))" if "indexed (store x)" for x r
    using that by (auto simp: process_key_rotation_fields split: sum.split option.split prod.split)
  show ?thesis
    using assms rev rot
    by (auto simp: store_accepted_def Let_def case_prod_unfold indexed_push well_formed_def
        split: sum.split)
qed

lemma store_at_indexed:
  assumes "keys_distinct (store s)" and "indexed (store s)"
  shows "indexed (store (snd (store_descriptor_at P s d now)))"
  using assms
  by (cases rule: store_at_cases [of P d now s]) (simp_all add: store_accepted_indexed validate_Ok_iff)

definition full_inv :: "prims \<Rightarrow> descriptor_store \<Rightarrow> bool" where
  "full_inv P s \<longleftrightarrow> store_inv P s \<and> indexed (store s)"

lemma full_inv_step [invariants]:
  "full_inv P descriptor_store_new"
  "full_inv P s \<Longrightarrow> full_inv P (snd (store_descriptor_at P s d now))"
  "full_inv P s \<Longrightarrow> full_inv P (evict_expired_at s now)"
proof -
  show "full_inv P descriptor_store_new"
    using mem.inv_empty [of P] by (simp add: full_inv_def descriptor_store_new_def)
  assume "full_inv P s"
  then have inv: "store_inv P s" "keys_distinct (store s)" "indexed (store s)"
    by (simp_all add: full_inv_def store_inv_def)
  then show "full_inv P (snd (store_descriptor_at P s d now))"
    by (simp add: full_inv_def store_at_inv store_at_indexed)
  show "full_inv P (evict_expired_at s now)"
    using inv evict_inv [OF inv(1), of now] by (simp add: full_inv_def evict_at)
qed

lemma get_refines:
  assumes "full_inv P s"
  shows "set (get_descriptors_at s k f now) = cat_get (catalog_of s) k f now"
proof -
  have one: "one_per_slot (store s)" using assms one_per_slotD [of P s] by (simp add: full_inv_def)
  have "d \<in> set (at (store s) k) \<longleftrightarrow> d \<in> stored_in (store s) \<and> k \<in> set (routing_keys d)" for d
    using assms by (auto simp: full_inv_def store_inv_def indexed_def stored_in_at)
  then show ?thesis by (auto simp: get_at cat_get_def ran_slot_in [OF one])
qed

subsection \<open>Properties\<close>

lemma store_at_stored: "full_inv P s \<Longrightarrow>
    stored_in (store (snd (store_descriptor_at P s d now))) \<subseteq> insert d (stored_in (store s))"
proof (cases rule: store_at_cases [of P d now s])
  case (accepted rl)
  have "stored_in (store (placed s d)) \<subseteq> insert d (stored_in (store s))"
    using accepted(1) by (auto simp: placed_def stored_in_push well_formed_def validate_Ok_iff)
  then show ?thesis
    using trimmed_stored [OF store_accepted_trimmed [of "s\<lparr>rate_limiter_field := rl\<rparr>" d P]] accepted(4) by simp
qed auto

lemma store_at_refines:
  assumes "cbor_ok P" and "full_inv P s" and "\<not> collision P (insert d (stored_in (store s)))"
  shows "cat_put P (catalog_of s) d now =
     (fst (store_descriptor_at P s d now), catalog_of (snd (store_descriptor_at P s d now)))"
proof (cases rule: store_at_cases [of P d now s])
  case (accepted rl)
  let ?s = "s\<lparr>rate_limiter_field := rl\<rparr>"
  have "cat_accept P (catalog_of ?s) d =
      (fst (store_accepted P ?s d), catalog_of (snd (store_accepted P ?s d)))"
    by (rule store_accepted_refines [OF assms(1)])
      (use assms(2,3) accepted(1) in \<open>simp_all add: full_inv_def validate_Ok_iff\<close>)
  then show ?thesis
    using accepted by (auto simp: cat_put_def Let_def not_less [symmetric] split: option.splits)
qed (simp_all add: cat_put_def)

lemma evict_refines: "full_inv P s \<Longrightarrow> cat_evict (catalog_of s) now = catalog_of (evict_expired_at s now)"
  using catalog_of_retain(2) [OF one_per_slotD [of P s]] by (simp add: cat_evict_def evict_at full_inv_def)

text \<open>The catalog's contract: results and answers agree as long as no two descriptors collide.\<close>

interpretation mem_sim: storage_simulation "store_descriptor_at P" get_descriptors_at evict_expired_at
    "cat_put P" cat_get cat_evict "\<lambda>s c. full_inv P s \<and> c = catalog_of s" "\<lambda>s. stored_in (store s)"
    "\<lambda>D. cbor_ok P \<and> \<not> collision P D" for P
proof unfold_locales
  show "stored_in (store (snd (store_descriptor_at P s d now))) \<subseteq> insert d (stored_in (store s))"
    if "full_inv P s \<and> c = catalog_of s" for s c d now
    using that store_at_stored by blast
  show "fst (store_descriptor_at P s d now) = fst (cat_put P c d now) \<and>
      (full_inv P (snd (store_descriptor_at P s d now)) \<and>
       snd (cat_put P c d now) = catalog_of (snd (store_descriptor_at P s d now)))"
    if "full_inv P s \<and> c = catalog_of s" "cbor_ok P \<and> \<not> collision P (insert d (stored_in (store s)))" for s c d now
    using that full_inv_step(2) store_at_refines [of P s d now] by simp
  show "stored_in (store (evict_expired_at s now)) \<subseteq> stored_in (store s)" for s now by (auto simp: evict_at)
qed (auto simp: full_inv_step evict_refines get_refines collision_mono)

text \<open>C10. The in-memory store implements the catalog: over any history of stores and evictions every
  result, error messages included, is the catalog's, the state abstracts to the catalog's
  state, and every query answers the catalog's set of descriptors; or two of the submitted
  descriptors differ in content and collide under BLAKE3. The catalog refuses what is older than the
  newest sequence of its slot and nothing else: a descriptor with the same sequence and another id
  replaces the stored one, where PROTOCOL.md (2.2, step 8) demands that it be rejected.\<close>

theorem mem_refines_catalog:
  assumes "cbor_ok P"
  shows "collision P (submitted ops) \<or>
     put_results (store_descriptor_at P) evict_expired_at ops descriptor_store_new =
       put_results (cat_put P) cat_evict ops catalog_new \<and>
     catalog_of (mem_run P ops descriptor_store_new) = run_storage (cat_put P) cat_evict ops catalog_new \<and>
     (\<forall>k f now. set (get_descriptors_at (mem_run P ops descriptor_store_new) k f now) =
        cat_get (run_storage (cat_put P) cat_evict ops catalog_new) k f now)"
proof -
  have new: "catalog_of descriptor_store_new = catalog_new"
    by (simp add: catalog_of_def catalog_new_def descriptor_store_new_def slot_in_def [abs_def] all_values_def)
  have "stored_in (store descriptor_store_new) = {}" by (simp add: descriptor_store_new_def)
  then show ?thesis
    using mem_sim.history [of P descriptor_store_new catalog_new ops] mem_sim.history_answers [of P descriptor_store_new catalog_new ops]
      assms full_inv_step(1) [of P] by (auto simp: new)
qed

lemma mem_refines_catalog_witness:
  "put_results (cat_put pad_prims) cat_evict [Put (demo_desc 7 1000) 2000, Evict 3000] catalog_new = [Ok ()]"
proof -
  let ?ops = "[Put (demo_desc 7 1000) 2000, Evict 3000]"
  have "\<not> collision pad_prims (submitted ?ops)" by (simp add: collision_def)
  then have "put_results (cat_put pad_prims) cat_evict ?ops catalog_new =
      put_results (store_descriptor_at pad_prims) evict_expired_at ?ops descriptor_store_new"
    using mem_refines_catalog [OF pad_prims_ok(3), of ?ops] by simp
  then show ?thesis using demo_put [of 7] by auto
qed

end
