(* ===== verification/Disk_Spec.thy ===== *)
theory Disk_Spec
  imports Hub_Storage Catalog
begin

section \<open>An abstract specification of the disk store\<close>

text \<open>
  What \<open>RedbStorage\<close> keeps in four tables is a \<^emph>\<open>shelf\<close>: one version of a descriptor for each slot
  (publisher, schema and topic, hashed). The sequence table, the deduplication table and the index
  by routing key follow from it. \<open>on_disk\<close> relates a shelf to the tables; without input/output
  errors every operation of the store keeps the relation and returns what the shelf's operation
  returns. The shelf's limiter is the store's.
\<close>

type_synonym shelf = "(bytes \<rightharpoonup> descriptor) redb_storage"

definition shelf_put :: "prims \<Rightarrow> shelf \<Rightarrow> descriptor \<Rightarrow> u64 \<Rightarrow> (store_error + unit) \<times> shelf" where
  "shelf_put P s d now =
     (case validate P d now of
        Err e \<Rightarrow> (Err (ValidationFailed (mesh_error_display e)), s)
      | Ok _ \<Rightarrow>
          let (allowed, s1) = (if skip_rate_limit s then (True, s) else check_rate_limit s (publisher d) now)
          in if \<not> allowed then (Err (RateLimited 10), s1)
             else (case rs_db s (redb_dedup_key P d) of
                     Some x \<Rightarrow> if sequence d < sequence x then (Err (StaleDescriptor (sequence d) (sequence x)), s1)
                               else (Ok (), s1\<lparr>rs_db := (rs_db s)(redb_dedup_key P d \<mapsto> d)\<rparr>)
                   | None \<Rightarrow> (Ok (), s1\<lparr>rs_db := (rs_db s)(redb_dedup_key P d \<mapsto> d)\<rparr>)))"

definition shelf_get :: "shelf \<Rightarrow> hash \<Rightarrow> filter_set option \<Rightarrow> u64 \<Rightarrow> descriptor set" where
  "shelf_get s k f now = {d \<in> ran (rs_db s). k \<in> set (routing_keys d) \<and> \<not> expired now d \<and> filter_matches f d}"

definition shelf_without :: "(descriptor \<Rightarrow> bool) \<Rightarrow> (bytes \<rightharpoonup> descriptor) \<Rightarrow> bytes \<rightharpoonup> descriptor" where
  "shelf_without p m = (\<lambda>dk. Option.bind (m dk) (\<lambda>d. if p d then None else Some d))"

definition shelf_evict :: "shelf \<Rightarrow> u64 \<Rightarrow> shelf" where
  "shelf_evict s now = s\<lparr>rs_db := shelf_without (expired now) (rs_db s)\<rparr>"

subsection \<open>A shelf on disk\<close>

abbreviation row :: "descriptor \<Rightarrow> bytes" where
  "row d \<equiv> hash_bytes (id_hash d)"

definition unique_rows :: "(bytes \<rightharpoonup> descriptor) \<Rightarrow> bool" where
  "unique_rows m \<longleftrightarrow> (\<forall>dk dk' a b. m dk = Some a \<longrightarrow> m dk' = Some b \<longrightarrow> id_hash a = id_hash b \<longrightarrow> dk = dk')"

definition on_disk :: "prims \<Rightarrow> 'db redb \<Rightarrow> (bytes \<rightharpoonup> descriptor) \<Rightarrow> redb_tables \<Rightarrow> bool" where
  "on_disk P R m T \<longleftrightarrow> unique_rows m \<and>
     (\<forall>dk d. m dk = Some d \<longrightarrow> authentic P d \<and> dk = redb_dedup_key P d \<and>
        (\<exists>b. tb_desc T (row d) = Some b \<and> desc_dec R b = Ok d)) \<and>
     (\<forall>i b. tb_desc T i = Some b \<longrightarrow> i \<in> row ` ran m) \<and>
     tb_dedup T = (\<lambda>dk. map_option row (m dk)) \<and> tb_seq T = (\<lambda>dk. map_option sequence (m dk)) \<and>
     tb_rk T = {(hash_bytes k, row d) |k d. d \<in> ran m \<and> k \<in> set (routing_keys d)}"

lemma on_diskD:
  assumes "on_disk P R m T"
  shows "unique_rows m" "m dk = Some d \<Longrightarrow> authentic P d \<and> dk = redb_dedup_key P d"
    "m dk = Some d \<Longrightarrow> \<exists>b. tb_desc T (row d) = Some b \<and> desc_dec R b = Ok d"
    "tb_desc T i = Some b \<Longrightarrow> i \<in> row ` ran m"
    "tb_dedup T = (\<lambda>dk. map_option row (m dk))" "tb_seq T = (\<lambda>dk. map_option sequence (m dk))"
    "tb_rk T = {(hash_bytes k, row d) |k d. d \<in> ran m \<and> k \<in> set (routing_keys d)}"
  using assms unfolding on_disk_def by blast+

text \<open>Taking a version off, and putting one on an empty slot.\<close>

definition rows_without :: "descriptor \<Rightarrow> redb_tables \<Rightarrow> redb_tables" where
  "rows_without d T = T\<lparr>tb_desc := (tb_desc T)(row d := None),
     tb_rk := tb_rk T - {(hash_bytes k, row d) |k. k \<in> set (routing_keys d)}\<rparr>"

definition tables_without :: "prims \<Rightarrow> descriptor \<Rightarrow> redb_tables \<Rightarrow> redb_tables" where
  "tables_without P d T = (rows_without d T)\<lparr>tb_dedup := (tb_dedup T)(redb_dedup_key P d := None),
     tb_seq := (tb_seq T)(redb_dedup_key P d := None)\<rparr>"

definition tables_with :: "prims \<Rightarrow> descriptor \<Rightarrow> bytes \<Rightarrow> redb_tables \<Rightarrow> redb_tables" where
  "tables_with P d b T = T\<lparr>tb_desc := (tb_desc T)(row d \<mapsto> b),
     tb_rk := tb_rk T \<union> {(hash_bytes k, row d) |k. k \<in> set (routing_keys d)},
     tb_dedup := (tb_dedup T)(redb_dedup_key P d \<mapsto> row d), tb_seq := (tb_seq T)(redb_dedup_key P d \<mapsto> sequence d)\<rparr>"

lemma unique_rows_sub: "unique_rows m \<Longrightarrow> m' \<subseteq>\<^sub>m m \<Longrightarrow> unique_rows m'"
  unfolding unique_rows_def map_le_def dom_def by (metis (mono_tags, lifting) mem_Collect_eq option.discI)

lemma ran_Some: "d \<in> ran m \<longleftrightarrow> (\<exists>dk. m dk = Some d)"
  by (auto simp: ran_def)

lemma take_off:
  assumes "on_disk P R m T" and "m dk = Some d"
  shows "on_disk P R (m(dk := None)) (tables_without P d T)"
proof -
  note D = on_diskD [OF assms(1)]
  have dk: "dk = redb_dedup_key P d" using D(2) [OF assms(2)] by simp
  have other: "row x \<noteq> row d" if "m dk' = Some x" "dk' \<noteq> dk" for x dk'
    using D(1) that assms(2) unfolding unique_rows_def hash_bytes_inj by metis
  have ran: "x \<in> ran (m(dk := None)) \<longleftrightarrow> x \<in> ran m \<and> row x \<noteq> row d" for x
    using other assms(2) unfolding ran_Some fun_upd_apply by (metis option.distinct(1) option.inject)
  have "i \<in> row ` ran (m(dk := None))" if i: "tb_desc (tables_without P d T) i = Some b" for i b
  proof -
    have "i \<noteq> row d" "i \<in> row ` ran m"
      using i D(4) [of i b] by (auto simp: tables_without_def rows_without_def split: if_splits)
    then show ?thesis using ran by blast
  qed
  moreover have "\<exists>b. tb_desc (tables_without P d T) (row x) = Some b \<and> desc_dec R b = Ok x" if "(m(dk := None)) dk' = Some x" for dk' x
    using D(3) [of dk' x] other [of dk' x] that by (simp add: tables_without_def rows_without_def split: if_splits)
  moreover have "tb_rk (tables_without P d T) = {(hash_bytes k, row x) |k x. x \<in> ran (m(dk := None)) \<and> k \<in> set (routing_keys x)}"
  proof -
    have "x = d" if "x \<in> ran m" "row x = row d" for x using that other assms(2) by (metis option.inject ran_Some)
    then show ?thesis by (auto simp: tables_without_def rows_without_def D(7) ran)
  qed
  moreover have "unique_rows (m(dk := None))" by (rule unique_rows_sub [OF D(1)]) (simp add: map_le_def)
  moreover have "authentic P x \<and> dk' = redb_dedup_key P x" if "(m(dk := None)) dk' = Some x" for dk' x
    using that D(2) by (simp split: if_splits)
  moreover have "tb_dedup (tables_without P d T) = (\<lambda>dk'. map_option row ((m(dk := None)) dk'))"
    "tb_seq (tables_without P d T) = (\<lambda>dk'. map_option sequence ((m(dk := None)) dk'))"
    by (auto simp: tables_without_def rows_without_def D(5,6) dk fun_eq_iff)
  ultimately show ?thesis unfolding on_disk_def by blast
qed

lemma put_on:
  assumes "on_disk P R m T" and "m (redb_dedup_key P d) = None" and "authentic P d" and "desc_dec R b = Ok d"
    and "\<And>x. x \<in> ran m \<Longrightarrow> id_hash x \<noteq> id_hash d"
  shows "on_disk P R (m(redb_dedup_key P d \<mapsto> d)) (tables_with P d b T)"
proof -
  let ?m = "m(redb_dedup_key P d \<mapsto> d)"
  note D = on_diskD [OF assms(1)]
  have ran: "ran ?m = insert d (ran m)" using assms(2) by simp
  have "unique_rows ?m"
    using D(1) assms(5) unfolding unique_rows_def ran_Some fun_upd_apply by (metis option.inject)
  moreover have "\<exists>b. tb_desc (tables_with P d b' T) (row x) = Some b \<and> desc_dec R b = Ok x"
    if "?m dk = Some x" "b' = b" for dk x b'
    using that D(3) [of dk x] assms(4,5) by (auto simp: tables_with_def ran_Some split: if_splits)
  moreover have "i \<in> row ` ran ?m" if "tb_desc (tables_with P d b T) i = Some c" for i c
    using that D(4) [of i c] unfolding ran by (auto simp: tables_with_def split: if_splits)
  moreover have "authentic P x \<and> dk = redb_dedup_key P x" if "?m dk = Some x" for dk x
    using that D(2) assms(3) by (auto split: if_splits)
  moreover have "tb_dedup (tables_with P d b T) = (\<lambda>dk. map_option row (?m dk))"
    "tb_seq (tables_with P d b T) = (\<lambda>dk. map_option sequence (?m dk))"
    by (auto simp: tables_with_def D(5,6) fun_eq_iff)
  moreover have "tb_rk (tables_with P d b T) = {(hash_bytes k, row x) |k x. x \<in> ran ?m \<and> k \<in> set (routing_keys x)}"
    unfolding ran by (auto simp: tables_with_def D(7))
  ultimately show ?thesis unfolding on_disk_def by blast
qed

subsection \<open>What the store does to the tables\<close>

lemma rk_remove_all_exact:
  assumes "redb_ok R v" and "redb_up R v"
  shows "v (rk_remove_all R i ks t) = (v t)\<lparr>tb_rk := tb_rk (v t) - {(hash_bytes k, i) |k. k \<in> set ks}\<rparr>"
proof (induction ks arbitrary: t)
  case Nil
  then show ?case by (simp add: rk_remove_all_def)
next
  case (Cons k ks)
  obtain t1 where t1: "rk_remove R t (hash_bytes k) i = Ok t1" using redb_upD(10) [OF assms(2)] by blast
  have "rk_remove_all R i (k # ks) t = rk_remove_all R i ks t1" by (simp add: rk_remove_all_def t1)
  moreover have "tb_rk (v t) - {(hash_bytes k, i)} - {(hash_bytes k', i) |k'. k' \<in> set ks} =
      tb_rk (v t) - {(hash_bytes k', i) |k'. k' \<in> set (k # ks)}" by auto
  ultimately show ?case using Cons.IH [of t1] redb_okD(10) [OF assms(1) t1] by simp
qed

lemma remove_rows_exact:
  assumes "redb_ok R v" and "redb_up R v"
  shows "v (ignore_err (rk_remove_all R (row d) (routing_keys d) t) (desc_remove R (rk_remove_all R (row d) (routing_keys d) t) (row d))) =
     rows_without d (v t)"
proof -
  obtain t' where "desc_remove R (rk_remove_all R (row d) (routing_keys d) t) (row d) = Ok t'" using redb_upD(7) [OF assms(2)] by blast
  then show ?thesis using redb_okD(6) [OF assms(1)] by (simp add: rk_remove_all_exact [OF assms] rows_without_def)
qed

lemma remove_old_exact:
  assumes "redb_ok R v" and "redb_up R v" and "on_disk P R m (v t)"
    and "remove_old R (map_option row (m dk)) t = Ok t'"
  shows "v t' = (case m dk of None \<Rightarrow> v t | Some x \<Rightarrow> rows_without x (v t))"
proof (cases "m dk")
  case None
  then show ?thesis using assms(4) by (simp add: remove_old_def)
next
  case (Some x)
  obtain b where b: "tb_desc (v t) (row x) = Some b" "desc_dec R b = Ok x" using on_diskD(3) [OF assms(3) Some] by blast
  obtain r where "desc_get R t (row x) = Ok r" using redb_upD(5) [OF assms(2)] by blast
  then have "desc_get R t (row x) = Ok (Some b)" using redb_okD(4) [OF assms(1)] b(1) by metis
  then show ?thesis
    using assms(4) Some b(2) remove_rows_exact [OF assms(1,2), of x t]
    by (simp add: remove_old_def old_routing_keys_def Let_def)
qed

lemma replaced_tables:
  "redb_dedup_key P x = redb_dedup_key P d \<Longrightarrow> tables_with P d b (rows_without x T) = tables_with P d b (tables_without P x T)"
  by (simp add: tables_with_def tables_without_def rows_without_def)

lemma write_keeps_shelf:
  assumes ok: "redb_ok R v" and up: "redb_up R v" and e: "desc_enc R d = Ok b" and m: "on_disk P R m (v db)"
    and "authentic P d" and new: "\<And>dk x. m dk = Some x \<Longrightarrow> id_hash x = id_hash d \<Longrightarrow> dk = redb_dedup_key P d"
    and w: "redb_write P R db d = Ok db'"
  shows "on_disk P R (m(redb_dedup_key P d \<mapsto> d)) (v db')"
proof -
  let ?dk = "redb_dedup_key P d"
  note D = on_diskD [OF m]
  obtain t0 where t0: "rd_begin_write R db = Ok t0" using redb_upD(2) [OF up] by blast
  have v0: "v t0 = v db" by (rule redb_okD(2) [OF ok t0])
  obtain cur where cur: "seq_get R t0 ?dk = Ok cur" using redb_upD(14) [OF up] by blast
  obtain old where old: "dedup_get R t0 ?dk = Ok old" using redb_upD(11) [OF up] by blast
  have old': "old = map_option row (m ?dk)" using redb_okD(11) [OF ok old] v0 by (simp add: D(5))
  obtain t1 where t1: "remove_old R old t0 = Ok t1" using remove_old_total [OF up] by blast
  obtain t2 where t2: "desc_insert R t1 (row d) b = Ok t2" using redb_upD(6) [OF up] by blast
  obtain t3 where t3: "rk_insert_all R (row d) (routing_keys d) t2 = Ok t3" using rk_insert_all_total [OF up] by blast
  obtain t4 where t4: "dedup_insert R t3 ?dk (row d) = Ok t4" using redb_upD(12) [OF up] by blast
  obtain t5 where t5: "seq_insert R t4 ?dk (sequence d) = Ok t5" using redb_upD(15) [OF up] by blast
  have "rd_commit R t5 = Ok db'"
    using w by (auto simp: redb_write_def Let_def e t0 cur old t1 t2 t3 t4 t5 try_db_Ok split: if_splits)
  then have "v db' = tables_with P d b (v t1)"
    by (simp add: tables_with_def redb_okD(3) [OF ok] redb_okD(15) [OF ok t5] redb_okD(12) [OF ok t4]
        rk_insert_all_tables [OF ok t3] redb_okD(5) [OF ok t2])
  moreover have "v t1 = (case m ?dk of None \<Rightarrow> v db | Some x \<Rightarrow> rows_without x (v db))"
    using remove_old_exact [OF ok up, of P m t0 ?dk t1, unfolded v0] m t1 [unfolded old'] by simp
  moreover have dec: "desc_dec R b = Ok d" by (rule redb_okD(17) [OF ok e])
  ultimately show ?thesis
  proof (cases "m ?dk")
    case None
    have "id_hash x \<noteq> id_hash d" if "x \<in> ran m" for x using that new None unfolding ran_Some by fastforce
    with put_on [OF m None assms(5) dec] show ?thesis
      using \<open>v db' = _\<close> \<open>v t1 = _\<close> None by simp
  next
    case (Some x)
    have "id_hash y \<noteq> id_hash d" if "y \<in> ran (m(?dk := None))" for y
      using that new unfolding ran_Some fun_upd_apply by (metis option.distinct(1))
    with put_on [OF take_off [OF m Some] _ assms(5) dec] have "on_disk P R (m(?dk \<mapsto> d)) (tables_with P d b (tables_without P x (v db)))"
      by simp
    then show ?thesis
      using \<open>v db' = _\<close> \<open>v t1 = _\<close> Some D(2) [OF Some] replaced_tables [of P x d b "v db"] by simp
  qed
qed

text \<open>A store.\<close>

definition same_shelf :: "prims \<Rightarrow> 'db redb \<Rightarrow> ('db \<Rightarrow> redb_tables) \<Rightarrow> 'db redb_storage \<Rightarrow> shelf \<Rightarrow> bool" where
  "same_shelf P R v s a \<longleftrightarrow> on_disk P R (rs_db a) (v (rs_db s)) \<and> rs_rate a = rs_rate s \<and>
     skip_rate_limit a = skip_rate_limit s"

lemma check_rate_same:
  assumes "rs_rate a = rs_rate s"
  shows "fst (check_rate_limit a i now) = fst (check_rate_limit s i now)"
    and "rs_rate (snd (check_rate_limit a i now)) = rs_rate (snd (check_rate_limit s i now))"
    and "rs_db (snd (check_rate_limit a i now)) = rs_db a"
    and "skip_rate_limit (snd (check_rate_limit a i now)) = skip_rate_limit a"
  using assms by (simp_all add: check_rate_limit_def Let_def)

lemma authentic_slot:
  assumes "cbor_ok P" and "\<not> collision P D" and "authentic P a" and "authentic P b" and "a \<in> D" and "b \<in> D"
    and "id_hash a = id_hash b"
  shows "redb_dedup_key P a = redb_dedup_key P b"
proof -
  have "same_content a b" using authentic_same_id [OF assms(1,3,4,7)] assms(2,5,6) unfolding collision_def by blast
  then show ?thesis by (simp add: same_content_def redb_dedup_key_def)
qed

lemma put_refines:
  assumes ok: "redb_ok R v" and up: "redb_up R v" and c: "cbor_ok P" and e: "is_ok (desc_enc R d)"
    and s: "same_shelf P R v s a" and nc: "\<not> collision P (insert d (ran (rs_db a)))"
  shows "fst (redb_store_at P R s d now) = fst (shelf_put P a d now) \<and>
     same_shelf P R v (snd (redb_store_at P R s d now)) (snd (shelf_put P a d now))"
proof (cases "validate P d now")
  case (Inl e)
  then show ?thesis using s by (simp add: redb_store_at_def shelf_put_def)
next
  case (Inr u)
  let ?dk = "redb_dedup_key P d"
  let ?lim = "\<lambda>x. if skip_rate_limit x then (True, x) else check_rate_limit x (publisher d) now"
  obtain al s1 where l: "?lim s = (al, s1)" by (rule prod.exhaust)
  obtain al' a1 where l': "(if skip_rate_limit a then (True, a) else check_rate_limit a (publisher d) now) = (al', a1)"
    by (rule prod.exhaust)
  have S: "on_disk P R (rs_db a) (v (rs_db s))" "rs_rate a = rs_rate s" "skip_rate_limit a = skip_rate_limit s"
    using s by (simp_all add: same_shelf_def)
  have eq: "al' = al" "rs_rate a1 = rs_rate s1" "rs_db a1 = rs_db a" "rs_db s1 = rs_db s" "skip_rate_limit a1 = skip_rate_limit s1"
    using l l' S(2,3) check_rate_same [OF S(2), of "publisher d" now] check_rate_same [of s s "publisher d" now]
    by (auto split: if_splits)
  obtain b where b: "desc_enc R d = Ok b" using e by (elim is_okE)
  have auth: "authentic P d" using Inr by (simp add: validate_Ok_iff)
  have new: "dk = ?dk" if "rs_db a dk = Some x" "id_hash x = id_hash d" for dk x
    using on_diskD(2) [OF S(1) that(1)] authentic_slot [OF c nc _ auth _ _ that(2)] that(1) by (auto simp: ran_Some)
  have seq: "tb_seq (v (rs_db s)) ?dk = map_option sequence (rs_db a ?dk)" by (simp add: on_diskD(6) [OF S(1)])
  show ?thesis
  proof (cases "al \<and> (\<forall>x. rs_db a ?dk = Some x \<longrightarrow> sequence x \<le> sequence d)")
    case True
    obtain db' where w: "redb_write P R (rs_db s) d = Ok db'"
      using conjunct2 [OF redb_write_total [OF ok up b, of "rs_db s" P]] True by (auto simp: seq)
    have "on_disk P R ((rs_db a)(?dk \<mapsto> d)) (v db')" by (rule write_keeps_shelf [OF ok up b S(1) auth new w])
    moreover have "redb_store_at P R s d now = (Ok (), s1\<lparr>rs_db := db'\<rparr>)"
      using Inr l True w eq(4) by (simp add: redb_store_at_def)
    moreover have "shelf_put P a d now = (Ok (), a1\<lparr>rs_db := (rs_db a)(?dk \<mapsto> d)\<rparr>)"
      using Inr l' True eq(1) by (auto simp: shelf_put_def not_less [symmetric] split: option.split)
    ultimately show ?thesis using eq by (simp add: same_shelf_def)
  next
    case False
    then consider "\<not> al" | x where "al" "rs_db a ?dk = Some x" "sequence d < sequence x" by (auto simp: not_le)
    then show ?thesis
    proof cases
      case 1
      then show ?thesis
        using Inr l l' eq S(1) by (simp add: redb_store_at_def shelf_put_def same_shelf_def RATE_LIMIT_PER_MINUTE_def)
    next
      case 2
      have "redb_write P R (rs_db s) d = Err (StaleDescriptor (sequence d) (sequence x))"
        using conjunct1 [OF redb_write_total [OF ok up b, of "rs_db s" P]] 2(2,3) by (simp add: seq)
      then show ?thesis
        using Inr l l' eq S(1) 2 by (simp add: redb_store_at_def shelf_put_def same_shelf_def)
    qed
  qed
qed

text \<open>An eviction.\<close>

lemma redb_drop_exact:
  assumes ok: "redb_ok R v" and up: "redb_up R v"
  shows "v (redb_drop P R d t) = tables_without P d (v t)"
proof -
  let ?dk = "redb_dedup_key P d"
  obtain t1 where t1: "desc_remove R t (row d) = Ok t1" using redb_upD(7) [OF up] by blast
  let ?t2 = "rk_remove_all R (row d) (routing_keys d) t1"
  obtain t3 where t3: "dedup_remove R ?t2 ?dk = Ok t3" using redb_upD(13) [OF up] by blast
  obtain t4 where t4: "seq_remove R t3 ?dk = Ok t4" using redb_upD(16) [OF up] by blast
  have "redb_drop P R d t = t4" by (simp add: redb_drop_def Let_def t1 t3 t4)
  then show ?thesis
    by (simp add: redb_okD(16) [OF ok t4] redb_okD(13) [OF ok t3] rk_remove_all_exact [OF ok up] redb_okD(6) [OF ok t1]
        tables_without_def rows_without_def)
qed

text \<open>Dropping a version a second time changes nothing.\<close>

lemma drop_shelf:
  assumes m: "on_disk P R m T" and sub: "m \<subseteq>\<^sub>m m0" and m0: "unique_rows m0" "m0 dk = Some d" and dk: "dk = redb_dedup_key P d"
  shows "on_disk P R (m(dk := None)) (tables_without P d T)"
proof (cases "m dk")
  case (Some x)
  then have "x = d" using sub m0(2) by (metis domI map_le_def option.inject)
  then show ?thesis using take_off [OF m Some] by simp
next
  case None
  note D = on_diskD [OF m]
  have fresh: "row x \<noteq> row d" if ran: "x \<in> ran m" for x
  proof
    assume "row x = row d"
    obtain dk' where x: "m dk' = Some x" using ran by (auto simp: ran_Some)
    then have "m0 dk' = Some x" using sub by (metis domI map_le_def)
    then have "dk' = dk" using m0 \<open>row x = row d\<close> unfolding unique_rows_def by simp
    then show False using x None by simp
  qed
  have "tb_desc T (row d) = None"
    using D(4) [of "row d"] fresh by (metis imageE not_None_eq)
  then have "(tb_desc T)(row d := None) = tb_desc T" by (simp add: fun_upd_idem)
  moreover have "tb_rk T - {(hash_bytes k, row d) |k. k \<in> set (routing_keys d)} = tb_rk T" using fresh by (auto simp: D(7))
  moreover have "(tb_dedup T)(dk := None) = tb_dedup T" "(tb_seq T)(dk := None) = tb_seq T" using None by (auto simp: D(5,6))
  ultimately have "tables_without P d T = T" by (simp add: tables_without_def rows_without_def dk)
  moreover have "m(dk := None) = m" using None by auto
  ultimately show ?thesis using m by simp
qed

lemma drop_all:
  assumes ok: "redb_ok R v" and up: "redb_up R v" and m0: "unique_rows m0"
    and "\<forall>d \<in> set ds. m0 (redb_dedup_key P d) = Some d" and "on_disk P R m (v t)" and "m \<subseteq>\<^sub>m m0"
  shows "on_disk P R (shelf_without (\<lambda>d. d \<in> set ds) m) (v (fold (redb_drop P R) ds t))"
  using assms(4-6)
proof (induction ds arbitrary: m t)
  case Nil
  then show ?case by (simp add: shelf_without_def)
next
  case (Cons d ds)
  let ?dk = "redb_dedup_key P d"
  have step: "on_disk P R (m(?dk := None)) (v (redb_drop P R d t))"
    unfolding redb_drop_exact [OF ok up] using drop_shelf [OF Cons.prems(2,3) m0 _ refl] Cons.prems(1) by simp
  have sub: "m(?dk := None) \<subseteq>\<^sub>m m0" using Cons.prems(3) by (auto simp: map_le_def)
  have rest: "\<forall>d \<in> set ds. m0 (redb_dedup_key P d) = Some d" using Cons.prems(1) by simp
  have "on_disk P R (shelf_without (\<lambda>d. d \<in> set ds) (m(?dk := None))) (v (fold (redb_drop P R) (d # ds) t))"
    using Cons.IH [OF rest step sub] by (simp only: fold.simps comp_apply)
  moreover have "shelf_without (\<lambda>d. d \<in> set ds) (m(?dk := None)) = shelf_without (\<lambda>x. x \<in> set (d # ds)) m"
  proof (rule ext)
    fix dk
    have "x = d \<longleftrightarrow> dk = ?dk" if "m dk = Some x" for x
    proof -
      have "m0 dk = Some x" using that Cons.prems(3) by (metis domI map_le_def)
      moreover have "dk = redb_dedup_key P x" using on_diskD(2) [OF Cons.prems(2) that] by simp
      moreover have "m0 ?dk = Some d" using Cons.prems(1) by simp
      ultimately show ?thesis by (metis option.inject)
    qed
    then show "shelf_without (\<lambda>d. d \<in> set ds) (m(?dk := None)) dk = shelf_without (\<lambda>x. x \<in> set (d # ds)) m dk"
      by (cases "m dk") (auto simp: shelf_without_def)
  qed
  ultimately show ?case by simp
qed

lemma redb_expired_set:
  "d \<in> set (redb_expired R now rows) \<longleftrightarrow> (\<exists>b. Ok b \<in> set rows \<and> desc_dec R b = Ok d \<and> expired now d)"
  by (induction R now rows rule: redb_expired.induct) (auto simp: expired_def split: sum.splits)

lemma evict_refines_shelf:
  assumes ok: "redb_ok R v" and up: "redb_up R v" and s: "same_shelf P R v s a"
  shows "same_shelf P R v (redb_evict_at P R s now) (shelf_evict a now)"
proof -
  have m: "on_disk P R (rs_db a) (v (rs_db s))" using s by (simp add: same_shelf_def)
  note D = on_diskD [OF m]
  obtain t where t: "rd_begin_write R (rs_db s) = Ok t" using redb_upD(2) [OF up] by blast
  have vt: "v t = v (rs_db s)" by (rule redb_okD(2) [OF ok t])
  obtain rows where rows: "desc_iter R t = Ok rows" "\<And>x. x \<in> ran (tb_desc (v t)) \<Longrightarrow> Ok x \<in> set rows"
    using redb_upD(4) [OF up, of t] by blast
  let ?ds = "redb_expired R now rows"
  obtain db where db: "rd_commit R (fold (redb_drop P R) ?ds t) = Ok db" using redb_upD(3) [OF up] by blast
  have ds: "d \<in> set ?ds \<longleftrightarrow> d \<in> ran (rs_db a) \<and> expired now d" for d
  proof
    assume "d \<in> set ?ds"
    then obtain b where b: "Ok b \<in> set rows" "desc_dec R b = Ok d" "expired now d" by (auto simp: redb_expired_set)
    moreover obtain i where "tb_desc (v (rs_db s)) i = Some b"
      using redb_okD(7) [OF ok rows(1) b(1)] unfolding vt ran_Some by blast
    moreover obtain x where "x \<in> ran (rs_db a)" "i = row x" using D(4) [OF calculation(4)] by blast
    ultimately show "d \<in> ran (rs_db a) \<and> expired now d" using D(3) by (fastforce simp: ran_Some)
  next
    assume d: "d \<in> ran (rs_db a) \<and> expired now d"
    then obtain b where "tb_desc (v t) (row d) = Some b" "desc_dec R b = Ok d" using D(3) by (auto simp: ran_Some vt)
    then show "d \<in> set ?ds" using rows(2) d by (auto simp: redb_expired_set ran_def)
  qed
  have "\<forall>d \<in> set ?ds. rs_db a (redb_dedup_key P d) = Some d" using ds D(2) by (fastforce simp: ran_Some)
  from drop_all [OF ok up D(1) this, of "rs_db a" t]
  have "on_disk P R (shelf_without (\<lambda>d. d \<in> set ?ds) (rs_db a)) (v (fold (redb_drop P R) ?ds t))" using m by (simp add: vt)
  moreover have "shelf_without (\<lambda>d. d \<in> set ?ds) (rs_db a) = shelf_without (expired now) (rs_db a)"
    by (rule ext) (auto simp: shelf_without_def ds ran_Some split: option.split bind_splits)
  moreover have "redb_evict_at P R s now = s\<lparr>rs_db := db\<rparr>" by (simp add: redb_evict_at_def t rows(1) db)
  ultimately show ?thesis using s redb_okD(3) [OF ok db] by (simp add: same_shelf_def shelf_evict_def)
qed

text \<open>A query.\<close>

lemma get_refines_shelf:
  assumes ok: "redb_ok R v" and up: "redb_up R v" and s: "same_shelf P R v s a"
  shows "set (redb_get_at R s k f now) = shelf_get a k f now"
proof -
  have m: "on_disk P R (rs_db a) (v (rs_db s))" using s by (simp add: same_shelf_def)
  note D = on_diskD [OF m]
  have "d \<in> shelf_get a k f now" if d: "d \<in> set (redb_get_at R s k f now)" for d
  proof -
    obtain t rows where t: "rd_begin_read R (rs_db s) = Ok t" "rk_get R t (hash_bytes k) = Ok rows"
      and "d \<in> set (redb_collect R t f now rows)"
      using d by (cases "rd_begin_read R (rs_db s)"; cases "rk_get R (projr (rd_begin_read R (rs_db s))) (hash_bytes k)")
        (auto simp: redb_get_at_def)
    then obtain i b where i: "Ok i \<in> set rows" "desc_get R t i = Ok (Some b)" "desc_dec R b = Ok d"
      and f: "\<not> expired now d" "filter_matches f d" by (auto simp: redb_collect_set)
    have "(hash_bytes k, i) \<in> tb_rk (v (rs_db s))" "tb_desc (v (rs_db s)) i = Some b"
      using redb_okD(8) [OF ok t(2) i(1)] redb_okD(4) [OF ok i(2)] redb_okD(1) [OF ok t(1)] by simp_all
    moreover then obtain x where "x \<in> ran (rs_db a)" "k \<in> set (routing_keys x)" "i = row x" by (auto simp: D(7))
    ultimately show ?thesis using D(3) i(3) f unfolding shelf_get_def ran_Some by fastforce
  qed
  moreover have "d \<in> set (redb_get_at R s k f now)" if d: "d \<in> shelf_get a k f now" for d
  proof -
    obtain b where "tb_desc (v (rs_db s)) (row d) = Some b" "desc_dec R b = Ok d"
      using d D(3) by (auto simp: shelf_get_def ran_Some)
    moreover have "(hash_bytes k, row d) \<in> tb_rk (v (rs_db s))" using d by (auto simp: shelf_get_def D(7))
    ultimately show ?thesis using redb_get_complete [OF ok up] d by (simp add: shelf_get_def)
  qed
  ultimately show ?thesis by blast
qed

subsection \<open>Histories\<close>

lemma shelf_put_ran: "ran (rs_db (snd (shelf_put P a d now))) \<subseteq> insert d (ran (rs_db a))"
proof -
  obtain al a1 where "(if skip_rate_limit a then (True, a) else check_rate_limit a (publisher d) now) = (al, a1)" by (rule prod.exhaust)
  moreover then have "rs_db a1 = rs_db a" using check_rate_same(3) [of a a "publisher d" now] by (auto split: if_splits)
  ultimately show ?thesis
    by (auto simp: shelf_put_def ran_def split: sum.split option.split if_splits)
qed

lemma shelf_evict_ran: "ran (rs_db (shelf_evict a now)) \<subseteq> ran (rs_db a)"
  by (auto simp: shelf_evict_def shelf_without_def ran_def bind_eq_Some_conv split: if_splits)

definition shelf_held :: "'db redb \<Rightarrow> ('db \<Rightarrow> redb_tables) \<Rightarrow> 'db redb_storage \<Rightarrow> descriptor set" where
  "shelf_held R v s = {d. \<exists>i b. tb_desc (v (rs_db s)) i = Some b \<and> desc_dec R b = Ok d}"

lemma same_shelf_ran:
  assumes "same_shelf P R v s a"
  shows "shelf_held R v s = ran (rs_db a)"
proof -
  have m: "on_disk P R (rs_db a) (v (rs_db s))" using assms by (simp add: same_shelf_def)
  note D = on_diskD [OF m]
  have "d \<in> ran (rs_db a)" if i: "tb_desc (v (rs_db s)) i = Some b" "desc_dec R b = Ok d" for i b d
  proof -
    obtain x where "x \<in> ran (rs_db a)" "i = row x" using D(4) [OF i(1)] by blast
    then show ?thesis using D(3) i by (fastforce simp: ran_Some)
  qed
  moreover have "\<exists>i b. tb_desc (v (rs_db s)) i = Some b \<and> desc_dec R b = Ok d" if "d \<in> ran (rs_db a)" for d
    using that D(3) unfolding ran_Some by blast
  ultimately show ?thesis unfolding shelf_held_def by blast
qed

text \<open>The laws of the engine are part of the relation, the encoding and the absence of collisions a matter of
  the descriptors.\<close>

interpretation disk_sim: storage_simulation "redb_store_at P R" "redb_get_at R" "redb_evict_at P R"
    "shelf_put P" shelf_get shelf_evict "\<lambda>s a. redb_ok R v \<and> redb_up R v \<and> same_shelf P R v s a" "shelf_held R v"
    "\<lambda>D. cbor_ok P \<and> \<not> collision P D \<and> (\<forall>d \<in> D. is_ok (desc_enc R d))" for P R v
proof unfold_locales
  fix s a d now
  assume r: "redb_ok R v \<and> redb_up R v \<and> same_shelf P R v s a"
  then have ran: "shelf_held R v s = ran (rs_db a)" using same_shelf_ran by blast
  show "shelf_held R v (redb_evict_at P R s now) \<subseteq> shelf_held R v s"
    using r same_shelf_ran [OF evict_refines_shelf, of R v P s a now] shelf_evict_ran [of a now] ran by simp
  assume f: "cbor_ok P \<and> \<not> collision P (insert d (shelf_held R v s)) \<and> (\<forall>x \<in> insert d (shelf_held R v s). is_ok (desc_enc R x))"
  then have p: "fst (redb_store_at P R s d now) = fst (shelf_put P a d now) \<and>
      same_shelf P R v (snd (redb_store_at P R s d now)) (snd (shelf_put P a d now))"
    using r put_refines [of R v P d s a now] ran by simp
  then show "fst (redb_store_at P R s d now) = fst (shelf_put P a d now) \<and>
      (redb_ok R v \<and> redb_up R v \<and> same_shelf P R v (snd (redb_store_at P R s d now)) (snd (shelf_put P a d now)))"
    using r by simp
  show "shelf_held R v (snd (redb_store_at P R s d now)) \<subseteq> insert d (shelf_held R v s)"
    using same_shelf_ran [OF conjunct2 [OF p]] shelf_put_ran [of P a d now] ran by simp
qed (use get_refines_shelf evict_refines_shelf collision_mono in blast)+

text \<open>Sessions: between them the process ends and \<open>open\<close> finds the file again, with an empty limiter.\<close>

definition reopened :: "'db redb_storage \<Rightarrow> 'db redb_storage" where
  "reopened s = s\<lparr>rs_rate := Map.empty, skip_rate_limit := False\<rparr>"

fun session_results ::
  "('db redb_storage \<Rightarrow> descriptor \<Rightarrow> u64 \<Rightarrow> (store_error + unit) \<times> 'db redb_storage) \<Rightarrow>
   ('db redb_storage \<Rightarrow> u64 \<Rightarrow> 'db redb_storage) \<Rightarrow> storage_op list list \<Rightarrow> 'db redb_storage \<Rightarrow>
   (store_error + unit) list list \<times> 'db redb_storage" where
  "session_results put evict [] s = ([], s)"
| "session_results put evict (ops # sessions) s =
     (case session_results put evict sessions (reopened (run_storage put evict ops s)) of
        (rs, s') \<Rightarrow> (put_results put evict ops s # rs, s'))"

lemma submitted_append: "submitted (xs @ ys) = submitted xs \<union> submitted ys"
  by (induction xs rule: submitted.induct) auto

abbreviation no_clash :: "prims \<Rightarrow> 'db redb \<Rightarrow> descriptor set \<Rightarrow> bool" where
  "no_clash P R D \<equiv> cbor_ok P \<and> \<not> collision P D \<and> (\<forall>d \<in> D. is_ok (desc_enc R d))"

lemma sessions_refine_shelf:
  assumes "redb_ok R v" and "redb_up R v"
  shows "same_shelf P R v s a \<Longrightarrow> no_clash P R (shelf_held R v s \<union> submitted (concat sessions)) \<Longrightarrow>
     fst (session_results (redb_store_at P R) (redb_evict_at P R) sessions s) = fst (session_results (shelf_put P) shelf_evict sessions a) \<and>
     same_shelf P R v (snd (session_results (redb_store_at P R) (redb_evict_at P R) sessions s))
       (snd (session_results (shelf_put P) shelf_evict sessions a))"
proof (induction sessions arbitrary: s a)
  case Nil
  then show ?case by simp
next
  case (Cons ops sessions)
  let ?s = "run_storage (redb_store_at P R) (redb_evict_at P R) ops s" and ?a = "run_storage (shelf_put P) shelf_evict ops a"
  have f: "no_clash P R (shelf_held R v s \<union> submitted ops)"
    by (rule disk_sim.fine_mono [OF Cons.prems(2)]) (auto simp: submitted_append)
  have "redb_ok R v \<and> redb_up R v \<and> same_shelf P R v s a" using assms Cons.prems(1) by simp
  note h = disk_sim.history [OF this f]
  then have "same_shelf P R v (reopened ?s) (reopened ?a)" by (simp add: same_shelf_def reopened_def)
  moreover have "shelf_held R v (reopened ?s) = shelf_held R v ?s" by (simp add: shelf_held_def reopened_def)
  moreover have "no_clash P R (shelf_held R v ?s \<union> submitted (concat sessions))"
    by (rule disk_sim.fine_mono [OF Cons.prems(2)]) (use h in \<open>auto simp: submitted_append\<close>)
  ultimately show ?case using Cons.IH [of "reopened ?s" "reopened ?a"] h by (simp add: case_prod_unfold)
qed

text \<open>C11. The disk store implements a shelf with one version for each slot: over any history of stores
  and evictions that starts from an empty database, cut by any number of restarts, every result is
  the shelf's - in particular a valid version within the rate limit is refused exactly if the slot
  holds a later one; one with the same sequence and another id replaces it, where PROTOCOL.md (2.2,
  step 8) demands that it be rejected -, and every query answers what the shelf holds under the key,
  matching and not expired; or two of the submitted descriptors differ in content and collide under
  BLAKE3. This is for a database without input/output errors and descriptors that can be encoded;
  revocations and rotations are versions like any other.\<close>

theorem redb_refines_shelf:
  assumes "redb_ok R v" and "redb_up R v" and "cbor_ok P"
    and "\<And>d. d \<in> submitted (concat sessions) \<Longrightarrow> is_ok (desc_enc R d)"
    and "v (rs_db s) = \<lparr>tb_desc = Map.empty, tb_rk = {}, tb_dedup = Map.empty, tb_seq = Map.empty\<rparr>"
    and "session_results (redb_store_at P R) (redb_evict_at P R) sessions s = (rs, s')"
    and "session_results (shelf_put P) shelf_evict sessions
       \<lparr>rs_db = Map.empty, rs_rate = rs_rate s, skip_rate_limit = skip_rate_limit s\<rparr> = (rs', a')"
  shows "collision P (submitted (concat sessions)) \<or>
     rs = rs' \<and> (\<forall>k f now. set (redb_get_at R s' k f now) = shelf_get a' k f now)"
proof -
  let ?a = "\<lparr>rs_db = Map.empty, rs_rate = rs_rate s, skip_rate_limit = skip_rate_limit s\<rparr> :: shelf"
  have "same_shelf P R v s ?a"
    by (simp add: same_shelf_def on_disk_def unique_rows_def assms(5) fun_eq_iff)
  moreover have "shelf_held R v s = {}" by (simp add: shelf_held_def assms(5))
  ultimately show ?thesis
    using sessions_refine_shelf [OF assms(1,2), of P s ?a sessions] assms(3,4,6,7) get_refines_shelf [OF assms(1,2), of P s' a']
    by auto
qed

lemma redb_refines_shelf_witness:
  "\<exists>s' a'. session_results (redb_store_at pad_prims demo_redb) (redb_evict_at pad_prims demo_redb)
       [[Put (demo_desc 7 1000) 2000], [Put (demo_desc 7 1000) 2000, Evict 3000]] demo_store0 = ([[Ok ()], [Ok ()]], s') \<and>
     session_results (shelf_put pad_prims) shelf_evict
       [[Put (demo_desc 7 1000) 2000], [Put (demo_desc 7 1000) 2000, Evict 3000]]
       \<lparr>rs_db = Map.empty, rs_rate = Map.empty, skip_rate_limit = False\<rparr> = ([[Ok ()], [Ok ()]], a') \<and>
     set (redb_get_at demo_redb s' zero_id None 3000) = shelf_get a' zero_id None 3000"
proof -
  let ?h = "[[Put (demo_desc 7 1000) 2000], [Put (demo_desc 7 1000) 2000, Evict 3000]]"
  obtain rs s' where s': "session_results (redb_store_at pad_prims demo_redb) (redb_evict_at pad_prims demo_redb) ?h demo_store0 = (rs, s')"
    by (rule prod.exhaust)
  obtain rs' a' where a': "session_results (shelf_put pad_prims) shelf_evict ?h
      \<lparr>rs_db = Map.empty, rs_rate = rs_rate demo_store0, skip_rate_limit = skip_rate_limit demo_store0\<rparr> = (rs', a')"
    by (rule prod.exhaust)
  have "validate pad_prims (demo_desc 7 1000) 2000 = Ok ()" using demo_put [of 7] by simp
  then have "rs' = [[Ok ()], [Ok ()]]"
    using a' by (auto simp: shelf_put_def check_rate_limit_def Let_def demo_store0_def reopened_def RATE_LIMIT_PER_MINUTE_def
        shelf_evict_def split: option.splits if_splits prod.splits)
  moreover have "\<not> collision pad_prims (submitted (concat ?h))" by (simp add: collision_def)
  ultimately show ?thesis
    using redb_refines_shelf [OF demo_redb_ok demo_redb_up pad_prims_ok(3) _ _ s' a'] s' a'
    by (auto simp: demo_redb_def demo_enc_def demo_view_def demo_store0_def)
qed

end
