(* ===== verification/Lookup.thy ===== *)
theory Lookup
  imports Dht_Node
begin

section \<open>mesh-dht: iterative lookup, replication and bootstrap\<close>

text \<open>
  \<open>lookup_value\<close>, \<open>iterative_store\<close> and \<open>bootstrap\<close> of node.rs. The transport, the random
  message ids and the clock are the record \<open>net\<close> over a world state of any type: a request
  returns a response frame or an error and a new world, so peers may answer anything and
  depend on everything sent before. The unbounded loop of \<open>lookup_value\<close> takes fuel; that it
  ends is proved below: its rounds are bounded by the number of distinct node ids that peers
  report. An outcome is \<open>Panic\<close>, \<open>OutOfFuel\<close> or \<open>Done\<close>.
\<close>

datatype dht_transport_error =
    ConnectionFailed string
  | Timeout
  | FrameError string
  | Unreachable string

record 'w net =
  net_send :: "node_addr \<Rightarrow> frame \<Rightarrow> 'w \<Rightarrow> (dht_transport_error + frame) \<times> 'w"
  net_id :: "'w \<Rightarrow> bytes \<times> 'w"
  net_now :: "'w \<Rightarrow> u64 \<times> 'w"

datatype 'a outcome = OutOfFuel | Panic | Done 'a

definition send_new :: "'w net \<Rightarrow> node_addr \<Rightarrow> u8 \<Rightarrow> bytes \<Rightarrow> 'w \<Rightarrow> (dht_transport_error + frame) \<times> 'w" where
  "send_new net a ty b w = (case net_id net w of (i, w1) \<Rightarrow> net_send net a (frame_new i ty b) w1)"

text \<open>\<open>for n in nodes { let _ = self.routing_table.add_node(n.clone()); .. }\<close>.\<close>

fun add_all :: "prims \<Rightarrow> routing_table \<Rightarrow> node_info list \<Rightarrow> routing_table option" where
  "add_all P t [] = Some t"
| "add_all P t (n # ns) = (case add_node P t n of None \<Rightarrow> None | Some (_, t') \<Rightarrow> add_all P t' ns)"

subsection \<open>lookup\_value\<close>

record 'w lookup_state =
  ls_queried :: "hash list"
  ls_collected :: "descriptor list"
  ls_new_nodes :: "node_info list"
  ls_table :: routing_table
  ls_world :: 'w

definition find_value_request :: "('s, 'h) dht_node \<Rightarrow> hash \<Rightarrow> find_value" where
  "find_value_request n key =
     \<lparr>fv_sender = dn_identity n, fv_sender_addr = dn_addr n, fv_key = key,
      fv_max_results = max_find_value_results (dn_config n), fv_filters = None\<rparr>"

definition lookup_query ::
  "prims \<Rightarrow> codec \<Rightarrow> 'w net \<Rightarrow> ('s, 'h) dht_node \<Rightarrow> hash \<Rightarrow> node_info \<Rightarrow> 'w lookup_state \<Rightarrow>
   ((dht_transport_error + unit) \<times> 'w lookup_state) option" where
  "lookup_query P C net n key node st =
     (let st1 = st\<lparr>ls_queried := ls_queried st @ [ni_id P node]\<rparr> in
      case to_cbor C (WFindValue (find_value_request n key)) of
        Err e \<Rightarrow> Some (Err (FrameError (mesh_error_display e)), st1)
      | Ok bd \<Rightarrow>
          let (resp, w) = send_new net (ni_addr node) MSG_FIND_VALUE bd (ls_world st1);
              st2 = st1\<lparr>ls_world := w\<rparr>
          in case resp of
               Err _ \<Rightarrow> Some (Ok (), st2)
             | Ok r \<Rightarrow>
                 if msg_type r \<noteq> MSG_FIND_VALUE_RESULT then Some (Ok (), st2)
                 else
                   (case from_cbor_find_value_result C (body r) of
                      Err _ \<Rightarrow> Some (Ok (), st2)
                    | Ok result \<Rightarrow>
                        let st3 = (case fvr_descriptors result of
                              None \<Rightarrow> st2
                            | Some ds \<Rightarrow> st2\<lparr>ls_collected := ls_collected st2 @ ds\<rparr>)
                        in case fvr_nodes result of
                             None \<Rightarrow> Some (Ok (), st3)
                           | Some ns \<Rightarrow>
                               (case add_all P (ls_table st3) ns of
                                  None \<Rightarrow> None
                                | Some t \<Rightarrow> Some (Ok (), st3\<lparr>ls_table := t,
                                              ls_new_nodes := ls_new_nodes st3 @ ns\<rparr>))))"

fun lookup_queries ::
  "prims \<Rightarrow> codec \<Rightarrow> 'w net \<Rightarrow> ('s, 'h) dht_node \<Rightarrow> hash \<Rightarrow> node_info list \<Rightarrow> 'w lookup_state \<Rightarrow>
   ((dht_transport_error + unit) \<times> 'w lookup_state) option" where
  "lookup_queries P C net n key [] st = Some (Ok (), st)"
| "lookup_queries P C net n key (x # xs) st =
     (case lookup_query P C net n key x st of
        None \<Rightarrow> None
      | Some (Err e, st1) \<Rightarrow> Some (Err e, st1)
      | Some (Ok _, st1) \<Rightarrow> lookup_queries P C net n key xs st1)"

definition to_query :: "prims \<Rightarrow> nat \<Rightarrow> hash list \<Rightarrow> node_info list \<Rightarrow> node_info list" where
  "to_query P al queried candidates =
     take al (filter (\<lambda>x. ni_id P x \<notin> set queried) candidates)"

fun lookup_loop ::
  "prims \<Rightarrow> codec \<Rightarrow> 'w net \<Rightarrow> ('s, 'h) dht_node \<Rightarrow> hash \<Rightarrow> nat \<Rightarrow> node_info list \<Rightarrow> 'w lookup_state \<Rightarrow>
   ((dht_transport_error + unit) \<times> 'w lookup_state) outcome" where
  "lookup_loop P C net n key 0 candidates st = OutOfFuel"
| "lookup_loop P C net n key (Suc fuel) candidates st =
     (let qs = to_query P (alpha (dn_config n)) (ls_queried st) candidates in
      if qs = [] then Done (Ok (), st)
      else case lookup_queries P C net n key qs (st\<lparr>ls_new_nodes := []\<rparr>) of
             None \<Rightarrow> Panic
           | Some (Err e, st1) \<Rightarrow> Done (Err e, st1)
           | Some (Ok _, st1) \<Rightarrow>
               if ls_new_nodes st1 = [] \<and> ls_collected st1 = [] then Done (Ok (), st1)
               else
                 case sort_by (\<lambda>a b. distance_cmp P key (ni_id P a) (ni_id P b))
                        (candidates @ ls_new_nodes st1) of
                   None \<Rightarrow> Panic
                 | Some sorted_candidates \<Rightarrow>
                     if ls_collected st1 \<noteq> [] then Done (Ok (), st1)
                     else lookup_loop P C net n key fuel (take K sorted_candidates) st1)"

text \<open>The small-network fallback asks every known node until one has descriptors.\<close>

fun lookup_broadcast ::
  "codec \<Rightarrow> 'w net \<Rightarrow> ('s, 'h) dht_node \<Rightarrow> hash \<Rightarrow> node_info list \<Rightarrow> 'w \<Rightarrow>
   (dht_transport_error + descriptor list) \<times> 'w" where
  "lookup_broadcast C net n key [] w = (Ok [], w)"
| "lookup_broadcast C net n key (x # xs) w =
     (case to_cbor C (WFindValue (find_value_request n key)) of
        Err e \<Rightarrow> (Err (FrameError (mesh_error_display e)), w)
      | Ok bd \<Rightarrow>
          let (resp, w1) = send_new net (ni_addr x) MSG_FIND_VALUE bd w;
              found = (case resp of
                 Err _ \<Rightarrow> []
               | Ok r \<Rightarrow>
                   if msg_type r \<noteq> MSG_FIND_VALUE_RESULT then []
                   else (case from_cbor_find_value_result C (body r) of
                           Err _ \<Rightarrow> []
                         | Ok result \<Rightarrow> (case fvr_descriptors result of None \<Rightarrow> [] | Some ds \<Rightarrow> ds)))
          in if found \<noteq> [] then (Ok found, w1) else lookup_broadcast C net n key xs w1)"

definition lookup_value ::
  "prims \<Rightarrow> codec \<Rightarrow> 'w net \<Rightarrow> nat \<Rightarrow> ('s, 'h) dht_node \<Rightarrow> hash \<Rightarrow> 'w \<Rightarrow>
   ((dht_transport_error + descriptor list) \<times> ('s, 'h) dht_node \<times> 'w) outcome" where
  "lookup_value P C net fuel n key w =
     (case closest_nodes P (dn_routing_table n) key (alpha (dn_config n)) of
        None \<Rightarrow> Panic
      | Some initial \<Rightarrow>
          (case lookup_loop P C net n key fuel initial
                  \<lparr>ls_queried = [], ls_collected = [], ls_new_nodes = [],
                   ls_table = dn_routing_table n, ls_world = w\<rparr> of
             OutOfFuel \<Rightarrow> OutOfFuel
           | Panic \<Rightarrow> Panic
           | Done (Err e, st) \<Rightarrow> Done (Err e, n\<lparr>dn_routing_table := ls_table st\<rparr>, ls_world st)
           | Done (Ok _, st) \<Rightarrow>
               let n' = n\<lparr>dn_routing_table := ls_table st\<rparr> in
               if ls_collected st = [] \<and> length (all_nodes (ls_table st)) \<le> K then
                 (case lookup_broadcast C net n' key (all_nodes (ls_table st)) (ls_world st) of
                    (res, w') \<Rightarrow> Done (res, n', w'))
               else Done (Ok (ls_collected st), n', ls_world st)))"

subsection \<open>iterative\_store\<close>

text \<open>\<open>targets.push(n)\<close> for the reported nodes that are not yet among the targets.\<close>

fun merge_targets :: "prims \<Rightarrow> node_info list \<Rightarrow> node_info list \<Rightarrow> node_info list" where
  "merge_targets P targets [] = targets"
| "merge_targets P targets (x # xs) =
     merge_targets P (if list_ex (\<lambda>t. ni_id P t = ni_id P x) targets then targets else targets @ [x]) xs"

definition find_node_request :: "('s, 'h) dht_node \<Rightarrow> hash \<Rightarrow> find_node" where
  "find_node_request n target = \<lparr>fn_sender = dn_identity n, fn_sender_addr = dn_addr n, fn_target = target\<rparr>"

fun store_discover ::
  "prims \<Rightarrow> codec \<Rightarrow> 'w net \<Rightarrow> ('s, 'h) dht_node \<Rightarrow> hash \<Rightarrow> node_info list \<Rightarrow> node_info list \<Rightarrow>
   routing_table \<Rightarrow> 'w \<Rightarrow>
   ((dht_transport_error + node_info list) \<times> routing_table \<times> 'w) option" where
  "store_discover P C net n key [] targets t w = Some (Ok targets, t, w)"
| "store_discover P C net n key (x # xs) targets t w =
     (case to_cbor C (WFindNode (find_node_request n key)) of
        Err e \<Rightarrow> Some (Err (FrameError (mesh_error_display e)), t, w)
      | Ok bd \<Rightarrow>
          let (resp, w1) = send_new net (ni_addr x) MSG_FIND_NODE bd w;
              reported = (case resp of
                 Err _ \<Rightarrow> []
               | Ok r \<Rightarrow>
                   if msg_type r \<noteq> MSG_FIND_NODE_RESULT then []
                   else (case from_cbor_find_node_result C (body r) of
                           Err _ \<Rightarrow> [] | Ok result \<Rightarrow> fnr_nodes result))
          in case add_all P t reported of
               None \<Rightarrow> None
             | Some t1 \<Rightarrow> store_discover P C net n key xs (merge_targets P targets reported) t1 w1)"

fun store_to ::
  "prims \<Rightarrow> codec \<Rightarrow> 'w net \<Rightarrow> hash \<Rightarrow> bytes \<Rightarrow> node_info list \<Rightarrow> nat \<Rightarrow> 'w \<Rightarrow> nat \<times> 'w" where
  "store_to P C net self_id bd [] acks w = (acks, w)"
| "store_to P C net self_id bd (x # xs) acks w =
     (if ni_id P x = self_id then store_to P C net self_id bd xs acks w
      else
        let (resp, w1) = send_new net (ni_addr x) MSG_STORE bd w;
            acked = (case resp of
               Err _ \<Rightarrow> False
             | Ok r \<Rightarrow>
                 msg_type r = MSG_STORE_ACK \<and>
                 (case from_cbor_store_ack C (body r) of Err _ \<Rightarrow> False | Ok ack \<Rightarrow> stored ack))
        in store_to P C net self_id bd xs (if acked then acks + 1 else acks) w1)"

fun store_keys ::
  "prims \<Rightarrow> codec \<Rightarrow> 'w net \<Rightarrow> ('s, 'h) dht_node \<Rightarrow> descriptor \<Rightarrow> hash list \<Rightarrow> nat \<Rightarrow> routing_table \<Rightarrow> 'w \<Rightarrow>
   ((dht_transport_error + nat) \<times> routing_table \<times> 'w) option" where
  "store_keys P C net n d [] acks t w = Some (Ok acks, t, w)"
| "store_keys P C net n d (key # keys) acks t w =
     (case closest_nodes P t key K of
        None \<Rightarrow> None
      | Some closest \<Rightarrow>
     (case store_discover P C net n key (take (alpha (dn_config n)) closest) closest t w of
        None \<Rightarrow> None
      | Some (Err e, t1, w1) \<Rightarrow> Some (Err e, t1, w1)
      | Some (Ok targets, t1, w1) \<Rightarrow>
     (case sort_by (\<lambda>a b. distance_cmp P key (ni_id P a) (ni_id P b)) targets of
        None \<Rightarrow> None
      | Some sorted_targets \<Rightarrow>
     (case to_cbor C (WStore \<lparr>store_sender = dn_identity n, store_sender_addr = dn_addr n,
                              store_descriptor_field = d\<rparr>) of
        Err e \<Rightarrow> Some (Err (FrameError (mesh_error_display e)), t1, w1)
      | Ok bd \<Rightarrow>
          let (acks', w2) = store_to P C net (dn_node_id n) bd (take K sorted_targets) acks w1
          in store_keys P C net n d keys acks' t1 w2))))"

definition iterative_store ::
  "prims \<Rightarrow> codec \<Rightarrow> 'w net \<Rightarrow> 's backend \<Rightarrow> ('s, 'h) dht_node \<Rightarrow> descriptor \<Rightarrow> 'w \<Rightarrow>
   ((dht_transport_error + nat) \<times> ('s, 'h) dht_node \<times> 'w) option" where
  "iterative_store P C net B n d w =
     (case store_keys P C net n d (routing_keys d) 0 (dn_routing_table n) w of
        None \<Rightarrow> None
      | Some (Err e, t, w1) \<Rightarrow> Some (Err e, n\<lparr>dn_routing_table := t\<rparr>, w1)
      | Some (Ok acks, t, w1) \<Rightarrow>
          let (now, w2) = net_now net w1;
              st = snd (be_store B (dn_store n) d now)
          in Some (Ok acks, n\<lparr>dn_routing_table := t, dn_store := st\<rparr>, w2))"

subsection \<open>bootstrap\<close>

definition bootstrap_ping ::
  "prims \<Rightarrow> codec \<Rightarrow> 'w net \<Rightarrow> node_addr \<Rightarrow> bytes \<Rightarrow> nat \<Rightarrow> routing_table \<Rightarrow> 'w \<Rightarrow>
   (nat \<times> routing_table \<times> 'w) option" where
  "bootstrap_ping P C net seed_addr bd discovered t w =
     (let (resp, w1) = send_new net seed_addr MSG_PING bd w in
      case resp of
        Err _ \<Rightarrow> Some (discovered, t, w1)
      | Ok r \<Rightarrow>
          if msg_type r \<noteq> MSG_PONG then Some (discovered, t, w1)
          else (case from_cbor_pong C (body r) of
                  Err _ \<Rightarrow> Some (discovered, t, w1)
                | Ok pg \<Rightarrow>
                    let (now, w2) = net_now net w1 in
                    (case add_node P t \<lparr>ni_identity = pong_sender pg, ni_addr = seed_addr, last_seen = now\<rparr> of
                       None \<Rightarrow> None
                     | Some (_, t1) \<Rightarrow> Some (discovered + 1, t1, w2))))"

fun bootstrap_seeds ::
  "prims \<Rightarrow> codec \<Rightarrow> 'w net \<Rightarrow> ('s, 'h) dht_node \<Rightarrow> node_addr list \<Rightarrow> nat \<Rightarrow> routing_table \<Rightarrow> 'w \<Rightarrow>
   ((dht_transport_error + nat) \<times> routing_table \<times> 'w) option" where
  "bootstrap_seeds P C net n [] discovered t w = Some (Ok discovered, t, w)"
| "bootstrap_seeds P C net n (seed # seeds) discovered t w =
     (case to_cbor C (WPing \<lparr>ping_sender = dn_identity n, ping_sender_addr = dn_addr n\<rparr>) of
        Err e \<Rightarrow> Some (Err (FrameError (mesh_error_display e)), t, w)
      | Ok ping_body \<Rightarrow>
     (case bootstrap_ping P C net seed ping_body discovered t w of
        None \<Rightarrow> None
      | Some (discovered1, t1, w1) \<Rightarrow>
     (case to_cbor C (WFindNode (find_node_request n (dn_node_id n))) of
        Err e \<Rightarrow> Some (Err (FrameError (mesh_error_display e)), t1, w1)
      | Ok bd \<Rightarrow>
          let (resp, w2) = send_new net seed MSG_FIND_NODE bd w1;
              reported = (case resp of
                 Err _ \<Rightarrow> []
               | Ok r \<Rightarrow>
                   if msg_type r \<noteq> MSG_FIND_NODE_RESULT then []
                   else (case from_cbor_find_node_result C (body r) of
                           Err _ \<Rightarrow> [] | Ok result \<Rightarrow> fnr_nodes result))
          in case add_all P t1 reported of
               None \<Rightarrow> None
             | Some t2 \<Rightarrow> bootstrap_seeds P C net n seeds (discovered1 + length reported) t2 w2)))"

definition bootstrap ::
  "prims \<Rightarrow> codec \<Rightarrow> 'w net \<Rightarrow> ('s, 'h) dht_node \<Rightarrow> node_addr list \<Rightarrow> 'w \<Rightarrow>
   ((dht_transport_error + nat) \<times> ('s, 'h) dht_node \<times> 'w) option" where
  "bootstrap P C net n seeds w =
     (case bootstrap_seeds P C net n seeds 0 (dn_routing_table n) w of
        None \<Rightarrow> None
      | Some (r, t, w1) \<Rightarrow> Some (r, n\<lparr>dn_routing_table := t\<rparr>, w1))"

subsection \<open>The lookup ends\<close>

lemma add_all_Some [panic_free]:
  assumes "blake3_ok P" and "table_inv P t"
  shows "\<exists>t'. add_all P t ns = Some t' \<and> table_inv P t' \<and> local_id t' = local_id t"
  using assms(2)
proof (induction ns arbitrary: t)
  case Nil
  then show ?case by simp
next
  case (Cons n ns)
  have "full P (local_id t)" using Cons.prems by (simp add: table_inv_def)
  then obtain r t1 where t1: "add_node P t n = Some (r, t1)"
    using add_node_Some [OF assms(1)] by blast
  then have "table_inv P t1" "local_id t1 = local_id t" using add_node_inv [OF Cons.prems] by auto
  then show ?case using Cons.IH [of t1] t1 by simp
qed

text \<open>Every node a peer reports has its id in \<open>N\<close>.\<close>

definition reports_within :: "prims \<Rightarrow> codec \<Rightarrow> 'w net \<Rightarrow> hash set \<Rightarrow> bool" where
  "reports_within P C net N \<longleftrightarrow>
     (\<forall>a f w r w' res ns x. net_send net a f w = (Ok r, w') \<longrightarrow>
        from_cbor_find_value_result C (body r) = Ok res \<longrightarrow> fvr_nodes res = Some ns \<longrightarrow>
        x \<in> set ns \<longrightarrow> ni_id P x \<in> N)"

lemma reports_withinD:
  assumes "reports_within P C net N" and "send_new net a ty b w = (Ok r, w')"
    and "from_cbor_find_value_result C (body r) = Ok res" and "fvr_nodes res = Some ns" and "x \<in> set ns"
  shows "ni_id P x \<in> N"
proof -
  obtain i w1 where "net_id net w = (i, w1)" by (rule prod.exhaust)
  then have "net_send net a (frame_new i ty b) w1 = (Ok r, w')"
    using assms(2) by (simp add: send_new_def)
  then show ?thesis using assms(1,3-5) unfolding reports_within_def by blast
qed

definition lookup_ok :: "prims \<Rightarrow> hash set \<Rightarrow> 'w lookup_state \<Rightarrow> bool" where
  "lookup_ok P N st \<longleftrightarrow> table_inv P (ls_table st) \<and> (\<forall>x \<in> set (ls_new_nodes st). ni_id P x \<in> N)"

lemma lookup_query_step:
  assumes "blake3_ok P" and "reports_within P C net N" and "lookup_ok P N st"
  obtains r st' where "lookup_query P C net n key x st = Some (r, st')" and "lookup_ok P N st'"
    and "ls_queried st' = ls_queried st @ [ni_id P x]"
proof -
  have inv: "table_inv P (ls_table st)" and new: "\<forall>y \<in> set (ls_new_nodes st). ni_id P y \<in> N"
    using assms(3) by (simp_all add: lookup_ok_def)
  have "\<exists>r st'. lookup_query P C net n key x st = Some (r, st') \<and> lookup_ok P N st' \<and>
      ls_queried st' = ls_queried st @ [ni_id P x]"
  proof (cases "to_cbor C (WFindValue (find_value_request n key))")
    case (Inl e)
    then show ?thesis using assms(3) by (simp add: lookup_query_def lookup_ok_def)
  next
    case (Inr bd)
    obtain resp w where sn: "send_new net (ni_addr x) MSG_FIND_VALUE bd (ls_world st) = (resp, w)"
      by (rule prod.exhaust)
    show ?thesis
    proof (cases "\<exists>r res ns. resp = Ok r \<and> msg_type r = MSG_FIND_VALUE_RESULT \<and>
        from_cbor_find_value_result C (body r) = Ok res \<and> fvr_nodes res = Some ns")
      case False
      note simps = Inr sn inv new lookup_query_def lookup_ok_def Let_def
      show ?thesis
      proof (cases resp)
        case (Inl e)
        then show ?thesis by (simp add: simps)
      next
        case (Inr r)
        show ?thesis
        proof (cases "from_cbor_find_value_result C (body r)")
          case (Inl e)
          then show ?thesis by (simp add: simps \<open>resp = Inr r\<close>)
        next
          case (Inr res)
          then have "msg_type r = MSG_FIND_VALUE_RESULT \<Longrightarrow> fvr_nodes res = None"
            using False \<open>resp = Inr r\<close> by auto
          then show ?thesis
            using Inr \<open>resp = Inr r\<close> by (auto simp: simps split: option.split)
        qed
      qed
    next
      case True
      then obtain r res ns where r: "resp = Ok r" "msg_type r = MSG_FIND_VALUE_RESULT"
        "from_cbor_find_value_result C (body r) = Ok res" "fvr_nodes res = Some ns" by blast
      have ids: "ni_id P y \<in> N" if "y \<in> set ns" for y
        using reports_withinD [OF assms(2) sn [unfolded r(1)] r(3,4) that] .
      obtain t' where "add_all P (ls_table st) ns = Some t'" "table_inv P t'"
        using add_all_Some [OF assms(1) inv] by blast
      then show ?thesis
        using Inr sn r new ids
        by (cases "fvr_descriptors res") (auto simp: lookup_query_def lookup_ok_def Let_def)
    qed
  qed
  then show thesis using that by blast
qed

lemma lookup_queries_step:
  assumes "blake3_ok P" and "reports_within P C net N" and "lookup_ok P N st"
  shows "\<exists>r st'. lookup_queries P C net n key xs st = Some (r, st') \<and> lookup_ok P N st' \<and>
     (r = Ok () \<longrightarrow> set (ls_queried st') = set (ls_queried st) \<union> ni_id P ` set xs)"
  using assms(3)
proof (induction xs arbitrary: st)
  case Nil
  then show ?case by simp
next
  case (Cons x xs)
  obtain r st1 where q: "lookup_query P C net n key x st = Some (r, st1)" "lookup_ok P N st1"
    "ls_queried st1 = ls_queried st @ [ni_id P x]"
    by (rule lookup_query_step [OF assms(1,2) Cons.prems])
  show ?case
  proof (cases r)
    case (Inl e)
    then show ?thesis using q by simp
  next
    case (Inr u)
    then show ?thesis using q Cons.IH [OF q(2)] by auto
  qed
qed

lemma lookup_loop_ends:
  assumes "blake3_ok P" and "full P key" and "finite N" and "reports_within P C net N"
  shows "lookup_ok P N st \<Longrightarrow> \<forall>x \<in> set candidates. ni_id P x \<in> N \<Longrightarrow>
     card (N - set (ls_queried st)) < fuel \<Longrightarrow>
     \<exists>r st'. lookup_loop P C net n key fuel candidates st = Done (r, st') \<and> lookup_ok P N st'"
proof (induction fuel arbitrary: candidates st)
  case 0
  then show ?case by simp
next
  case (Suc fuel)
  let ?qs = "to_query P (alpha (dn_config n)) (ls_queried st) candidates"
  show ?case
  proof (cases "?qs = []")
    case True
    then show ?thesis using Suc.prems(1) by simp
  next
    case False
    then obtain x where x: "x \<in> set ?qs" by (cases ?qs) auto
    then have xq: "x \<in> set candidates" "ni_id P x \<notin> set (ls_queried st)"
      by (auto simp: to_query_def dest: in_set_takeD)
    have "lookup_ok P N (st\<lparr>ls_new_nodes := []\<rparr>)" using Suc.prems(1) by (simp add: lookup_ok_def)
    then obtain r st1 where q: "lookup_queries P C net n key ?qs (st\<lparr>ls_new_nodes := []\<rparr>) = Some (r, st1)"
      "lookup_ok P N st1"
      "r = Ok () \<longrightarrow> set (ls_queried st1) = set (ls_queried st) \<union> ni_id P ` set ?qs"
      using lookup_queries_step [OF assms(1,4)] by fastforce
    show ?thesis
    proof (cases r)
      case (Inl e)
      then show ?thesis using False q by simp
    next
      case (Inr u)
      then have u: "r = Ok ()" by simp
      have sort: "sort_by (\<lambda>a b. distance_cmp P key (ni_id P a) (ni_id P b)) xs =
          Some (sort_key (\<lambda>e. dist key (ni_id P e)) xs)" for xs
        by (rule sort_by_key) (simp add: distance_cmp_dist assms(1,2))
      let ?c = "take K (sort_key (\<lambda>e. dist key (ni_id P e)) (candidates @ ls_new_nodes st1))"
      have ids: "\<forall>y \<in> set ?c. ni_id P y \<in> N"
        using Suc.prems(2) q(2) by (auto simp: lookup_ok_def dest!: in_set_takeD)
      have "ni_id P x \<in> N - set (ls_queried st)" using xq Suc.prems(2) by simp
      moreover have "N - set (ls_queried st1) \<subseteq> N - set (ls_queried st) - {ni_id P x}"
        using q(3) u x by auto
      ultimately have "card (N - set (ls_queried st1)) < card (N - set (ls_queried st))"
        using assms(3) by (metis card_Diff1_less card_mono finite_Diff le_less_trans)
      then have fuel: "card (N - set (ls_queried st1)) < fuel" using Suc.prems(3) by simp
      from Suc.IH [OF q(2) ids fuel] show ?thesis
        using False q u by (auto simp: Let_def sort)
    qed
  qed
qed

text \<open>More fuel changes nothing once the loop has ended.\<close>

lemma lookup_loop_more_fuel:
  "lookup_loop P C net n key fuel candidates st = r \<Longrightarrow> r \<noteq> OutOfFuel \<Longrightarrow>
     lookup_loop P C net n key (fuel + j) candidates st = r"
proof (induction fuel arbitrary: candidates st)
  case 0
  then show ?case by simp
next
  case (Suc fuel)
  show ?case using Suc.prems Suc.IH
    by (auto simp: Let_def split: option.splits sum.splits prod.splits if_splits)
qed

lemma merge_targets_bound: "length targets \<le> length (merge_targets P targets xs)"
  by (induction P targets xs rule: merge_targets.induct) (auto intro: le_trans)

lemma store_to_bound: "fst (store_to P C net self_id bd xs acks w) \<le> acks + length xs"
proof (induction xs arbitrary: acks w)
  case Nil
  show ?case by simp
next
  case (Cons x xs)
  show ?case
  proof (cases "ni_id P x = self_id")
    case True
    then show ?thesis using Cons.IH [of acks w] by simp
  next
    case False
    obtain resp w1 where "send_new net (ni_addr x) MSG_STORE bd w = (resp, w1)" by (rule prod.exhaust)
    then show ?thesis
      using False Cons.IH [of "acks + 1" w1] Cons.IH [of acks w1] by (simp add: Let_def)
  qed
qed

lemma store_keys_bound:
  "store_keys P C net n d keys acks t w = Some (Ok k, t', w') \<Longrightarrow> k \<le> acks + 20 * length keys"
proof (induction keys arbitrary: acks t w)
  case Nil
  then show ?case by simp
next
  case (Cons key keys)
  obtain closest where 1: "closest_nodes P t key K = Some closest"
    using Cons.prems by (auto split: option.splits)
  obtain r t1 w1 where 2: "store_discover P C net n key (take (alpha (dn_config n)) closest) closest t w
      = Some (r, t1, w1)"
    using Cons.prems 1 by (auto split: option.splits)
  obtain targets where r: "r = Ok targets"
    using Cons.prems 1 2 by (cases r) auto
  obtain sorted_targets where 3: "sort_by (\<lambda>a b. distance_cmp P key (ni_id P a) (ni_id P b)) targets = Some sorted_targets"
    using Cons.prems 1 2 r by (auto split: option.splits)
  obtain bd where 4: "to_cbor C (WStore \<lparr>store_sender = dn_identity n, store_sender_addr = dn_addr n,
      store_descriptor_field = d\<rparr>) = Ok bd"
    using Cons.prems 1 2 3 r by (auto split: sum.splits)
  obtain acks' w2 where 5: "store_to P C net (dn_node_id n) bd (take K sorted_targets) acks w1 = (acks', w2)"
    by (rule prod.exhaust)
  have "store_keys P C net n d keys acks' t1 w2 = Some (Ok k, t', w')"
    using Cons.prems 1 2 3 4 5 r by simp
  then have "k \<le> acks' + 20 * length keys" by (rule Cons.IH)
  moreover have "acks' \<le> acks + length (take K sorted_targets)"
    using store_to_bound [of P C net "dn_node_id n" bd "take K sorted_targets" acks w1] 5 by simp
  ultimately show ?case by (simp add: K_def)
qed

subsection \<open>Properties\<close>

text \<open>C28. An iterative lookup ends, without a panic, whatever the peers answer, for a key of 32 bytes (in a
  release build, of at least 32), as long as each request to a peer returns an answer or an error
  (nothing in the code bounds how long one may take): if the ids of the nodes that are known or
  reported lie in a finite set, as many rounds as that set has elements (and one) are enough, and
  more fuel does not change the outcome.\<close>

theorem lookup_value_ends:
  assumes "blake3_ok P" and "node_ok P n" and "full P key"
    and "finite N" and "reports_within P C net N"
    and "\<forall>x \<in> set (all_nodes (dn_routing_table n)). node_id P (ni_identity x) \<in> N"
  shows "\<exists>res n' w'. \<forall>fuel > card N. lookup_value P C net fuel n key w = Done (res, n', w')"
proof -
  have inv: "table_inv P (dn_routing_table n)" using assms(2) by (simp add: node_ok_def)
  let ?st = "\<lparr>ls_queried = [], ls_collected = [], ls_new_nodes = [],
       ls_table = dn_routing_table n, ls_world = w\<rparr>"
  obtain initial where i: "closest_nodes P (dn_routing_table n) key (alpha (dn_config n)) = Some initial"
    using closest_nodes_sort [OF assms(1,3)] by blast
  have "lookup_ok P N ?st" using inv by (simp add: lookup_ok_def)
  moreover have "\<forall>x \<in> set initial. ni_id P x \<in> N"
    using closest_nodes_subset [OF i] assms(6) by (auto simp: ni_id_def)
  ultimately obtain r st' where l: "lookup_loop P C net n key (Suc (card N)) initial ?st = Done (r, st')"
    using lookup_loop_ends [OF assms(1,3-5), where st = ?st and candidates = initial and n = n and
        fuel = "Suc (card N)"] by auto
  have loop: "lookup_loop P C net n key fuel initial ?st = Done (r, st')" if "card N < fuel" for fuel
  proof -
    have "fuel = Suc (card N) + (fuel - Suc (card N))" using that by simp
    then show ?thesis
      using lookup_loop_more_fuel [OF l, of "fuel - Suc (card N)"] by simp
  qed
  have "\<exists>res n' w'. lookup_value P C net (Suc (card N)) n key w = Done (res, n', w')"
    using i l by (auto simp: lookup_value_def Let_def split: sum.split prod.split)
  moreover have "lookup_value P C net fuel n key w = lookup_value P C net (Suc (card N)) n key w"
    if "card N < fuel" for fuel
    using loop [OF that] l i by (simp add: lookup_value_def)
  ultimately show ?thesis by metis
qed

text \<open>A lookup trusts its peers: the descriptors of the first answer are returned as they came,
  without validating a signature, an id, an expiry date or the key. Callers have to validate.\<close>

theorem lookup_value_returns_unvalidated:
  assumes "all_nodes (dn_routing_table n) = [x]" and "alpha (dn_config n) = Suc k"
    and "to_cbor C (WFindValue (find_value_request n key)) = Ok bd"
    and "send_new net (ni_addr x) MSG_FIND_VALUE bd w = (Ok r, w')"
    and "msg_type r = MSG_FIND_VALUE_RESULT"
    and "from_cbor_find_value_result C (body r) = Ok \<lparr>fvr_descriptors = Some ds, fvr_nodes = None\<rparr>"
    and "ds \<noteq> []"
  shows "lookup_value P C net (Suc fuel) n key w = Done (Ok ds, n, w')"
proof -
  let ?st = "\<lparr>ls_queried = [], ls_collected = [], ls_new_nodes = [],
       ls_table = dn_routing_table n, ls_world = w\<rparr>"
  have c: "closest_nodes P (dn_routing_table n) key (alpha (dn_config n)) = Some [x]"
    by (simp add: closest_nodes_def assms(1,2))
  have t: "to_query P (alpha (dn_config n)) (ls_queried ?st) [x] = [x]"
    by (simp add: to_query_def assms(2))
  have q: "lookup_query P C net n key x (?st\<lparr>ls_new_nodes := []\<rparr>) =
      Some (Ok (), ?st\<lparr>ls_queried := [ni_id P x], ls_world := w', ls_collected := ds\<rparr>)"
    using assms(3-6) by (simp add: lookup_query_def Let_def)
  have "lookup_loop P C net n key (Suc fuel) [x] ?st =
      Done (Ok (), ?st\<lparr>ls_queried := [ni_id P x], ls_world := w', ls_collected := ds\<rparr>)"
    using q t assms(7) by simp
  then show ?thesis using c assms(7) by (simp add: lookup_value_def Let_def)
qed

text \<open>Replication is bounded: \<open>iterative_store\<close> counts at most twenty acknowledgements per
  routing key, and when it returns a count the descriptor has also been given to the node's own
  storage, whose verdict is ignored.\<close>

theorem iterative_store_bounded:
  assumes "iterative_store P C net B n d w = Some (Ok k, n', w')"
  shows "k \<le> 20 * length (routing_keys d) \<and>
     (\<exists>now. dn_store n' = snd (be_store B (dn_store n) d now)) \<and>
     dn_identity n' = dn_identity n"
proof -
  obtain r t w1 where s: "store_keys P C net n d (routing_keys d) 0 (dn_routing_table n) w = Some (r, t, w1)"
    using assms by (auto simp: iterative_store_def split: option.splits)
  obtain acks where r: "r = Ok acks" using assms s by (cases r) (auto simp: iterative_store_def)
  obtain now w2 where now: "net_now net w1 = (now, w2)" by (rule prod.exhaust)
  have "acks \<le> 0 + 20 * length (routing_keys d)" by (rule store_keys_bound [OF s [unfolded r]])
  then show ?thesis using assms s r now by (auto simp: iterative_store_def Let_def)
qed

subsection \<open>Witnesses\<close>

text \<open>A network of one peer, which answers every request with the same frame; a codec that encodes
  every body as \<open>[]\<close> and decodes every answer to \<open>res\<close>.\<close>

definition demo_net :: "u8 \<Rightarrow> unit net" where
  "demo_net ty = \<lparr>net_send = (\<lambda>_ f w. (Ok (frame_new (msg_id f) ty []), w)),
     net_id = (\<lambda>w. ([], w)), net_now = (\<lambda>w. (0, w))\<rparr>"

definition demo_codec :: "find_value_result \<Rightarrow> codec" where
  "demo_codec res = \<lparr>to_cbor = (\<lambda>_. Ok []),
     from_cbor_ping = (\<lambda>_. Err Expired), from_cbor_store = (\<lambda>_. Err Expired),
     from_cbor_find_node = (\<lambda>_. Err Expired), from_cbor_find_value = (\<lambda>_. Err Expired),
     from_cbor_pong = (\<lambda>_. Err Expired), from_cbor_store_ack = (\<lambda>_. Ok \<lparr>stored = True, reason = None\<rparr>),
     from_cbor_find_node_result = (\<lambda>_. Ok \<lparr>fnr_nodes = []\<rparr>),
     from_cbor_find_value_result = (\<lambda>_. Ok res)\<rparr>"

lemma send_new_demo [simp]: "send_new (demo_net ty) a ty' b w = (Ok (frame_new [] ty []), w)"
  by (simp add: send_new_def demo_net_def)

definition demo_peer_node :: "(descriptor_store, unit) dht_node" where
  "demo_peer_node = demo_dht\<lparr>dn_routing_table := set_entries (dn_routing_table demo_dht) 250 [demo_node 4]\<rparr>"

lemma demo_peer_nodes: "all_nodes (dn_routing_table demo_peer_node) = [demo_node 4]"
  by (simp add: demo_peer_node_def demo_dht_def dht_node_new_def with_store_def Let_def
      all_nodes_one_bucket NUM_BUCKETS_def)

lemma lookup_value_returns_unvalidated_witness:
  "lookup_value pad_prims (demo_codec \<lparr>fvr_descriptors = Some [(demo_desc 7 1000)\<lparr>signature := []\<rparr>],
     fvr_nodes = None\<rparr>) (demo_net MSG_FIND_VALUE_RESULT) 1 demo_peer_node zero_id () =
   Done (Ok [(demo_desc 7 1000)\<lparr>signature := []\<rparr>], demo_peer_node, ())"
proof -
  have "alpha (dn_config demo_peer_node) = Suc 2"
    by (simp add: demo_peer_node_def dht_config_default_def)
  from lookup_value_returns_unvalidated [OF demo_peer_nodes this, where fuel = 0 and bd = "[]" and
      C = "demo_codec \<lparr>fvr_descriptors = Some [(demo_desc 7 1000)\<lparr>signature := []\<rparr>], fvr_nodes = None\<rparr>" and
      net = "demo_net MSG_FIND_VALUE_RESULT" and r = "frame_new [] MSG_FIND_VALUE_RESULT []"]
  show ?thesis by (simp add: demo_codec_def)
qed

lemma lookup_value_ends_witness:
  "\<exists>res n' w'. lookup_value pad_prims (demo_codec \<lparr>fvr_descriptors = None, fvr_nodes = Some [demo_node 4]\<rparr>)
     (demo_net MSG_FIND_VALUE_RESULT) 2 demo_dht zero_id () = Done (res, n', w')"
proof -
  let ?C = "demo_codec \<lparr>fvr_descriptors = None, fvr_nodes = Some [demo_node 4]\<rparr>"
  let ?N = "{node_id pad_prims (short_identity 4)}"
  have "reports_within pad_prims ?C (demo_net MSG_FIND_VALUE_RESULT) ?N"
    by (auto simp: reports_within_def demo_codec_def)
  moreover have "all_nodes (dn_routing_table demo_dht) = []"
    by (simp add: demo_dht_def dht_node_new_def with_store_def Let_def)
  ultimately obtain res n' w' where
    "\<forall>fuel > card ?N. lookup_value pad_prims ?C (demo_net MSG_FIND_VALUE_RESULT) fuel demo_dht zero_id () =
       Done (res, n', w')"
    using lookup_value_ends [OF pad_prims_ok(1) demo_dht_ok full_zero_id, of ?N ?C "demo_net MSG_FIND_VALUE_RESULT" "()"]
    by auto
  then show ?thesis by auto
qed

lemma iterative_store_bounded_witness:
  "\<exists>k n'. iterative_store pad_prims (demo_codec \<lparr>fvr_descriptors = None, fvr_nodes = None\<rparr>)
     (demo_net MSG_STORE_ACK) (mem_backend pad_prims) demo_dht (demo_desc 7 1000) () = Some (Ok k, n', ()) \<and>
     k \<le> 20"
proof -
  let ?C = "demo_codec \<lparr>fvr_descriptors = None, fvr_nodes = None\<rparr>"
  have e: "all_nodes (dn_routing_table demo_dht) = []"
    by (simp add: demo_dht_def dht_node_new_def with_store_def Let_def)
  have s: "\<exists>k n'. iterative_store pad_prims ?C (demo_net MSG_STORE_ACK) (mem_backend pad_prims) demo_dht
      (demo_desc 7 1000) () = Some (Ok k, n', ())"
    by (simp add: iterative_store_def closest_nodes_def e demo_codec_def demo_net_def)
  then obtain k n' where k: "iterative_store pad_prims ?C (demo_net MSG_STORE_ACK) (mem_backend pad_prims)
      demo_dht (demo_desc 7 1000) () = Some (Ok k, n', ())" by blast
  from iterative_store_bounded [OF k] k show ?thesis by simp
qed

end
