(* ===== verification/Requests.thy ===== *)
theory Requests
  imports Lookup
begin

section \<open>Requests, their senders and their answers\<close>

text \<open>
  What the request handling of a hub (mesh-hub, lib.rs) and of a plain node (mesh-node, main.rs)
  share: a body is decoded, the sender that it names is compared with the identity of the
  connection, and only then the node's handler runs. With it the vocabulary of the properties:
  the sender that a frame names and the kind of message that answers it.
\<close>

text \<open>\<open>let Ok(m) = from_cbor(..) else { return }\<close> and the check of the sender.\<close>

definition bound ::
  "prims \<Rightarrow> identity option \<Rightarrow> ('m \<Rightarrow> identity) \<Rightarrow> mesh_error + 'm \<Rightarrow> 'r \<Rightarrow> ('m \<Rightarrow> 'r) \<Rightarrow> 'r" where
  "bound P peer_identity sender decoded rejected k =
     (case decoded of
        Err _ \<Rightarrow> rejected
      | Ok m \<Rightarrow> (case verify_sender_binding P (sender m) peer_identity of Err _ \<Rightarrow> rejected | Ok _ \<Rightarrow> k m))"

lemma bound_cases:
  obtains (rejected) "bound P p s r a k = a" "\<And>m. r = Ok m \<Longrightarrow> p \<noteq> Some (s m)"
  | (accepted) m where "r = Ok m" "p = Some (s m)" "bound P p s r a k = k m"
proof (cases r)
  case (Inl e)
  then show ?thesis by (intro rejected) (simp_all add: bound_def)
next
  case (Inr m)
  show ?thesis
  proof (cases "p = Some (s m)")
    case True
    then have "verify_sender_binding P (s m) p = Ok ()" by simp
    then have "bound P p s r a k = k m" by (simp only: bound_def Inr sum.case)
    then show ?thesis using accepted [OF Inr True] by simp
  next
    case False
    then have "verify_sender_binding P (s m) p \<noteq> Ok ()" by simp
    then obtain e where "verify_sender_binding P (s m) p = Err e"
      by (cases "verify_sender_binding P (s m) p") auto
    then show ?thesis using rejected False Inr by (simp add: bound_def)
  qed
qed

lemma bound_self [simp]:
  assumes "p = Some (s m)"
  shows "bound P p s (Ok m) a k = k m"
proof -
  have "verify_sender_binding P (s m) p = Ok ()" using assms by simp
  then show ?thesis by (simp only: bound_def sum.case)
qed

text \<open>The sender that a frame names, and the kind of message that answers it.\<close>

definition decoded :: "mesh_error + 'm \<Rightarrow> 'm option" where
  "decoded r = (case r of Err _ \<Rightarrow> None | Ok m \<Rightarrow> Some m)"

lemma decoded_simps [simp]: "decoded (Ok m) = Some m" "decoded (Err e) = None"
  by (simp_all add: decoded_def)

definition claimed_sender :: "codec \<Rightarrow> frame \<Rightarrow> identity option" where
  "claimed_sender C fr =
     (if msg_type fr = MSG_PING then map_option ping_sender (decoded (from_cbor_ping C (body fr)))
      else if msg_type fr = MSG_STORE then map_option store_sender (decoded (from_cbor_store C (body fr)))
      else if msg_type fr = MSG_FIND_NODE then map_option fn_sender (decoded (from_cbor_find_node C (body fr)))
      else if msg_type fr = MSG_FIND_VALUE then map_option fv_sender (decoded (from_cbor_find_value C (body fr)))
      else None)"

fun answers :: "u8 \<Rightarrow> wire \<Rightarrow> bool" where
  "answers ty (WPong r) = (ty = MSG_PING)"
| "answers ty (WStoreAck r) = (ty = MSG_STORE)"
| "answers ty (WFindNodeResult r) = (ty = MSG_FIND_NODE)"
| "answers ty (WFindValueResult r) = (ty = MSG_FIND_VALUE)"
| "answers ty _ = False"

lemma bound_decoded:
  "bound P p s r a k = (if p \<noteq> None \<and> p = map_option s (decoded r) then k (the (decoded r)) else a)"
  by (cases rule: bound_cases [of P p s r a k]; cases r) auto

text \<open>A codec for witnesses, which decodes every body to the same message of its kind.\<close>

definition server_codec :: "ping \<Rightarrow> store_msg \<Rightarrow> find_node \<Rightarrow> codec" where
  "server_codec p m f = (demo_codec \<lparr>fvr_descriptors = None, fvr_nodes = None\<rparr>)
     \<lparr>from_cbor_ping := \<lambda>_. Ok p, from_cbor_store := \<lambda>_. Ok m, from_cbor_find_node := \<lambda>_. Ok f\<rparr>"

lemma server_codec_sel [simp]:
  "to_cbor (server_codec p m f) w = Ok []" "from_cbor_ping (server_codec p m f) b = Ok p"
  "from_cbor_store (server_codec p m f) b = Ok m" "from_cbor_find_node (server_codec p m f) b = Ok f"
  by (simp_all add: server_codec_def demo_codec_def)

end
