(* ===== verification/Node_Server.thy ===== *)
theory Node_Server
  imports Requests
begin

section \<open>mesh-node: a plain node\<close>

text \<open>
  main.rs of mesh-node without its command line: \<open>dispatch_request\<close>, the entry point of every
  frame that reaches a node, and what \<open>cmd_start\<close> does before it listens. The mutex around the
  node is tokio's, which a panic does not poison: the request that panics gets no response, and
  the node goes on with the state it had at the panic. \<open>None\<close> is a request without a response.
\<close>

definition verify_sender :: "prims \<Rightarrow> identity \<Rightarrow> identity option \<Rightarrow> bool" where
  "verify_sender P msg_sender peer_identity = is_ok (verify_sender_binding P msg_sender peer_identity)"

text \<open>The handlers of short targets and keys panic after they have entered the sender.\<close>

definition panicked :: "prims \<Rightarrow> ('s, 'h) dht_node \<Rightarrow> identity \<Rightarrow> node_addr \<Rightarrow> u64 \<Rightarrow> ('s, 'h) dht_node" where
  "panicked P n sender sender_addr now =
     (case update_routing_table P n sender sender_addr now of None \<Rightarrow> n | Some n1 \<Rightarrow> n1)"

definition reply ::
  "codec \<Rightarrow> frame \<Rightarrow> u8 \<Rightarrow> ('m \<Rightarrow> wire) \<Rightarrow> 'n \<Rightarrow> ('m \<times> 'n) option \<Rightarrow> frame option \<times> 'n" where
  "reply C fr ty w dead handled =
     (case handled of
        None \<Rightarrow> (None, dead)
      | Some (m, n) \<Rightarrow>
          (case to_cbor C (w m) of Err _ \<Rightarrow> (None, n) | Ok b \<Rightarrow> (Some (frame_response fr ty b), n)))"

definition dispatch_request ::
  "prims \<Rightarrow> codec \<Rightarrow> (descriptor_store, 'h) dht_node \<Rightarrow> frame \<Rightarrow> identity option \<Rightarrow> u64 \<Rightarrow> u64 \<Rightarrow>
   frame option \<times> (descriptor_store, 'h) dht_node" where
  "dispatch_request P C n fr peer_identity now now' =
     (if msg_type fr = MSG_PING then
        (case from_cbor_ping C (body fr) of
           Err _ \<Rightarrow> (None, n)
         | Ok m \<Rightarrow>
             if \<not> verify_sender P (ping_sender m) peer_identity then (None, n)
             else reply C fr MSG_PONG WPong (panicked P n (ping_sender m) (ping_sender_addr m) now)
                    (handle_ping P n m now))
      else if msg_type fr = MSG_STORE then
        (case from_cbor_store C (body fr) of
           Err _ \<Rightarrow> (None, n)
         | Ok m \<Rightarrow>
             if \<not> verify_sender P (store_sender m) peer_identity then (None, n)
             else reply C fr MSG_STORE_ACK WStoreAck (panicked P n (store_sender m) (store_sender_addr m) now)
                    (handle_store P (mem_backend P) n m now now'))
      else if msg_type fr = MSG_FIND_NODE then
        (case from_cbor_find_node C (body fr) of
           Err _ \<Rightarrow> (None, n)
         | Ok m \<Rightarrow>
             if \<not> verify_sender P (fn_sender m) peer_identity then (None, n)
             else reply C fr MSG_FIND_NODE_RESULT WFindNodeResult
                    (panicked P n (fn_sender m) (fn_sender_addr m) now) (handle_find_node P n m now now'))
      else if msg_type fr = MSG_FIND_VALUE then
        (case from_cbor_find_value C (body fr) of
           Err _ \<Rightarrow> (None, n)
         | Ok m \<Rightarrow>
             if \<not> verify_sender P (fv_sender m) peer_identity then (None, n)
             else reply C fr MSG_FIND_VALUE_RESULT WFindValueResult
                    (panicked P n (fv_sender m) (fv_sender_addr m) now)
                    (handle_find_value P (mem_backend P) n m now now'))
      else (None, n))"

text \<open>\<open>cmd_start\<close>: a new node at the endpoint's address, bootstrapped if there are seeds; the error
  of a failed bootstrap is only printed. \<open>None\<close> is a panic.\<close>

definition make_node_addr :: "string \<Rightarrow> node_addr" where
  "make_node_addr a = \<lparr>protocol = ''quic'', address = a\<rparr>"

definition start_node ::
  "prims \<Rightarrow> codec \<Rightarrow> 'w net \<Rightarrow> keypair \<Rightarrow> string \<Rightarrow> string list \<Rightarrow> 'w \<Rightarrow>
   ((descriptor_store, unit) dht_node \<times> 'w) option" where
  "start_node P C net kp local_addr seeds w =
     (let n = dht_node_new P kp (make_node_addr local_addr) dht_config_default ()
      in if seeds = [] then Some (n, w)
         else (case bootstrap P C net n (map make_node_addr seeds) w of
                 None \<Rightarrow> None
               | Some (_, n', w') \<Rightarrow> Some (n', w')))"

subsection \<open>A request through the shared check\<close>

lemma verify_sender_iff [simp]: "verify_sender P s peer \<longleftrightarrow> peer = Some s"
  by (simp add: verify_sender_def is_ok_unit_iff)

lemma verified_bound:
  "(case dec of Err e \<Rightarrow> (None, n) | Ok m \<Rightarrow> if \<not> verify_sender P (s m) peer then (None, n) else k m) =
     bound P peer s dec (None, n) k"
  by (rule bound_cases [of P peer s dec "(None, n)" k]) (auto split: sum.split)

lemmas dispatch_bound = dispatch_request_def [unfolded verified_bound]

lemma reply_cases:
  assumes "reply C fr ty w dead h = (resp, n')"
  obtains "h = None" "n' = dead" "resp = None"
  | m where "h = Some (m, n')" "resp = None"
  | m b where "h = Some (m, n')" "to_cbor C (w m) = Ok b" "resp = Some (frame_response fr ty b)"
  using assms by (auto simp: reply_def split: option.splits sum.splits)

lemma panicked_ok: "node_ok P n \<Longrightarrow> node_ok P (panicked P n s a now)"
  by (auto simp: panicked_def update_routing_table_ok split: option.split)

lemma panicked_store [simp]: "dn_store (panicked P n s a now) = dn_store n"
  by (auto simp: panicked_def update_routing_table_keeps split: option.split)

text \<open>What every request keeps.\<close>

definition serving :: "prims \<Rightarrow> (descriptor_store, 'h) dht_node \<Rightarrow> bool" where
  "serving P n \<longleftrightarrow> node_ok P n \<and> store_inv P (dn_store n)"

lemma serving_panicked: "serving P n \<Longrightarrow> serving P (panicked P n s a now)"
  by (simp add: serving_def panicked_ok)

lemma serving_step: "serving P n \<Longrightarrow> node_step P (mem_backend P) n n' \<Longrightarrow> serving P n'"
  using mem_node.node_step_inv [of P n n'] by (simp add: serving_def)

lemma serving_reply:
  assumes "reply C fr ty w (panicked P n s a now) h = (resp, n')" and "serving P n"
    and "\<And>m n1. h = Some (m, n1) \<Longrightarrow> node_step P (mem_backend P) n n1"
  shows "serving P n'"
  using assms(1)
  by (rule reply_cases) (use assms(2,3) serving_panicked serving_step in blast)+

lemma serving_bound:
  assumes "bound P peer s dec (None, n) k = (resp, n')" and "serving P n"
    and "\<And>m. k m = (resp, n') \<Longrightarrow> serving P n'"
  shows "serving P n'"
  by (rule bound_cases [of P peer s dec "(None, n)" k]) (use assms in auto)

lemma dispatch_serving [invariants]:
  assumes "serving P n" and "dispatch_request P C n fr peer now now' = (resp, n')"
  shows "serving P n'"
  using assms(2) assms(1) unfolding dispatch_bound
  by (auto split: if_splits
      elim!: serving_bound serving_reply intro: step_ping step_store step_find_node step_find_value)

subsection \<open>Starting\<close>

lemma bootstrap_seeds_table:
  assumes "blake3_ok P"
  shows "table_inv P t \<Longrightarrow> \<exists>r t' w'. bootstrap_seeds P C net n seeds k t w = Some (r, t', w') \<and>
     table_inv P t' \<and> local_id t' = local_id t"
proof (induction seeds arbitrary: k t w)
  case Nil
  then show ?case by simp
next
  case (Cons a seeds)
  have ping: "\<exists>k1 t1 w1. bootstrap_ping P C net a bd k t w = Some (k1, t1, w1) \<and> table_inv P t1 \<and>
      local_id t1 = local_id t" for bd
  proof -
    have "\<exists>res t1. add_node P t x = Some (res, t1) \<and> table_inv P t1 \<and> local_id t1 = local_id t" for x
      using add_all_Some [OF assms Cons.prems, of "[x]"] by (auto split: option.splits)
    then show ?thesis
      using Cons.prems
      by (auto simp: bootstrap_ping_def Let_def split: prod.split sum.split option.split) (metis option.distinct(1) option.inject prod.inject)+
  qed
  show ?case
  proof (cases "to_cbor C (WPing \<lparr>ping_sender = dn_identity n, ping_sender_addr = dn_addr n\<rparr>)")
    case (Inl e)
    then show ?thesis using Cons.prems by simp
  next
    case (Inr bd)
    obtain k1 t1 w1 where p: "bootstrap_ping P C net a bd k t w = Some (k1, t1, w1)" "table_inv P t1"
      "local_id t1 = local_id t" using ping by blast
    show ?thesis
    proof (cases "to_cbor C (WFindNode (find_node_request n (dn_node_id n)))")
      case (Inl e)
      then show ?thesis using Inr p by simp
    next
      case ask: (Inr fb)
      obtain resp w2 where sn: "send_new net a MSG_FIND_NODE fb w1 = (resp, w2)" by (rule prod.exhaust)
      have "\<exists>t2. add_all P t1 ns = Some t2 \<and> table_inv P t2 \<and> local_id t2 = local_id t" for ns
        using add_all_Some [OF assms p(2), of ns] p(3) by simp
      then obtain t2 where t2: "add_all P t1 ns = Some (t2 ns)" "table_inv P (t2 ns)" "local_id (t2 ns) = local_id t" for ns
        by metis
      show ?thesis using Inr p ask sn t2 Cons.IH [OF t2(2)] by (simp add: Let_def)
    qed
  qed
qed

lemma start_node_serving:
  assumes "blake3_ok P"
  obtains n w' where "start_node P C net kp a seeds w = Some (n, w')" and "serving P n"
    and "dn_identity n = keypair_identity P kp" and "dn_config n = dht_config_default" and "dn_hooks n = None"
proof -
  let ?n = "dht_node_new P kp (make_node_addr a) dht_config_default ()"
  have n: "serving P ?n" "dn_identity ?n = keypair_identity P kp" "dn_config ?n = dht_config_default" "dn_hooks ?n = None"
    using mem.inv_empty node_ok_with_store [OF assms]
    by (simp_all add: serving_def dht_node_new_def with_store_def Let_def)
  obtain r t w1 where b: "bootstrap_seeds P C net ?n (map make_node_addr seeds) 0 (dn_routing_table ?n) w = Some (r, t, w1)"
    "table_inv P t" "local_id t = local_id (dn_routing_table ?n)"
    using bootstrap_seeds_table [OF assms, of "dn_routing_table ?n" C net ?n "map make_node_addr seeds" 0 w] n(1)
    unfolding serving_def node_ok_def by blast
  have "serving P (?n\<lparr>dn_routing_table := t\<rparr>)"
    using n(1) b(2,3) by (simp add: serving_def node_ok_def)
  then show thesis
    using that n b(1) by (cases "seeds = []") (simp_all add: start_node_def bootstrap_def Let_def)
qed

subsection \<open>Properties\<close>

text \<open>Any number of requests, each on a connection with any identity, at any time.\<close>

fun dispatch_all ::
  "prims \<Rightarrow> codec \<Rightarrow> (frame \<times> identity option \<times> u64 \<times> u64) list \<Rightarrow> (descriptor_store, 'h) dht_node \<Rightarrow>
   (descriptor_store, 'h) dht_node" where
  "dispatch_all P C [] n = n"
| "dispatch_all P C ((fr, peer, now, now') # reqs) n =
     dispatch_all P C reqs (snd (dispatch_request P C n fr peer now now'))"

lemma dispatch_all_serving: "serving P n \<Longrightarrow> serving P (dispatch_all P C reqs n)"
proof (induction P C reqs n rule: dispatch_all.induct)
  case (2 P C fr peer now now' reqs n)
  then show ?case using dispatch_serving [OF 2(2) prod.collapse [symmetric]] by simp
qed simp

text \<open>The hash that a lookup request asks for.\<close>

definition requested :: "codec \<Rightarrow> frame \<Rightarrow> hash option" where
  "requested C fr =
     (if msg_type fr = MSG_FIND_NODE then map_option fn_target (decoded (from_cbor_find_node C (body fr)))
      else if msg_type fr = MSG_FIND_VALUE then map_option fv_key (decoded (from_cbor_find_value C (body fr)))
      else None)"

lemma reply_Some:
  assumes "\<And>m. is_ok (to_cbor C m)" and "\<exists>r n1. h = Some (r, n1)" and "\<And>r. answers ty (w r)"
  shows "\<exists>m b. fst (reply C fr ty' w dead h) = Some (frame_response fr ty' b) \<and> to_cbor C m = Ok b \<and> answers ty m"
proof -
  obtain r n1 where h: "h = Some (r, n1)" using assms(2) by blast
  obtain b where "to_cbor C (w r) = Ok b" using assms(1) [of "w r"] by (elim is_okE)
  then show ?thesis using h assms(3) by (auto simp: reply_def)
qed

text \<open>C14. A plain node never stops: it starts whatever its seeds answer, and after any requests -
  malformed ones, forged ones, ones whose handler panics - it answers each further request whose
  sender is the peer of the connection and whose target or key, if it has one, has 32 bytes (in a
  release build, at least 32); the response carries the request's id and the message that belongs to it. (A hub does
  not survive the first panic.)\<close>

theorem node_never_stops:
  assumes "blake3_ok P" and "\<And>m. is_ok (to_cbor C m)"
    and "claimed_sender C fr = Some s"
    and "\<And>h. requested C fr = Some h \<Longrightarrow> full P h"
  shows "\<exists>n w'. start_node P C net kp a seeds w = Some (n, w') \<and>
     (\<forall>reqs. \<exists>m b. fst (dispatch_request P C (dispatch_all P C reqs n) fr (Some s) now now') =
          Some (frame_response fr (msg_type fr OR 0x80) b) \<and> to_cbor C m = Ok b \<and> answers (msg_type fr) m)"
proof -
  obtain n w' where n: "start_node P C net kp a seeds w = Some (n, w')" "serving P n"
    by (rule start_node_serving [OF assms(1)])
  have "\<exists>m b. fst (dispatch_request P C n' fr (Some s) now now') =
      Some (frame_response fr (msg_type fr OR 0x80) b) \<and> to_cbor C m = Ok b \<and> answers (msg_type fr) m"
    if "serving P n'" for n'
  proof -
    have ok: "node_ok P n'" using that by (simp add: serving_def)
    note t = handlers_total [OF assms(1) ok]
    show ?thesis
      using assms(3,4)
      by (auto simp: dispatch_request_def claimed_sender_def requested_def decoded_def msg_type_defs
          split: if_splits sum.splits intro!: reply_Some [OF assms(2)] t)
  qed
  then show ?thesis using n dispatch_all_serving by blast
qed

subsection \<open>Witnesses\<close>

text \<open>A node without seeds survives a FIND_NODE with a two-byte target and answers the next PING.\<close>

definition demo_node_codec :: codec where
  "demo_node_codec = server_codec \<lparr>ping_sender = short_identity 4, ping_sender_addr = node_addr_quic ''h:1''\<rparr>
     demo_store_msg \<lparr>fn_sender = short_identity 4, fn_sender_addr = node_addr_quic ''h:1'',
       fn_target = \<lparr>hash_algorithm = 3, digest = [1, 2]\<rparr>\<rparr>"

lemma node_never_stops_witness:
  "\<exists>n. start_node pad_prims demo_node_codec (demo_net MSG_PONG) \<lparr>signing_key = [9]\<rparr> ''h:9'' [] () = Some (n, ()) \<and>
     fst (dispatch_request pad_prims demo_node_codec
       (dispatch_all pad_prims demo_node_codec [(frame_new [2] MSG_FIND_NODE [], Some (short_identity 4), 10, 10)] n)
       (frame_new [1] MSG_PING []) (Some (short_identity 4)) 20 20) =
     Some (frame_response (frame_new [1] MSG_PING []) MSG_PONG [])"
proof -
  let ?C = demo_node_codec and ?f = "frame_new [1] MSG_PING []"
  have "claimed_sender ?C ?f = Some (short_identity 4)"
    by (simp add: claimed_sender_def demo_node_codec_def)
  moreover have "is_ok (to_cbor ?C m)" for m by (simp add: demo_node_codec_def)
  moreover have "full pad_prims h" if "requested ?C ?f = Some h" for h
    using that by (simp add: requested_def msg_type_defs)
  ultimately obtain n where start: "start_node pad_prims ?C (demo_net MSG_PONG) \<lparr>signing_key = [9]\<rparr> ''h:9'' [] () = Some (n, ())"
    and n: "\<forall>reqs. \<exists>m b. fst (dispatch_request pad_prims ?C (dispatch_all pad_prims ?C reqs n) ?f (Some (short_identity 4)) 20 20) =
        Some (frame_response ?f (msg_type ?f OR 0x80) b) \<and> to_cbor ?C m = Ok b \<and> answers (msg_type ?f) m"
    using node_never_stops [OF pad_prims_ok(1), of ?C ?f "short_identity 4" "demo_net MSG_PONG" "\<lparr>signing_key = [9]\<rparr>" "''h:9''" "[]" "()" 20 20]
    by auto
  from n obtain m b where "fst (dispatch_request pad_prims ?C (dispatch_all pad_prims ?C
      [(frame_new [2] MSG_FIND_NODE [], Some (short_identity 4), 10, 10)] n) ?f (Some (short_identity 4)) 20 20) =
      Some (frame_response ?f (msg_type ?f OR 0x80) b)" and "to_cbor ?C m = Ok b" by blast
  moreover from this have "b = []" by (simp add: demo_node_codec_def)
  moreover have "msg_type ?f OR 0x80 = MSG_PONG" by (simp add: msg_type_defs)
  ultimately show ?thesis using start by (intro exI [of _ n]) simp
qed

end
