(* ===== verification/Network.thy ===== *)
theory Network
  imports Prelude
begin

section \<open>mesh-hub: the outbound address filter\<close>

text \<open>
  network.rs. An address is what \<open>std::net\<close> holds: four octets or eight segments, and a port.
  \<open>str::parse::<SocketAddr>\<close> is the argument \<open>parse\<close> (the text of its error on the left): the
  filter looks at its result only.
\<close>

datatype ip_addr =
    V4 u8 u8 u8 u8
  | V6 u16 u16 u16 u16 u16 u16 u16 u16

record socket_addr =
  sa_ip :: ip_addr
  sa_port :: u16

datatype address_validation_error = ParseError string | PrivateAddress string

fun address_error_display :: "address_validation_error \<Rightarrow> string" where
  "address_error_display (ParseError m) = m"
| "address_error_display (PrivateAddress m) = m"

text \<open>The predicates of \<open>Ipv4Addr\<close> and \<open>Ipv6Addr\<close> that the filter calls.\<close>

fun v4_is_loopback :: "u8 \<Rightarrow> u8 \<Rightarrow> u8 \<Rightarrow> u8 \<Rightarrow> bool" where
  "v4_is_loopback a b c d \<longleftrightarrow> a = 127"

fun v4_is_private :: "u8 \<Rightarrow> u8 \<Rightarrow> u8 \<Rightarrow> u8 \<Rightarrow> bool" where
  "v4_is_private a b c d \<longleftrightarrow> a = 10 \<or> a = 172 \<and> 16 \<le> b \<and> b \<le> 31 \<or> a = 192 \<and> b = 168"

fun v4_is_link_local :: "u8 \<Rightarrow> u8 \<Rightarrow> u8 \<Rightarrow> u8 \<Rightarrow> bool" where
  "v4_is_link_local a b c d \<longleftrightarrow> a = 169 \<and> b = 254"

fun v4_is_unspecified :: "u8 \<Rightarrow> u8 \<Rightarrow> u8 \<Rightarrow> u8 \<Rightarrow> bool" where
  "v4_is_unspecified a b c d \<longleftrightarrow> a = 0 \<and> b = 0 \<and> c = 0 \<and> d = 0"

definition is_cgn :: "u8 \<Rightarrow> u8 \<Rightarrow> bool" where
  "is_cgn a b \<longleftrightarrow> a = 100 \<and> b AND 0xC0 = 64"

definition is_ula :: "u16 \<Rightarrow> bool" where
  "is_ula s0 \<longleftrightarrow> s0 AND 0xfe00 = 0xfc00"

definition is_link_local_v6 :: "u16 \<Rightarrow> bool" where
  "is_link_local_v6 s0 \<longleftrightarrow> s0 AND 0xffc0 = 0xfe80"

fun is_private_ip :: "ip_addr \<Rightarrow> bool" where
  "is_private_ip (V4 a b c d) \<longleftrightarrow>
     v4_is_loopback a b c d \<or> v4_is_private a b c d \<or> v4_is_link_local a b c d \<or>
     v4_is_unspecified a b c d \<or> is_cgn a b"
| "is_private_ip (V6 s0 s1 s2 s3 s4 s5 s6 s7) \<longleftrightarrow>
     V6 s0 s1 s2 s3 s4 s5 s6 s7 = V6 0 0 0 0 0 0 0 1 \<or>
     V6 s0 s1 s2 s3 s4 s5 s6 s7 = V6 0 0 0 0 0 0 0 0 \<or>
     is_ula s0 \<or> is_link_local_v6 s0"

text \<open>The text between apostrophes.\<close>

definition quoted :: "string \<Rightarrow> string" where
  "quoted s = [CHR 0x27] @ s @ [CHR 0x27]"

definition validate_outbound_addr ::
  "(string \<Rightarrow> string + socket_addr) \<Rightarrow> string \<Rightarrow> string list \<Rightarrow> address_validation_error + socket_addr" where
  "validate_outbound_addr parse addr allowlist =
     (case parse addr of
        Err e \<Rightarrow> Err (ParseError (''invalid address '' @ quoted addr @ '': '' @ e))
      | Ok sa \<Rightarrow>
          if list_ex (\<lambda>a. a = addr) allowlist then Ok sa
          else if is_private_ip (sa_ip sa) then
            Err (PrivateAddress (''address '' @ quoted addr @
              '' is private/loopback/reserved and not in the outbound allowlist''))
          else Ok sa)"

subsection \<open>The ranges the filter rejects\<close>

lemma unat_high_bits:
  fixes x :: "'a::len word"
  assumes "m = NOT (mask k)"
  shows "unat (x AND m) = unat x div 2 ^ k * 2 ^ k"
proof -
  have "x AND m = push_bit k (drop_bit k x)"
    by (rule bit_word_eqI) (auto simp: bit_simps assms)
  then have "unat (x AND m) = take_bit LENGTH('a) (push_bit k (unat (drop_bit k x)))"
    by (simp only: unsigned_push_bit_eq)
  also have "unat (drop_bit k x) = drop_bit k (unat x)" by (rule unat_drop_bit_eq)
  also have "push_bit k (drop_bit k (unat x)) = unat x div 2 ^ k * 2 ^ k"
    by (simp only: push_bit_eq_mult drop_bit_eq_div)
  also have "take_bit LENGTH('a) (unat x div 2 ^ k * 2 ^ k) = unat x div 2 ^ k * 2 ^ k"
    by (rule take_bit_nat_eq_self) (meson div_times_less_eq_dividend le_less_trans unsigned_less)
  finally show ?thesis .
qed

lemma is_cgn_range: "is_cgn a b \<longleftrightarrow> a = 100 \<and> 64 \<le> unat b \<and> unat b < 128"
proof -
  have "unat (b AND 0xC0) = unat b div 2 ^ 6 * 2 ^ 6" by (rule unat_high_bits) (simp add: mask_eq_exp_minus_1)
  moreover have "b AND 0xC0 = 64 \<longleftrightarrow> unat (b AND 0xC0) = unat (64 :: u8)" by (simp only: unat_inject)
  ultimately show ?thesis by (auto simp: is_cgn_def)
qed

lemma is_ula_range: "is_ula s \<longleftrightarrow> 0xfc00 \<le> unat s \<and> unat s \<le> 0xfdff"
proof -
  have "unat (s AND 0xfe00) = unat s div 2 ^ 9 * 2 ^ 9" by (rule unat_high_bits) (simp add: mask_eq_exp_minus_1)
  moreover have "s AND 0xfe00 = 0xfc00 \<longleftrightarrow> unat (s AND 0xfe00) = unat (0xfc00 :: u16)" by (simp only: unat_inject)
  ultimately show ?thesis by (auto simp: is_ula_def)
qed

lemma is_link_local_v6_range: "is_link_local_v6 s \<longleftrightarrow> 0xfe80 \<le> unat s \<and> unat s \<le> 0xfebf"
proof -
  have "unat (s AND 0xffc0) = unat s div 2 ^ 6 * 2 ^ 6" by (rule unat_high_bits) (simp add: mask_eq_exp_minus_1)
  moreover have "s AND 0xffc0 = 0xfe80 \<longleftrightarrow> unat (s AND 0xffc0) = unat (0xfe80 :: u16)" by (simp only: unat_inject)
  ultimately show ?thesis by (auto simp: is_link_local_v6_def)
qed

text \<open>An IPv4 address as the number it stands for.\<close>

definition v4_number :: "u8 \<Rightarrow> u8 \<Rightarrow> u8 \<Rightarrow> u8 \<Rightarrow> nat" where
  "v4_number a b c d = be_value [a, b, c, d]"

lemma v4_number: "v4_number a b c d = unat a * 16777216 + unat b * 65536 + unat c * 256 + unat d"
  by (simp add: v4_number_def be_value_Cons)

lemma u8_eq: "(a :: u8) = b \<longleftrightarrow> unat a = unat b"
  by (simp only: unat_inject)

lemma div_by: "(m :: nat) = q * n + r \<Longrightarrow> r < n \<Longrightarrow> m div n = q"
  by simp

lemma two_digits: "(B :: nat) < n \<Longrightarrow> Y < n \<Longrightarrow> A * n + B = X * n + Y \<longleftrightarrow> A = X \<and> B = Y"
  by (metis add.commute add_cancel_right_right add_right_cancel div_by mod_mult_self2 mod_less)

lemma octets:
  assumes "B < 256"
  shows "(A :: nat) * 256 + B = 192 * 256 + 168 \<longleftrightarrow> A = 192 \<and> B = 168"
    "A * 256 + B = 169 * 256 + 254 \<longleftrightarrow> A = 169 \<and> B = 254"
    "A * 16 + B div 16 = 172 * 16 + 1 \<longleftrightarrow> A = 172 \<and> 16 \<le> B \<and> B \<le> 31"
    "A * 4 + B div 64 = 100 * 4 + 1 \<longleftrightarrow> A = 100 \<and> 64 \<le> B \<and> B < 128"
proof -
  have d: "B div 16 < 16" "B div 64 < 4" using assms by (simp_all add: less_mult_imp_div_less)
  show "A * 256 + B = 192 * 256 + 168 \<longleftrightarrow> A = 192 \<and> B = 168"
    "A * 256 + B = 169 * 256 + 254 \<longleftrightarrow> A = 169 \<and> B = 254"
    by (rule two_digits; use assms in simp)+
  have "A * 16 + B div 16 = 172 * 16 + 1 \<longleftrightarrow> A = 172 \<and> B div 16 = 1" by (rule two_digits) (use d in simp_all)
  moreover have "B div 16 = 1 \<longleftrightarrow> 16 \<le> B \<and> B \<le> 31" by auto
  ultimately show "A * 16 + B div 16 = 172 * 16 + 1 \<longleftrightarrow> A = 172 \<and> 16 \<le> B \<and> B \<le> 31" by simp
  have "A * 4 + B div 64 = 100 * 4 + 1 \<longleftrightarrow> A = 100 \<and> B div 64 = 1" by (rule two_digits) (use d in simp_all)
  moreover have "B div 64 = 1 \<longleftrightarrow> 64 \<le> B \<and> B < 128" by auto
  ultimately show "A * 4 + B div 64 = 100 * 4 + 1 \<longleftrightarrow> A = 100 \<and> 64 \<le> B \<and> B < 128" by simp
qed

lemma is_private_v4:
  "is_private_ip (V4 a b c d) \<longleftrightarrow>
     (let n = v4_number a b c d in
        n div 2 ^ 24 = 127 \<or> n div 2 ^ 24 = 10 \<or> n div 2 ^ 20 = 172 * 16 + 1 \<or>
        n div 2 ^ 16 = 192 * 256 + 168 \<or> n div 2 ^ 16 = 169 * 256 + 254 \<or> n = 0 \<or>
        n div 2 ^ 22 = 100 * 4 + 1)"
proof -
  have n: "v4_number a b c d = unat a * 16777216 + unat b * 65536 + unat c * 256 + unat d"
    by (rule v4_number)
  have small: "unat b < 256" "unat c < 256" "unat d < 256" by simp_all
  have "n div 2 ^ 24 = unat a" "n div 2 ^ 16 = unat a * 256 + unat b"
    "n div 2 ^ 20 = unat a * 16 + unat b div 16" "n div 2 ^ 22 = unat a * 4 + unat b div 64"
    if "n = v4_number a b c d" for n
  proof -
    have "(A * 16777216 + B * 65536 + C * 256 + D) div 16777216 = A"
      "(A * 16777216 + B * 65536 + C * 256 + D) div 65536 = A * 256 + B"
      "(A * 16777216 + B * 65536 + C * 256 + D) div 1048576 = A * 16 + B div 16"
      "(A * 16777216 + B * 65536 + C * 256 + D) div 4194304 = A * 4 + B div 64"
      if lt: "B < 256" "C < 256" "D < 256" for A B C D :: nat
    proof -
      show "(A * 16777216 + B * 65536 + C * 256 + D) div 16777216 = A"
        by (rule div_by [where r = "B * 65536 + C * 256 + D"]; insert lt, simp add: algebra_simps)
      show "(A * 16777216 + B * 65536 + C * 256 + D) div 65536 = A * 256 + B"
        by (rule div_by [where r = "C * 256 + D"]; insert lt, simp add: algebra_simps)
      obtain q r where q: "B = 16 * q + r" "r < 16" "B div 16 = q"
        by (metis mult_div_mod_eq mod_less_divisor zero_less_numeral)
      then have eq: "A * 16777216 + B * 65536 + C * 256 + D = (A * 16 + q) * 1048576 + (r * 65536 + C * 256 + D)"
        by (simp add: algebra_simps)
      show "(A * 16777216 + B * 65536 + C * 256 + D) div 1048576 = A * 16 + B div 16"
        unfolding q(3) by (rule div_by [OF eq]) (use lt q(2) in linarith)
      obtain q r where q: "B = 64 * q + r" "r < 64" "B div 64 = q"
        by (metis mult_div_mod_eq mod_less_divisor zero_less_numeral)
      then have eq: "A * 16777216 + B * 65536 + C * 256 + D = (A * 4 + q) * 4194304 + (r * 65536 + C * 256 + D)"
        by (simp add: algebra_simps)
      show "(A * 16777216 + B * 65536 + C * 256 + D) div 4194304 = A * 4 + B div 64"
        unfolding q(3) by (rule div_by [OF eq]) (use lt q(2) in linarith)
    qed
    then show "n div 2 ^ 24 = unat a" "n div 2 ^ 16 = unat a * 256 + unat b"
      "n div 2 ^ 20 = unat a * 16 + unat b div 16" "n div 2 ^ 22 = unat a * 4 + unat b div 64"
      unfolding that n using small by simp_all
  qed
  moreover have "unat a * 256 + unat b = 192 * 256 + 168 \<longleftrightarrow> unat a = 192 \<and> unat b = 168"
    "unat a * 256 + unat b = 169 * 256 + 254 \<longleftrightarrow> unat a = 169 \<and> unat b = 254"
    "unat a * 16 + unat b div 16 = 172 * 16 + 1 \<longleftrightarrow> unat a = 172 \<and> 16 \<le> unat b \<and> unat b \<le> 31"
    "unat a * 4 + unat b div 64 = 100 * 4 + 1 \<longleftrightarrow> unat a = 100 \<and> 64 \<le> unat b \<and> unat b < 128"
    using octets [OF small(1)] by blast+
  moreover have "v4_number a b c d = 0 \<longleftrightarrow> unat a = 0 \<and> unat b = 0 \<and> unat c = 0 \<and> unat d = 0"
    by (simp add: n)
  ultimately show ?thesis
    unfolding is_private_ip.simps v4_is_loopback.simps v4_is_private.simps v4_is_link_local.simps
      v4_is_unspecified.simps is_cgn_range Let_def u8_eq word_le_nat_alt by simp
qed

text \<open>C31. The outbound filter lets an IPv4 address pass exactly when it is on the allowlist or outside
  127/8, 10/8, 172.16/12, 192.168/16, 169.254/16, 100.64/10 and 0.0.0.0, and an IPv6 address
  exactly when it is on the allowlist or neither \<open>::1\<close>, \<open>::\<close>, in fc00::/7 nor in fe80::/10. So
  every IPv4 address written as an IPv4-mapped IPv6 address passes, loopback included.\<close>

theorem outbound_filter_exact:
  assumes "parse addr = Ok sa"
  shows "(validate_outbound_addr parse addr allow = Ok sa \<longleftrightarrow>
       addr \<in> set allow \<or>
       (case sa_ip sa of
          V4 a b c d \<Rightarrow>
            (let n = v4_number a b c d in
               n \<noteq> 0 \<and> n div 2 ^ 24 \<notin> {10, 127} \<and> n div 2 ^ 22 \<noteq> 401 \<and> n div 2 ^ 20 \<noteq> 2753 \<and>
               n div 2 ^ 16 \<notin> {43518, 49320})
        | V6 s0 s1 s2 s3 s4 s5 s6 s7 \<Rightarrow>
            [s0, s1, s2, s3, s4, s5, s6, s7] \<notin> {[0, 0, 0, 0, 0, 0, 0, 0], [0, 0, 0, 0, 0, 0, 0, 1]} \<and>
            (unat s0 < 0xfc00 \<or> 0xfdff < unat s0) \<and> (unat s0 < 0xfe80 \<or> 0xfebf < unat s0))) \<and>
     (sa_ip sa = V6 0 0 0 0 0 0xffff hi lo \<longrightarrow> validate_outbound_addr parse addr allow = Ok sa)"
proof (cases "sa_ip sa")
  case (V4 a b c d)
  show ?thesis
    by (simp add: validate_outbound_addr_def assms V4 is_private_v4 list_ex_iff Let_def del: is_private_ip.simps)
next
  case (V6 s0 s1 s2 s3 s4 s5 s6 s7)
  have "is_private_ip (V6 s0 s1 s2 s3 s4 s5 s6 s7) \<longleftrightarrow>
      [s0, s1, s2, s3, s4, s5, s6, s7] \<in> {[0, 0, 0, 0, 0, 0, 0, 0], [0, 0, 0, 0, 0, 0, 0, 1]} \<or>
      0xfc00 \<le> unat s0 \<and> unat s0 \<le> 0xfdff \<or> 0xfe80 \<le> unat s0 \<and> unat s0 \<le> 0xfebf"
    by (simp add: is_ula_range is_link_local_v6_range) blast
  then have v: "validate_outbound_addr parse addr allow = Ok sa \<longleftrightarrow> addr \<in> set allow \<or>
      \<not> ([s0, s1, s2, s3, s4, s5, s6, s7] \<in> {[0, 0, 0, 0, 0, 0, 0, 0], [0, 0, 0, 0, 0, 0, 0, 1]} \<or>
        0xfc00 \<le> unat s0 \<and> unat s0 \<le> 0xfdff \<or> 0xfe80 \<le> unat s0 \<and> unat s0 \<le> 0xfebf)"
    by (simp only: validate_outbound_addr_def assms V6 list_ex_iff sum.case) auto
  show ?thesis
  proof
    show "validate_outbound_addr parse addr allow = Ok sa \<longleftrightarrow> addr \<in> set allow \<or>
      (case sa_ip sa of
          V4 a b c d \<Rightarrow>
            (let n = v4_number a b c d in
               n \<noteq> 0 \<and> n div 2 ^ 24 \<notin> {10, 127} \<and> n div 2 ^ 22 \<noteq> 401 \<and> n div 2 ^ 20 \<noteq> 2753 \<and>
               n div 2 ^ 16 \<notin> {43518, 49320})
        | V6 s0 s1 s2 s3 s4 s5 s6 s7 \<Rightarrow>
            [s0, s1, s2, s3, s4, s5, s6, s7] \<notin> {[0, 0, 0, 0, 0, 0, 0, 0], [0, 0, 0, 0, 0, 0, 0, 1]} \<and>
            (unat s0 < 0xfc00 \<or> 0xfdff < unat s0) \<and> (unat s0 < 0xfe80 \<or> 0xfebf < unat s0))"
      unfolding v V6 ip_addr.case by (simp only: de_Morgan_disj de_Morgan_conj not_le)
    show "sa_ip sa = V6 0 0 0 0 0 0xffff hi lo \<longrightarrow> validate_outbound_addr parse addr allow = Ok sa"
      unfolding v by (simp add: V6)
  qed
qed

lemma outbound_filter_exact_witness:
  "validate_outbound_addr (\<lambda>_. Ok \<lparr>sa_ip = V6 0 0 0 0 0 0xffff 0x7f00 1, sa_port = 80\<rparr>) ''[::ffff:127.0.0.1]:80'' [] =
     Ok \<lparr>sa_ip = V6 0 0 0 0 0 0xffff 0x7f00 1, sa_port = 80\<rparr>"
  using outbound_filter_exact [of "\<lambda>_. Ok \<lparr>sa_ip = V6 0 0 0 0 0 0xffff 0x7f00 1, sa_port = 80\<rparr>"
      "''[::ffff:127.0.0.1]:80''" "\<lparr>sa_ip = V6 0 0 0 0 0 0xffff 0x7f00 1, sa_port = 80\<rparr>" "[]" "0x7f00" 1]
  by (simp only: socket_addr.simps simp_thms)

end
