(* ===== verification/Hub_Limits.thy ===== *)
theory Hub_Limits
  imports Redb_Storage Network
begin

section \<open>mesh-hub: the sliding-window rate limiter\<close>

text \<open>
  rate_limit.rs. An \<open>Instant\<close> is a natural number of nanoseconds, a \<open>Duration\<close> a difference
  of two (\<open>duration_since\<close> saturates at zero). The two mutex-protected maps are the state; each
  call takes the instant it reads as an argument.
\<close>

datatype operation = Op_connect | Op_store | Op_query

fun operation_display :: "operation \<Rightarrow> string" where
  "operation_display Op_connect = ''connect''"
| "operation_display Op_store = ''store''"
| "operation_display Op_query = ''query''"

record rate_limit_config =
  ip_limits :: "operation \<rightharpoonup> u32"
  identity_limits :: "operation \<rightharpoonup> u32"
  window_secs :: u64

definition rate_limit_config_default :: rate_limit_config where
  "rate_limit_config_default =
     \<lparr>ip_limits = [Op_connect \<mapsto> 60, Op_store \<mapsto> 30, Op_query \<mapsto> 300],
      identity_limits = [Op_store \<mapsto> 20, Op_query \<mapsto> 200],
      window_secs = 60\<rparr>"

datatype rate_limit_error =
    IpRateLimited ip_addr operation u32
  | IdentityRateLimited string operation u32

fun rate_limit_error_display :: "(ip_addr \<Rightarrow> string) \<Rightarrow> rate_limit_error \<Rightarrow> string" where
  "rate_limit_error_display show_ip (IpRateLimited ip op limit) =
     ''IP '' @ show_ip ip @ '' rate limited for '' @ operation_display op @ '' (limit: '' @
       nat_string (unat limit) @ ''/window)''"
| "rate_limit_error_display show_ip (IdentityRateLimited i op limit) =
     ''identity '' @ i @ '' rate limited for '' @ operation_display op @ '' (limit: '' @
       nat_string (unat limit) @ ''/window)''"

record rate_limit_stats =
  tracked_ips :: nat
  tracked_identities :: nat

type_synonym 'k windows = "'k \<rightharpoonup> operation \<rightharpoonup> nat list"

record hub_rate_limiter =
  rl_config :: rate_limit_config
  ip_windows :: "ip_addr windows"
  identity_windows :: "bytes windows"

definition hub_rate_limiter_new :: "rate_limit_config \<Rightarrow> hub_rate_limiter" where
  "hub_rate_limiter_new c = \<lparr>rl_config = c, ip_windows = Map.empty, identity_windows = Map.empty\<rparr>"

definition from_secs :: "u64 \<Rightarrow> nat" where
  "from_secs s = unat s * 1000000000"

text \<open>\<open>while let Some(&front) = deque.front() { if now.duration_since(front) > window .. }\<close>.\<close>

definition prune :: "nat \<Rightarrow> nat \<Rightarrow> nat list \<Rightarrow> nat list" where
  "prune window now dq = dropWhile (\<lambda>front. now - front > window) dq"

definition windows_at :: "'k windows \<Rightarrow> 'k \<Rightarrow> operation \<rightharpoonup> nat list" where
  "windows_at w k = (case w k of None \<Rightarrow> Map.empty | Some m \<Rightarrow> m)"

definition deque_at :: "'k windows \<Rightarrow> 'k \<Rightarrow> operation \<Rightarrow> nat list" where
  "deque_at w k op = (case windows_at w k op of None \<Rightarrow> [] | Some dq \<Rightarrow> dq)"

definition deque_upd :: "'k windows \<Rightarrow> 'k \<Rightarrow> operation \<Rightarrow> nat list \<Rightarrow> 'k windows" where
  "deque_upd w k op dq = w(k \<mapsto> (windows_at w k)(op \<mapsto> dq))"

definition check_ip ::
  "hub_rate_limiter \<Rightarrow> ip_addr \<Rightarrow> operation \<Rightarrow> nat \<Rightarrow> (rate_limit_error + unit) \<times> hub_rate_limiter" where
  "check_ip r ip op now =
     (case ip_limits (rl_config r) op of
        None \<Rightarrow> (Ok (), r)
      | Some limit \<Rightarrow>
          let dq = prune (from_secs (window_secs (rl_config r))) now (deque_at (ip_windows r) ip op) in
          if limit \<le> of_nat (length dq)
          then (Err (IpRateLimited ip op limit), r\<lparr>ip_windows := deque_upd (ip_windows r) ip op dq\<rparr>)
          else (Ok (), r\<lparr>ip_windows := deque_upd (ip_windows r) ip op (dq @ [now])\<rparr>))"

definition check_identity ::
  "prims \<Rightarrow> hub_rate_limiter \<Rightarrow> identity \<Rightarrow> operation \<Rightarrow> nat \<Rightarrow>
   (rate_limit_error + unit) \<times> hub_rate_limiter" where
  "check_identity P r i op now =
     (case identity_limits (rl_config r) op of
        None \<Rightarrow> (Ok (), r)
      | Some limit \<Rightarrow>
          let key = identity_bytes i;
              dq = prune (from_secs (window_secs (rl_config r))) now (deque_at (identity_windows r) key op) in
          if limit \<le> of_nat (length dq)
          then (Err (IdentityRateLimited (did P i) op limit),
                r\<lparr>identity_windows := deque_upd (identity_windows r) key op dq\<rparr>)
          else (Ok (), r\<lparr>identity_windows := deque_upd (identity_windows r) key op (dq @ [now])\<rparr>))"

definition check_both ::
  "prims \<Rightarrow> hub_rate_limiter \<Rightarrow> ip_addr \<Rightarrow> identity \<Rightarrow> operation \<Rightarrow> nat \<Rightarrow> nat \<Rightarrow>
   (rate_limit_error + unit) \<times> hub_rate_limiter" where
  "check_both P r ip i op now now_id =
     (case check_ip r ip op now of
        (Err e, r1) \<Rightarrow> (Err e, r1)
      | (Ok _, r1) \<Rightarrow> check_identity P r1 i op now_id)"

definition retain_windows :: "nat \<Rightarrow> nat \<Rightarrow> 'k windows \<Rightarrow> 'k windows" where
  "retain_windows cutoff now w = (\<lambda>k.
     case w k of
       None \<Rightarrow> None
     | Some m \<Rightarrow>
         let m' = (\<lambda>op. case m op of
                None \<Rightarrow> None
              | Some dq \<Rightarrow> (case prune cutoff now dq of [] \<Rightarrow> None | dq' \<Rightarrow> Some dq'))
         in if list_all (\<lambda>op. m' op = None) [Op_connect, Op_store, Op_query] then None else Some m')"

definition cleanup :: "hub_rate_limiter \<Rightarrow> nat \<Rightarrow> hub_rate_limiter" where
  "cleanup r now =
     (let cutoff = from_secs (window_secs (rl_config r) * 2) in
      r\<lparr>ip_windows := retain_windows cutoff now (ip_windows r),
        identity_windows := retain_windows cutoff now (identity_windows r)\<rparr>)"

definition stats :: "hub_rate_limiter \<Rightarrow> rate_limit_stats" where
  "stats r = \<lparr>tracked_ips = card (dom (ip_windows r)), tracked_identities = card (dom (identity_windows r))\<rparr>"

subsection \<open>Histories of calls\<close>

text \<open>Whom a call is counted for, a call, and whether it is granted.\<close>

datatype subject = By_ip ip_addr | By_identity identity

datatype limiter_op = Check subject operation nat | Cleanup nat

fun limiter_time :: "limiter_op \<Rightarrow> nat" where
  "limiter_time (Check s op now) = now"
| "limiter_time (Cleanup now) = now"

fun limiter_step :: "prims \<Rightarrow> limiter_op \<Rightarrow> hub_rate_limiter \<Rightarrow> bool \<times> hub_rate_limiter" where
  "limiter_step P (Check (By_ip ip) op now) r = (let (res, r') = check_ip r ip op now in (is_ok res, r'))"
| "limiter_step P (Check (By_identity i) op now) r =
     (let (res, r') = check_identity P r i op now in (is_ok res, r'))"
| "limiter_step P (Cleanup now) r = (False, cleanup r now)"

fun counts_for :: "subject \<Rightarrow> operation \<Rightarrow> limiter_op \<Rightarrow> bool" where
  "counts_for s op (Check s' op' now) \<longleftrightarrow> s' = s \<and> op' = op"
| "counts_for s op (Cleanup now) \<longleftrightarrow> False"

fun granted :: "prims \<Rightarrow> subject \<Rightarrow> operation \<Rightarrow> limiter_op list \<Rightarrow> hub_rate_limiter \<Rightarrow> nat list" where
  "granted P s op [] r = []"
| "granted P s op (c # cs) r =
     (let (ok, r') = limiter_step P c r in
      (if ok \<and> counts_for s op c then [limiter_time c] else []) @ granted P s op cs r')"

fun limit_for :: "rate_limit_config \<Rightarrow> subject \<Rightarrow> operation \<Rightarrow> u32 option" where
  "limit_for c (By_ip ip) op = ip_limits c op"
| "limit_for c (By_identity i) op = identity_limits c op"

fun deque_of :: "hub_rate_limiter \<Rightarrow> subject \<Rightarrow> operation \<Rightarrow> nat list" where
  "deque_of r (By_ip ip) op = deque_at (ip_windows r) ip op"
| "deque_of r (By_identity i) op = deque_at (identity_windows r) (identity_bytes i) op"

definition within :: "nat \<Rightarrow> nat \<Rightarrow> nat list \<Rightarrow> nat" where
  "within W t xs = length (filter (\<lambda>x. t \<le> x \<and> x \<le> t + W) xs)"

lemma identity_bytes_inj [simp]: "identity_bytes a = identity_bytes b \<longleftrightarrow> a = b"
  by (auto simp: identity_bytes_def identity_eq_iff)

lemma deque_at_upd [simp]:
  "deque_at (deque_upd w k op dq) k' op' = (if k' = k \<and> op' = op then dq else deque_at w k' op')"
  by (auto simp: deque_at_def deque_upd_def windows_at_def)

lemma deque_at_retain [simp]:
  "deque_at (retain_windows cutoff now w) k op = prune cutoff now (deque_at w k op)"
proof -
  have nil: "prune cutoff now [] = []" by (simp add: prune_def)
  show ?thesis
    by (cases op; cases "w k")
      (auto simp: deque_at_def windows_at_def retain_windows_def Let_def nil split: option.splits list.splits)
qed

text \<open>\<open>hist\<close> is everything granted so far, \<open>prev\<close> the time of the last call: the deque is the end of
  it, and what is no longer in the deque is older than the window.\<close>

definition deque_inv :: "nat \<Rightarrow> nat \<Rightarrow> nat list \<Rightarrow> nat list \<Rightarrow> nat \<Rightarrow> bool" where
  "deque_inv W limit dq hist prev \<longleftrightarrow>
     (\<exists>old. hist = old @ dq \<and> (\<forall>x \<in> set old. x + W < prev)) \<and> sorted hist \<and> (\<forall>x \<in> set hist. x \<le> prev) \<and>
     length dq \<le> limit \<and> (\<forall>t. within W t hist \<le> limit)"

lemma prune_inv:
  assumes "deque_inv W limit dq hist prev" and "prev \<le> now" and "W \<le> cutoff"
  shows "deque_inv W limit (prune cutoff now dq) hist now"
proof -
  obtain old where old: "hist = old @ dq" "\<forall>x \<in> set old. x + W < prev"
    using assms(1) by (auto simp: deque_inv_def)
  let ?drop = "takeWhile (\<lambda>front. now - front > cutoff) dq"
  have "x + W < now" if "x \<in> set (old @ ?drop)" for x
    using that old(2) assms(2,3) by (auto dest!: set_takeWhileD)
  moreover have "hist = (old @ ?drop) @ prune cutoff now dq" using old(1) by (simp add: prune_def)
  moreover have "length (prune cutoff now dq) \<le> length dq" by (simp add: prune_def length_dropWhile_le)
  moreover have "\<forall>x \<in> set hist. x \<le> now" using assms(1,2) by (auto simp: deque_inv_def)
  ultimately show ?thesis using assms(1) unfolding deque_inv_def by (metis order_trans)
qed

lemma push_inv:
  assumes "deque_inv W limit dq hist now" and "length dq < limit"
  shows "deque_inv W limit (dq @ [now]) (hist @ [now]) now"
proof -
  obtain old where old: "hist = old @ dq" "\<forall>x \<in> set old. x + W < now"
    using assms(1) by (auto simp: deque_inv_def)
  have "within W t (hist @ [now]) \<le> limit" for t
  proof (cases "t \<le> now \<and> now \<le> t + W")
    case True
    then have "filter (\<lambda>x. t \<le> x \<and> x \<le> t + W) old = []" using old(2) by (auto simp: filter_empty_conv)
    then have "within W t hist \<le> length dq"
      by (simp add: within_def old(1) length_filter_le)
    then show ?thesis using assms(2) by (simp add: within_def)
  next
    case False
    then have "within W t (hist @ [now]) = within W t hist" by (auto simp: within_def)
    then show ?thesis using assms(1) by (simp add: deque_inv_def)
  qed
  then show ?thesis
    using assms old unfolding deque_inv_def by (auto simp: sorted_append)
qed

text \<open>The length is compared as a 32-bit number, which is exact for deques within the limit.\<close>

lemma deque_length_exact:
  assumes "deque_inv W (unat (limit :: u32)) dq hist now"
  shows "unat (of_nat (length dq) :: u32) = length dq"
proof -
  have "length dq \<le> unat limit" using assms by (simp add: deque_inv_def)
  moreover have "unat limit < 2 ^ 32" using unsigned_less [of limit] by simp
  ultimately have "length dq < 2 ^ 32" by linarith
  then show ?thesis by (simp add: unat_of_nat take_bit_eq_mod)
qed

lemma below_limit:
  "deque_inv W (unat limit) dq hist now \<Longrightarrow> (of_nat (length dq) :: u32) < limit \<Longrightarrow> length dq < unat limit"
  using deque_length_exact by (simp add: word_less_nat_alt)

text \<open>What one call does to the deque of a subject.\<close>

lemma limiter_step_config [simp]: "rl_config (snd (limiter_step P c r)) = rl_config r"
  by (cases "(P, c, r)" rule: limiter_step.cases)
    (auto simp: check_ip_def check_identity_def cleanup_def Let_def split: option.splits)

lemma limiter_step_cases:
  assumes "limit_for (rl_config r) s op = Some limit"
  obtains (same) "deque_of (snd (limiter_step P c r)) s op = deque_of r s op" "\<not> counts_for s op c"
  | (cleaned) now where "c = Cleanup now"
      "deque_of (snd (limiter_step P c r)) s op =
         prune (from_secs (window_secs (rl_config r) * 2)) now (deque_of r s op)"
  | (refused) now where "c = Check s op now" "\<not> fst (limiter_step P c r)"
      "deque_of (snd (limiter_step P c r)) s op =
         prune (from_secs (window_secs (rl_config r))) now (deque_of r s op)"
      "limit \<le> of_nat (length (prune (from_secs (window_secs (rl_config r))) now (deque_of r s op)))"
  | (let_through) now where "c = Check s op now" "fst (limiter_step P c r)"
      "deque_of (snd (limiter_step P c r)) s op =
         prune (from_secs (window_secs (rl_config r))) now (deque_of r s op) @ [now]"
      "of_nat (length (prune (from_secs (window_secs (rl_config r))) now (deque_of r s op))) < limit"
proof (cases c)
  case (Cleanup now)
  then show thesis using cleaned by (cases s) (simp_all add: cleanup_def Let_def)
next
  case (Check s' op' now)
  show thesis
  proof (cases "s' = s \<and> op' = op")
    case False
    then have "deque_of (snd (limiter_step P c r)) s op = deque_of r s op"
      by (cases s; cases s')
        (auto simp: Check check_ip_def check_identity_def Let_def split: option.splits)
    then show thesis using same False Check by auto
  next
    case True
    let ?dq = "prune (from_secs (window_secs (rl_config r))) now (deque_of r s op)"
    show thesis
    proof (cases "limit \<le> of_nat (length ?dq)")
      case True
      have "\<not> fst (limiter_step P c r) \<and> deque_of (snd (limiter_step P c r)) s op = ?dq"
        using True assms \<open>s' = s \<and> op' = op\<close>
        by (cases s) (simp_all add: Check check_ip_def check_identity_def Let_def)
      then show thesis using refused [of now] \<open>s' = s \<and> op' = op\<close> Check True by blast
    next
      case False
      have "fst (limiter_step P c r) \<and> deque_of (snd (limiter_step P c r)) s op = ?dq @ [now]"
        using False assms \<open>s' = s \<and> op' = op\<close>
        by (cases s) (simp_all add: Check check_ip_def check_identity_def Let_def)
      then show thesis using let_through [of now] \<open>s' = s \<and> op' = op\<close> Check False by (simp add: not_le)
    qed
  qed
qed

subsection \<open>The reference limiter\<close>

text \<open>The limiter as its documentation states it: a call is granted when fewer than \<open>limit\<close> calls
  were granted in the window that ends with it. No deques, no clean-ups.\<close>

fun reference_grants ::
  "nat \<Rightarrow> nat \<Rightarrow> subject \<Rightarrow> operation \<Rightarrow> limiter_op list \<Rightarrow> nat list \<Rightarrow> nat list" where
  "reference_grants W limit s op [] hist = []"
| "reference_grants W limit s op (c # cs) hist =
     (if counts_for s op c \<and> within W (limiter_time c - W) hist < limit
      then limiter_time c # reference_grants W limit s op cs (hist @ [limiter_time c])
      else reference_grants W limit s op cs hist)"

lemma pruned_is_window:
  assumes "deque_inv W limit dq hist prev" and "prev \<le> now"
  shows "length (prune W now dq) = within W (now - W) hist"
proof -
  let ?dq = "prune W now dq"
  have inv: "deque_inv W limit ?dq hist now" by (rule prune_inv [OF assms]) simp
  then obtain old where old: "hist = old @ ?dq" "\<forall>x \<in> set old. x + W < now"
    by (auto simp: deque_inv_def)
  have srt: "sorted ?dq" "\<forall>x \<in> set ?dq. x \<le> now"
    using inv old(1) unfolding deque_inv_def by (metis sorted_append, metis UnI2 set_append)
  have young: "now \<le> x + W" if "x \<in> set ?dq" for x
  proof (cases ?dq)
    case Nil
    then show ?thesis using that by simp
  next
    case (Cons y ys)
    then have "\<not> now - y > W" unfolding prune_def by (metis dropWhile_eq_Cons_conv)
    moreover have "y \<le> x" using that srt(1) Cons by auto
    ultimately show ?thesis by simp
  qed
  have "filter (\<lambda>x. now - W \<le> x \<and> x \<le> now - W + W) old = []"
    using old(2) by (auto simp: filter_empty_conv)
  moreover have "filter (\<lambda>x. now - W \<le> x \<and> x \<le> now - W + W) ?dq = ?dq"
    using young srt(2) by (fastforce simp: filter_id_conv)
  ultimately show ?thesis unfolding within_def by (subst old(1)) simp
qed

text \<open>One call: the deque goes on representing the history of what was granted.\<close>

lemma limiter_step_reference:
  assumes "limit_for (rl_config r) s op = Some limit" and "W = from_secs (window_secs (rl_config r))"
    and "unat (window_secs (rl_config r)) < 2 ^ 63"
    and "deque_inv W (unat limit) (deque_of r s op) hist prev" and "prev \<le> limiter_time c"
  obtains hist' prev' where "deque_inv W (unat limit) (deque_of (snd (limiter_step P c r)) s op) hist' prev'"
    and "prev' \<le> limiter_time c"
    and "\<And>cs. reference_grants W (unat limit) s op (c # cs) hist =
      (if fst (limiter_step P c r) \<and> counts_for s op c then [limiter_time c] else []) @ reference_grants W (unat limit) s op cs hist'"
proof -
  let ?r = "snd (limiter_step P c r)"
  note window = pruned_is_window [OF assms(4)]
  from assms(1) show thesis
  proof (cases rule: limiter_step_cases [where P = P and c = c])
    case same
    then show thesis using that [of hist prev] assms(4,5) by simp
  next
    case (cleaned now)
    have "W \<le> from_secs (window_secs (rl_config r) * 2)"
      using assms(2,3) by (simp add: from_secs_def unat_mult_lem [THEN iffD1])
    then have "deque_inv W (unat limit) (deque_of ?r s op) hist now"
      unfolding cleaned(2) by (intro prune_inv [OF assms(4)]) (use assms(5) cleaned in simp_all)
    then show thesis using that [of hist now] cleaned(1) by simp
  next
    case (refused now)
    have p: "deque_inv W (unat limit) (prune W now (deque_of r s op)) hist now"
      by (rule prune_inv [OF assms(4)]) (use assms(5) refused(1) in simp_all)
    then have "unat limit \<le> length (prune W now (deque_of r s op))"
      using refused(4) deque_length_exact [of W limit _ hist now] assms(2) by (simp add: word_le_nat_alt)
    then have "\<not> within W (now - W) hist < unat limit" using window [of now] assms(5) refused(1) by simp
    moreover have "deque_inv W (unat limit) (deque_of ?r s op) hist now" using p assms(2) by (simp add: refused(3))
    ultimately show thesis using that [of hist now] refused(1,2) by simp
  next
    case (let_through now)
    let ?dq = "prune (from_secs (window_secs (rl_config r))) now (deque_of r s op)"
    have p: "deque_inv W (unat limit) ?dq hist now"
      by (rule prune_inv [OF assms(4)]) (use assms(2,5) let_through in simp_all)
    have len: "length ?dq < unat limit" by (rule below_limit [OF p let_through(4)])
    then have "deque_inv W (unat limit) (deque_of ?r s op) (hist @ [now]) now"
      unfolding let_through(3) by (rule push_inv [OF p])
    moreover have "within W (now - W) hist < unat limit" using len window [of now] assms(2,5) let_through(1) by simp
    ultimately show thesis using that [of "hist @ [now]" now] let_through(1,2) by simp
  qed
qed

lemma granted_reference:
  assumes "limit_for (rl_config r) s op = Some limit" and "W = from_secs (window_secs (rl_config r))"
    and "unat (window_secs (rl_config r)) < 2 ^ 63"
    and "deque_inv W (unat limit) (deque_of r s op) hist prev"
    and "sorted (map limiter_time cs)" and "\<forall>c \<in> set cs. prev \<le> limiter_time c"
  shows "granted P s op cs r = reference_grants W (unat limit) s op cs hist"
  using assms
proof (induction cs arbitrary: r hist prev)
  case Nil
  show ?case by simp
next
  case (Cons c cs)
  let ?r = "snd (limiter_step P c r)"
  have "prev \<le> limiter_time c" using Cons.prems(6) by simp
  then obtain hist' prev' where h: "deque_inv W (unat limit) (deque_of ?r s op) hist' prev'" "prev' \<le> limiter_time c"
    and step: "reference_grants W (unat limit) s op (c # cs) hist =
      (if fst (limiter_step P c r) \<and> counts_for s op c then [limiter_time c] else []) @ reference_grants W (unat limit) s op cs hist'"
    by (rule limiter_step_reference [OF Cons.prems(1-4), where P = P]) blast
  have "granted P s op cs ?r = reference_grants W (unat limit) s op cs hist'"
    by (rule Cons.IH [of ?r, unfolded limiter_step_config, OF Cons.prems(1-3) h(1)]) (use Cons.prems(5) h(2) in fastforce)+
  then show ?case unfolding step by (simp add: case_prod_unfold Let_def)
qed

lemma reference_within:
  assumes "\<And>t. within W t hist \<le> limit" and "sorted (map limiter_time cs)"
    and "\<And>x c. x \<in> set hist \<Longrightarrow> c \<in> set cs \<Longrightarrow> x \<le> limiter_time c"
  shows "within W t (hist @ reference_grants W limit s op cs hist) \<le> limit"
  using assms
proof (induction cs arbitrary: hist)
  case Nil
  then show ?case by simp
next
  case (Cons c cs)
  let ?now = "limiter_time c"
  show ?case
  proof (cases "counts_for s op c \<and> within W (?now - W) hist < limit")
    case True
    have "within W u (hist @ [?now]) \<le> limit" for u
    proof (cases "u \<le> ?now \<and> ?now \<le> u + W")
      case inside: True
      have "within W u hist \<le> within W (?now - W) hist"
      proof -
        have "x \<le> ?now - W + W" if "x \<in> set hist" for x
          using Cons.prems(3) [OF that, of c] by simp
        then show ?thesis
          unfolding within_def by (intro length_filter_mono) (use inside in auto)
      qed
      then show ?thesis using True by (simp add: within_def)
    next
      case False
      then have "within W u (hist @ [?now]) = within W u hist" by (auto simp: within_def)
      then show ?thesis using Cons.prems(1) by simp
    qed
    then have "within W t ((hist @ [?now]) @ reference_grants W limit s op cs (hist @ [?now])) \<le> limit"
      by (rule Cons.IH) (use Cons.prems(2,3) in auto)
    then show ?thesis using True by simp
  next
    case False
    have "within W t (hist @ reference_grants W limit s op cs hist) \<le> limit"
      by (rule Cons.IH) (use Cons.prems in auto)
    moreover have "reference_grants W limit s op (c # cs) hist = reference_grants W limit s op cs hist"
      using False by (simp only: reference_grants.simps if_False)
    ultimately show ?thesis by simp
  qed
qed

lemma granted_new:
  assumes "limit_for cfg s op = Some limit" and "unat (window_secs cfg) < 2 ^ 63"
    and "sorted (map limiter_time cs)"
  shows "granted P s op cs (hub_rate_limiter_new cfg) =
     reference_grants (from_secs (window_secs cfg)) (unat limit) s op cs []"
proof -
  have "deque_inv W n (deque_of (hub_rate_limiter_new cfg) s op) [] 0" for W n
    by (cases s) (simp_all add: deque_inv_def hub_rate_limiter_new_def deque_at_def windows_at_def within_def)
  then show ?thesis
    using granted_reference [of "hub_rate_limiter_new cfg" s op limit _ "[]" 0 cs P] assms
    by (simp add: hub_rate_limiter_new_def)
qed

text \<open>C22. The hub's limiter, with its per-subject deques, eager pruning and clean-up task, grants exactly
  what the reference limiter grants, in every history of calls and clean-ups whose instants do
  not decrease; in particular it never grants a subject (an address or an identity) more calls of
  an operation than its limit in any stretch of time as long as the window.\<close>

theorem hub_rate_limit_exact:
  assumes "limit_for cfg s op = Some limit" and "unat (window_secs cfg) < 2 ^ 63"
    and "sorted (map limiter_time cs)"
  shows "granted P s op cs (hub_rate_limiter_new cfg) =
       reference_grants (from_secs (window_secs cfg)) (unat limit) s op cs [] \<and>
     within (from_secs (window_secs cfg)) t (granted P s op cs (hub_rate_limiter_new cfg)) \<le> unat limit"
proof -
  have "within (from_secs (window_secs cfg)) t
      ([] @ reference_grants (from_secs (window_secs cfg)) (unat limit) s op cs []) \<le> unat limit"
    by (rule reference_within) (use assms in \<open>simp_all add: within_def\<close>)
  then show ?thesis using granted_new [OF assms] by simp
qed

lemma hub_rate_limit_exact_witness:
  "granted demo_prims (By_identity (short_identity 1)) Op_store
     [Check (By_identity (short_identity 1)) Op_store 5, Cleanup 70, Check (By_ip (V4 8 8 8 8)) Op_store 90]
     (hub_rate_limiter_new rate_limit_config_default) = [5]"
proof -
  have "limit_for rate_limit_config_default (By_identity (short_identity 1)) Op_store = Some 20"
    "unat (window_secs rate_limit_config_default) < 2 ^ 63"
    by (simp_all add: rate_limit_config_default_def)
  with hub_rate_limit_exact [OF this, of "[Check (By_identity (short_identity 1)) Op_store 5, Cleanup 70,
      Check (By_ip (V4 8 8 8 8)) Op_store 90]" demo_prims 0]
  show ?thesis by (simp del: granted.simps add: within_def)
qed

end
