(* ===== verification/Tenants.thy ===== *)
theory Tenants
  imports Core Demo
begin

section \<open>mesh-hub: tenants, quotas and identity challenges\<close>

text \<open>
  tenant.rs and auth.rs. The SQLite database is the record \<open>tenant_db\<close> of its three tables, a
  table the list of its rows in the order of insertion, each statement of the source a function
  on it. Ids are kept as numbers: their text form is read back by the same crate. The engine
  (rusqlite) is the record \<open>sqlite\<close>: which statement fails with an input/output error in which
  state, whether foreign keys are enforced, and its error texts. Random ids, nonces and clock
  readings are arguments. Balances and costs (\<^verbatim>\<open>i64\<close>) are \<open>int\<close>; SQLite turns a balance that leaves the
  64 bits into a floating point number, which the crate refuses to read as an integer:
  \<open>real_balances\<close> are the ids whose balance is one.
\<close>

type_synonym uuid = "128 word"

subsection \<open>Challenges (auth.rs)\<close>

definition CHALLENGE_TTL_MICROS :: u64 where "CHALLENGE_TTL_MICROS = 5 * 60 * 1000000"

record did_auth_challenge =
  ch_id :: uuid
  ch_nonce :: bytes
  ch_hub_did :: string
  ch_action :: string
  ch_issued_at :: u64
  ch_expiry :: u64

definition challenge_new :: "uuid \<Rightarrow> bytes \<Rightarrow> u64 \<Rightarrow> string \<Rightarrow> string \<Rightarrow> did_auth_challenge" where
  "challenge_new i nonce issued hub_did action =
     \<lparr>ch_id = i, ch_nonce = nonce, ch_hub_did = hub_did, ch_action = action,
      ch_issued_at = issued, ch_expiry = issued + CHALLENGE_TTL_MICROS\<rparr>"

definition to_signable_value :: "did_auth_challenge \<Rightarrow> cbor_value" where
  "to_signable_value c = CMap
     [(CText ''nonce'', CBytes (ch_nonce c)),
      (CText ''action'', CText (ch_action c)),
      (CText ''hub_did'', CText (ch_hub_did c)),
      (CText ''issued_at'', CInteger (uint (ch_issued_at c)))]"

definition to_signable_bytes :: "prims \<Rightarrow> did_auth_challenge \<Rightarrow> bytes" where
  "to_signable_bytes P c = cbor_write P (to_signable_value c)"

definition challenge_verify :: "prims \<Rightarrow> did_auth_challenge \<Rightarrow> identity \<Rightarrow> bytes \<Rightarrow> string + unit" where
  "challenge_verify P c i signature =
     (case identity_verify P i (to_signable_bytes P c) signature of
        Err e \<Rightarrow> Err (''signature verification failed: '' @ mesh_error_display e)
      | Ok u \<Rightarrow> Ok u)"

definition is_expired :: "did_auth_challenge \<Rightarrow> u64 \<Rightarrow> bool" where
  "is_expired c now \<longleftrightarrow> now \<ge> ch_expiry c"

subsection \<open>Tables\<close>

record tenant =
  t_id :: uuid
  t_name :: string
  t_tier :: string
  max_descriptors :: u64
  max_storage_bytes :: u64
  max_query_rate :: u32
  max_store_rate :: u32
  current_descriptors :: u64
  current_bytes :: u64
  mu_balance :: int
  mu_limit :: int
  created_at :: u64

record tenant_usage =
  tu_current_descriptors :: u64
  tu_current_bytes :: u64
  tu_mu_balance :: int
  tu_mu_limit :: int

record identity_row =
  ir_tenant :: uuid
  ir_identity :: bytes
  ir_did :: string
  ir_registered_at :: u64

record challenge_row =
  cr_challenge :: did_auth_challenge
  cr_tenant :: uuid
  cr_consumed :: bool

record tenant_db =
  tbl_tenants :: "tenant list"
  tbl_identities :: "identity_row list"
  tbl_challenges :: "challenge_row list"
  real_balances :: "uuid list"

definition empty_db :: tenant_db where
  "empty_db = \<lparr>tbl_tenants = [], tbl_identities = [], tbl_challenges = [], real_balances = []\<rparr>"

definition in_i64 :: "int \<Rightarrow> bool" where
  "in_i64 x \<longleftrightarrow> - (2 ^ 63) \<le> x \<and> x < 2 ^ 63"

datatype mu_error = InsufficientBalance int int | MuDb string

text \<open>The statements, by what they do.\<close>

datatype statement =
    Insert_tenant | Select_tenant | Select_tenants | Delete_identities | Delete_tenant
  | Insert_identity | Delete_identity | Select_identity | Select_balance | Update_balance
  | Select_usage | Update_max_descriptors | Update_max_storage | Update_mu_limit
  | Insert_challenge | Select_challenge | Select_consumed | Update_consumed

record sqlite =
  sql_error :: "statement \<Rightarrow> tenant_db \<Rightarrow> string option"
  fk_enforced :: bool
  err_constraint :: string
  err_no_rows :: string
  err_column_type :: string

subsection \<open>Quotas\<close>

record quotas =
  q_max_descriptors :: u64
  q_max_storage_bytes :: u64
  q_max_query_rate :: u32
  q_max_store_rate :: u32
  q_mu_limit :: int

definition tier_quotas :: "string \<Rightarrow> quotas" where
  "tier_quotas tier =
     (if tier = ''starter'' then
        \<lparr>q_max_descriptors = 1000, q_max_storage_bytes = 10485760, q_max_query_rate = 50,
         q_max_store_rate = 5, q_mu_limit = 100000\<rparr>
      else if tier = ''pro'' then
        \<lparr>q_max_descriptors = 10000, q_max_storage_bytes = 104857600, q_max_query_rate = 100,
         q_max_store_rate = 10, q_mu_limit = 1000000\<rparr>
      else if tier = ''enterprise'' then
        \<lparr>q_max_descriptors = 1000000, q_max_storage_bytes = 10737418240, q_max_query_rate = 1000,
         q_max_store_rate = 100, q_mu_limit = 10000000\<rparr>
      else
        \<lparr>q_max_descriptors = 100, q_max_storage_bytes = 1048576, q_max_query_rate = 10,
         q_max_store_rate = 1, q_mu_limit = 10000\<rparr>)"

subsection \<open>Operations of TenantManager\<close>

text \<open>A statement that the engine refuses leaves the database alone and returns its error.\<close>

definition exec :: "sqlite \<Rightarrow> statement \<Rightarrow> tenant_db \<Rightarrow> (string + 'a) \<times> tenant_db \<Rightarrow> (string + 'a) \<times> tenant_db" where
  "exec Q st db r = (case sql_error Q st db of Some e \<Rightarrow> (Err e, db) | None \<Rightarrow> r)"

definition create_tenant ::
  "sqlite \<Rightarrow> tenant_db \<Rightarrow> uuid \<Rightarrow> u64 \<Rightarrow> string \<Rightarrow> string \<Rightarrow> (string + tenant) \<times> tenant_db" where
  "create_tenant Q db i now name tier =
     (let q = tier_quotas tier;
          t = \<lparr>t_id = i, t_name = name, t_tier = tier, max_descriptors = q_max_descriptors q,
               max_storage_bytes = q_max_storage_bytes q, max_query_rate = q_max_query_rate q,
               max_store_rate = q_max_store_rate q, current_descriptors = 0, current_bytes = 0,
               mu_balance = q_mu_limit q, mu_limit = q_mu_limit q, created_at = now\<rparr>
      in exec Q Insert_tenant db
           (if list_ex (\<lambda>r. t_id r = i) (tbl_tenants db) then (Err (err_constraint Q), db)
            else (Ok t, db\<lparr>tbl_tenants := tbl_tenants db @ [t]\<rparr>)))"

text \<open>Reading a row into a \<^verbatim>\<open>Tenant\<close> reads its balance.\<close>

definition row_to_tenant :: "sqlite \<Rightarrow> tenant_db \<Rightarrow> tenant \<Rightarrow> string + tenant" where
  "row_to_tenant Q db t = (if t_id t \<in> set (real_balances db) then Err (err_column_type Q) else Ok t)"

fun rows_to_tenants :: "sqlite \<Rightarrow> tenant_db \<Rightarrow> tenant list \<Rightarrow> string + tenant list" where
  "rows_to_tenants Q db [] = Ok []"
| "rows_to_tenants Q db (t # ts) =
     (case row_to_tenant Q db t of
        Err e \<Rightarrow> Err e
      | Ok x \<Rightarrow> (case rows_to_tenants Q db ts of Err e \<Rightarrow> Err e | Ok xs \<Rightarrow> Ok (x # xs)))"

definition get_tenant :: "sqlite \<Rightarrow> tenant_db \<Rightarrow> uuid \<Rightarrow> string + tenant option" where
  "get_tenant Q db i =
     (case sql_error Q Select_tenant db of
        Some e \<Rightarrow> Err e
      | None \<Rightarrow>
          (case find (\<lambda>t. t_id t = i) (tbl_tenants db) of
             None \<Rightarrow> Ok None
           | Some t \<Rightarrow> (case row_to_tenant Q db t of Err e \<Rightarrow> Err e | Ok x \<Rightarrow> Ok (Some x))))"

definition list_tenants :: "sqlite \<Rightarrow> tenant_db \<Rightarrow> string + tenant list" where
  "list_tenants Q db =
     (case sql_error Q Select_tenants db of
        Some e \<Rightarrow> Err e
      | None \<Rightarrow> rows_to_tenants Q db (tbl_tenants db))"

definition delete_tenant :: "sqlite \<Rightarrow> tenant_db \<Rightarrow> uuid \<Rightarrow> (string + bool) \<times> tenant_db" where
  "delete_tenant Q db i =
     (case exec Q Delete_identities db
             (Ok (), db\<lparr>tbl_identities := filter (\<lambda>r. ir_tenant r \<noteq> i) (tbl_identities db)\<rparr>) of
        (Err e, db1) \<Rightarrow> (Err e, db1)
      | (Ok _, db1) \<Rightarrow>
          exec Q Delete_tenant db1
            (Ok (list_ex (\<lambda>t. t_id t = i) (tbl_tenants db1)),
             db1\<lparr>tbl_tenants := filter (\<lambda>t. t_id t \<noteq> i) (tbl_tenants db1),
                 real_balances := removeAll i (real_balances db1)\<rparr>))"

definition register_identity ::
  "sqlite \<Rightarrow> tenant_db \<Rightarrow> uuid \<Rightarrow> bytes \<Rightarrow> string \<Rightarrow> u64 \<Rightarrow> (string + unit) \<times> tenant_db" where
  "register_identity Q db i ib d now =
     exec Q Insert_identity db
       (if fk_enforced Q \<and> \<not> list_ex (\<lambda>t. t_id t = i) (tbl_tenants db)
        then (Err (err_constraint Q), db)
        else (Ok (), db\<lparr>tbl_identities :=
          filter (\<lambda>r. \<not> (ir_tenant r = i \<and> ir_identity r = ib)) (tbl_identities db) @
            [\<lparr>ir_tenant = i, ir_identity = ib, ir_did = d, ir_registered_at = now\<rparr>]\<rparr>))"

definition remove_identity ::
  "sqlite \<Rightarrow> tenant_db \<Rightarrow> uuid \<Rightarrow> string \<Rightarrow> (string + bool) \<times> tenant_db" where
  "remove_identity Q db i d =
     exec Q Delete_identity db
       (Ok (list_ex (\<lambda>r. ir_tenant r = i \<and> ir_did r = d) (tbl_identities db)),
        db\<lparr>tbl_identities := filter (\<lambda>r. \<not> (ir_tenant r = i \<and> ir_did r = d)) (tbl_identities db)\<rparr>)"

definition find_tenant_by_identity :: "sqlite \<Rightarrow> tenant_db \<Rightarrow> bytes \<Rightarrow> string + uuid option" where
  "find_tenant_by_identity Q db ib =
     (case sql_error Q Select_identity db of
        Some e \<Rightarrow> Err e
      | None \<Rightarrow> Ok (map_option ir_tenant (find (\<lambda>r. ir_identity r = ib) (tbl_identities db))))"

definition deduct_mu :: "sqlite \<Rightarrow> tenant_db \<Rightarrow> uuid \<Rightarrow> int \<Rightarrow> (mu_error + unit) \<times> tenant_db" where
  "deduct_mu Q db i cost =
     (case sql_error Q Select_balance db of
        Some e \<Rightarrow> (Err (MuDb e), db)
      | None \<Rightarrow>
          (case find (\<lambda>t. t_id t = i) (tbl_tenants db) of
             None \<Rightarrow> (Err (MuDb (err_no_rows Q)), db)
           | Some t \<Rightarrow>
               if i \<in> set (real_balances db) then (Err (MuDb (err_column_type Q)), db)
               else if mu_balance t < cost then (Err (InsufficientBalance (mu_balance t) cost), db)
               else
                 (case sql_error Q Update_balance db of
                    Some e \<Rightarrow> (Err (MuDb e), db)
                  | None \<Rightarrow>
                      (Ok (),
                       if in_i64 (mu_balance t - cost) then
                         db\<lparr>tbl_tenants := map (\<lambda>r. if t_id r = i
                          then r\<lparr>mu_balance := mu_balance r - cost\<rparr> else r) (tbl_tenants db)\<rparr>
                       else db\<lparr>real_balances := i # real_balances db\<rparr>))))"

definition get_usage :: "sqlite \<Rightarrow> tenant_db \<Rightarrow> uuid \<Rightarrow> string + tenant_usage" where
  "get_usage Q db i =
     (case sql_error Q Select_usage db of
        Some e \<Rightarrow> Err e
      | None \<Rightarrow>
          (case find (\<lambda>t. t_id t = i) (tbl_tenants db) of
             None \<Rightarrow> Err (err_no_rows Q)
           | Some t \<Rightarrow>
               if i \<in> set (real_balances db) then Err (err_column_type Q)
               else Ok \<lparr>tu_current_descriptors = current_descriptors t,
                 tu_current_bytes = current_bytes t, tu_mu_balance = mu_balance t,
                 tu_mu_limit = mu_limit t\<rparr>))"

text \<open>\<open>if let Some(v) = value { UPDATE tenants SET .. WHERE id = .. }\<close>.\<close>

definition update_column ::
  "sqlite \<Rightarrow> statement \<Rightarrow> uuid \<Rightarrow> 'v option \<Rightarrow> ('v \<Rightarrow> tenant \<Rightarrow> tenant) \<Rightarrow> tenant_db \<Rightarrow>
   (string + unit) \<times> tenant_db" where
  "update_column Q st i value f db =
     (case value of
        None \<Rightarrow> (Ok (), db)
      | Some v \<Rightarrow> exec Q st db
          (Ok (), db\<lparr>tbl_tenants := map (\<lambda>r. if t_id r = i then f v r else r) (tbl_tenants db)\<rparr>))"

definition update_quotas ::
  "sqlite \<Rightarrow> tenant_db \<Rightarrow> uuid \<Rightarrow> u64 option \<Rightarrow> u64 option \<Rightarrow> int option \<Rightarrow> (string + unit) \<times> tenant_db" where
  "update_quotas Q db i max_desc max_storage limit =
     (case update_column Q Update_max_descriptors i max_desc (\<lambda>v r. r\<lparr>max_descriptors := v\<rparr>) db of
        (Err e, db1) \<Rightarrow> (Err e, db1)
      | (Ok _, db1) \<Rightarrow>
          (case update_column Q Update_max_storage i max_storage (\<lambda>v r. r\<lparr>max_storage_bytes := v\<rparr>) db1 of
             (Err e, db2) \<Rightarrow> (Err e, db2)
           | (Ok _, db2) \<Rightarrow> update_column Q Update_mu_limit i limit (\<lambda>v r. r\<lparr>mu_limit := v\<rparr>) db2))"

definition create_challenge ::
  "sqlite \<Rightarrow> tenant_db \<Rightarrow> uuid \<Rightarrow> string \<Rightarrow> string \<Rightarrow> uuid \<Rightarrow> bytes \<Rightarrow> u64 \<Rightarrow>
   (string + did_auth_challenge) \<times> tenant_db" where
  "create_challenge Q db i hub_did action cid nonce now =
     (let c = challenge_new cid nonce now hub_did action in
      exec Q Insert_challenge db
        (if list_ex (\<lambda>r. ch_id (cr_challenge r) = cid) (tbl_challenges db) then (Err (err_constraint Q), db)
         else (Ok c, db\<lparr>tbl_challenges := tbl_challenges db @
                [\<lparr>cr_challenge = c, cr_tenant = i, cr_consumed = False\<rparr>]\<rparr>)))"

definition get_challenge :: "sqlite \<Rightarrow> tenant_db \<Rightarrow> uuid \<Rightarrow> string + did_auth_challenge option" where
  "get_challenge Q db cid =
     (case sql_error Q Select_challenge db of
        Some e \<Rightarrow> Err e
      | None \<Rightarrow>
          (case find (\<lambda>r. ch_id (cr_challenge r) = cid) (tbl_challenges db) of
             None \<Rightarrow> Ok None
           | Some r \<Rightarrow> if cr_consumed r then Ok None else Ok (Some (cr_challenge r))))"

definition consume_challenge :: "sqlite \<Rightarrow> tenant_db \<Rightarrow> uuid \<Rightarrow> (string + unit) \<times> tenant_db" where
  "consume_challenge Q db cid =
     (case (case sql_error Q Select_consumed db of
              Some e \<Rightarrow> Err e
            | None \<Rightarrow>
                (case find (\<lambda>r. ch_id (cr_challenge r) = cid) (tbl_challenges db) of
                   None \<Rightarrow> Err (err_no_rows Q)
                 | Some r \<Rightarrow> Ok (cr_consumed r))) of
        Err e \<Rightarrow> (Err (''challenge not found: '' @ e), db)
      | Ok consumed \<Rightarrow>
          if consumed then (Err ''challenge already consumed'', db)
          else
            (case sql_error Q Update_consumed db of
               Some e \<Rightarrow> (Err (''failed to consume challenge: '' @ e), db)
             | None \<Rightarrow> (Ok (), db\<lparr>tbl_challenges := map (\<lambda>r. if ch_id (cr_challenge r) = cid
                          then r\<lparr>cr_consumed := True\<rparr> else r) (tbl_challenges db)\<rparr>)))"

subsection \<open>The MU balance\<close>

text \<open>Every way the manager changes the database.\<close>

inductive manager_step :: "sqlite \<Rightarrow> tenant_db \<Rightarrow> tenant_db \<Rightarrow> bool" for Q where
  "manager_step Q db (snd (create_tenant Q db i now name tier))"
| "manager_step Q db (snd (delete_tenant Q db i))"
| "manager_step Q db (snd (register_identity Q db i ib d now))"
| "manager_step Q db (snd (remove_identity Q db i d))"
| "0 \<le> cost \<Longrightarrow> manager_step Q db (snd (deduct_mu Q db i cost))"
| "manager_step Q db (snd (update_quotas Q db i x y z))"
| "manager_step Q db (snd (create_challenge Q db i hub_did action cid nonce now))"
| "manager_step Q db (snd (consume_challenge Q db cid))"

inductive_cases manager_stepE: "manager_step Q db db'"

inductive manager_reachable :: "sqlite \<Rightarrow> tenant_db \<Rightarrow> tenant_db \<Rightarrow> bool" for Q db0 where
  manager_start: "manager_reachable Q db0 db0"
| manager_next: "manager_reachable Q db0 db \<Longrightarrow> manager_step Q db db' \<Longrightarrow> manager_reachable Q db0 db'"

lemma exec_cases:
  obtains "exec Q st db r = r" | e where "exec Q st db r = (Err e, db)"
  by (cases "sql_error Q st db") (simp_all add: exec_def)

lemma snd_exec: "snd (exec Q st db r) = db \<or> snd (exec Q st db r) = snd r"
  by (simp add: exec_def split: option.split)

text \<open>The invariant of the database: ids identify tenants and challenges, balances are integers that are
  not negative.\<close>

definition tenants_inv :: "tenant_db \<Rightarrow> bool" where
  "tenants_inv db \<longleftrightarrow> distinct (map t_id (tbl_tenants db)) \<and>
     distinct (map (\<lambda>r. ch_id (cr_challenge r)) (tbl_challenges db)) \<and>
     distinct (map (\<lambda>r. (ir_tenant r, ir_identity r)) (tbl_identities db)) \<and>
     (\<forall>t \<in> set (tbl_tenants db). 0 \<le> mu_balance t \<and> mu_balance t < 2 ^ 63) \<and> real_balances db = []"

lemma tenants_inv_empty [invariants]: "tenants_inv empty_db"
  by (simp add: tenants_inv_def empty_db_def)

lemma tier_limit_bounds [simp]: "0 \<le> q_mu_limit (tier_quotas tier)" "q_mu_limit (tier_quotas tier) < 2 ^ 63"
  "q_mu_limit (tier_quotas tier) < 9223372036854775808"
  by (simp_all add: tier_quotas_def)

lemma map_rows_inv:
  assumes "tenants_inv db" and "\<And>r. t_id (f r) = t_id r"
    and "\<And>r. r \<in> set (tbl_tenants db) \<Longrightarrow> t_id r = i \<Longrightarrow> 0 \<le> mu_balance (f r) \<and> mu_balance (f r) < 2 ^ 63"
  shows "tenants_inv (db\<lparr>tbl_tenants := map (\<lambda>r. if t_id r = i then f r else r) (tbl_tenants db)\<rparr>)"
proof -
  have "map t_id (map (\<lambda>r. if t_id r = i then f r else r) (tbl_tenants db)) = map t_id (tbl_tenants db)"
    using assms(2) by simp
  then show ?thesis using assms by (auto simp: tenants_inv_def simp del: map_map)
qed

lemma update_column_inv:
  assumes "tenants_inv db" and "update_column Q st i v f db = (r, db')"
    and "\<And>v r. t_id (f v r) = t_id r" and "\<And>v r. mu_balance (f v r) = mu_balance r"
  shows "tenants_inv db'"
proof (cases v)
  case None
  then show ?thesis using assms by (simp add: update_column_def)
next
  case (Some w)
  have "tenants_inv (db\<lparr>tbl_tenants := map (\<lambda>r. if t_id r = i then f w r else r) (tbl_tenants db)\<rparr>)"
    by (rule map_rows_inv [OF assms(1)]) (use assms in \<open>auto simp: tenants_inv_def\<close>)
  then show ?thesis using assms(1,2) Some
    by (auto simp: update_column_def exec_def split: option.splits)
qed

lemma tenants_inv_filters [simp]:
  "tenants_inv db \<Longrightarrow> tenants_inv (db\<lparr>tbl_identities := filter p (tbl_identities db)\<rparr>)"
  "tenants_inv db \<Longrightarrow> tenants_inv (db\<lparr>tbl_tenants := filter q (tbl_tenants db), real_balances := removeAll i (real_balances db)\<rparr>)"
  "tenants_inv db \<Longrightarrow> tenants_inv (db\<lparr>tbl_identities := filter p (tbl_identities db),
     tbl_tenants := filter q (tbl_tenants db), real_balances := removeAll i (real_balances db)\<rparr>)"
  by (auto simp: tenants_inv_def intro: distinct_map_filter)

lemma deduct_mu_cases:
  obtains (refused) e where "deduct_mu Q db i cost = (Err e, db)"
  | (overflow) t where "find (\<lambda>t. t_id t = i) (tbl_tenants db) = Some t" and "cost \<le> mu_balance t"
      and "\<not> in_i64 (mu_balance t - cost)"
      and "deduct_mu Q db i cost = (Ok (), db\<lparr>real_balances := i # real_balances db\<rparr>)"
  | (paid) t where "find (\<lambda>t. t_id t = i) (tbl_tenants db) = Some t" and "cost \<le> mu_balance t"
      and "in_i64 (mu_balance t - cost)"
      and "deduct_mu Q db i cost = (Ok (), db\<lparr>tbl_tenants :=
        map (\<lambda>r. if t_id r = i then r\<lparr>mu_balance := mu_balance r - cost\<rparr> else r) (tbl_tenants db)\<rparr>)"
proof (cases "sql_error Q Select_balance db = None \<and> sql_error Q Update_balance db = None \<and>
    i \<notin> set (real_balances db) \<and>
    (\<exists>t. find (\<lambda>t. t_id t = i) (tbl_tenants db) = Some t \<and> cost \<le> mu_balance t)")
  case True
  then obtain t where t: "find (\<lambda>t. t_id t = i) (tbl_tenants db) = Some t" "cost \<le> mu_balance t" by blast
  then show thesis using True paid [OF t] overflow [OF t] by (cases "in_i64 (mu_balance t - cost)") (simp_all add: deduct_mu_def)
next
  case False
  then have "\<exists>e. deduct_mu Q db i cost = (Err e, db)"
    by (auto simp: deduct_mu_def split: option.split)
  then show thesis using refused by blast
qed

lemma find_distinct:
  "distinct (map f xs) \<Longrightarrow> find (\<lambda>x. f x = k) xs = Some x \<longleftrightarrow> x \<in> set xs \<and> f x = k"
  by (induction xs) auto

lemma deduct_mu_inv:
  assumes "tenants_inv db" and "0 \<le> cost"
  shows "tenants_inv (snd (deduct_mu Q db i cost))"
proof (cases rule: deduct_mu_cases [of Q db i cost])
  case (paid t)
  have "distinct (map t_id (tbl_tenants db))" using assms(1) by (simp add: tenants_inv_def)
  then have "r = t" if "r \<in> set (tbl_tenants db)" "t_id r = i" for r
    using that paid(1) find_distinct [of t_id "tbl_tenants db" i] by (metis option.inject)
  then have "tenants_inv (db\<lparr>tbl_tenants := map (\<lambda>r. if t_id r = i
      then r\<lparr>mu_balance := mu_balance r - cost\<rparr> else r) (tbl_tenants db)\<rparr>)"
    by (intro map_rows_inv [OF assms(1)]) (use paid in \<open>auto simp: in_i64_def\<close>)
  then show ?thesis using paid(4) by simp
next
  case (overflow t)
  have "t \<in> set (tbl_tenants db)" using overflow(1) by (auto simp: find_Some_iff)
  then show ?thesis using overflow(2,3) assms by (auto simp: tenants_inv_def in_i64_def)
qed (use assms(1) in simp)

lemma update_quotas_inv:
  assumes "tenants_inv db"
  shows "tenants_inv (snd (update_quotas Q db i x y z))"
proof -
  obtain r1 db1 where 1: "update_column Q Update_max_descriptors i x (\<lambda>v r. r\<lparr>max_descriptors := v\<rparr>) db = (r1, db1)"
    by (rule prod.exhaust)
  obtain r2 db2 where 2: "update_column Q Update_max_storage i y (\<lambda>v r. r\<lparr>max_storage_bytes := v\<rparr>) db1 = (r2, db2)"
    by (rule prod.exhaust)
  obtain r3 db3 where 3: "update_column Q Update_mu_limit i z (\<lambda>v r. r\<lparr>mu_limit := v\<rparr>) db2 = (r3, db3)"
    by (rule prod.exhaust)
  have i1: "tenants_inv db1" by (rule update_column_inv [OF assms 1]) simp_all
  have i2: "tenants_inv db2" by (rule update_column_inv [OF i1 2]) simp_all
  have i3: "tenants_inv db3" by (rule update_column_inv [OF i2 3]) simp_all
  show ?thesis using i1 i2 i3 by (simp add: update_quotas_def 1 2 3 split: sum.split)
qed

lemma consume_challenge_inv:
  assumes "tenants_inv db"
  shows "tenants_inv (snd (consume_challenge Q db cid))"
proof -
  have "map (\<lambda>r. ch_id (cr_challenge r)) (map (\<lambda>r. if ch_id (cr_challenge r) = cid
      then r\<lparr>cr_consumed := True\<rparr> else r) (tbl_challenges db)) =
      map (\<lambda>r. ch_id (cr_challenge r)) (tbl_challenges db)" by simp
  then show ?thesis using assms unfolding tenants_inv_def
    by (auto simp: consume_challenge_def simp del: map_map split: option.splits sum.splits)
qed

lemma manager_step_inv [invariants]:
  assumes "manager_step Q db db'" and "tenants_inv db"
  shows "tenants_inv db'"
  using assms(1)
proof (rule manager_stepE)
  fix i now name tier
  assume "db' = snd (create_tenant Q db i now name tier)"
  then show ?thesis using assms(2)
    by (auto simp: create_tenant_def exec_def Let_def tenants_inv_def list_ex_iff split: option.splits)
next
  fix i
  assume d: "db' = snd (delete_tenant Q db i)"
  show ?thesis unfolding d delete_tenant_def
    using assms(2) by (auto simp: exec_def split: option.splits)
next
  fix i ib d now
  assume "db' = snd (register_identity Q db i ib d now)"
  then show ?thesis using assms(2)
    by (auto simp: register_identity_def exec_def tenants_inv_def distinct_map_filter split: option.splits)
next
  fix i d
  assume "db' = snd (remove_identity Q db i d)"
  then show ?thesis using assms(2) by (auto simp: remove_identity_def exec_def split: option.splits)
next
  fix cost i
  assume "db' = snd (deduct_mu Q db i cost)" and "0 \<le> cost"
  then show ?thesis using deduct_mu_inv [OF assms(2)] by simp
next
  fix i x y z
  assume "db' = snd (update_quotas Q db i x y z)"
  then show ?thesis using update_quotas_inv [OF assms(2)] by simp
next
  fix i hub_did action cid nonce now
  assume "db' = snd (create_challenge Q db i hub_did action cid nonce now)"
  then show ?thesis using assms(2)
    by (auto simp: create_challenge_def challenge_new_def exec_def Let_def tenants_inv_def list_ex_iff split: option.splits)
next
  fix cid
  assume "db' = snd (consume_challenge Q db cid)"
  then show ?thesis using consume_challenge_inv [OF assms(2)] by simp
qed

lemma manager_reachable_inv [invariants]:
  "manager_reachable Q db0 db \<Longrightarrow> tenants_inv db0 \<Longrightarrow> tenants_inv db"
  by (induction rule: manager_reachable.induct) (simp_all add: manager_step_inv)

subsection \<open>Runs of the manager\<close>

text \<open>One operation, and whether it succeeds; runs of operations; what a tenant has paid in a run.\<close>

datatype manager_op =
    Create uuid u64 string string
  | Delete uuid
  | Register uuid bytes string u64
  | Remove uuid string
  | Deduct uuid int
  | Update uuid "u64 option" "u64 option" "int option"
  | Challenge uuid string string uuid bytes u64
  | Consume uuid

definition succeeded :: "('e + 'a) \<times> tenant_db \<Rightarrow> bool \<times> tenant_db" where
  "succeeded r = (is_ok (fst r), snd r)"

fun manager_do :: "sqlite \<Rightarrow> manager_op \<Rightarrow> tenant_db \<Rightarrow> bool \<times> tenant_db" where
  "manager_do Q (Create i now name tier) db = succeeded (create_tenant Q db i now name tier)"
| "manager_do Q (Delete i) db = succeeded (delete_tenant Q db i)"
| "manager_do Q (Register i ib d now) db = succeeded (register_identity Q db i ib d now)"
| "manager_do Q (Remove i d) db = succeeded (remove_identity Q db i d)"
| "manager_do Q (Deduct i cost) db = succeeded (deduct_mu Q db i cost)"
| "manager_do Q (Update i x y z) db = succeeded (update_quotas Q db i x y z)"
| "manager_do Q (Challenge i hub_did action cid nonce now) db =
     succeeded (create_challenge Q db i hub_did action cid nonce now)"
| "manager_do Q (Consume cid) db = succeeded (consume_challenge Q db cid)"

definition manager_run :: "sqlite \<Rightarrow> manager_op list \<Rightarrow> tenant_db \<Rightarrow> tenant_db" where
  "manager_run Q ops db = fold (\<lambda>op db. snd (manager_do Q op db)) ops db"

fun cost_of :: "uuid \<Rightarrow> manager_op \<Rightarrow> int" where
  "cost_of i (Deduct j cost) = (if j = i then cost else 0)"
| "cost_of i _ = 0"

fun paid :: "sqlite \<Rightarrow> uuid \<Rightarrow> manager_op list \<Rightarrow> tenant_db \<Rightarrow> int" where
  "paid Q i [] db = 0"
| "paid Q i (op # ops) db =
     (if fst (manager_do Q op db) then cost_of i op else 0) + paid Q i ops (snd (manager_do Q op db))"

text \<open>No operation creates a tenant with the id of this one (ids are random), no cost is negative.\<close>

fun op_ok :: "uuid \<Rightarrow> manager_op \<Rightarrow> bool" where
  "op_ok i (Create j now name tier) = (j \<noteq> i)"
| "op_ok i (Deduct j cost) = (0 \<le> cost)"
| "op_ok i _ = True"

lemma snd_succeeded [simp]: "snd (succeeded r) = snd r"
  by (simp add: succeeded_def)

lemma manager_do_step: "op_ok i op \<Longrightarrow> manager_step Q db (snd (manager_do Q op db))"
  by (cases op) (auto intro: manager_step.intros)

definition balance_of :: "uuid \<Rightarrow> tenant_db \<Rightarrow> int option" where
  "balance_of i db = map_option mu_balance (find (\<lambda>t. t_id t = i) (tbl_tenants db))"

lemma find_map_rows:
  assumes "\<And>r. t_id (f r) = t_id r"
  shows "find (\<lambda>t. t_id t = i) (map f ts) = map_option f (find (\<lambda>t. t_id t = i) ts)"
  by (induction ts) (simp_all add: assms)

lemma find_append: "find p (xs @ ys) = (case find p xs of None \<Rightarrow> find p ys | Some x \<Rightarrow> Some x)"
  by (induction xs) simp_all

lemma find_filter_other: "j \<noteq> i \<Longrightarrow> find (\<lambda>t. t_id t = i) (filter (\<lambda>t. t_id t \<noteq> j) ts) = find (\<lambda>t. t_id t = i) ts"
  by (induction ts) auto

lemma find_filter_gone: "find (\<lambda>t. t_id t = i) (filter (\<lambda>t. t_id t \<noteq> i) ts) = None"
  by (simp add: find_None_iff)

lemma update_column_balance:
  assumes "\<And>v r. t_id (f v r) = t_id r" and "\<And>v r. mu_balance (f v r) = mu_balance r"
  shows "balance_of i (snd (update_column Q st j x f db)) = balance_of i db"
proof -
  have "map_option mu_balance (find (\<lambda>t. t_id t = i) (map (\<lambda>r. if t_id r = j then f v r else r) ts)) =
      map_option mu_balance (find (\<lambda>t. t_id t = i) ts)" for v ts
    by (induction ts) (simp_all add: assms)
  then show ?thesis
    by (simp add: update_column_def exec_def balance_of_def split: option.split)
qed

lemma update_quotas_balance: "balance_of i (snd (update_quotas Q db j x y z)) = balance_of i db"
  by (simp add: update_quotas_def case_prod_unfold update_column_balance split: sum.split)

text \<open>What an operation does to the balance of a tenant: nothing, unless it deletes the tenant or is a
  deduction from it that succeeds.\<close>

definition balance_step :: "int option \<Rightarrow> int \<Rightarrow> int option \<Rightarrow> bool" where
  "balance_step before c after \<longleftrightarrow>
     (case before of
        None \<Rightarrow> c = 0 \<and> after = None
      | Some b \<Rightarrow> 0 \<le> c \<and> c \<le> b \<and> (after = None \<or> after = Some (b - c)))"

lemma balance_step_trans:
  "balance_step x c y \<Longrightarrow> balance_step y d z \<Longrightarrow> balance_step x (c + d) z"
  by (auto simp: balance_step_def split: option.splits)

lemma balance_not_negative: "tenants_inv db \<Longrightarrow> balance_of i db = Some b \<Longrightarrow> 0 \<le> b"
  by (auto simp: balance_of_def tenants_inv_def find_Some_iff)

lemma balance_kept:
  "tenants_inv db \<Longrightarrow> after = balance_of i db \<or> after = None \<Longrightarrow> balance_step (balance_of i db) 0 after"
  using balance_not_negative [of db i] by (auto simp: balance_step_def split: option.split)

lemma deduct_mu_balance:
  assumes "tenants_inv db" and "0 \<le> cost"
  shows "balance_step (balance_of i db) (if is_ok (fst (deduct_mu Q db j cost)) \<and> j = i then cost else 0)
     (balance_of i (snd (deduct_mu Q db j cost)))"
proof (cases rule: deduct_mu_cases [of Q db j cost])
  case (refused e)
  then show ?thesis using balance_kept [OF assms(1)] by simp
next
  case (overflow t)
  have "t \<in> set (tbl_tenants db)" using overflow(1) by (auto simp: find_Some_iff)
  then show ?thesis using overflow(2,3) assms by (auto simp: tenants_inv_def in_i64_def)
next
  case (paid t)
  have "map_option mu_balance (find (\<lambda>t. t_id t = i) (map (\<lambda>r. if t_id r = j then r\<lparr>mu_balance := mu_balance r - cost\<rparr> else r) ts)) =
      map_option (\<lambda>b. if j = i then b - cost else b) (map_option mu_balance (find (\<lambda>t. t_id t = i) ts))" for ts
    by (induction ts) simp_all
  then have "balance_of i (snd (deduct_mu Q db j cost)) = map_option (\<lambda>b. if j = i then b - cost else b) (balance_of i db)"
    by (simp add: paid(4) balance_of_def)
  moreover have "j = i \<Longrightarrow> balance_of i db = Some (mu_balance t)" using paid(1) by (simp add: balance_of_def)
  ultimately show ?thesis using paid(2,4) assms balance_kept [OF assms(1), of "balance_of i db" i]
    by (cases "j = i") (auto simp: balance_step_def option.map_ident)
qed

lemma manager_do_balance:
  assumes "tenants_inv db" and "op_ok i op"
  shows "balance_step (balance_of i db) (if fst (manager_do Q op db) then cost_of i op else 0)
     (balance_of i (snd (manager_do Q op db)))"
proof (cases op)
  case (Create j now name tier)
  then have "balance_of i (snd (manager_do Q op db)) = balance_of i db" using assms(2)
    by (auto simp: create_tenant_def exec_def Let_def balance_of_def find_append split: option.split)
  then show ?thesis using balance_kept [OF assms(1)] by (simp add: Create)
next
  case (Delete j)
  have "balance_of i (snd (delete_tenant Q db j)) = balance_of i db \<or> balance_of i (snd (delete_tenant Q db j)) = None"
    by (cases "j = i") (auto simp: delete_tenant_def exec_def balance_of_def find_filter_gone find_filter_other split: option.split)
  then show ?thesis using balance_kept [OF assms(1)] by (simp add: Delete)
next
  case (Deduct j cost)
  then show ?thesis using deduct_mu_balance [OF assms(1), of cost i Q j] assms(2)
    by (auto simp: succeeded_def split: if_splits)
next
  case (Update j x y z)
  then show ?thesis using balance_kept [OF assms(1)] by (simp add: update_quotas_balance)
next
  case (Register j ib d now)
  then have "balance_of i (snd (manager_do Q op db)) = balance_of i db"
    by (simp add: balance_of_def register_identity_def exec_def split: option.split)
  then show ?thesis using balance_kept [OF assms(1)] by (simp add: Register)
next
  case (Remove j d)
  then have "balance_of i (snd (manager_do Q op db)) = balance_of i db"
    by (simp add: balance_of_def remove_identity_def exec_def split: option.split)
  then show ?thesis using balance_kept [OF assms(1)] by (simp add: Remove)
next
  case (Challenge j hub_did action cid nonce now)
  then have "balance_of i (snd (manager_do Q op db)) = balance_of i db"
    by (simp add: balance_of_def create_challenge_def exec_def Let_def split: option.split)
  then show ?thesis using balance_kept [OF assms(1)] by (simp add: Challenge)
next
  case (Consume cid)
  then have "balance_of i (snd (manager_do Q op db)) = balance_of i db"
    by (simp add: balance_of_def consume_challenge_def split: option.split sum.split)
  then show ?thesis using balance_kept [OF assms(1)] by (simp add: Consume)
qed

lemma manager_run_balance:
  assumes "tenants_inv db" and "\<forall>op \<in> set ops. op_ok i op"
  shows "balance_step (balance_of i db) (paid Q i ops db) (balance_of i (manager_run Q ops db)) \<and>
     tenants_inv (manager_run Q ops db)"
  using assms
proof (induction ops arbitrary: db)
  case Nil
  then show ?case using balance_kept [of db] by (simp add: manager_run_def)
next
  case (Cons op ops)
  have inv: "tenants_inv (snd (manager_do Q op db))"
    using Cons.prems by (intro manager_step_inv [OF manager_do_step]) auto
  have "balance_step (balance_of i db) (if fst (manager_do Q op db) then cost_of i op else 0)
      (balance_of i (snd (manager_do Q op db)))"
    using Cons.prems by (intro manager_do_balance) auto
  from balance_step_trans [OF this] show ?case using Cons.IH [OF inv] Cons.prems
    by (simp add: manager_run_def)
qed

text \<open>C26. A tenant created with a tier's limit (its balance starts there), followed over any sequence of
  operations of the manager - deductions from it and from other tenants, quota changes that raise or
  lower its \<open>mu_limit\<close>, deletions, identities and challenges, with statements that fail anywhere: what
  the successful deductions took from it never exceeds the tier's limit, the row, while it is there,
  holds exactly the limit less what was taken, and a deduction that fails changes nothing. The manager
  locks the connection over each operation (the check and the UPDATE of a deduction are one locked
  step), so a run is a sequence; costs are not negative.\<close>

theorem mu_never_overdrawn:
  assumes "manager_reachable Q empty_db db" and "create_tenant Q db i now name tier = (Ok t, db0)"
    and "\<forall>op \<in> set ops. op_ok i op"
  shows "paid Q i ops db0 \<le> q_mu_limit (tier_quotas tier) \<and>
     (\<forall>u \<in> set (tbl_tenants (manager_run Q ops db0)). t_id u = i \<longrightarrow>
        mu_balance u = q_mu_limit (tier_quotas tier) - paid Q i ops db0 \<and> 0 \<le> mu_balance u) \<and>
     (\<forall>j cost e db'. deduct_mu Q (manager_run Q ops db0) j cost = (Err e, db') \<longrightarrow>
        db' = manager_run Q ops db0)"
proof -
  let ?L = "q_mu_limit (tier_quotas tier)" and ?db = "manager_run Q ops db0"
  have inv: "tenants_inv db0"
    using manager_reachable_inv [OF manager_next [OF assms(1) manager_step.intros(1)] tenants_inv_empty, of i now name tier]
      assms(2) by simp
  have "\<forall>r \<in> set (tbl_tenants db). t_id r \<noteq> i" and "tbl_tenants db0 = tbl_tenants db @ [t]"
      and "t_id t = i" and "mu_balance t = ?L"
    using assms(2) by (auto simp: create_tenant_def exec_def Let_def list_ex_iff split: option.splits if_splits)
  moreover from this have "find (\<lambda>r. t_id r = i) (tbl_tenants db) = None" by (simp add: find_None_iff)
  ultimately have "balance_of i db0 = Some ?L" by (simp add: balance_of_def find_append)
  then have run: "0 \<le> paid Q i ops db0" "paid Q i ops db0 \<le> ?L"
      "balance_of i ?db = None \<or> balance_of i ?db = Some (?L - paid Q i ops db0)" and after: "tenants_inv ?db"
    using manager_run_balance [OF inv assms(3), of Q] by (auto simp: balance_step_def)
  have "mu_balance u = ?L - paid Q i ops db0 \<and> 0 \<le> mu_balance u" if "u \<in> set (tbl_tenants ?db)" "t_id u = i" for u
  proof -
    have "balance_of i ?db = Some (mu_balance u)"
      using that after find_distinct [of t_id "tbl_tenants ?db" i u] by (simp add: balance_of_def tenants_inv_def)
    then show ?thesis using run by simp
  qed
  moreover have "db' = ?db" if "deduct_mu Q ?db j cost = (Err e, db')" for j cost e db'
    using that by (cases rule: deduct_mu_cases [of Q ?db j cost]) simp_all
  ultimately show ?thesis using run(2) by blast
qed

subsection \<open>An engine without errors, and witnesses\<close>

definition demo_sqlite :: sqlite where
  "demo_sqlite = \<lparr>sql_error = (\<lambda>_ _. None), fk_enforced = True,
     err_constraint = ''FOREIGN KEY constraint failed'', err_no_rows = ''Query returned no rows'',
     err_column_type = ''Invalid column type Real at index: 0''\<rparr>"

lemma demo_sqlite_simps [simp]: "sql_error demo_sqlite st db = None" "fk_enforced demo_sqlite"
  by (simp_all add: demo_sqlite_def)

definition demo_tenant_db :: tenant_db where
  "demo_tenant_db = snd (create_tenant demo_sqlite (snd (create_tenant demo_sqlite empty_db 1 0 ''a'' ''free'')) 2 0 ''b'' ''pro'')"

lemma demo_tenant_db_reachable: "manager_reachable demo_sqlite empty_db demo_tenant_db"
  unfolding demo_tenant_db_def by (blast intro: manager_reachable.intros manager_step.intros)

lemma demo_tenant_db_rows [simp]:
  "map t_id (tbl_tenants demo_tenant_db) = [1, 2]" "tbl_challenges demo_tenant_db = []"
  "tbl_identities demo_tenant_db = []"
  by (simp_all add: demo_tenant_db_def create_tenant_def exec_def empty_db_def Let_def)

lemma mu_never_overdrawn_witness:
  "\<exists>t db0. create_tenant demo_sqlite demo_tenant_db 3 0 ''c'' ''free'' = (Ok t, db0) \<and>
     paid demo_sqlite 3 [Deduct 3 9000, Deduct 3 1001, Update 3 None None (Some 5), Deduct 3 1000] db0 = 10000 \<and>
     paid demo_sqlite 3 [Deduct 3 9000, Deduct 3 1001, Update 3 None None (Some 5), Deduct 3 1000] db0
       \<le> q_mu_limit (tier_quotas ''free'')"
proof -
  let ?ops = "[Deduct 3 9000, Deduct 3 1001, Update 3 None None (Some 5), Deduct 3 1000]"
  obtain t db0 where c: "create_tenant demo_sqlite demo_tenant_db 3 0 ''c'' ''free'' = (Ok t, db0)"
    by (simp add: demo_tenant_db_def create_tenant_def exec_def empty_db_def Let_def)
  then have "paid demo_sqlite 3 ?ops db0 = 10000"
    by (auto simp: demo_tenant_db_def create_tenant_def exec_def empty_db_def Let_def tier_quotas_def
        succeeded_def deduct_mu_def update_quotas_def update_column_def in_i64_def)
  then show ?thesis using c mu_never_overdrawn [OF demo_tenant_db_reachable c, of ?ops] by simp
qed

end
