(* ===== verification/Hub_Policy.thy ===== *)
theory Hub_Policy
  imports Hub_Limits Tenants
begin

section \<open>mesh-hub: policy and the protocol hook\<close>

text \<open>
  policy.rs, its configuration in config.rs, and hooks.rs. The hook's shared state is the record
  \<open>hub_hook_state\<close>: the rate limiter, the tenant database and, if the hook is given metrics, the
  family of rate-limit counters that it shares with them (metrics.rs), by the name of the
  operation; \<open>hk_now\<close> is the instant that \<open>Instant::now()\<close> gives while the hook runs.
\<close>

subsection \<open>PolicyEngine\<close>

datatype store_mode = Open | TenantOnly | Allowlist

record policy_config =
  pc_store_mode :: store_mode
  blocked_identities :: "string list"
  blocked_routing_keys :: "string list"

definition policy_config_default :: policy_config where
  "policy_config_default = \<lparr>pc_store_mode = Open, blocked_identities = [], blocked_routing_keys = []\<rparr>"

fun blocked_key :: "prims \<Rightarrow> policy_config \<Rightarrow> hash list \<Rightarrow> bool" where
  "blocked_key P c [] = False"
| "blocked_key P c (rk # rks) =
     (let rk_hex = hex_encode P (digest rk) in
      if list_ex (\<lambda>b. b = rk_hex) (blocked_routing_keys c) then True else blocked_key P c rks)"

definition check_store :: "prims \<Rightarrow> policy_config \<Rightarrow> descriptor \<Rightarrow> bool \<Rightarrow> string + unit" where
  "check_store P c d is_tenant =
     (if (pc_store_mode c = TenantOnly \<or> pc_store_mode c = Allowlist) \<and> \<not> is_tenant then Err ''policy''
      else
        let publisher_did = did P (publisher d) in
        if list_ex (\<lambda>b. b = publisher_did) (blocked_identities c) then Err ''policy''
        else if blocked_key P c (routing_keys d) then Err ''policy''
        else Ok ())"

definition check_quotas :: "tenant \<Rightarrow> nat \<Rightarrow> string + unit" where
  "check_quotas t descriptor_size =
     (if current_descriptors t \<ge> max_descriptors t then Err ''policy''
      else if current_bytes t + of_nat descriptor_size > max_storage_bytes t then Err ''policy''
      else Ok ())"

definition check_mu_budget :: "tenant \<Rightarrow> int \<Rightarrow> string + unit" where
  "check_mu_budget t cost = (if mu_balance t < cost then Err ''policy'' else Ok ())"

subsection \<open>HubProtocolHook\<close>

record hub_hook_state =
  hk_limiter :: hub_rate_limiter
  hk_tenants :: tenant_db
  hk_now :: nat
  hk_rate_limited :: "(string \<rightharpoonup> u64) option"

text \<open>The counter of an operation in the family, created at zero if there is none, plus one.\<close>

definition record_rate_limited :: "string \<Rightarrow> (string \<rightharpoonup> u64) \<Rightarrow> string \<rightharpoonup> u64" where
  "record_rate_limited operation family = family(operation \<mapsto> (case family operation of None \<Rightarrow> 0 | Some n \<Rightarrow> n) + 1)"

definition hub_pre_store ::
  "prims \<Rightarrow> sqlite \<Rightarrow> policy_config \<Rightarrow> hub_hook_state \<Rightarrow> descriptor \<Rightarrow> (string + unit) \<times> hub_hook_state" where
  "hub_pre_store P Q c h d =
     (case check_identity P (hk_limiter h) (publisher d) Op_store (hk_now h) of
        (Err e, r) \<Rightarrow>
          (Err ''rate limited'',
           h\<lparr>hk_limiter := r,
             hk_rate_limited := map_option (record_rate_limited ''store'') (hk_rate_limited h)\<rparr>)
      | (Ok _, r) \<Rightarrow>
          let id_bytes = identity_bytes (publisher d);
              is_tenant = (case find_tenant_by_identity Q (hk_tenants h) id_bytes of
                 Ok (Some _) \<Rightarrow> True | _ \<Rightarrow> False)
          in (check_store P c d is_tenant, h\<lparr>hk_limiter := r\<rparr>))"

definition hub_hook :: "prims \<Rightarrow> sqlite \<Rightarrow> policy_config \<Rightarrow> hub_hook_state protocol_hook" where
  "hub_hook P Q c =
     \<lparr>pre_store = hub_pre_store P Q c, post_store = (\<lambda>h _. h),
      pre_query = (\<lambda>h _. (Ok (), h)), post_query = (\<lambda>h _ _. h)\<rparr>"

subsection \<open>What the hook admits\<close>

lemma blocked_key_iff: "blocked_key P c rks \<longleftrightarrow> (\<exists>rk \<in> set rks. hex_encode P (digest rk) \<in> set (blocked_routing_keys c))"
  by (induction rks) (auto simp: Let_def list_ex_iff)

definition is_tenant_of :: "sqlite \<Rightarrow> tenant_db \<Rightarrow> identity \<Rightarrow> bool" where
  "is_tenant_of Q db i \<longleftrightarrow> sql_error Q Select_identity db = None \<and>
     (\<exists>r \<in> set (tbl_identities db). ir_identity r = identity_bytes i)"

lemma find_tenant_is_tenant:
  "(case find_tenant_by_identity Q db (identity_bytes i) of Ok (Some _) \<Rightarrow> True | _ \<Rightarrow> False) = is_tenant_of Q db i"
  by (cases "find (\<lambda>r. ir_identity r = identity_bytes i) (tbl_identities db)")
    (auto simp: find_tenant_by_identity_def is_tenant_of_def find_None_iff find_Some_iff split: option.split)

text \<open>A descriptor that the policy admits.\<close>

definition admitted :: "prims \<Rightarrow> sqlite \<Rightarrow> policy_config \<Rightarrow> tenant_db \<Rightarrow> descriptor \<Rightarrow> bool" where
  "admitted P Q c db d \<longleftrightarrow>
     (pc_store_mode c = Open \<or> is_tenant_of Q db (publisher d)) \<and>
     did P (publisher d) \<notin> set (blocked_identities c) \<and>
     (\<forall>rk \<in> set (routing_keys d). hex_encode P (digest rk) \<notin> set (blocked_routing_keys c))"

lemma check_store_admitted:
  "check_store P c d (is_tenant_of Q db (publisher d)) = (if admitted P Q c db d then Ok () else Err ''policy'')"
  by (cases "pc_store_mode c") (auto simp: check_store_def admitted_def Let_def list_ex_iff blocked_key_iff)

text \<open>The calls that the limiter still counts for an identity at an instant.\<close>

definition recent_stores :: "hub_rate_limiter \<Rightarrow> identity \<Rightarrow> nat \<Rightarrow> nat list" where
  "recent_stores r i now = prune (from_secs (window_secs (rl_config r))) now
     (deque_at (identity_windows r) (identity_bytes i) Op_store)"

definition limiter_allows :: "hub_rate_limiter \<Rightarrow> identity \<Rightarrow> nat \<Rightarrow> bool" where
  "limiter_allows r i now \<longleftrightarrow>
     (case identity_limits (rl_config r) Op_store of
        None \<Rightarrow> True | Some limit \<Rightarrow> of_nat (length (recent_stores r i now)) < limit)"

lemma check_identity_allows:
  "is_ok (fst (check_identity P r i Op_store now)) = limiter_allows r i now"
  by (auto simp: check_identity_def limiter_allows_def recent_stores_def Let_def not_le split: option.split)

lemma check_identity_config [simp]:
  "rl_config (snd (check_identity P r i op now)) = rl_config r"
  by (simp add: check_identity_def Let_def split: option.split)

lemma check_identity_deque:
  "deque_at (identity_windows (snd (check_identity P r i op now))) (identity_bytes j) op' =
     (if j = i \<and> op' = op \<and> identity_limits (rl_config r) op \<noteq> None
      then prune (from_secs (window_secs (rl_config r))) now (deque_at (identity_windows r) (identity_bytes i) op) @
        (if is_ok (fst (check_identity P r i op now)) then [now] else [])
      else deque_at (identity_windows r) (identity_bytes j) op')"
  by (auto simp: check_identity_def Let_def split: option.split)

lemma hub_pre_store_result:
  "fst (hub_pre_store P Q c h d) =
     (if \<not> limiter_allows (hk_limiter h) (publisher d) (hk_now h) then Err ''rate limited''
      else if admitted P Q c (hk_tenants h) d then Ok () else Err ''policy'')"
  using check_identity_allows [of P "hk_limiter h" "publisher d" "hk_now h"]
    check_store_admitted [of P c d Q "hk_tenants h"]
  by (cases "fst (check_identity P (hk_limiter h) (publisher d) Op_store (hk_now h))")
    (auto simp: hub_pre_store_def Let_def case_prod_unfold find_tenant_is_tenant)

lemma hub_pre_store_state:
  "hk_limiter (snd (hub_pre_store P Q c h d)) =
     snd (check_identity P (hk_limiter h) (publisher d) Op_store (hk_now h))"
  "hk_tenants (snd (hub_pre_store P Q c h d)) = hk_tenants h"
  by (simp_all add: hub_pre_store_def Let_def case_prod_unfold split: sum.split)

lemma hub_pre_store_recorded:
  "hk_rate_limited (snd (hub_pre_store P Q c h d)) =
     (if limiter_allows (hk_limiter h) (publisher d) (hk_now h) then hk_rate_limited h
      else map_option (record_rate_limited ''store'') (hk_rate_limited h))"
  using check_identity_allows [of P "hk_limiter h" "publisher d" "hk_now h"]
  by (cases "fst (check_identity P (hk_limiter h) (publisher d) Op_store (hk_now h))")
    (auto simp: hub_pre_store_def Let_def case_prod_unfold)

lemma hub_pre_store_deque:
  assumes "identity_limits (rl_config (hk_limiter h)) Op_store \<noteq> None"
  shows "deque_at (identity_windows (hk_limiter (snd (hub_pre_store P Q c h d)))) (identity_bytes (publisher d)) Op_store =
     recent_stores (hk_limiter h) (publisher d) (hk_now h) @
       (if limiter_allows (hk_limiter h) (publisher d) (hk_now h) then [hk_now h] else [])"
  using assms by (simp add: hub_pre_store_state check_identity_deque check_identity_allows recent_stores_def)

text \<open>C23. The hook admits exactly what the hub's policy says: a store passes if and only if its
  publisher is below its rate limit, the store mode is open or the publisher is registered with a
  tenant (an engine error counts as not registered), and neither the publisher's DID nor a
  routing key is blocked. A refusal names no detail: its reason is \<open>rate limited\<close> or \<open>policy\<close>.
  An attempt below the limit counts against the publisher's limit also when the policy refuses
  it; tenants and other windows stay as they are.\<close>

theorem hub_hook_exact:
  "(fst (hub_pre_store P Q c h d) = Ok () \<longleftrightarrow>
       limiter_allows (hk_limiter h) (publisher d) (hk_now h) \<and> admitted P Q c (hk_tenants h) d) \<and>
   fst (hub_pre_store P Q c h d) \<in> {Ok (), Err ''rate limited'', Err ''policy''} \<and>
   hk_tenants (snd (hub_pre_store P Q c h d)) = hk_tenants h \<and>
   deque_at (identity_windows (hk_limiter (snd (hub_pre_store P Q c h d)))) (identity_bytes i) op =
     (if i = publisher d \<and> op = Op_store \<and> identity_limits (rl_config (hk_limiter h)) Op_store \<noteq> None
      then recent_stores (hk_limiter h) i (hk_now h) @
        (if fst (hub_pre_store P Q c h d) = Err ''rate limited'' then [] else [hk_now h])
      else deque_at (identity_windows (hk_limiter h)) (identity_bytes i) op)"
  by (auto simp: hub_pre_store_result hub_pre_store_state check_identity_deque check_identity_allows recent_stores_def)

subsection \<open>Stores in somebody else's name\<close>

text \<open>A row of STORE requests that a hub node serves, each with the instant the limiter reads and
  the time the store reads.\<close>

fun serve_stores ::
  "prims \<Rightarrow> 's backend \<Rightarrow> (nat \<times> u64 \<times> store_msg) list \<Rightarrow> ('s, hub_hook_state) dht_node \<Rightarrow>
   ('s, hub_hook_state) dht_node option" where
  "serve_stores P B [] n = Some n"
| "serve_stores P B ((t, now, m) # ms) n =
     (case handle_store P B (n\<lparr>dn_hook_state := (dn_hook_state n)\<lparr>hk_now := t\<rparr>\<rparr>) m now now of
        None \<Rightarrow> None
      | Some (_, n') \<Rightarrow> serve_stores P B ms n')"

lemma handle_store_hub:
  assumes "blake3_ok P" and "node_ok P n" and "dn_hooks n = Some (hub_hook P Q c)"
  obtains r n' where "handle_store P B n m now now' = Some (r, n')" and "node_ok P n'" and "dn_hooks n' = dn_hooks n"
    and "dn_hook_state n' = snd (hub_pre_store P Q c (dn_hook_state n) (store_descriptor_field m))"
    and "\<forall>e. fst (hub_pre_store P Q c (dn_hook_state n) (store_descriptor_field m)) = Err e \<longrightarrow>
       r = \<lparr>stored = False, reason = Some e\<rparr> \<and> dn_store n' = dn_store n"
    and "fst (hub_pre_store P Q c (dn_hook_state n) (store_descriptor_field m)) = Ok () \<longrightarrow>
       stored r = is_ok (fst (be_store B (dn_store n) (store_descriptor_field m) now')) \<and>
       dn_store n' = snd (be_store B (dn_store n) (store_descriptor_field m) now')"
proof -
  obtain n1 where n1: "update_routing_table P n (store_sender m) (store_sender_addr m) now = Some n1"
    using update_routing_table_total [OF assms(1,2)] by blast
  note keep = update_routing_table_keeps [OF n1] update_routing_table_ok [OF assms(2) n1]
  let ?pre = "hub_pre_store P Q c (dn_hook_state n) (store_descriptor_field m)"
  let ?st = "be_store B (dn_store n) (store_descriptor_field m) now'"
  show thesis
  proof (cases "fst ?pre")
    case (Inl e)
    show ?thesis
      by (rule that [of "\<lparr>stored = False, reason = Some e\<rparr>" "n1\<lparr>dn_hook_state := snd ?pre\<rparr>"])
        (use Inl keep assms(3) in \<open>simp_all add: handle_store_def n1 Let_def hub_hook_def case_prod_unfold\<close>)
  next
    case (Inr u)
    show ?thesis
      by (rule that [of "case fst ?st of Ok _ \<Rightarrow> \<lparr>stored = True, reason = None\<rparr>
            | Err e \<Rightarrow> \<lparr>stored = False, reason = Some (store_error_display e)\<rparr>"
            "n1\<lparr>dn_hook_state := snd ?pre, dn_store := snd ?st\<rparr>"])
        (use Inr keep assms(3) in \<open>simp_all add: handle_store_def n1 Let_def hub_hook_def case_prod_unfold split: sum.split\<close>)
  qed
qed

lemma prune_keeps: "\<forall>x \<in> set dq. now \<le> x + W \<Longrightarrow> prune W now dq = dq"
  by (cases dq) (auto simp: prune_def)

text \<open>Stores in the name of one publisher within one window fill its deque up to the limit.\<close>

lemma serve_stores_fill:
  assumes "blake3_ok P" and "node_ok P n" and "dn_hooks n = Some (hub_hook P Q c)"
    and "rl_config (hk_limiter (dn_hook_state n)) = cfg" and "identity_limits cfg Op_store = Some limit"
    and "\<forall>(t, now, m) \<in> set ms. publisher (store_descriptor_field m) = victim \<and>
       start \<le> t \<and> t \<le> start + from_secs (window_secs cfg)"
    and "dq = deque_at (identity_windows (hk_limiter (dn_hook_state n))) (identity_bytes victim) Op_store"
    and "\<forall>x \<in> set dq. start \<le> x" and "length dq \<le> unat limit"
  shows "\<exists>n'. serve_stores P B ms n = Some n' \<and> node_ok P n' \<and> dn_hooks n' = dn_hooks n \<and>
     rl_config (hk_limiter (dn_hook_state n')) = cfg \<and>
     (let dq' = deque_at (identity_windows (hk_limiter (dn_hook_state n'))) (identity_bytes victim) Op_store
      in (\<forall>x \<in> set dq'. start \<le> x) \<and> length dq' = min (unat limit) (length dq + length ms))"
  using assms
proof (induction ms arbitrary: n dq)
  case Nil
  then show ?case by (simp add: Let_def)
next
  case (Cons tm ms)
  obtain t now m where tm: "tm = (t, now, m)" by (rule prod_cases3)
  let ?n = "n\<lparr>dn_hook_state := (dn_hook_state n)\<lparr>hk_now := t\<rparr>\<rparr>"
  let ?h = "dn_hook_state ?n"
  have v: "publisher (store_descriptor_field m) = victim" "start \<le> t" "t \<le> start + from_secs (window_secs cfg)"
    using Cons.prems(6) by (auto simp: tm)
  have "recent_stores (hk_limiter ?h) victim t = dq"
    unfolding recent_stores_def using Cons.prems(4,7,8) v(3) by (auto intro!: prune_keeps)
  moreover have "limiter_allows (hk_limiter ?h) victim t \<longleftrightarrow> length dq < unat limit"
  proof -
    have "unat limit < 2 ^ LENGTH(32)" by (rule unsigned_less)
    then have "unat (of_nat (length dq) :: u32) = length dq"
      using Cons.prems(9) by (simp add: unat_of_nat take_bit_eq_mod)
    then show ?thesis using Cons.prems(4,5) calculation by (simp add: limiter_allows_def word_less_nat_alt)
  qed
  ultimately have dq': "deque_at (identity_windows (hk_limiter (snd (hub_pre_store P Q c ?h (store_descriptor_field m)))))
      (identity_bytes victim) Op_store = dq @ (if length dq < unat limit then [t] else [])"
    using hub_pre_store_deque [of ?h P Q c "store_descriptor_field m"] Cons.prems(4,5) v(1) by simp
  have ok: "node_ok P ?n" "dn_hooks ?n = Some (hub_hook P Q c)" using Cons.prems(2,3) by simp_all
  obtain r n' where n': "handle_store P B ?n m now now = Some (r, n')" "node_ok P n'" "dn_hooks n' = dn_hooks n"
    "dn_hook_state n' = snd (hub_pre_store P Q c ?h (store_descriptor_field m))"
    by (rule handle_store_hub [OF Cons.prems(1) ok, of B m now now]) simp
  have cfg: "rl_config (hk_limiter (dn_hook_state n')) = cfg"
    using Cons.prems(4) by (simp add: n'(4) hub_pre_store_state)
  have rest: "\<forall>(t, now, m) \<in> set ms. publisher (store_descriptor_field m) = victim \<and>
      start \<le> t \<and> t \<le> start + from_secs (window_secs cfg)" using Cons.prems(6) by simp
  let ?dq' = "dq @ (if length dq < unat limit then [t] else [])"
  have "\<exists>n''. serve_stores P B ms n' = Some n'' \<and> node_ok P n'' \<and> dn_hooks n'' = dn_hooks n' \<and>
     rl_config (hk_limiter (dn_hook_state n'')) = cfg \<and>
     (let dq' = deque_at (identity_windows (hk_limiter (dn_hook_state n''))) (identity_bytes victim) Op_store
      in (\<forall>x \<in> set dq'. start \<le> x) \<and> length dq' = min (unat limit) (length ?dq' + length ms))"
    using n' dq' Cons.prems(3,5,8,9) v(2) by (intro Cons.IH [OF Cons.prems(1) n'(2) _ cfg Cons.prems(5) rest]) auto
  moreover have "min (unat limit) (length ?dq' + length ms) = min (unat limit) (length dq + length (tm # ms))"
    using Cons.prems(9) by auto
  ultimately show ?case using n'(1,3) by (simp add: tm)
qed

text \<open>The rate limit is charged before anything is verified: whoever can send STORE requests under
  an own identity locks a publisher out of the hub by sending as many requests as its limit with
  descriptors that merely name that publisher (forged, unsigned or expired ones do). The
  publisher's own store within the window is then answered \<open>rate limited\<close>.\<close>

theorem forged_stores_lock_out:
  assumes "blake3_ok P" and "node_ok P n" and "dn_hooks n = Some (hub_hook P Q c)"
    and "identity_limits (rl_config (hk_limiter (dn_hook_state n))) Op_store = Some limit"
    and "deque_at (identity_windows (hk_limiter (dn_hook_state n))) (identity_bytes victim) Op_store = []"
    and "\<forall>(t, now, m) \<in> set (forged @ [(t1, now1, genuine)]). publisher (store_descriptor_field m) = victim \<and>
       start \<le> t \<and> t \<le> start + from_secs (window_secs (rl_config (hk_limiter (dn_hook_state n))))"
    and "unat limit \<le> length forged"
  shows "\<exists>n1 n2. serve_stores P B forged n = Some n1 \<and>
     handle_store P B (n1\<lparr>dn_hook_state := (dn_hook_state n1)\<lparr>hk_now := t1\<rparr>\<rparr>) genuine now1 now1 =
       Some (\<lparr>stored = False, reason = Some ''rate limited''\<rparr>, n2)"
proof -
  let ?cfg = "rl_config (hk_limiter (dn_hook_state n))"
  have "\<forall>(t, now, m) \<in> set forged. publisher (store_descriptor_field m) = victim \<and>
       start \<le> t \<and> t \<le> start + from_secs (window_secs ?cfg)" using assms(6) by simp
  from serve_stores_fill [OF assms(1-3) refl assms(4) this refl] assms(5,7)
  obtain n1 where n1: "serve_stores P B forged n = Some n1" "node_ok P n1" "dn_hooks n1 = Some (hub_hook P Q c)"
    and cfg: "rl_config (hk_limiter (dn_hook_state n1)) = ?cfg"
    and dq: "\<forall>x \<in> set (deque_at (identity_windows (hk_limiter (dn_hook_state n1))) (identity_bytes victim) Op_store). start \<le> x"
      "length (deque_at (identity_windows (hk_limiter (dn_hook_state n1))) (identity_bytes victim) Op_store) = unat limit"
    using assms(3) by (auto simp: Let_def)
  let ?n = "n1\<lparr>dn_hook_state := (dn_hook_state n1)\<lparr>hk_now := t1\<rparr>\<rparr>"
  have g: "publisher (store_descriptor_field genuine) = victim" "t1 \<le> start + from_secs (window_secs ?cfg)"
    using assms(6) by auto
  have "recent_stores (hk_limiter (dn_hook_state n1)) victim t1 =
      deque_at (identity_windows (hk_limiter (dn_hook_state n1))) (identity_bytes victim) Op_store"
    unfolding recent_stores_def cfg using dq(1) g(2) by (auto intro!: prune_keeps)
  then have "\<not> limiter_allows (hk_limiter (dn_hook_state n1)) victim t1"
    using dq(2) assms(4) cfg by (simp add: limiter_allows_def)
  then have "fst (hub_pre_store P Q c (dn_hook_state ?n) (store_descriptor_field genuine)) = Err ''rate limited''"
    using g(1) by (simp add: hub_pre_store_result)
  moreover have ok: "node_ok P ?n" "dn_hooks ?n = Some (hub_hook P Q c)" using n1(2,3) by simp_all
  obtain r n2 where "handle_store P B ?n genuine now1 now1 = Some (r, n2)"
    and "\<forall>e. fst (hub_pre_store P Q c (dn_hook_state ?n) (store_descriptor_field genuine)) = Err e \<longrightarrow>
       r = \<lparr>stored = False, reason = Some e\<rparr> \<and> dn_store n2 = dn_store ?n"
    by (rule handle_store_hub [OF assms(1) ok, of B genuine now1 now1]) (rule that)
  ultimately show ?thesis using n1(1) by blast
qed

subsection \<open>Witness\<close>

definition demo_hub_policy :: policy_config where
  "demo_hub_policy = policy_config_default"

definition demo_hook_state :: hub_hook_state where
  "demo_hook_state = \<lparr>hk_limiter = hub_rate_limiter_new \<lparr>ip_limits = Map.empty, identity_limits = [Op_store \<mapsto> 1],
     window_secs = 60\<rparr>, hk_tenants = empty_db, hk_now = 0, hk_rate_limited = None\<rparr>"

definition demo_hooked :: "'s \<Rightarrow> ('s, hub_hook_state) dht_node" where
  "demo_hooked st = with_hooks (with_store pad_prims \<lparr>signing_key = [9]\<rparr> (node_addr_quic ''h:9'') dht_config_default
     st demo_hook_state) (hub_hook pad_prims demo_sqlite demo_hub_policy)"

lemma demo_hooked_ok [simp]: "node_ok pad_prims (demo_hooked st)"
  "dn_hooks (demo_hooked st) = Some (hub_hook pad_prims demo_sqlite demo_hub_policy)"
  "dn_hook_state (demo_hooked st) = demo_hook_state" "dn_store (demo_hooked st) = st"
proof -
  have "node_ok pad_prims (with_store pad_prims \<lparr>signing_key = [9]\<rparr> (node_addr_quic ''h:9'') dht_config_default
     st demo_hook_state)" by (rule node_ok_with_store) simp
  then show "node_ok pad_prims (demo_hooked st)" by (simp add: demo_hooked_def with_hooks_def node_ok_def)
qed (simp_all add: demo_hooked_def with_hooks_def with_store_def Let_def)

text \<open>A forged copy of the genuine descriptor of \<open>demo_store_msg\<close>, which does not validate.\<close>

definition forged_store_msg :: store_msg where
  "forged_store_msg = demo_store_msg\<lparr>store_descriptor_field := (demo_desc 7 1000)\<lparr>signature := []\<rparr>\<rparr>"

lemma forged_stores_lock_out_witness:
  "\<exists>n1 n2. serve_stores pad_prims (mem_backend pad_prims) [(5, 2000, forged_store_msg)] (demo_hooked descriptor_store_new) = Some n1 \<and>
     handle_store pad_prims (mem_backend pad_prims) (n1\<lparr>dn_hook_state := (dn_hook_state n1)\<lparr>hk_now := 9\<rparr>\<rparr>)
       demo_store_msg 2000 2000 = Some (\<lparr>stored = False, reason = Some ''rate limited''\<rparr>, n2)"
  by (rule forged_stores_lock_out [where start = 5 and limit = 1 and victim = "publisher (demo_desc 7 1000)"])
    (simp_all add: demo_hook_state_def hub_rate_limiter_new_def deque_at_def windows_at_def forged_store_msg_def
      demo_store_msg_def from_secs_def)

end
