(* ===== verification/Peering.thy ===== *)
theory Peering
  imports Hub_Policy Hub_Storage Lookup
begin

section \<open>mesh-hub: peering\<close>

text \<open>
  peering.rs: the table of peer hubs, connections, gossip, health checks, discovery and bootstrap.
  The QUIC endpoint, the clocks and the random message ids are the record \<open>quic\<close> over a world
  state of any type: peers may answer anything. A connection is a value of any type. The peer
  table is the list of its entries (keys distinct); the order stands for the unspecified
  iteration order of the source's hash map. The background tasks take the locks one after
  another; here each task runs through in one step and the network calls return (Hub_Tasks has the
  steps between the locks, and calls that never return).
\<close>

definition MAX_GOSSIP_BATCH :: nat where "MAX_GOSSIP_BATCH = 50"
definition UNHEALTHY_THRESHOLD :: u32 where "UNHEALTHY_THRESHOLD = 3"
definition DISCONNECT_THRESHOLD :: u32 where "DISCONNECT_THRESHOLD = 5"

record hub_metadata =
  hm_max_descriptors :: u64
  hm_regions :: "string list"
  hm_endpoint :: string

datatype peer_status = Connected | Disconnected | Unhealthy

record 'c peer_state =
  ps_connection :: "'c option"
  ps_addr :: node_addr
  ps_status :: peer_status
  ps_last_seen :: nat
  ps_failures :: u32

record 'c peer_manager =
  pm_identity :: identity
  pm_keypair :: keypair
  pm_addr :: node_addr
  pm_peers :: "(string \<times> 'c peer_state) list"
  pm_metadata :: hub_metadata
  pm_max_peers :: nat
  pm_allowlist :: "string list"

definition peer_manager_new ::
  "identity \<Rightarrow> keypair \<Rightarrow> node_addr \<Rightarrow> hub_metadata \<Rightarrow> nat \<Rightarrow> string list \<Rightarrow> 'c peer_manager" where
  "peer_manager_new i kp a md mx allow =
     \<lparr>pm_identity = i, pm_keypair = kp, pm_addr = a, pm_peers = [], pm_metadata = md,
      pm_max_peers = mx, pm_allowlist = allow\<rparr>"

text \<open>The metadata's CBOR, and what the tasks call of the outside.\<close>

record metadata_codec =
  enc_metadata :: "hub_metadata \<Rightarrow> mesh_error + bytes"
  dec_metadata :: "bytes \<Rightarrow> mesh_error + hub_metadata"

record ('c, 'w) quic =
  q_parse :: "string \<Rightarrow> string + socket_addr"
  q_connect :: "socket_addr \<Rightarrow> 'w \<Rightarrow> (transport_error + 'c) \<times> 'w"
  q_request :: "'c \<Rightarrow> frame \<Rightarrow> 'w \<Rightarrow> (transport_error + frame) \<times> 'w"
  q_id :: "'w \<Rightarrow> bytes \<times> 'w"
  q_instant :: "'w \<Rightarrow> nat \<times> 'w"
  q_micros :: "'w \<Rightarrow> u64 \<times> 'w"

definition request_new :: "('c, 'w) quic \<Rightarrow> 'c \<Rightarrow> u8 \<Rightarrow> bytes \<Rightarrow> 'w \<Rightarrow> (transport_error + frame) \<times> 'w" where
  "request_new Q c ty b w = (case q_id Q w of (i, w1) \<Rightarrow> q_request Q c (frame_new i ty b) w1)"

subsection \<open>Advertisement and discovery of descriptors\<close>

definition self_advertisement_descriptor ::
  "prims \<Rightarrow> metadata_codec \<Rightarrow> 'c peer_manager \<Rightarrow> u64 \<Rightarrow> mesh_error + descriptor" where
  "self_advertisement_descriptor P MC pm now =
     (case enc_metadata MC (pm_metadata pm) of
        Err e \<Rightarrow> Err e
      | Ok pl \<Rightarrow> Ok (create P (pm_keypair pm) (SCHEMA_HASH_INFRA_HUB P) ''hub'' pl now (now div 1000000) 3600
                    [ROUTING_KEY_INFRASTRUCTURE P, ROUTING_KEY_INFRASTRUCTURE_HUB P]))"

definition endpoint_to_node_addr :: "string \<Rightarrow> node_addr" where
  "endpoint_to_node_addr endpoint =
     node_addr_quic (case strip_prefix ''quic://'' endpoint of None \<Rightarrow> endpoint | Some s \<Rightarrow> s)"

fun discover_peers_from_descriptors ::
  "prims \<Rightarrow> metadata_codec \<Rightarrow> 'c peer_manager \<Rightarrow> descriptor list \<Rightarrow> (identity \<times> node_addr \<times> hub_metadata) list" where
  "discover_peers_from_descriptors P MC pm [] = []"
| "discover_peers_from_descriptors P MC pm (d # ds) =
     (if did P (publisher d) = did P (pm_identity pm) then discover_peers_from_descriptors P MC pm ds
      else (case dec_metadata MC (payload d) of
              Ok md \<Rightarrow> (publisher d, endpoint_to_node_addr (hm_endpoint md), md) #
                         discover_peers_from_descriptors P MC pm ds
            | Err e \<Rightarrow> discover_peers_from_descriptors P MC pm ds))"

subsection \<open>Connections\<close>

definition connected_peer_count :: "'c peer_manager \<Rightarrow> nat" where
  "connected_peer_count pm = length (filter (\<lambda>(d, p). ps_status p = Connected) (pm_peers pm))"

definition peer_statuses :: "'c peer_manager \<Rightarrow> (string \<times> peer_status \<times> u32) list" where
  "peer_statuses pm = map (\<lambda>(d, p). (d, ps_status p, ps_failures p)) (pm_peers pm)"

definition insert_peer :: "string \<Rightarrow> 'c peer_state \<Rightarrow> 'c peer_manager \<Rightarrow> 'c peer_manager" where
  "insert_peer d p pm = pm\<lparr>pm_peers := AList.update d p (pm_peers pm)\<rparr>"

datatype connect_error = Outbound_rejected address_validation_error | Connect_error transport_error

definition connect_to_peer ::
  "prims \<Rightarrow> ('c, 'w) quic \<Rightarrow> 'c peer_manager \<Rightarrow> identity \<Rightarrow> node_addr \<Rightarrow> 'w \<Rightarrow>
   (connect_error + unit) \<times> 'c peer_manager \<times> 'w" where
  "connect_to_peer P Q pm i a w =
     (let d = did P i in
      if connected_peer_count pm \<ge> pm_max_peers pm then (Ok (), pm, w)
      else if (case map_of (pm_peers pm) d of
                 Some p \<Rightarrow> ps_status p = Connected \<and> ps_connection p \<noteq> None | None \<Rightarrow> False)
      then (Ok (), pm, w)
      else
        (case validate_outbound_addr (q_parse Q) (address a) (pm_allowlist pm) of
           Err e \<Rightarrow> (Err (Outbound_rejected e), pm, w)
         | Ok sa \<Rightarrow>
             (case q_connect Q sa w of
                (Ok c, w1) \<Rightarrow>
                  let (t, w2) = q_instant Q w1 in
                  (Ok (), insert_peer d \<lparr>ps_connection = Some c, ps_addr = a, ps_status = Connected,
                     ps_last_seen = t, ps_failures = 0\<rparr> pm, w2)
              | (Err e, w1) \<Rightarrow>
                  let (t, w2) = q_instant Q w1 in
                  (Err (Connect_error e),
                   insert_peer d
                     (case map_of (pm_peers pm) d of
                        Some p \<Rightarrow> p\<lparr>ps_status := Disconnected, ps_failures := ps_failures p + 1\<rparr>
                      | None \<Rightarrow> \<lparr>ps_connection = None, ps_addr = a, ps_status = Disconnected,
                                 ps_last_seen = t, ps_failures = 1\<rparr>) pm, w2))))"

subsection \<open>Gossip\<close>

text \<open>A request over the peer's connection, if there is one.\<close>

definition ask_peer ::
  "('c, 'w) quic \<Rightarrow> 'c peer_manager \<Rightarrow> string \<Rightarrow> u8 \<Rightarrow> bytes \<Rightarrow> 'w \<Rightarrow> (transport_error + frame) option \<times> 'w" where
  "ask_peer Q pm d ty b w =
     (let (i, w1) = q_id Q w; fr = frame_new i ty b in
      case map_of (pm_peers pm) d of
        None \<Rightarrow> (None, w1)
      | Some p \<Rightarrow> (case ps_connection p of
          None \<Rightarrow> (None, w1)
        | Some c \<Rightarrow> (case q_request Q c fr w1 of (r, w2) \<Rightarrow> (Some r, w2))))"

fun gossip_to ::
  "codec \<Rightarrow> ('c, 'w) quic \<Rightarrow> 'c peer_manager \<Rightarrow> string \<Rightarrow> descriptor list \<Rightarrow> u32 \<Rightarrow> 'w \<Rightarrow> u32 \<times> 'w" where
  "gossip_to C Q pm d [] failures w = (failures, w)"
| "gossip_to C Q pm d (desc # batch) failures w =
     (case to_cbor C (WStore \<lparr>store_sender = pm_identity pm, store_sender_addr = pm_addr pm,
                              store_descriptor_field = desc\<rparr>) of
        Err e \<Rightarrow> gossip_to C Q pm d batch failures w
      | Ok b \<Rightarrow>
          (case ask_peer Q pm d MSG_STORE b w of
             (Some (Ok r), w1) \<Rightarrow> gossip_to C Q pm d batch failures w1
           | (_, w1) \<Rightarrow> gossip_to C Q pm d batch (failures + 1) w1))"

text \<open>\<open>peers.get_mut(&did)\<close> with an update.\<close>

definition modify_peer :: "string \<Rightarrow> ('c peer_state \<Rightarrow> 'c peer_state) \<Rightarrow> 'c peer_manager \<Rightarrow> 'c peer_manager" where
  "modify_peer d f pm =
     (case map_of (pm_peers pm) d of None \<Rightarrow> pm | Some p \<Rightarrow> insert_peer d (f p) pm)"

fun gossip_peers ::
  "codec \<Rightarrow> ('c, 'w) quic \<Rightarrow> descriptor list \<Rightarrow> string list \<Rightarrow> 'c peer_manager \<Rightarrow> 'w \<Rightarrow> 'c peer_manager \<times> 'w" where
  "gossip_peers C Q batch [] pm w = (pm, w)"
| "gossip_peers C Q batch (d # ds) pm w =
     (let (failures, w1) = gossip_to C Q pm d batch 0 w
      in gossip_peers C Q batch ds
           (if failures > 0 then modify_peer d (\<lambda>p. p\<lparr>ps_failures := ps_failures p + failures\<rparr>) pm else pm) w1)"

definition gossip_round ::
  "codec \<Rightarrow> ('c, 'w) quic \<Rightarrow> descriptor list \<Rightarrow> 'c peer_manager \<Rightarrow> 'w \<Rightarrow> 'c peer_manager \<times> 'w" where
  "gossip_round C Q descriptors pm w =
     (let batch = take MAX_GOSSIP_BATCH descriptors in
      if batch = [] then (pm, w)
      else gossip_peers C Q batch
        (map fst (filter (\<lambda>(d, p). ps_status p = Connected \<and> ps_connection p \<noteq> None) (pm_peers pm))) pm w)"

subsection \<open>Health checks\<close>

text \<open>One more failure of a peer.\<close>

definition fail_peer :: "'c peer_state \<Rightarrow> 'c peer_state" where
  "fail_peer p =
     (let failures = ps_failures p + 1; p1 = p\<lparr>ps_failures := failures\<rparr> in
      if failures \<ge> DISCONNECT_THRESHOLD then p1\<lparr>ps_status := Disconnected, ps_connection := None\<rparr>
      else if failures \<ge> UNHEALTHY_THRESHOLD then p1\<lparr>ps_status := Unhealthy\<rparr>
      else p1)"

definition health_check_peer ::
  "codec \<Rightarrow> ('c, 'w) quic \<Rightarrow> string \<Rightarrow> 'c peer_manager \<Rightarrow> 'w \<Rightarrow> 'c peer_manager \<times> 'w" where
  "health_check_peer C Q d pm w =
     (case to_cbor C (WPing \<lparr>ping_sender = pm_identity pm, ping_sender_addr = pm_addr pm\<rparr>) of
        Err e \<Rightarrow> (pm, w)
      | Ok b \<Rightarrow>
          (case ask_peer Q pm d MSG_PING b w of
             (Some (Ok response), w1) \<Rightarrow>
               if msg_type response = MSG_PONG then
                 if is_ok (from_cbor_pong C (body response)) then
                   let (t, w2) = q_instant Q w1 in
                   (modify_peer d (\<lambda>p. p\<lparr>ps_failures := 0, ps_status := Connected, ps_last_seen := t\<rparr>) pm, w2)
                 else (pm, w1)
               else (modify_peer d fail_peer pm, w1)
           | (_, w1) \<Rightarrow> (modify_peer d fail_peer pm, w1)))"

fun health_check_peers ::
  "codec \<Rightarrow> ('c, 'w) quic \<Rightarrow> string list \<Rightarrow> 'c peer_manager \<Rightarrow> 'w \<Rightarrow> 'c peer_manager \<times> 'w" where
  "health_check_peers C Q [] pm w = (pm, w)"
| "health_check_peers C Q (d # ds) pm w =
     (case health_check_peer C Q d pm w of (pm1, w1) \<Rightarrow> health_check_peers C Q ds pm1 w1)"

definition health_check :: "codec \<Rightarrow> ('c, 'w) quic \<Rightarrow> 'c peer_manager \<Rightarrow> 'w \<Rightarrow> 'c peer_manager \<times> 'w" where
  "health_check C Q pm w =
     health_check_peers C Q (map fst (filter (\<lambda>(d, p). ps_status p \<noteq> Disconnected) (pm_peers pm))) pm w"

subsection \<open>The hub's storage and the background tasks\<close>

text \<open>A hub's node: the cached disk store behind it, the hub's hook in front. The flag that lifts
  the store's own rate limit is set around the stores of a task.\<close>

type_synonym ('db, 'm) hub_store = "('db redb_storage, 'm) cached_storage"
type_synonym ('db, 'm) hub_node = "(('db, 'm) hub_store, hub_hook_state) dht_node"

abbreviation hub_backend :: "prims \<Rightarrow> 'db redb \<Rightarrow> 'm cache \<Rightarrow> ('db, 'm) hub_store backend" where
  "hub_backend P R M \<equiv> cached_backend (redb_backend P R) M"

definition set_skip :: "bool \<Rightarrow> ('db, 'm) hub_store \<Rightarrow> ('db, 'm) hub_store" where
  "set_skip b s = s\<lparr>cs_inner := (cs_inner s)\<lparr>skip_rate_limit := b\<rparr>\<rparr>"

definition publish_self_advertisement ::
  "prims \<Rightarrow> metadata_codec \<Rightarrow> 's backend \<Rightarrow> bool \<Rightarrow> 'c peer_manager \<Rightarrow> ('s, 'h) dht_node \<Rightarrow> u64 \<Rightarrow> u64 \<Rightarrow> u64 \<Rightarrow>
   ('s, 'h) dht_node option" where
  "publish_self_advertisement P MC B locked pm n now now' now'' =
     (if locked then Some n
      else (case self_advertisement_descriptor P MC pm now of
              Err e \<Rightarrow> Some n
            | Ok d \<Rightarrow> map_option snd (handle_store P B n \<lparr>store_sender = pm_identity pm,
                store_sender_addr = pm_addr pm, store_descriptor_field = d\<rparr> now' now'')))"

fun connect_discovered ::
  "prims \<Rightarrow> ('c, 'w) quic \<Rightarrow> (identity \<times> node_addr \<times> hub_metadata) list \<Rightarrow> 'c peer_manager \<Rightarrow> 'w \<Rightarrow>
   'c peer_manager \<times> 'w" where
  "connect_discovered P Q [] pm w = (pm, w)"
| "connect_discovered P Q ((i, a, md) # rest) pm w =
     (if (case map_of (pm_peers pm) (did P i) of None \<Rightarrow> True | Some p \<Rightarrow> ps_status p = Disconnected)
      then (case connect_to_peer P Q pm i a w of (r, pm1, w1) \<Rightarrow> connect_discovered P Q rest pm1 w1)
      else connect_discovered P Q rest pm w)"

definition run_discovery ::
  "prims \<Rightarrow> metadata_codec \<Rightarrow> ('c, 'w) quic \<Rightarrow> 's backend \<Rightarrow> ('s, 'h) dht_node \<Rightarrow> 'c peer_manager \<Rightarrow> 'w \<Rightarrow>
   ('s, 'h) dht_node \<times> 'c peer_manager \<times> 'w" where
  "run_discovery P MC Q B n pm w =
     (let (now, w1) = q_micros Q w;
          (descriptors, st) = be_get B (dn_store n) (ROUTING_KEY_INFRASTRUCTURE_HUB P) None now;
          n1 = n\<lparr>dn_store := st\<rparr>
      in if descriptors = [] then (n1, pm, w1)
         else (case connect_discovered P Q (discover_peers_from_descriptors P MC pm descriptors) pm w1 of
                 (pm1, w2) \<Rightarrow> (n1, pm1, w2)))"

fun store_each :: "'s backend \<Rightarrow> ('c, 'w) quic \<Rightarrow> descriptor list \<Rightarrow> 's \<Rightarrow> 'w \<Rightarrow> 's \<times> 'w" where
  "store_each B Q [] s w = (s, w)"
| "store_each B Q (d # ds) s w =
     (case q_micros Q w of (now, w1) \<Rightarrow> store_each B Q ds (snd (be_store B s d now)) w1)"

text \<open>The identity a seed peer answers with.\<close>

definition ping_seed ::
  "codec \<Rightarrow> ('c, 'w) quic \<Rightarrow> 'c \<Rightarrow> bytes \<Rightarrow> bytes \<Rightarrow> 'w \<Rightarrow> identity option \<times> 'w" where
  "ping_seed C Q c ping_id ping_body w =
     (case q_request Q c (frame_new ping_id MSG_PING ping_body) w of
        (Ok resp, w1) \<Rightarrow>
          if msg_type resp = MSG_PONG then
            (case from_cbor_pong C (body resp) of Ok pg \<Rightarrow> (Some (pong_sender pg), w1) | Err _ \<Rightarrow> (None, w1))
          else (None, w1)
      | (Err _, w1) \<Rightarrow> (None, w1))"

definition fetch_hub_ads ::
  "prims \<Rightarrow> codec \<Rightarrow> ('c, 'w) quic \<Rightarrow> 'c \<Rightarrow> bytes \<Rightarrow> 'w \<Rightarrow> descriptor list \<times> 'w" where
  "fetch_hub_ads P C Q c find_body w =
     (case request_new Q c MSG_FIND_VALUE find_body w of
        (Ok resp, w1) \<Rightarrow>
          (if msg_type resp = MSG_FIND_VALUE_RESULT then
             (case from_cbor_find_value_result C (body resp) of
                Ok result \<Rightarrow> (case fvr_descriptors result of Some ds \<Rightarrow> ds | None \<Rightarrow> [])
              | Err _ \<Rightarrow> [])
           else [], w1)
      | (Err _, w1) \<Rightarrow> ([], w1))"

definition bootstrap_seed ::
  "prims \<Rightarrow> codec \<Rightarrow> ('c, 'w) quic \<Rightarrow> 'db redb \<Rightarrow> 'm cache \<Rightarrow> string \<Rightarrow>
   ('db, 'm) hub_store \<times> 'c peer_manager \<times> 'w \<Rightarrow> ('db, 'm) hub_store \<times> 'c peer_manager \<times> 'w" where
  "bootstrap_seed P C Q R M seed = (\<lambda>(s, pm, w).
     case to_cbor C (WPing \<lparr>ping_sender = pm_identity pm, ping_sender_addr = pm_addr pm\<rparr>) of
       Err _ \<Rightarrow> (s, pm, w)
     | Ok ping_body \<Rightarrow>
         let (ping_id, w0) = q_id Q w in
         (case validate_outbound_addr (q_parse Q) seed (pm_allowlist pm) of
            Err _ \<Rightarrow> (s, pm, w0)
          | Ok sa \<Rightarrow>
         (case q_connect Q sa w0 of
            (Err _, w1) \<Rightarrow> (s, pm, w1)
          | (Ok c, w1) \<Rightarrow>
         (case ping_seed C Q c ping_id ping_body w1 of
            (None, w2) \<Rightarrow> (s, pm, w2)
          | (Some peer_id, w2) \<Rightarrow>
         (case to_cbor C (WFindValue \<lparr>fv_sender = pm_identity pm, fv_sender_addr = pm_addr pm,
                 fv_key = ROUTING_KEY_INFRASTRUCTURE_HUB P, fv_max_results = 50, fv_filters = None\<rparr>) of
            Err _ \<Rightarrow> (s, pm, w2)
          | Ok find_body \<Rightarrow>
              let (ds, w3) = fetch_hub_ads P C Q c find_body w2;
                  (s1, w4) = store_each (hub_backend P R M) Q ds (set_skip True s) w3;
                  (t, w5) = q_instant Q w4
              in (set_skip False s1,
                  insert_peer (did P peer_id) \<lparr>ps_connection = Some c, ps_addr = node_addr_quic seed,
                    ps_status = Connected, ps_last_seen = t, ps_failures = 0\<rparr> pm, w5))))))"

definition bootstrap_from_seeds ::
  "prims \<Rightarrow> codec \<Rightarrow> ('c, 'w) quic \<Rightarrow> 'db redb \<Rightarrow> 'm cache \<Rightarrow> string list \<Rightarrow>
   ('db, 'm) hub_store \<times> 'c peer_manager \<times> 'w \<Rightarrow> ('db, 'm) hub_store \<times> 'c peer_manager \<times> 'w" where
  "bootstrap_from_seeds P C Q R M seeds = fold (bootstrap_seed P C Q R M) seeds"

definition run_gossip_round ::
  "codec \<Rightarrow> ('c, 'w) quic \<Rightarrow> 'db redb \<Rightarrow> ('db, 'm) hub_store \<Rightarrow> 'c peer_manager \<Rightarrow> 'w \<Rightarrow> 'c peer_manager \<times> 'w" where
  "run_gossip_round C Q R s pm w =
     (let (now, w1) = q_micros Q w; descriptors = all_descriptors R (cs_inner s) now in
      if descriptors = [] then (pm, w1) else gossip_round C Q descriptors pm w1)"

definition run_health_check :: "codec \<Rightarrow> ('c, 'w) quic \<Rightarrow> 'c peer_manager \<Rightarrow> 'w \<Rightarrow> 'c peer_manager \<times> 'w" where
  "run_health_check C Q pm w = health_check C Q pm w"

subsection \<open>What goes out\<close>

text \<open>What a task does to the outside: connections to addresses of a set, requests, clock readings.\<close>

inductive outbound_step :: "('c, 'w) quic \<Rightarrow> (socket_addr \<Rightarrow> bool) \<Rightarrow> 'w \<Rightarrow> 'w \<Rightarrow> bool" for Q ok where
  out_connect: "ok sa \<Longrightarrow> outbound_step Q ok w (snd (q_connect Q sa w))"
| out_request: "outbound_step Q ok w (snd (q_request Q c fr w))"
| out_id: "outbound_step Q ok w (snd (q_id Q w))"
| out_instant: "outbound_step Q ok w (snd (q_instant Q w))"
| out_micros: "outbound_step Q ok w (snd (q_micros Q w))"

abbreviation outbound :: "('c, 'w) quic \<Rightarrow> (socket_addr \<Rightarrow> bool) \<Rightarrow> 'w \<Rightarrow> 'w \<Rightarrow> bool" where
  "outbound Q ok \<equiv> rtranclp (outbound_step Q ok)"

text \<open>The addresses that a manager may connect to: what the outbound filter lets through.\<close>

definition allowed_addr :: "('c, 'w) quic \<Rightarrow> string list \<Rightarrow> socket_addr \<Rightarrow> bool" where
  "allowed_addr Q allow sa \<longleftrightarrow>
     (\<exists>a. q_parse Q a = Ok sa \<and> (a \<in> set allow \<or> \<not> is_private_ip (sa_ip sa)))"

lemma validated_allowed: "validate_outbound_addr (q_parse Q) a allow = Ok sa \<Longrightarrow> allowed_addr Q allow sa"
  by (auto simp: validate_outbound_addr_def allowed_addr_def list_ex_iff split: sum.splits if_splits)

text \<open>What the tasks keep of a manager: everything but the peer table.\<close>

definition same_config :: "'c peer_manager \<Rightarrow> 'c peer_manager \<Rightarrow> bool" where
  "same_config pm pm' \<longleftrightarrow> pm' = pm\<lparr>pm_peers := pm_peers pm'\<rparr>"

lemma same_config_refl [simp]: "same_config pm pm"
  by (simp add: same_config_def)

lemma same_config_sel:
  assumes "same_config pm pm'"
  shows "pm_identity pm' = pm_identity pm" "pm_keypair pm' = pm_keypair pm" "pm_addr pm' = pm_addr pm"
    "pm_metadata pm' = pm_metadata pm" "pm_max_peers pm' = pm_max_peers pm" "pm_allowlist pm' = pm_allowlist pm"
  using assms unfolding same_config_def by (metis peer_manager.select_convs peer_manager.update_convs(4) peer_manager.surjective)+

lemma same_config_trans: "same_config a b \<Longrightarrow> same_config b c \<Longrightarrow> same_config a c"
  unfolding same_config_def by (metis peer_manager.select_convs(4) peer_manager.update_convs(4) peer_manager.surjective)

lemma same_config_insert [simp]: "same_config pm (insert_peer d p pm)"
  by (simp add: same_config_def insert_peer_def)

lemma same_config_modify [simp]: "same_config pm (modify_peer d f pm)"
  by (simp add: modify_peer_def split: option.split)

lemma out_trans: "outbound Q ok a b \<Longrightarrow> outbound Q ok b c \<Longrightarrow> outbound Q ok a c"
  by (rule rtranclp_trans)

lemma out_reads:
  "q_id Q w = (x, w1) \<Longrightarrow> outbound Q ok w w1"
  "q_instant Q w = (t, w1) \<Longrightarrow> outbound Q ok w w1"
  "q_micros Q w = (m, w1) \<Longrightarrow> outbound Q ok w w1"
  "q_request Q c fr w = (r, w1) \<Longrightarrow> outbound Q ok w w1"
  "ok sa \<Longrightarrow> q_connect Q sa w = (k, w1) \<Longrightarrow> outbound Q ok w w1"
  by (metis out_id out_instant out_micros out_request out_connect snd_conv r_into_rtranclp)+

lemma connect_out:
  assumes "connect_to_peer P Q pm i a w = (r, pm', w')"
  shows "outbound Q (allowed_addr Q (pm_allowlist pm)) w w' \<and> same_config pm pm'"
  using assms
  by (auto simp: connect_to_peer_def Let_def dest!: validated_allowed
      intro: out_trans out_reads split: if_splits option.splits sum.splits prod.splits)

lemma connect_discovered_out:
  "connect_discovered P Q ds pm w = (pm', w') \<Longrightarrow>
     outbound Q (allowed_addr Q (pm_allowlist pm)) w w' \<and> same_config pm pm'"
proof (induction P Q ds pm w rule: connect_discovered.induct)
  case (2 P Q i a md rest pm w)
  show ?case
  proof (cases "case map_of (pm_peers pm) (did P i) of None \<Rightarrow> True | Some p \<Rightarrow> ps_status p = Disconnected")
    case True
    obtain r pm1 w1 where c: "connect_to_peer P Q pm i a w = (r, pm1, w1)" by (rule prod_cases3)
    note out = connect_out [OF c]
    have "connect_discovered P Q rest pm1 w1 = (pm', w')" using "2.prems" True c by simp
    from "2.IH"(1) [OF True c [symmetric] refl this] out show ?thesis
      by (auto simp: same_config_sel(6) intro: out_trans same_config_trans)
  qed (use 2 in simp)
qed simp

lemma ask_peer_out: "ask_peer Q pm d ty b w = (r, w') \<Longrightarrow> outbound Q ok w w'"
  by (auto simp: ask_peer_def Let_def intro: out_trans out_reads split: option.splits prod.splits)

lemma gossip_to_out: "gossip_to C Q pm d batch failures w = (k, w') \<Longrightarrow> outbound Q ok w w'"
proof (induction C Q pm d batch failures w rule: gossip_to.induct)
  case (2 C Q pm d desc batch failures w)
  show ?case
  proof (cases "to_cbor C (WStore \<lparr>store_sender = pm_identity pm, store_sender_addr = pm_addr pm,
      store_descriptor_field = desc\<rparr>)")
    case (Inr b)
    obtain r w1 where a: "ask_peer Q pm d MSG_STORE b w = (r, w1)" by (rule prod.exhaust)
    then have "outbound Q ok w w1" by (rule ask_peer_out)
    moreover have "outbound Q ok w1 w'"
    proof (cases "\<exists>f. r = Some (Ok f)")
      case True
      then show ?thesis using 2 Inr a by auto
    next
      case False
      then have "gossip_to C Q pm d batch (failures + 1) w1 = (k, w')"
        using "2.prems" Inr a by (cases r; cases "the r") auto
      then show ?thesis using False "2.IH" Inr a by (cases r; cases "the r") auto
    qed
    ultimately show ?thesis by (rule out_trans)
  qed (use 2 in simp)
qed simp

lemma gossip_peers_out:
  "gossip_peers C Q batch ds pm w = (pm', w') \<Longrightarrow> outbound Q ok w w' \<and> same_config pm pm'"
proof (induction C Q batch ds pm w rule: gossip_peers.induct)
  case (2 C Q batch d ds pm w)
  obtain k w1 where g: "gossip_to C Q pm d batch 0 w = (k, w1)" by (rule prod.exhaust)
  let ?pm = "if k > 0 then modify_peer d (\<lambda>p. p\<lparr>ps_failures := ps_failures p + k\<rparr>) pm else pm"
  have "gossip_peers C Q batch ds ?pm w1 = (pm', w')" using "2.prems" g by simp
  then have "outbound Q ok w1 w' \<and> same_config ?pm pm'" by (rule "2.IH" [OF g [symmetric] refl])
  moreover have "same_config pm ?pm" by simp
  ultimately show ?case using gossip_to_out [OF g] by (blast intro: out_trans same_config_trans)
qed simp

lemma health_check_peer_out:
  "health_check_peer C Q d pm w = (pm', w') \<Longrightarrow> outbound Q ok w w' \<and> same_config pm pm'"
  by (auto simp: health_check_peer_def Let_def intro: ask_peer_out out_trans out_reads
      split: option.splits sum.splits prod.splits if_splits)

lemma health_check_peers_out:
  "health_check_peers C Q ds pm w = (pm', w') \<Longrightarrow> outbound Q ok w w' \<and> same_config pm pm'"
proof (induction C Q ds pm w rule: health_check_peers.induct)
  case (2 C Q d ds pm w)
  obtain pm1 w1 where h: "health_check_peer C Q d pm w = (pm1, w1)" by (rule prod.exhaust)
  then show ?case using 2 health_check_peer_out [OF h] by (auto intro: out_trans same_config_trans)
qed simp

lemma store_each_out: "store_each B Q ds s w = (s', w') \<Longrightarrow> outbound Q ok w w'"
  by (induction B Q ds s w rule: store_each.induct)
    (auto intro: out_trans out_reads split: prod.splits)

lemma ping_seed_out: "ping_seed C Q c i b w = (r, w') \<Longrightarrow> outbound Q ok w w'"
  by (auto simp: ping_seed_def intro: out_reads split: prod.splits sum.splits if_splits)

lemma fetch_hub_ads_out: "fetch_hub_ads P C Q c b w = (ds, w') \<Longrightarrow> outbound Q ok w w'"
  by (auto simp: fetch_hub_ads_def request_new_def intro: out_trans out_reads split: prod.splits sum.splits)

lemma bootstrap_seed_out:
  assumes "bootstrap_seed P C Q R M seed (s, pm, w) = (s', pm', w')"
  shows "outbound Q (allowed_addr Q (pm_allowlist pm)) w w' \<and> same_config pm pm'"
proof (cases "to_cbor C (WPing \<lparr>ping_sender = pm_identity pm, ping_sender_addr = pm_addr pm\<rparr>)")
  case (Inl e)
  then show ?thesis using assms by (simp add: bootstrap_seed_def)
next
  case enc: (Inr ping_body)
  let ?out = "outbound Q (allowed_addr Q (pm_allowlist pm))"
  obtain ping_id w0 where w0: "q_id Q w = (ping_id, w0)" by (rule prod.exhaust)
  note o0 = out_reads(1) [OF w0, of "allowed_addr Q (pm_allowlist pm)"]
  show ?thesis
  proof (cases "validate_outbound_addr (q_parse Q) seed (pm_allowlist pm)")
    case (Inl e)
    then show ?thesis using assms enc w0 o0 by (simp add: bootstrap_seed_def)
  next
    case sa: (Inr sa)
    obtain k w1 where w1: "q_connect Q sa w0 = (k, w1)" by (rule prod.exhaust)
    have o1: "?out w w1" by (rule out_trans [OF o0 out_reads(5) [where ok = "allowed_addr Q (pm_allowlist pm)", OF validated_allowed [OF sa] w1]])
    show ?thesis
    proof (cases k)
      case (Inl e)
      then show ?thesis using assms enc w0 sa w1 o1 by (simp add: bootstrap_seed_def)
    next
      case c: (Inr c)
      obtain pid w2 where w2: "ping_seed C Q c ping_id ping_body w1 = (pid, w2)" by (rule prod.exhaust)
      have o2: "?out w w2" by (rule out_trans [OF o1 ping_seed_out [OF w2]])
      define ds w3 where "ds = (\<lambda>b. fst (fetch_hub_ads P C Q c b w2))" and "w3 = (\<lambda>b. snd (fetch_hub_ads P C Q c b w2))"
      then have w3: "fetch_hub_ads P C Q c b w2 = (ds b, w3 b)" for b by simp
      have o5: "?out w w5" if "store_each (hub_backend P R M) Q (ds b) (set_skip True s) (w3 b) = (s1, w4)"
        and "q_instant Q w4 = (t, w5)" for b s1 w4 t w5
        using o2 fetch_hub_ads_out [OF w3 [of b]] store_each_out [OF that(1)] out_reads(2) [OF that(2)]
        by (meson out_trans)
      show ?thesis using assms enc w0 sa w1 c w2 w3 o2 o5
        by (auto simp: bootstrap_seed_def Let_def split: option.splits sum.splits prod.splits)
    qed
  qed
qed

lemma bootstrap_out:
  "bootstrap_from_seeds P C Q R M seeds (s, pm, w) = (s', pm', w') \<Longrightarrow>
     outbound Q (allowed_addr Q (pm_allowlist pm)) w w' \<and> same_config pm pm'"
proof (induction seeds arbitrary: s pm w)
  case Nil
  then show ?case by (simp add: bootstrap_from_seeds_def)
next
  case (Cons seed seeds)
  obtain s1 pm1 w1 where b: "bootstrap_seed P C Q R M seed (s, pm, w) = (s1, pm1, w1)" by (rule prod_cases3)
  then have "bootstrap_from_seeds P C Q R M seeds (s1, pm1, w1) = (s', pm', w')"
    using Cons.prems by (simp add: bootstrap_from_seeds_def)
  from Cons.IH [OF this] bootstrap_seed_out [OF b] show ?case
    by (auto simp: same_config_sel(6) intro: out_trans same_config_trans)
qed

text \<open>C20. No request forgery through peering: whatever seeds the configuration names, advertisements
  the storage holds and peers answer, bootstrap, discovery, gossip and health checks open
  connections only to addresses that the outbound filter admits (public, or allowlisted
  verbatim); no task changes the allowlist or the hub's identity.\<close>

theorem outbound_connections_filtered:
  assumes "bootstrap_from_seeds P C Q R M seeds (s, pm, w) = (s1, pm1, w1)"
    and "run_discovery P MC Q B n pm1 w1 = (n2, pm2, w2)"
    and "run_gossip_round C Q R s3 pm2 w2 = (pm3, w3)"
    and "run_health_check C Q pm3 w3 = (pm4, w4)"
  shows "outbound Q (allowed_addr Q (pm_allowlist pm)) w w4 \<and> same_config pm pm4"
proof -
  let ?out = "outbound Q (allowed_addr Q (pm_allowlist pm))"
  note 1 = bootstrap_out [OF assms(1)]
  then have al: "pm_allowlist pm1 = pm_allowlist pm" by (simp add: same_config_sel)
  have 2: "?out w1 w2 \<and> same_config pm1 pm2"
    using assms(2) unfolding al [symmetric]
    by (auto simp: run_discovery_def Let_def intro: out_reads out_trans
        dest!: connect_discovered_out split: prod.splits if_splits)
  have 3: "?out w2 w3 \<and> same_config pm2 pm3"
    using assms(3)
    by (auto simp: run_gossip_round_def gossip_round_def Let_def intro: out_reads out_trans
        dest!: gossip_peers_out [where ok = "allowed_addr Q (pm_allowlist pm)"] split: prod.splits if_splits)
  have 4: "?out w3 w4 \<and> same_config pm3 pm4"
    using assms(4) health_check_peers_out by (simp add: run_health_check_def health_check_def)
  from 1 2 3 4 show ?thesis by (blast intro: out_trans same_config_trans)
qed

subsection \<open>Peers that do not answer\<close>

lemma map_of_insert_peer [simp]: "map_of (pm_peers (insert_peer d p pm)) = (map_of (pm_peers pm))(d \<mapsto> p)"
  by (simp add: insert_peer_def AList.update_conv')

lemma map_of_modify_peer [simp]:
  "map_of (pm_peers (modify_peer d f pm)) e = (if e = d then map_option f (map_of (pm_peers pm) d) else map_of (pm_peers pm) e)"
  by (auto simp: modify_peer_def split: option.split)

lemma keys_modify_peer [simp]: "map fst (pm_peers (modify_peer d f pm)) = map fst (pm_peers pm)"
proof (cases "map_of (pm_peers pm) d")
  case (Some p)
  then have "d \<in> set (map fst (pm_peers pm))" by (auto dest!: map_of_SomeD intro: rev_image_eqI)
  then show ?thesis by (simp add: modify_peer_def Some insert_peer_def AList.update_keys)
qed (simp add: modify_peer_def)

lemma length_insert_peer: "length (pm_peers (insert_peer d p pm)) \<le> Suc (length (pm_peers pm))"
proof -
  have "length (map fst (AList.update d p (pm_peers pm))) \<le> Suc (length (map fst (pm_peers pm)))"
    unfolding AList.update_keys by simp
  then show ?thesis by (simp add: insert_peer_def)
qed

text \<open>A peer without a connection, or whose requests all return an error, as over a connection that was
  lost. (A peer that accepts a request and never answers is not failing: the call does not return,
  see \<open>Hub_Tasks\<close>.)\<close>

definition failing :: "('c, 'w) quic \<Rightarrow> 'c peer_state \<Rightarrow> bool" where
  "failing Q p \<longleftrightarrow> (case ps_connection p of None \<Rightarrow> True | Some c \<Rightarrow> \<forall>fr w. \<not> is_ok (fst (q_request Q c fr w)))"

lemma failing_fail_peer [simp]: "failing Q p \<Longrightarrow> failing Q (fail_peer p)"
  by (simp add: failing_def fail_peer_def Let_def)

definition own_ping :: "'c peer_manager \<Rightarrow> wire" where
  "own_ping pm = WPing \<lparr>ping_sender = pm_identity pm, ping_sender_addr = pm_addr pm\<rparr>"

lemma own_ping_same: "same_config pm pm' \<Longrightarrow> own_ping pm' = own_ping pm"
  by (simp add: own_ping_def same_config_sel)

lemma health_check_peer_keys:
  "map fst (pm_peers (fst (health_check_peer C Q d pm w))) = map fst (pm_peers pm)"
  by (simp add: health_check_peer_def Let_def case_prod_unfold split: sum.split option.split)

lemma health_check_peer_other:
  "e \<noteq> d \<Longrightarrow> map_of (pm_peers (fst (health_check_peer C Q d pm w))) e = map_of (pm_peers pm) e"
  by (simp add: health_check_peer_def Let_def case_prod_unfold split: sum.split option.split)

lemma health_check_peer_failing:
  assumes "map_of (pm_peers pm) d = Some p" and "failing Q p" and "to_cbor C (own_ping pm) = Ok b"
  shows "fst (health_check_peer C Q d pm w) = modify_peer d fail_peer pm"
proof -
  obtain r w1 where a: "ask_peer Q pm d MSG_PING b w = (r, w1)" by (rule prod.exhaust)
  then have "r = None \<or> (\<exists>e. r = Some (Err e))"
    using assms(1,2) by (cases "ps_connection p"; cases "the r")
      (auto simp: ask_peer_def Let_def failing_def split: prod.splits, metis fst_conv is_ok_simps(1))
  then show ?thesis using assms(3) a by (auto simp: health_check_peer_def own_ping_def)
qed

lemma health_check_peers_failing:
  assumes "distinct ds" and "map_of (pm_peers pm) d = Some p" and "failing Q p" and "to_cbor C (own_ping pm) = Ok b"
  shows "map_of (pm_peers (fst (health_check_peers C Q ds pm w))) d = Some (if d \<in> set ds then fail_peer p else p) \<and>
     map fst (pm_peers (fst (health_check_peers C Q ds pm w))) = map fst (pm_peers pm)"
  using assms
proof (induction ds arbitrary: pm w p)
  case (Cons e ds)
  obtain pm1 w1 where h: "health_check_peer C Q e pm w = (pm1, w1)" by (rule prod.exhaust)
  have keys: "map fst (pm_peers pm1) = map fst (pm_peers pm)"
    using health_check_peer_keys [of C Q e pm w] h by simp
  have ping: "to_cbor C (own_ping pm1) = Ok b"
    using own_ping_same health_check_peer_out [OF h] Cons.prems(4) by metis
  show ?case
  proof (cases "e = d")
    case True
    then have "map_of (pm_peers pm1) d = Some (fail_peer p)"
      using health_check_peer_failing [OF Cons.prems(2-4), of w] h Cons.prems(2) by simp
    from Cons.IH [OF _ this _ ping, of w1] show ?thesis using Cons.prems(1,3) True h keys by simp
  next
    case False
    then have "map_of (pm_peers pm1) d = Some p"
      using health_check_peer_other [of d e C Q pm w] h Cons.prems(2) by simp
    from Cons.IH [OF _ this _ ping, of w1] show ?thesis using Cons.prems(1,3) False h keys by simp
  qed
qed simp

lemma health_check_failing:
  assumes "distinct (map fst (pm_peers pm))" and "map_of (pm_peers pm) d = Some p" and "failing Q p"
    and "to_cbor C (own_ping pm) = Ok b"
  shows "map_of (pm_peers (fst (health_check C Q pm w))) d =
       Some (if ps_status p = Disconnected then p else fail_peer p) \<and>
     map fst (pm_peers (fst (health_check C Q pm w))) = map fst (pm_peers pm)"
proof -
  let ?ds = "map fst (filter (\<lambda>(d, p). ps_status p \<noteq> Disconnected) (pm_peers pm))"
  have "distinct ?ds" using assms(1) by (rule distinct_map_filter)
  moreover have "d \<in> set ?ds \<longleftrightarrow> ps_status p \<noteq> Disconnected"
    using assms(1,2) by (auto simp: image_iff dest: map_of_SomeD)
      (metis assms(1) map_of_eq_Some_iff option.inject)
  ultimately show ?thesis
    using health_check_peers_failing [OF _ assms(2-4), of ?ds w] by (simp add: health_check_def)
qed

text \<open>The rounds of health checks.\<close>

definition health_rounds ::
  "codec \<Rightarrow> ('c, 'w) quic \<Rightarrow> nat \<Rightarrow> 'c peer_manager \<Rightarrow> 'w \<Rightarrow> 'c peer_manager \<times> 'w" where
  "health_rounds C Q k pm w = ((\<lambda>(pm, w). run_health_check C Q pm w) ^^ k) (pm, w)"

lemma health_rounds_Suc:
  "health_rounds C Q (Suc k) pm w = (case health_rounds C Q k pm w of (pm1, w1) \<Rightarrow> health_check C Q pm1 w1)"
  by (simp add: health_rounds_def run_health_check_def)

lemma fail_peer_fields:
  "ps_failures (fail_peer p) = ps_failures p + 1"
  "ps_status (fail_peer p) = (if ps_failures p + 1 \<ge> 5 then Disconnected
     else if ps_failures p + 1 \<ge> 3 then Unhealthy else ps_status p)"
  "ps_connection (fail_peer p) = (if ps_failures p + 1 \<ge> 5 then None else ps_connection p)"
  by (simp_all add: fail_peer_def Let_def DISCONNECT_THRESHOLD_def UNHEALTHY_THRESHOLD_def)

lemma fail_peer_iter:
  assumes "ps_failures p = 0" and "ps_status p = Connected" and "k \<le> 5"
  shows "ps_failures ((fail_peer ^^ k) p) = of_nat k \<and>
     ps_status ((fail_peer ^^ k) p) = (if k < 3 then Connected else if k < 5 then Unhealthy else Disconnected) \<and>
     ps_connection ((fail_peer ^^ k) p) = (if k < 5 then ps_connection p else None)"
  using assms(3)
proof (induction k)
  case 0
  then show ?case using assms(1,2) by simp
next
  case (Suc k)
  then have "k \<in> {0, 1, 2, 3, 4}" by auto
  then show ?case using Suc.IH by (auto simp: fail_peer_fields word_le_nat_alt)
qed

lemma health_rounds_failing:
  assumes "distinct (map fst (pm_peers pm))" and "map_of (pm_peers pm) d = Some p" and "failing Q p"
    and "to_cbor C (own_ping pm) = Ok b" and "ps_failures p = 0" and "ps_status p = Connected" and "k \<le> 5"
    and "health_rounds C Q k pm w = (pm', w')"
  shows "map_of (pm_peers pm') d = Some ((fail_peer ^^ k) p) \<and> map fst (pm_peers pm') = map fst (pm_peers pm) \<and>
     same_config pm pm'"
  using assms(7,8)
proof (induction k arbitrary: pm' w')
  case 0
  then show ?case using assms(2) by (simp add: health_rounds_def)
next
  case (Suc k)
  obtain pm1 w1 where 1: "health_rounds C Q k pm w = (pm1, w1)" by (rule prod.exhaust)
  then have h: "health_check C Q pm1 w1 = (pm', w')" using Suc.prems(2) by (simp add: health_rounds_Suc)
  have IH: "map_of (pm_peers pm1) d = Some ((fail_peer ^^ k) p)" "map fst (pm_peers pm1) = map fst (pm_peers pm)"
    "same_config pm pm1" using Suc.IH [OF _ 1] Suc.prems(1) by simp_all
  have "failing Q ((fail_peer ^^ k) p)" by (induction k) (simp_all add: assms(3))
  moreover have "to_cbor C (own_ping pm1) = Ok b" using own_ping_same [OF IH(3)] assms(4) by simp
  moreover have "ps_status ((fail_peer ^^ k) p) \<noteq> Disconnected"
    using fail_peer_iter [OF assms(5,6), of k] Suc.prems(1) by simp
  ultimately show ?case
    using health_check_failing [OF _ IH(1), of Q C b w1] assms(1) IH h
      health_check_peers_out [of C Q _ pm1 w1 pm' w' "\<lambda>_. True"]
    by (auto simp: health_check_def intro: same_config_trans)
qed

lemma connect_discovered_keeps:
  assumes "map_of (pm_peers pm) d = Some p" and "ps_status p \<noteq> Disconnected"
  shows "map_of (pm_peers (fst (connect_discovered P Q ds pm w))) d = Some p"
  using assms
proof (induction P Q ds pm w rule: connect_discovered.induct)
  case (2 P Q i a md rest pm w)
  show ?case
  proof (cases "case map_of (pm_peers pm) (did P i) of None \<Rightarrow> True | Some p \<Rightarrow> ps_status p = Disconnected")
    case True
    then have ne: "did P i \<noteq> d" using "2.prems" by auto
    obtain r pm1 w1 where c: "connect_to_peer P Q pm i a w = (r, pm1, w1)" by (rule prod_cases3)
    then have "map_of (pm_peers pm1) d = Some p" using ne "2.prems"(1)
      by (auto simp: connect_to_peer_def Let_def split: if_splits sum.splits prod.splits)
    then show ?thesis using "2.IH"(1) [OF True c [symmetric] refl] "2.prems"(2) True c by simp
  qed (use 2 in simp)
qed simp

text \<open>An address that the filter admits and that always answers a connection.\<close>

definition reachable_addr :: "('c, 'w) quic \<Rightarrow> string list \<Rightarrow> node_addr \<Rightarrow> bool" where
  "reachable_addr Q allow a \<longleftrightarrow>
     (\<exists>sa. validate_outbound_addr (q_parse Q) (address a) allow = Ok sa \<and> (\<forall>w. is_ok (fst (q_connect Q sa w))))"

definition linked :: "'c peer_manager \<Rightarrow> string \<Rightarrow> bool" where
  "linked pm d \<longleftrightarrow> (\<exists>p. map_of (pm_peers pm) d = Some p \<and> ps_status p = Connected \<and> ps_connection p \<noteq> None)"

lemma linked_stays:
  assumes "linked pm d"
  shows "linked (fst (connect_discovered P Q ds pm w)) d"
proof -
  obtain p where p: "map_of (pm_peers pm) d = Some p" "ps_status p = Connected" "ps_connection p \<noteq> None"
    using assms by (auto simp: linked_def)
  then show ?thesis using connect_discovered_keeps [OF p(1), of P Q ds w] by (simp add: linked_def)
qed

lemma connect_to_peer_links:
  assumes "reachable_addr Q (pm_allowlist pm) a" and "length (pm_peers pm) < pm_max_peers pm"
    and "connect_to_peer P Q pm i a w = (r, pm', w')"
  shows "linked pm' (did P i)"
proof -
  obtain sa where sa: "validate_outbound_addr (q_parse Q) (address a) (pm_allowlist pm) = Ok sa"
    "\<And>w. is_ok (fst (q_connect Q sa w))" using assms(1) by (auto simp: reachable_addr_def)
  obtain c w1 where c: "q_connect Q sa w = (Ok c, w1)"
    using sa(2) [of w] by (cases "q_connect Q sa w"; cases "fst (q_connect Q sa w)") auto
  have "connected_peer_count pm \<le> length (pm_peers pm)" by (simp add: connected_peer_count_def)
  then have "\<not> connected_peer_count pm \<ge> pm_max_peers pm" using assms(2) by simp
  then show ?thesis using assms(3) sa(1) c
    by (auto simp: connect_to_peer_def Let_def linked_def split: if_splits option.splits prod.splits)
qed

lemma connect_to_peer_length:
  "connect_to_peer P Q pm i a w = (r, pm', w') \<Longrightarrow> length (pm_peers pm') \<le> Suc (length (pm_peers pm))"
  using length_insert_peer
  by (auto simp: connect_to_peer_def Let_def split: if_splits option.splits sum.splits prod.splits)

lemma connect_discovered_links:
  assumes "(i, a, md) \<in> set ds" and "reachable_addr Q (pm_allowlist pm) a"
    and "length (pm_peers pm) + length ds \<le> pm_max_peers pm"
    and "\<And>p. map_of (pm_peers pm) (did P i) = Some p \<Longrightarrow> ps_status p = Disconnected \<or> linked pm (did P i)"
  shows "linked (fst (connect_discovered P Q ds pm w)) (did P i)"
  using assms
proof (induction P Q ds pm w rule: connect_discovered.induct)
  case (2 P Q j b md' rest pm w)
  show ?case
  proof (cases "linked pm (did P i)")
    case True
    then show ?thesis by (rule linked_stays)
  next
    case un: False
    then have down: "ps_status p = Disconnected" if "map_of (pm_peers pm) (did P i) = Some p" for p
      using "2.prems"(4) that by blast
    show ?thesis
    proof (cases "case map_of (pm_peers pm) (did P j) of None \<Rightarrow> True | Some p \<Rightarrow> ps_status p = Disconnected")
      case True
      obtain r pm1 w1 where c: "connect_to_peer P Q pm j b w = (r, pm1, w1)" by (rule prod_cases3)
      have cfg: "same_config pm pm1" using connect_out [OF c] by blast
      note len = connect_to_peer_length [OF c]
      have rest: "linked (fst (connect_discovered P Q rest pm1 w1)) (did P i)" if "(i, a, md) \<in> set rest"
      proof (rule "2.IH"(1) [OF True c [symmetric] refl that])
        show "reachable_addr Q (pm_allowlist pm1) a" using "2.prems"(2) same_config_sel(6) [OF cfg] by simp
        show "length (pm_peers pm1) + length rest \<le> pm_max_peers pm1"
          using "2.prems"(3) len same_config_sel(5) [OF cfg] by simp
        show "ps_status p = Disconnected \<or> linked pm1 (did P i)"
          if "map_of (pm_peers pm1) (did P i) = Some p" for p
          using that c down
          by (auto simp: connect_to_peer_def Let_def linked_def split: if_splits option.splits sum.splits prod.splits)
      qed
      show ?thesis
      proof (cases "(i, a, md) = (j, b, md')")
        case eq: True
        have "linked pm1 (did P i)"
          using connect_to_peer_links [OF _ _ c] "2.prems"(2,3) eq by simp
        then have "linked (fst (connect_discovered P Q rest pm1 w1)) (did P i)" by (rule linked_stays)
        then show ?thesis using True c by simp
      next
        case False
        then show ?thesis using rest "2.prems"(1) True c by auto
      qed
    next
      case False
      then have "did P j \<noteq> did P i" using down by (auto split: option.splits)
      then have "(i, a, md) \<in> set rest" using "2.prems"(1) by auto
      then show ?thesis using "2.IH"(2) [OF False] "2.prems"(2-4) False by simp
    qed
  qed
qed simp

text \<open>The storage serves an advertisement of the identity with a reachable address, and the manager
  has room for everything that the storage serves.\<close>

definition advertised ::
  "prims \<Rightarrow> metadata_codec \<Rightarrow> ('c, 'w) quic \<Rightarrow> descriptor list \<Rightarrow> 'c peer_manager \<Rightarrow> identity \<Rightarrow> bool" where
  "advertised P MC Q ads pm i \<longleftrightarrow>
     (\<exists>ad \<in> set ads. publisher ad = i \<and> (\<exists>md. dec_metadata MC (payload ad) = Ok md \<and>
        reachable_addr Q (pm_allowlist pm) (endpoint_to_node_addr (hm_endpoint md)))) \<and>
     did P i \<noteq> did P (pm_identity pm) \<and> length (pm_peers pm) + length ads \<le> pm_max_peers pm"

lemma discovered_mem:
  "ad \<in> set ads \<Longrightarrow> did P (publisher ad) \<noteq> did P (pm_identity pm) \<Longrightarrow> dec_metadata MC (payload ad) = Ok md \<Longrightarrow>
     (publisher ad, endpoint_to_node_addr (hm_endpoint md), md) \<in> set (discover_peers_from_descriptors P MC pm ads)"
  by (induction ads) (auto split: sum.splits)

lemma discovered_addr:
  "(i, a, md) \<in> set (discover_peers_from_descriptors P MC pm ads) \<Longrightarrow> a = endpoint_to_node_addr (hm_endpoint md)"
  by (induction ads) (auto split: sum.splits if_splits)

lemma discovered_length: "length (discover_peers_from_descriptors P MC pm ads) \<le> length ads"
  by (induction ads) (auto split: sum.split intro: le_SucI)

lemma run_discovery_peers:
  assumes "run_discovery P MC Q B n pm w = (n', pm', w')"
    and "ads = fst (be_get B (dn_store n) (ROUTING_KEY_INFRASTRUCTURE_HUB P) None (fst (q_micros Q w)))"
  shows "pm' = fst (connect_discovered P Q (discover_peers_from_descriptors P MC pm ads) pm (snd (q_micros Q w)))"
  using assms by (auto simp: run_discovery_def Let_def split: prod.splits if_splits)

lemma discovery_links:
  assumes "run_discovery P MC Q B n pm w = (n', pm', w')"
    and "ads = fst (be_get B (dn_store n) (ROUTING_KEY_INFRASTRUCTURE_HUB P) None (fst (q_micros Q w)))"
    and "advertised P MC Q ads pm i" and "map_of (pm_peers pm) (did P i) = Some p" and "ps_status p = Disconnected"
  shows "linked pm' (did P i)"
proof -
  obtain ad md where ad: "ad \<in> set ads" "publisher ad = i" "dec_metadata MC (payload ad) = Ok md"
    "reachable_addr Q (pm_allowlist pm) (endpoint_to_node_addr (hm_endpoint md))"
    using assms(3) by (auto simp: advertised_def)
  have i: "did P i \<noteq> did P (pm_identity pm)" and room: "length (pm_peers pm) + length ads \<le> pm_max_peers pm"
    using assms(3) by (simp_all add: advertised_def)
  show ?thesis
    unfolding run_discovery_peers [OF assms(1,2)]
    by (rule connect_discovered_links [OF discovered_mem [OF ad(1) _ ad(3), unfolded ad(2)] ad(4)])
      (use i room discovered_length [of P MC pm ads] assms(4,5) in auto)
qed

text \<open>C21. A peer whose requests fail is given up and found again. A peer hub whose requests return errors
  (its connection was lost, or it has none, as when it was registered because it contacted this
  hub) is Connected for two failed health checks, Unhealthy from the third and Disconnected without
  a connection from the fifth; until then no discovery round touches it, afterwards the next one
  links it again, if the storage serves its advertisement with an address that the filter admits
  and that answers, and there is room for all advertised peers. (A peer that keeps its connection
  and never answers is not given up: the health check waits for it for ever.)\<close>

theorem failing_peer_replaced:
  assumes "distinct (map fst (pm_peers pm))" and "map_of (pm_peers pm) (did P i) = Some p" and "failing Q p"
    and "to_cbor C (own_ping pm) = Ok b" and "ps_failures p = 0" and "ps_status p = Connected"
    and "k \<le> 5" and "health_rounds C Q k pm w = (pm1, w1)"
    and "run_discovery P MC Q B n pm1 w1 = (n', pm2, w2)"
    and "ads = fst (be_get B (dn_store n) (ROUTING_KEY_INFRASTRUCTURE_HUB P) None (fst (q_micros Q w1)))"
  shows "(\<exists>q. map_of (pm_peers pm1) (did P i) = Some q \<and>
       ps_status q = (if k < 3 then Connected else if k < 5 then Unhealthy else Disconnected) \<and>
       ps_connection q = (if k < 5 then ps_connection p else None) \<and>
       (k < 5 \<longrightarrow> map_of (pm_peers pm2) (did P i) = Some q)) \<and>
     (k = 5 \<longrightarrow> advertised P MC Q ads pm i \<longrightarrow> linked pm2 (did P i))"
proof (intro conjI impI)
  let ?q = "(fail_peer ^^ k) p"
  note q = fail_peer_iter [OF assms(5-7)]
  have r: "map_of (pm_peers pm1) (did P i) = Some ?q" "map fst (pm_peers pm1) = map fst (pm_peers pm)"
    "same_config pm pm1" using health_rounds_failing [OF assms(1-8)] by simp_all
  have "map_of (pm_peers pm2) (did P i) = Some ?q" if "k < 5"
    unfolding run_discovery_peers [OF assms(9,10)]
    by (rule connect_discovered_keeps [OF r(1)]) (use q that in simp)
  then show "\<exists>q. map_of (pm_peers pm1) (did P i) = Some q \<and>
       ps_status q = (if k < 3 then Connected else if k < 5 then Unhealthy else Disconnected) \<and>
       ps_connection q = (if k < 5 then ps_connection p else None) \<and>
       (k < 5 \<longrightarrow> map_of (pm_peers pm2) (did P i) = Some q)"
    using r(1) q by simp
  assume five: "k = 5" and ad: "advertised P MC Q ads pm i"
  have "length (pm_peers pm1) = length (pm_peers pm)" using r(2) by (metis length_map)
  then have "advertised P MC Q ads pm1 i" using ad same_config_sel [OF r(3)] by (simp add: advertised_def)
  moreover have "ps_status ?q = Disconnected" using q five by simp
  ultimately show "linked pm2 (did P i)" by (rule discovery_links [OF assms(9,10) _ r(1)])
qed

subsection \<open>The hub's own advertisement\<close>

text \<open>\<open>listen_addr\<close>'s default (config.rs) and the metadata that \<open>HubBuilder::build\<close> makes of the address.\<close>

definition default_listen_addr :: string where
  "default_listen_addr = ''0.0.0.0:4433''"

definition build_hub_metadata :: "u64 \<Rightarrow> string list \<Rightarrow> string \<Rightarrow> hub_metadata" where
  "build_hub_metadata mx regions listen_addr =
     \<lparr>hm_max_descriptors = mx, hm_regions = regions, hm_endpoint = ''quic://'' @ listen_addr\<rparr>"

text \<open>A hub that listens on the default address advertises that very address, and no peer connects
  to it: the outbound filter of a peer without an allowlist entry for it refuses the unspecified
  address, before anything is sent and without a trace in the peer table.\<close>

theorem default_advertisement_unreachable:
  assumes "q_parse Q default_listen_addr = Ok \<lparr>sa_ip = V4 0 0 0 0, sa_port = 4433\<rparr>"
    and "default_listen_addr \<notin> set (pm_allowlist pm)"
    and "(i, a, build_hub_metadata mx regions default_listen_addr) \<in>
       set (discover_peers_from_descriptors P MC pm ads)"
  shows "a = node_addr_quic default_listen_addr \<and> snd (connect_to_peer P Q pm i a w) = (pm, w)"
proof -
  have "a = endpoint_to_node_addr (hm_endpoint (build_hub_metadata mx regions default_listen_addr))"
    by (rule discovered_addr [OF assms(3)])
  then have a: "a = node_addr_quic default_listen_addr"
    using strip_prefix_Some [of "''quic://''" "''quic://'' @ default_listen_addr" default_listen_addr]
    by (simp add: endpoint_to_node_addr_def build_hub_metadata_def)
  have "\<exists>e. validate_outbound_addr (q_parse Q) (address a) (pm_allowlist pm) = Err e"
    using assms(1,2) by (auto simp: a node_addr_quic_def validate_outbound_addr_def list_ex_iff)
  then show ?thesis using a by (auto simp: connect_to_peer_def Let_def)
qed

text \<open>In a store mode that admits tenants only the hub silences itself: its advertisement goes
  through its own hook under its own identity, and unless that identity is registered with a
  tenant the advertisement is refused; the storage stays as it was.\<close>

theorem own_advertisement_refused:
  assumes "blake3_ok P" and "node_ok P n" and "dn_hooks n = Some (hub_hook P Q c)"
    and "pc_store_mode c \<noteq> Open"
    and "\<not> is_tenant_of Q (hk_tenants (dn_hook_state n)) (keypair_identity P (pm_keypair pm))"
  shows "\<exists>n'. publish_self_advertisement P MC B locked pm n now now' now'' = Some n' \<and> dn_store n' = dn_store n"
proof (cases "self_advertisement_descriptor P MC pm now")
  case (Inl e)
  then show ?thesis by (simp add: publish_self_advertisement_def)
next
  case (Inr d)
  let ?m = "\<lparr>store_sender = pm_identity pm, store_sender_addr = pm_addr pm, store_descriptor_field = d\<rparr>"
  have "publisher d = keypair_identity P (pm_keypair pm)"
    using Inr by (auto simp: self_advertisement_descriptor_def split: sum.splits)
  then have "fst (hub_pre_store P Q c (dn_hook_state n) (store_descriptor_field ?m)) \<noteq> Ok ()"
    using assms(4,5) by (simp add: hub_pre_store_result admitted_def)
  then obtain e where e: "fst (hub_pre_store P Q c (dn_hook_state n) (store_descriptor_field ?m)) = Err e"
    by (cases "fst (hub_pre_store P Q c (dn_hook_state n) (store_descriptor_field ?m))") auto
  obtain r n' where "handle_store P B n ?m now' now'' = Some (r, n')"
    and "\<forall>e. fst (hub_pre_store P Q c (dn_hook_state n) (store_descriptor_field ?m)) = Err e \<longrightarrow>
       r = \<lparr>stored = False, reason = Some e\<rparr> \<and> dn_store n' = dn_store n"
    by (rule handle_store_hub [OF assms(1-3), of B ?m now' now'']) (rule that)
  then show ?thesis using Inr e by (auto simp: publish_self_advertisement_def)
qed

subsection \<open>Witnesses\<close>

text \<open>An outside that connects everywhere, logs the connections and never answers a request.\<close>

definition demo_quic :: "(unit, socket_addr list) quic" where
  "demo_quic = \<lparr>q_parse = (\<lambda>s. if s = default_listen_addr then Ok \<lparr>sa_ip = V4 0 0 0 0, sa_port = 4433\<rparr>
       else if s = ''8.8.8.8:1'' then Ok \<lparr>sa_ip = V4 8 8 8 8, sa_port = 1\<rparr> else Err ''invalid socket address syntax''),
     q_connect = (\<lambda>sa w. (Ok (), w @ [sa])), q_request = (\<lambda>c fr w. (Err StreamClosed, w)),
     q_id = (\<lambda>w. (replicate 16 7, w)), q_instant = (\<lambda>w. (0, w)), q_micros = (\<lambda>w. (3000, w))\<rparr>"

definition demo_metadata_codec :: "string \<Rightarrow> metadata_codec" where
  "demo_metadata_codec a = \<lparr>enc_metadata = (\<lambda>_. Ok []), dec_metadata = (\<lambda>_. Ok (build_hub_metadata 0 [] a))\<rparr>"

definition demo_lost_peer :: "unit peer_state" where
  "demo_lost_peer = \<lparr>ps_connection = None, ps_addr = node_addr_quic ''incoming'', ps_status = Connected,
     ps_last_seen = 0, ps_failures = 0\<rparr>"

definition demo_manager :: "unit peer_manager" where
  "demo_manager = (peer_manager_new (short_identity 9) \<lparr>signing_key = [9]\<rparr> (node_addr_quic ''h:9'')
     (build_hub_metadata 0 [] default_listen_addr) 50 [])
       \<lparr>pm_peers := [(did pad_prims (keypair_identity pad_prims \<lparr>signing_key = [1]\<rparr>), demo_lost_peer)]\<rparr>"

lemma demo_manager_sel [simp]:
  "pm_allowlist demo_manager = []" "pm_identity demo_manager = short_identity 9" "pm_max_peers demo_manager = 50"
  "pm_peers demo_manager = [(did pad_prims (keypair_identity pad_prims \<lparr>signing_key = [1]\<rparr>), demo_lost_peer)]"
  by (simp_all add: demo_manager_def peer_manager_new_def)

lemma outbound_connections_filtered_witness:
  "\<exists>w4. outbound demo_quic (allowed_addr demo_quic []) [] w4 \<and>
     (\<exists>s1 pm1 w1 n2 pm2 w2 pm3 w3 pm4.
       bootstrap_from_seeds pad_prims (demo_codec \<lparr>fvr_descriptors = None, fvr_nodes = None\<rparr>) demo_quic demo_redb
         demo_cache [default_listen_addr, ''8.8.8.8:1''] (demo_cached0, demo_manager, []) = (s1, pm1, w1) \<and>
       run_discovery pad_prims (demo_metadata_codec ''8.8.8.8:1'') demo_quic (mem_backend pad_prims) demo_dht pm1 w1 = (n2, pm2, w2) \<and>
       run_gossip_round (demo_codec \<lparr>fvr_descriptors = None, fvr_nodes = None\<rparr>) demo_quic demo_redb s1 pm2 w2 = (pm3, w3) \<and>
       run_health_check (demo_codec \<lparr>fvr_descriptors = None, fvr_nodes = None\<rparr>) demo_quic pm3 w3 = (pm4, w4))"
proof -
  let ?C = "demo_codec \<lparr>fvr_descriptors = None, fvr_nodes = None\<rparr>"
  obtain s1 pm1 w1 where 1: "bootstrap_from_seeds pad_prims ?C demo_quic demo_redb demo_cache
      [default_listen_addr, ''8.8.8.8:1''] (demo_cached0, demo_manager, []) = (s1, pm1, w1)" by (rule prod_cases3)
  obtain n2 pm2 w2 where 2: "run_discovery pad_prims (demo_metadata_codec ''8.8.8.8:1'') demo_quic
      (mem_backend pad_prims) demo_dht pm1 w1 = (n2, pm2, w2)" by (rule prod_cases3)
  obtain pm3 w3 where 3: "run_gossip_round ?C demo_quic demo_redb s1 pm2 w2 = (pm3, w3)" by (rule prod.exhaust)
  obtain pm4 w4 where 4: "run_health_check ?C demo_quic pm3 w3 = (pm4, w4)" by (rule prod.exhaust)
  from outbound_connections_filtered [OF 1 2 3 4] 1 2 3 4 show ?thesis by auto
qed

definition demo_ad :: descriptor where
  "demo_ad = demo_desc 7 1000"

definition one_answer :: "descriptor \<Rightarrow> unit backend" where
  "one_answer d = \<lparr>be_store = (\<lambda>s _ _. (Ok (), s)), be_get = (\<lambda>s _ _ _. ([d], s)), be_evict = (\<lambda>s _. s)\<rparr>"

lemma failing_peer_replaced_witness:
  "\<exists>pm1 w1 n' pm2 w2. health_rounds (demo_codec \<lparr>fvr_descriptors = None, fvr_nodes = None\<rparr>) demo_quic 5 demo_manager [] = (pm1, w1) \<and>
     run_discovery pad_prims (demo_metadata_codec ''8.8.8.8:1'') demo_quic (one_answer demo_ad)
       (with_store pad_prims \<lparr>signing_key = [9]\<rparr> (node_addr_quic ''h:9'') dht_config_default () ()) pm1 w1 = (n', pm2, w2) \<and>
     linked pm2 (did pad_prims (keypair_identity pad_prims \<lparr>signing_key = [1]\<rparr>))"
proof -
  let ?C = "demo_codec \<lparr>fvr_descriptors = None, fvr_nodes = None\<rparr>"
  let ?i = "keypair_identity pad_prims \<lparr>signing_key = [1]\<rparr>"
  let ?n = "with_store pad_prims \<lparr>signing_key = [9]\<rparr> (node_addr_quic ''h:9'') dht_config_default () ()"
  obtain pm1 w1 where h: "health_rounds ?C demo_quic 5 demo_manager [] = (pm1, w1)" by (rule prod.exhaust)
  obtain n' pm2 w2 where d: "run_discovery pad_prims (demo_metadata_codec ''8.8.8.8:1'') demo_quic (one_answer demo_ad)
      ?n pm1 w1 = (n', pm2, w2)" by (rule prod_cases3)
  have e: "address (endpoint_to_node_addr (''quic://'' @ x)) = x" for x
    using strip_prefix_Some [of "''quic://''" "''quic://'' @ x" x] by (simp add: endpoint_to_node_addr_def node_addr_quic_def)
  have "length (public_key ?i) = 32" by (simp add: keypair_identity_def)
  then have "?i \<noteq> short_identity 9" by (auto simp: short_identity_def)
  then have ne: "did pad_prims ?i \<noteq> did pad_prims (short_identity 9)"
    by (auto simp: did_def pad_prims_def demo_prims_def keypair_identity_def short_identity_def pad_digest_def)
  have a: "advertised pad_prims (demo_metadata_codec ''8.8.8.8:1'') demo_quic [demo_ad] demo_manager ?i"
    using ne e [of "''8.8.8.8:1''"]
    by (simp add: advertised_def demo_ad_def demo_desc_def demo_metadata_codec_def build_hub_metadata_def reachable_addr_def
        demo_quic_def default_listen_addr_def validate_outbound_addr_def is_cgn_def)
  have ads: "[demo_ad] = fst (be_get (one_answer demo_ad) (dn_store ?n) (ROUTING_KEY_INFRASTRUCTURE_HUB pad_prims) None
      (fst (q_micros demo_quic w1)))" by (simp add: one_answer_def)
  have p: "ps_failures demo_lost_peer = 0" "ps_status demo_lost_peer = Connected" "failing demo_quic demo_lost_peer"
    by (simp_all add: demo_lost_peer_def failing_def)
  have "linked pm2 (did pad_prims ?i)"
    using failing_peer_replaced [OF _ _ p(3) _ p(1,2) order_refl h d ads, of ?i "[]"] a by (simp add: demo_codec_def)
  then show ?thesis using h d by auto
qed

lemma default_advertisement_unreachable_witness:
  "snd (connect_to_peer pad_prims demo_quic demo_manager (publisher demo_ad)
     (node_addr_quic default_listen_addr) []) = (demo_manager, [])"
proof -
  have ne: "did pad_prims (publisher demo_ad) \<noteq> did pad_prims (short_identity 9)"
    by (auto simp: demo_ad_def demo_desc_def did_def pad_prims_def demo_prims_def keypair_identity_def short_identity_def pad_digest_def)
  have "address (endpoint_to_node_addr (''quic://'' @ x)) = x" for x
    using strip_prefix_Some [of "''quic://''" "''quic://'' @ x" x] by (simp add: endpoint_to_node_addr_def node_addr_quic_def)
  then have "endpoint_to_node_addr (''quic://'' @ default_listen_addr) = node_addr_quic default_listen_addr"
    using strip_prefix_Some [of "''quic://''" "''quic://'' @ default_listen_addr" default_listen_addr]
    by (simp add: endpoint_to_node_addr_def)
  then have "(publisher demo_ad, node_addr_quic default_listen_addr, build_hub_metadata 0 [] default_listen_addr) \<in>
      set (discover_peers_from_descriptors pad_prims (demo_metadata_codec default_listen_addr) demo_manager [demo_ad])"
    using ne by (simp add: demo_metadata_codec_def build_hub_metadata_def)
  from default_advertisement_unreachable [OF _ _ this, of demo_quic "[]"]
  show ?thesis by (simp add: demo_quic_def)
qed

lemma own_advertisement_refused_witness:
  "\<exists>n'. publish_self_advertisement pad_prims (demo_metadata_codec ''8.8.8.8:1'') (mem_backend pad_prims) False demo_manager
     (with_hooks (demo_hooked descriptor_store_new) (hub_hook pad_prims demo_sqlite (demo_hub_policy\<lparr>pc_store_mode := TenantOnly\<rparr>)))
     1 2 3 = Some n' \<and> dn_store n' = descriptor_store_new"
proof -
  let ?n = "with_hooks (demo_hooked descriptor_store_new) (hub_hook pad_prims demo_sqlite (demo_hub_policy\<lparr>pc_store_mode := TenantOnly\<rparr>))"
  have "node_ok pad_prims ?n" using demo_hooked_ok(1) [of descriptor_store_new] by (simp add: with_hooks_def node_ok_def)
  moreover have "dn_hook_state ?n = demo_hook_state" "dn_store ?n = descriptor_store_new" by (simp_all add: with_hooks_def)
  ultimately show ?thesis
    using own_advertisement_refused [OF pad_prims_ok(1), of ?n demo_sqlite "demo_hub_policy\<lparr>pc_store_mode := TenantOnly\<rparr>"
        demo_manager "demo_metadata_codec ''8.8.8.8:1''" "mem_backend pad_prims" False 1 2 3]
    by (simp add: with_hooks_def is_tenant_of_def demo_hook_state_def empty_db_def)
qed

end
