(* ===== verification/Client.thy ===== *)
theory Client
  imports Node_Server Peering
begin

section \<open>mesh-client, and the client commands of mesh-node\<close>

text \<open>
  lib.rs of mesh-client: \<open>QuicTransport\<close>, the transport with a cache of connections that both
  mesh-client and mesh-node (transport.rs, the same code) hand to the DHT, and \<open>MeshClient\<close>. The
  client's operations are written over any \<open>net\<close>, as the DHT's are; \<open>quic_net\<close> makes one of a
  QUIC endpoint. With it the commands of mesh-node's main.rs that act as a client; what they print
  is a list of lines. A fuel-bounded lookup has an \<open>outcome\<close>; \<open>None\<close> is a panic.
\<close>

subsection \<open>Error messages\<close>

text \<open>quinn words the error of a short read; its other errors are strings already.\<close>

fun transport_error_display :: "(nat \<Rightarrow> string) \<Rightarrow> transport_error \<Rightarrow> string" where
  "transport_error_display rd (Connection e) = ''connection error: '' @ e"
| "transport_error_display rd (Write e) = ''write error: '' @ e"
| "transport_error_display rd (ReadToEnd e) = ''read to end error: '' @ e"
| "transport_error_display rd (ReadExact n) = ''read exact error: '' @ rd n"
| "transport_error_display rd (Connect e) = ''connect error: '' @ e"
| "transport_error_display rd (Tls e) = ''tls error: '' @ e"
| "transport_error_display rd (Frame_error e) = ''frame error: '' @ mesh_error_display e"
| "transport_error_display rd (Io_error e) = ''io error: '' @ e"
| "transport_error_display rd StreamClosed = ''stream closed unexpectedly''"
| "transport_error_display rd AlreadySent = ''response already sent''"

fun dht_transport_error_display :: "dht_transport_error \<Rightarrow> string" where
  "dht_transport_error_display (ConnectionFailed e) = ''connection failed: '' @ e"
| "dht_transport_error_display Timeout = ''request timed out''"
| "dht_transport_error_display (FrameError e) = ''frame error: '' @ e"
| "dht_transport_error_display (Unreachable e) = ''peer unreachable: '' @ e"

datatype client_error =
    Client_transport dht_transport_error
  | Client_codec string
  | Unexpected_response u8

fun client_error_display :: "client_error \<Rightarrow> string" where
  "client_error_display (Client_transport e) = ''transport error: '' @ dht_transport_error_display e"
| "client_error_display (Client_codec e) = ''codec error: '' @ e"
| "client_error_display (Unexpected_response ty) = ''unexpected response type: 0x'' @ hex_u8 ty"

subsection \<open>QuicTransport\<close>

text \<open>The connection cache (its mutex is held for single map operations only), and the outside.\<close>

record ('c, 'w) quic_transport =
  qt_connections :: "socket_addr \<rightharpoonup> 'c"
  qt_outside :: 'w

definition quic_transport_new :: "'w \<Rightarrow> ('c, 'w) quic_transport" where
  "quic_transport_new w = \<lparr>qt_connections = Map.empty, qt_outside = w\<rparr>"

text \<open>The connection to use: the cached one or a new one, which is cached.\<close>

definition obtain_connection ::
  "(nat \<Rightarrow> string) \<Rightarrow> ('c, 'w) quic \<Rightarrow> socket_addr \<Rightarrow> ('c, 'w) quic_transport \<Rightarrow>
   (dht_transport_error + 'c) \<times> ('c, 'w) quic_transport" where
  "obtain_connection rd Q sa t =
     (case qt_connections t sa of
        Some c \<Rightarrow> (Ok c, t)
      | None \<Rightarrow>
          (case q_connect Q sa (qt_outside t) of
             (Err e, w) \<Rightarrow> (Err (ConnectionFailed (transport_error_display rd e)), t\<lparr>qt_outside := w\<rparr>)
           | (Ok c, w) \<Rightarrow> (Ok c, \<lparr>qt_connections = (qt_connections t)(sa \<mapsto> c), qt_outside = w\<rparr>)))"

text \<open>The world's calls return. In the code nothing bounds how long a request may wait for its answer (the
  endpoint has no timeout of its own); a request that never returns is one of which nothing is said here.\<close>

definition quic_send ::
  "(nat \<Rightarrow> string) \<Rightarrow> ('c, 'w) quic \<Rightarrow> node_addr \<Rightarrow> frame \<Rightarrow> ('c, 'w) quic_transport \<Rightarrow>
   (dht_transport_error + frame) \<times> ('c, 'w) quic_transport" where
  "quic_send rd Q a fr t =
     (case q_parse Q (address a) of
        Err e \<Rightarrow> (Err (Unreachable (''bad address '' @ [CHR 0x27] @ address a @ [CHR 0x27] @ '': '' @ e)), t)
      | Ok sa \<Rightarrow>
          (case obtain_connection rd Q sa t of
             (Err e, t1) \<Rightarrow> (Err e, t1)
           | (Ok c, t1) \<Rightarrow>
               (case q_request Q c fr (qt_outside t1) of
                  (Ok r, w) \<Rightarrow> (Ok r, t1\<lparr>qt_outside := w\<rparr>)
                | (Err e, w) \<Rightarrow>
                    (Err (FrameError (transport_error_display rd e)),
                     \<lparr>qt_connections = (qt_connections t1)(sa := None), qt_outside = w\<rparr>))))"

definition quic_net :: "(nat \<Rightarrow> string) \<Rightarrow> ('c, 'w) quic \<Rightarrow> ('c, 'w) quic_transport net" where
  "quic_net rd Q =
     \<lparr>net_send = quic_send rd Q,
      net_id = (\<lambda>t. case q_id Q (qt_outside t) of (i, w) \<Rightarrow> (i, t\<lparr>qt_outside := w\<rparr>)),
      net_now = (\<lambda>t. case q_micros Q (qt_outside t) of (n, w) \<Rightarrow> (n, t\<lparr>qt_outside := w\<rparr>))\<rparr>"

subsection \<open>MeshClient\<close>

type_synonym client = "(descriptor_store, unit) dht_node"

definition client_new :: "prims \<Rightarrow> keypair \<Rightarrow> string \<Rightarrow> client" where
  "client_new P kp local_addr =
     dht_node_new P kp \<lparr>protocol = ''quic'', address = local_addr\<rparr> dht_config_default ()"

text \<open>What publish, query and ping share: encode, send, check the type of the response, decode.\<close>

definition ask ::
  "codec \<Rightarrow> 'w net \<Rightarrow> node_addr \<Rightarrow> u8 \<Rightarrow> wire \<Rightarrow> u8 \<Rightarrow> (bytes \<Rightarrow> mesh_error + 'r) \<Rightarrow> 'w \<Rightarrow>
   (client_error + 'r) \<times> 'w" where
  "ask C net target ty m expected dec w =
     (case to_cbor C m of
        Err e \<Rightarrow> (Err (Client_codec (mesh_error_display e)), w)
      | Ok b \<Rightarrow>
          (case send_new net target ty b w of
             (Err e, w1) \<Rightarrow> (Err (Client_transport e), w1)
           | (Ok resp, w1) \<Rightarrow>
               (if msg_type resp = expected then
                  (case dec (body resp) of
                     Err e \<Rightarrow> Err (Client_codec (mesh_error_display e)) | Ok r \<Rightarrow> Ok r)
                else Err (Unexpected_response (msg_type resp)), w1)))"

definition client_bootstrap ::
  "prims \<Rightarrow> codec \<Rightarrow> 'w net \<Rightarrow> client \<Rightarrow> node_addr list \<Rightarrow> 'w \<Rightarrow> ((client_error + nat) \<times> client \<times> 'w) option" where
  "client_bootstrap P C net cl seeds w =
     (case bootstrap P C net cl seeds w of
        None \<Rightarrow> None
      | Some (Err e, cl', w') \<Rightarrow> Some (Err (Client_transport e), cl', w')
      | Some (Ok k, cl', w') \<Rightarrow> Some (Ok k, cl', w'))"

definition publish ::
  "prims \<Rightarrow> codec \<Rightarrow> 'w net \<Rightarrow> client \<Rightarrow> descriptor \<Rightarrow> node_addr \<Rightarrow> 'w \<Rightarrow>
   ((client_error + store_ack) \<times> client \<times> 'w) option" where
  "publish P C net cl d target w =
     (case iterative_store P C net (mem_backend P) cl d w of
        None \<Rightarrow> None
      | Some (Err e, cl1, w1) \<Rightarrow> Some (Err (Client_transport e), cl1, w1)
      | Some (Ok acks, cl1, w1) \<Rightarrow>
          if 0 < acks then Some (Ok \<lparr>stored = True, reason = None\<rparr>, cl1, w1)
          else
            (case ask C net target MSG_STORE
                    (WStore \<lparr>store_sender = keypair_identity P (dn_keypair cl1), store_sender_addr = dn_addr cl1,
                             store_descriptor_field = d\<rparr>)
                    MSG_STORE_ACK (from_cbor_store_ack C) w1 of
               (r, w2) \<Rightarrow> Some (r, cl1, w2)))"

text \<open>The capability's payload: a CBOR map in the order of a \<open>BTreeMap\<close>.\<close>

definition capability_payload :: "prims \<Rightarrow> string \<Rightarrow> string \<Rightarrow> string option \<Rightarrow> bytes" where
  "capability_payload P cap_type endpoint params =
     cbor_write P (CMap ([(CText ''endpoint'', CText endpoint)]
       @ (case params of None \<Rightarrow> [] | Some p \<Rightarrow> [(CText ''params'', CText p)])
       @ [(CText ''type'', CText cap_type)]))"

definition capability_descriptor ::
  "prims \<Rightarrow> keypair \<Rightarrow> string \<Rightarrow> string \<Rightarrow> string option \<Rightarrow> u64 \<Rightarrow> descriptor" where
  "capability_descriptor P kp cap_type endpoint params now =
     create P kp (schema_hash_of P ''core/capability'') cap_type
       (capability_payload P cap_type endpoint params) now 1 3600 (hierarchical_routing_keys P cap_type)"

definition publish_capability ::
  "prims \<Rightarrow> codec \<Rightarrow> 'w net \<Rightarrow> client \<Rightarrow> string \<Rightarrow> string \<Rightarrow> string option \<Rightarrow> node_addr \<Rightarrow> 'w \<Rightarrow>
   ((client_error + store_ack) \<times> client \<times> 'w) option" where
  "publish_capability P C net cl cap_type endpoint params target w =
     (case net_now net w of
        (now, w1) \<Rightarrow>
          publish P C net cl (capability_descriptor P (dn_keypair cl) cap_type endpoint params now) target w1)"

definition query_node ::
  "prims \<Rightarrow> codec \<Rightarrow> 'w net \<Rightarrow> client \<Rightarrow> hash \<Rightarrow> node_addr \<Rightarrow> 'w \<Rightarrow> (client_error + descriptor list) \<times> 'w" where
  "query_node P C net cl key target w =
     (case ask C net target MSG_FIND_VALUE
             (WFindValue \<lparr>fv_sender = keypair_identity P (dn_keypair cl), fv_sender_addr = dn_addr cl,
                          fv_key = key, fv_max_results = 100, fv_filters = None\<rparr>)
             MSG_FIND_VALUE_RESULT (from_cbor_find_value_result C) w of
        (Err e, w1) \<Rightarrow> (Err e, w1)
      | (Ok result, w1) \<Rightarrow> (Ok (case fvr_descriptors result of None \<Rightarrow> [] | Some ds \<Rightarrow> ds), w1))"

definition discover ::
  "prims \<Rightarrow> codec \<Rightarrow> 'w net \<Rightarrow> nat \<Rightarrow> client \<Rightarrow> hash \<Rightarrow> 'w \<Rightarrow>
   ((client_error + descriptor list) \<times> client \<times> 'w) outcome" where
  "discover P C net fuel cl key w =
     (case lookup_value P C net fuel cl key w of
        OutOfFuel \<Rightarrow> OutOfFuel
      | Panic \<Rightarrow> Panic
      | Done (Err e, cl1, w1) \<Rightarrow> Done (Err (Client_transport e), cl1, w1)
      | Done (Ok ds, cl1, w1) \<Rightarrow> Done (Ok ds, cl1, w1))"

definition discover_from ::
  "prims \<Rightarrow> codec \<Rightarrow> 'w net \<Rightarrow> nat \<Rightarrow> client \<Rightarrow> hash \<Rightarrow> node_addr \<Rightarrow> 'w \<Rightarrow>
   ((client_error + descriptor list) \<times> client \<times> 'w) outcome" where
  "discover_from P C net fuel cl key target w =
     (case discover P C net fuel cl key w of
        Done (Ok results, cl1, w1) \<Rightarrow>
          if results \<noteq> [] then Done (Ok results, cl1, w1)
          else (case query_node P C net cl1 key target w1 of (r, w2) \<Rightarrow> Done (r, cl1, w2))
      | other \<Rightarrow> other)"

definition client_ping ::
  "prims \<Rightarrow> codec \<Rightarrow> 'w net \<Rightarrow> client \<Rightarrow> node_addr \<Rightarrow> 'w \<Rightarrow> (client_error + pong) \<times> 'w" where
  "client_ping P C net cl a w =
     ask C net a MSG_PING
       (WPing \<lparr>ping_sender = keypair_identity P (dn_keypair cl), ping_sender_addr = dn_addr cl\<rparr>)
       MSG_PONG (from_cbor_pong C) w"

subsection \<open>The connection cache\<close>

definition cache_ok :: "('c \<Rightarrow> socket_addr) \<Rightarrow> ('c, 'w) quic_transport \<Rightarrow> bool" where
  "cache_ok peer_at t \<longleftrightarrow> (\<forall>sa c. qt_connections t sa = Some c \<longrightarrow> peer_at c = sa)"

text \<open>What \<open>connect\<close> promises: the connection is one to the address that was asked for.\<close>

definition connects_to :: "('c, 'w) quic \<Rightarrow> ('c \<Rightarrow> socket_addr) \<Rightarrow> bool" where
  "connects_to Q peer_at \<longleftrightarrow> (\<forall>sa w c w'. q_connect Q sa w = (Ok c, w') \<longrightarrow> peer_at c = sa)"

lemma obtain_connection_ok:
  assumes "connects_to Q peer_at" and "cache_ok peer_at t" and "obtain_connection rd Q sa t = (r, t')"
  shows "cache_ok peer_at t' \<and> (\<forall>c. r = Ok c \<longrightarrow> peer_at c = sa \<and> qt_connections t' sa = Some c) \<and>
     (\<forall>e. r = Err e \<longrightarrow> (\<exists>e'. e = ConnectionFailed e')) \<and>
     (\<forall>sa'. sa' \<noteq> sa \<longrightarrow> qt_connections t' sa' = qt_connections t sa')"
  using assms
  by (auto simp: obtain_connection_def connects_to_def cache_ok_def split: option.splits prod.splits sum.splits if_splits) blast

lemma quic_send_ok:
  assumes "connects_to Q peer_at" and "cache_ok peer_at t" and "quic_send rd Q a fr t = (res, t')"
  shows "cache_ok peer_at t'"
    and "\<And>r. res = Ok r \<Longrightarrow> \<exists>sa c w. q_parse Q (address a) = Ok sa \<and> peer_at c = sa \<and>
       qt_connections t' sa = Some c \<and> fst (q_request Q c fr w) = Ok r"
    and "\<And>e sa. res = Err (FrameError e) \<Longrightarrow> q_parse Q (address a) = Ok sa \<Longrightarrow> qt_connections t' sa = None"
    and "\<And>sa. q_parse Q (address a) \<noteq> Ok sa \<Longrightarrow> qt_connections t' sa = qt_connections t sa"
proof -
  have "cache_ok peer_at t' \<and>
      (\<forall>r. res = Ok r \<longrightarrow> (\<exists>sa c w. q_parse Q (address a) = Ok sa \<and> peer_at c = sa \<and>
         qt_connections t' sa = Some c \<and> fst (q_request Q c fr w) = Ok r)) \<and>
      (\<forall>e sa. res = Err (FrameError e) \<longrightarrow> q_parse Q (address a) = Ok sa \<longrightarrow> qt_connections t' sa = None) \<and>
      (\<forall>sa. q_parse Q (address a) \<noteq> Ok sa \<longrightarrow> qt_connections t' sa = qt_connections t sa)"
  proof (cases "q_parse Q (address a)")
    case (Inl e)
    then show ?thesis using assms(2,3) by (auto simp: quic_send_def)
  next
    case (Inr sa)
    obtain r t1 where o: "obtain_connection rd Q sa t = (r, t1)" by (rule prod.exhaust)
    note k = obtain_connection_ok [OF assms(1,2) o]
    show ?thesis
    proof (cases r)
      case (Inl e)
      then show ?thesis using assms(3) o k Inr by (auto simp: quic_send_def)
    next
      case c: (Inr c)
      obtain q w where q: "q_request Q c fr (qt_outside t1) = (q, w)" by (rule prod.exhaust)
      have res: "(res, t') = (case q of Ok r \<Rightarrow> (Ok r, t1\<lparr>qt_outside := w\<rparr>)
          | Err e \<Rightarrow> (Err (FrameError (transport_error_display rd e)),
               \<lparr>qt_connections = (qt_connections t1)(sa := None), qt_outside = w\<rparr>))"
        using assms(3) o Inr c q by (simp add: quic_send_def split: sum.splits)
      have k1: "cache_ok peer_at t1" "peer_at c = sa" "qt_connections t1 sa = Some c"
        "sa' \<noteq> sa \<Longrightarrow> qt_connections t1 sa' = qt_connections t sa'" for sa'
        using k c by blast+
      show ?thesis
      proof (cases q)
        case (Inl e)
        then show ?thesis using res k1(1,4) Inr by (simp add: cache_ok_def)
      next
        case r: (Inr r)
        have "fst (q_request Q c fr (qt_outside t1)) = Ok r" using q r by simp
        then show ?thesis using res r k1 Inr by (auto simp: cache_ok_def)
      qed
    qed
  qed
  then show "cache_ok peer_at t'"
    and "\<And>r. res = Ok r \<Longrightarrow> \<exists>sa c w. q_parse Q (address a) = Ok sa \<and> peer_at c = sa \<and>
       qt_connections t' sa = Some c \<and> fst (q_request Q c fr w) = Ok r"
    and "\<And>e sa. res = Err (FrameError e) \<Longrightarrow> q_parse Q (address a) = Ok sa \<Longrightarrow> qt_connections t' sa = None"
    and "\<And>sa. q_parse Q (address a) \<noteq> Ok sa \<Longrightarrow> qt_connections t' sa = qt_connections t sa"
    by blast+
qed

definition send_all ::
  "(nat \<Rightarrow> string) \<Rightarrow> ('c, 'w) quic \<Rightarrow> (node_addr \<times> frame) list \<Rightarrow> ('c, 'w) quic_transport \<Rightarrow> ('c, 'w) quic_transport" where
  "send_all rd Q reqs t = fold (\<lambda>(a, fr) t. snd (quic_send rd Q a fr t)) reqs t"

lemma send_all_ok:
  assumes "connects_to Q peer_at"
  shows "cache_ok peer_at t \<Longrightarrow> cache_ok peer_at (send_all rd Q reqs t)"
proof (induction reqs arbitrary: t)
  case Nil
  then show ?case by (simp add: send_all_def)
next
  case (Cons x reqs)
  obtain a fr where x: "x = (a, fr)" by (rule prod.exhaust)
  have "cache_ok peer_at (snd (quic_send rd Q a fr t))"
    by (rule quic_send_ok(1) [OF assms Cons.prems, of rd a fr "fst (quic_send rd Q a fr t)"]) simp
  from Cons.IH [OF this] show ?case by (simp add: send_all_def x)
qed

text \<open>C33. The connection cache never misdelivers and heals itself: after any requests, an answer comes
  from a request over a connection to the very address that the node address names; a request
  that fails on its connection takes the connection out of the cache, so that the next one to
  this address connects anew; the connections of other addresses are untouched.\<close>

theorem request_reaches_addressee:
  assumes "connects_to Q peer_at"
    and "quic_send rd Q a fr (send_all rd Q reqs (quic_transport_new w0)) = (res, t')"
  shows "(\<forall>r. res = Ok r \<longrightarrow> (\<exists>sa c w. q_parse Q (address a) = Ok sa \<and> peer_at c = sa \<and>
         fst (q_request Q c fr w) = Ok r)) \<and>
     (\<forall>e sa. res = Err (FrameError e) \<longrightarrow> q_parse Q (address a) = Ok sa \<longrightarrow>
        (\<forall>t. qt_connections t = qt_connections t' \<longrightarrow> obtain_connection rd Q sa t =
           (case q_connect Q sa (qt_outside t) of
              (Err e', w) \<Rightarrow> (Err (ConnectionFailed (transport_error_display rd e')), t\<lparr>qt_outside := w\<rparr>)
            | (Ok c, w) \<Rightarrow> (Ok c, \<lparr>qt_connections = (qt_connections t)(sa \<mapsto> c), qt_outside = w\<rparr>)))) \<and>
     (\<forall>sa. q_parse Q (address a) \<noteq> Ok sa \<longrightarrow>
        qt_connections t' sa = qt_connections (send_all rd Q reqs (quic_transport_new w0)) sa)"
proof -
  have "cache_ok peer_at (quic_transport_new w0)" by (simp add: cache_ok_def quic_transport_new_def)
  note k = quic_send_ok [OF assms(1) send_all_ok [OF assms(1) this] assms(2)]
  show ?thesis using k(2-4) by (fastforce simp: obtain_connection_def)
qed

subsection \<open>A client and a node\<close>

text \<open>
  A network with one node: at the addresses \<open>at_node\<close> requests reach it, under the client's own
  identity (that is what TLS establishes) and at readings of the node's clock in \<open>T\<close>; every
  other address fails. Message ids, the client's clock and the wording of errors are up to the
  world. \<open>node_link\<close> is the simplest one.
\<close>

definition one_node ::
  "prims \<Rightarrow> codec \<Rightarrow> ('w \<Rightarrow> (descriptor_store, 'h) dht_node) \<Rightarrow> (node_addr \<Rightarrow> bool) \<Rightarrow> identity \<Rightarrow> u64 set \<Rightarrow>
   'w net \<Rightarrow> bool" where
  "one_node P C node at_node peer T net \<longleftrightarrow>
     (\<forall>w. node (snd (net_id net w)) = node w \<and> node (snd (net_now net w)) = node w) \<and>
     (\<forall>a fr w r w'. net_send net a fr w = (r, w') \<longrightarrow>
        (if at_node a then
           \<exists>t \<in> T. \<exists>t' \<in> T. \<exists>answer. dispatch_request P C (node w) fr (Some peer) t t' = (answer, node w') \<and>
             (case answer of Some f \<Rightarrow> r = Ok f | None \<Rightarrow> \<exists>e. r = Err e)
         else node w' = node w \<and> (\<exists>e. r = Err e)))"

definition node_link :: "prims \<Rightarrow> codec \<Rightarrow> identity \<Rightarrow> bytes \<Rightarrow> u64 \<Rightarrow> u64 \<Rightarrow> (descriptor_store, 'h) dht_node net" where
  "node_link P C peer i now t =
     \<lparr>net_send = (\<lambda>_ fr n. case dispatch_request P C n fr (Some peer) t t of
         (Some r, n') \<Rightarrow> (Ok r, n') | (None, n') \<Rightarrow> (Err Timeout, n')),
      net_id = (\<lambda>n. (i, n)), net_now = (\<lambda>n. (now, n))\<rparr>"

lemma node_link_one_node: "one_node P C (\<lambda>n. n) (\<lambda>_. True) peer {t} (node_link P C peer i now t)"
  by (auto simp: one_node_def node_link_def split: prod.splits option.splits)

text \<open>A node as \<open>cmd_start\<close> makes it, after any requests: it has no hooks and the default limits.\<close>

definition plain_node :: "prims \<Rightarrow> (descriptor_store, 'h) dht_node \<Rightarrow> bool" where
  "plain_node P n \<longleftrightarrow> serving P n \<and> dn_hooks n = None \<and> dn_config n = dht_config_default"

text \<open>A client in any state: what \<open>new\<close> sets up and no operation changes.\<close>

definition client_ok :: "prims \<Rightarrow> client \<Rightarrow> bool" where
  "client_ok P cl \<longleftrightarrow> dn_identity cl = keypair_identity P (dn_keypair cl) \<and> dn_config cl = dht_config_default"

lemma client_new_sel [simp]:
  "dn_keypair (client_new P kp la) = kp" "dn_identity (client_new P kp la) = keypair_identity P kp"
  "all_nodes (dn_routing_table (client_new P kp la)) = []"
  "dn_routing_table (client_new P kp la) = routing_table_new (node_id P (keypair_identity P kp))"
  by (simp_all add: client_new_def dht_node_new_def with_store_def Let_def)

text \<open>The client and its key pair after an operation.\<close>

definition same_client :: "client \<Rightarrow> client \<Rightarrow> bool" where
  "same_client cl cl' \<longleftrightarrow> dn_keypair cl' = dn_keypair cl \<and> dn_identity cl' = dn_identity cl \<and>
     dn_config cl' = dn_config cl \<and> dn_addr cl' = dn_addr cl"

lemma same_client_ok: "same_client cl cl' \<Longrightarrow> client_ok P cl \<Longrightarrow> client_ok P cl'"
  by (simp add: same_client_def client_ok_def)

lemma client_ok_new: "client_ok P (client_new P kp la)"
  by (simp add: client_ok_def client_new_def dht_node_new_def with_store_def Let_def)

lemma bootstrap_same_client: "client_bootstrap P C net cl seeds w = Some (r, cl', w') \<Longrightarrow> same_client cl cl'"
  by (auto simp: client_bootstrap_def bootstrap_def same_client_def split: option.splits sum.splits)

lemma publish_same_client: "publish P C net cl d target w = Some (r, cl', w') \<Longrightarrow> same_client cl cl'"
  by (auto simp: publish_def iterative_store_def same_client_def Let_def
      split: option.splits sum.splits prod.splits if_splits)

lemma lookup_same_client: "lookup_value P C net fuel cl key w = Done (r, cl', w') \<Longrightarrow> same_client cl cl'"
  by (auto simp: lookup_value_def same_client_def Let_def
      split: option.splits outcome.splits sum.splits prod.splits if_splits)

lemma discover_same_client: "discover_from P C net fuel cl key target w = Done (r, cl', w') \<Longrightarrow> same_client cl cl'"
  by (auto simp: discover_from_def discover_def dest: lookup_same_client
      split: outcome.splits sum.splits prod.splits if_splits)

text \<open>ciborium decodes what it has encoded, for the messages of a STORE and of a FIND_VALUE.\<close>

definition codec_ok :: "codec \<Rightarrow> bool" where
  "codec_ok C \<longleftrightarrow>
     (\<forall>m b. to_cbor C (WStore m) = Ok b \<longrightarrow> from_cbor_store C b = Ok m) \<and>
     (\<forall>m b. to_cbor C (WStoreAck m) = Ok b \<longrightarrow> from_cbor_store_ack C b = Ok m) \<and>
     (\<forall>m b. to_cbor C (WFindValue m) = Ok b \<longrightarrow> from_cbor_find_value C b = Ok m) \<and>
     (\<forall>m b. to_cbor C (WFindValueResult m) = Ok b \<longrightarrow> from_cbor_find_value_result C b = Ok m)"

lemma send_one_node:
  assumes "one_node P C node at_node peer T net" and "send_new net a ty b w = (r, w')"
  obtains (away) e where "\<not> at_node a" "r = Err e" "node w' = node w"
  | (here) i t t' answer where "at_node a" "t \<in> T" "t' \<in> T"
      "dispatch_request P C (node w) (frame_new i ty b) (Some peer) t t' = (answer, node w')"
      "case answer of Some f \<Rightarrow> r = Ok f | None \<Rightarrow> \<exists>e. r = Err e"
proof -
  obtain i w1 where i: "net_id net w = (i, w1)" by (rule prod.exhaust)
  then have s: "net_send net a (frame_new i ty b) w1 = (r, w')" using assms(2) by (simp add: send_new_def)
  have n: "node w1 = node w" using assms(1) i unfolding one_node_def by (metis snd_conv)
  have "if at_node a then
      \<exists>t \<in> T. \<exists>t' \<in> T. \<exists>answer. dispatch_request P C (node w1) (frame_new i ty b) (Some peer) t t' = (answer, node w') \<and>
        (case answer of Some f \<Rightarrow> r = Ok f | None \<Rightarrow> \<exists>e. r = Err e)
    else node w' = node w1 \<and> (\<exists>e. r = Err e)"
    using assms(1) s unfolding one_node_def by blast
  note sent = this [unfolded n]
  show thesis
  proof (cases "at_node a")
    case True
    with sent show thesis using here by auto
  next
    case False
    with sent show thesis using away by auto
  qed
qed

subsection \<open>The node's side\<close>

definition kept :: "(descriptor_store, 'h) dht_node \<Rightarrow> (descriptor_store, 'h) dht_node \<Rightarrow> bool" where
  "kept n n' \<longleftrightarrow> dn_hooks n' = dn_hooks n \<and> dn_config n' = dn_config n"

lemma kept_reply:
  assumes "reply C fr ty w (panicked P n s a now) h = (answer, n')"
    and "\<And>m n1. h = Some (m, n1) \<Longrightarrow> node_step P (mem_backend P) n n1"
  shows "kept n n'"
  using assms(1)
  by (rule reply_cases)
    (use assms(2) node_step_config in \<open>force simp: kept_def panicked_def update_routing_table_keeps split: option.splits\<close>)+

lemma kept_bound:
  assumes "bound P peer s dec (None, n) k = (answer, n')" and "\<And>m. k m = (answer, n') \<Longrightarrow> kept n n'"
  shows "kept n n'"
  by (rule bound_cases [of P peer s dec "(None, n)" k]) (use assms in \<open>auto simp: kept_def\<close>)

lemma dispatch_plain [invariants]:
  assumes "plain_node P n" and "dispatch_request P C n fr peer t t' = (answer, n')"
  shows "plain_node P n'"
proof -
  have "kept n n'"
    using assms(2) unfolding dispatch_bound
    by (auto split: if_splits elim!: kept_bound kept_reply intro: step_ping step_store step_find_node step_find_value)
      (simp_all add: kept_def)
  then show ?thesis
    using assms dispatch_serving [of P n C fr peer t t' answer n'] by (simp add: plain_node_def kept_def)
qed

lemma reply_store:
  assumes "reply C fr ty w (panicked P n s a now) h = (answer, n')"
    and "\<And>m n1. h = Some (m, n1) \<Longrightarrow> dn_store n1 = dn_store n"
  shows "dn_store n' = dn_store n"
  using assms(1) by (rule reply_cases) (use assms(2) in auto)

lemma find_store:
  "handle_find_node P n m t t' = Some (r, n') \<Longrightarrow> dn_store n' = dn_store n"
  "handle_find_value P (mem_backend P) n q t t' = Some (r', n'') \<Longrightarrow> dn_store n'' = dn_store n"
  by (auto simp: handle_find_node_def handle_find_value_def Let_def mem_backend_def update_routing_table_keeps
      split: option.splits prod.splits sum.splits if_splits)

text \<open>Only a STORE changes what the node stores.\<close>

lemma dispatch_find_store:
  assumes "dispatch_request P C n fr peer t t' = (answer, n')"
    and "msg_type fr = MSG_FIND_NODE \<or> msg_type fr = MSG_FIND_VALUE"
  shows "dn_store n' = dn_store n"
  using assms unfolding dispatch_request_def
  by (auto simp: msg_type_defs split: if_splits sum.splits elim!: reply_store dest: find_store)

lemma dispatch_store:
  assumes "codec_ok C" and "to_cbor C (WStore m) = Ok b"
    and "dispatch_request P C n (frame_new i MSG_STORE b) (Some (store_sender m)) t t' = (answer, n')"
  obtains (panic) "answer = None" "dn_store n' = dn_store n"
  | (handled) ack where "handle_store P (mem_backend P) n m t t' = Some (ack, n')"
      "\<And>f. answer = Some f \<Longrightarrow> msg_type f = MSG_STORE_ACK \<and> from_cbor_store_ack C (body f) = Ok ack"
proof -
  have "from_cbor_store C b = Ok m" using assms(1,2) by (simp add: codec_ok_def)
  then have "reply C (frame_new i MSG_STORE b) MSG_STORE_ACK WStoreAck
      (panicked P n (store_sender m) (store_sender_addr m) t) (handle_store P (mem_backend P) n m t t') = (answer, n')"
    using assms(3) by (simp add: dispatch_request_def msg_type_defs)
  then show thesis
  proof (rule reply_cases)
    fix a k
    assume "handle_store P (mem_backend P) n m t t' = Some (a, n')" "to_cbor C (WStoreAck a) = Ok k"
      "answer = Some (frame_response (frame_new i MSG_STORE b) MSG_STORE_ACK k)"
    then show thesis using assms(1) by (intro handled) (auto simp: codec_ok_def)
  qed (use panic handled in auto)
qed

text \<open>The node holds \<open>d\<close> under all its keys, and its id is not revoked.\<close>

definition holds :: "descriptor \<Rightarrow> descriptor_store \<Rightarrow> bool" where
  "holds d s \<longleftrightarrow> (\<forall>k \<in> set (routing_keys d). d \<in> set (at (store s) k)) \<and> id_hash d \<notin> revoked s"

lemma holds_found:
  "holds d s \<Longrightarrow> k \<in> set (routing_keys d) \<Longrightarrow> \<not> expired t d \<Longrightarrow> d \<in> set (get_descriptors_at s k None t)"
  by (simp add: holds_def get_at)

text \<open>Neither a revocation nor a key rotation.\<close>

definition plain_schema :: "prims \<Rightarrow> descriptor \<Rightarrow> bool" where
  "plain_schema P d \<longleftrightarrow> schema_hash d \<noteq> SCHEMA_HASH_CORE_REVOCATION P \<and> schema_hash d \<noteq> SCHEMA_HASH_CORE_KEY_ROTATION P"

lemma put_holds:
  assumes "plain_schema P d" and "id_hash d \<notin> revoked s" and "store_descriptor_at P s d t = (r, s')"
  shows "id_hash d \<notin> revoked s'" and "holds d s \<or> r = Ok () \<Longrightarrow> holds d s'"
proof -
  have "id_hash d \<notin> revoked s' \<and> (holds d s \<or> r = Ok () \<longrightarrow> holds d s')"
  proof (cases rule: store_at_cases [of P d t s])
    case (accepted rl)
    then have "s' = placed (s\<lparr>rate_limiter_field := rl\<rparr>) d"
      using assms(1,3) by (simp add: store_accepted_alt plain_schema_def)
    then show ?thesis using assms(2) by (simp add: holds_def placed_def at_push count_list_0_iff)
  qed (use assms in \<open>auto simp: holds_def\<close>)
  then show "id_hash d \<notin> revoked s'" and "holds d s \<or> r = Ok () \<Longrightarrow> holds d s'" by blast+
qed

subsection \<open>Publishing at the node\<close>

lemma find_sent:
  assumes "one_node P C node at_node peer T net" and "plain_node P (node w)"
    and "send_new net a ty b w = (r, w')" and "ty = MSG_FIND_NODE \<or> ty = MSG_FIND_VALUE"
  shows "plain_node P (node w') \<and> dn_store (node w') = dn_store (node w)"
proof (cases rule: send_one_node [OF assms(1,3)])
  case (2 i t t' answer)
  then show ?thesis
    using dispatch_plain [OF assms(2) 2(4)] dispatch_find_store [OF 2(4)] assms(4) by simp
qed (use assms(2) in simp)

text \<open>Before \<open>d\<close> is published, and after the first acknowledgement.\<close>

definition publishing :: "prims \<Rightarrow> descriptor \<Rightarrow> (descriptor_store, 'h) dht_node \<Rightarrow> bool \<Rightarrow> bool" where
  "publishing P d n acked \<longleftrightarrow>
     plain_node P n \<and> id_hash d \<notin> revoked (dn_store n) \<and> (acked \<longrightarrow> holds d (dn_store n))"

lemma store_sent:
  assumes "codec_ok C" and "one_node P C node at_node (store_sender m) T net"
    and "to_cbor C (WStore m) = Ok b" and "plain_schema P (store_descriptor_field m)"
    and "publishing P (store_descriptor_field m) (node w) acked" and "send_new net a MSG_STORE b w = (r, w')"
  shows "publishing P (store_descriptor_field m) (node w')
     (acked \<or> (\<exists>f ack. r = Ok f \<and> from_cbor_store_ack C (body f) = Ok ack \<and> stored ack))"
proof -
  let ?d = "store_descriptor_field m"
  have p: "plain_node P (node w)" "id_hash ?d \<notin> revoked (dn_store (node w))"
    using assms(5) by (simp_all add: publishing_def)
  show ?thesis
  proof (cases rule: send_one_node [OF assms(2,6)])
    case (1 e)
    then show ?thesis using assms(5) by simp
  next
    case (2 i t t' answer)
    note plain = dispatch_plain [OF p(1) 2(4)]
    show ?thesis
    proof (cases rule: dispatch_store [OF assms(1,3) 2(4)])
      case 1
      then show ?thesis using plain 2(5) assms(5) by (auto simp: publishing_def)
    next
      case (2 ack)
      obtain q s where s: "store_descriptor_at P (dn_store (node w)) ?d t' = (q, s)" by (rule prod.exhaust)
      have st: "dn_store (node w') = dn_store (node w) \<and> \<not> stored ack \<or>
          dn_store (node w') = s \<and> (stored ack \<longleftrightarrow> q = Ok ())"
        using handle_store_store [OF 2(1)] s by (simp add: mem_backend_def)
      have "stored ack'" if "r = Ok f" "from_cbor_store_ack C (body f) = Ok ack'" "stored ack'" for f ack'
        using that by simp
      moreover have "ack' = ack" if "r = Ok f" "from_cbor_store_ack C (body f) = Ok ack'" for f ack'
        using that 2(2) \<open>case answer of Some f \<Rightarrow> r = Ok f | None \<Rightarrow> \<exists>e. r = Err e\<close> by (auto split: option.splits)
      ultimately show ?thesis
        using st plain assms(5) put_holds [OF assms(4) p(2) s] by (auto simp: publishing_def)
    qed
  qed
qed

lemma store_discover_sent:
  assumes "one_node P C node at_node peer T net"
  shows "publishing P d (node w) acked \<Longrightarrow> store_discover P C net n key xs targets t w = Some (r, t', w') \<Longrightarrow>
     publishing P d (node w') acked"
proof (induction xs arbitrary: targets t w)
  case Nil
  then show ?case by simp
next
  case (Cons x xs)
  have sent: "publishing P d (node w1) acked" if "send_new net (ni_addr x) MSG_FIND_NODE b w = (q, w1)" for b q w1
    using find_sent [OF assms _ that] Cons.prems(1) by (auto simp: publishing_def)
  obtain b where b: "to_cbor C (WFindNode (find_node_request n key)) = Ok b \<or>
      (\<exists>e. to_cbor C (WFindNode (find_node_request n key)) = Err e)"
    by (cases "to_cbor C (WFindNode (find_node_request n key))") auto
  obtain q w1 where s: "send_new net (ni_addr x) MSG_FIND_NODE b w = (q, w1)" by (rule prod.exhaust)
  show ?case
    using b Cons.prems s sent [OF s]
    by (auto simp: Let_def split: option.splits intro: Cons.IH)
qed

lemma store_to_sent:
  assumes "codec_ok C" and "one_node P C node at_node (store_sender m) T net"
    and "to_cbor C (WStore m) = Ok b" and "plain_schema P (store_descriptor_field m)"
  shows "publishing P (store_descriptor_field m) (node w) (0 < acks) \<Longrightarrow>
     store_to P C net self_id b xs acks w = (acks', w') \<Longrightarrow>
     publishing P (store_descriptor_field m) (node w') (0 < acks')"
proof (induction xs arbitrary: acks w)
  case Nil
  then show ?case by simp
next
  case (Cons x xs)
  show ?case
  proof (cases "ni_id P x = self_id")
    case True
    then show ?thesis using Cons by simp
  next
    case False
    obtain q w1 where s: "send_new net (ni_addr x) MSG_STORE b w = (q, w1)" by (rule prod.exhaust)
    define acked where "acked = (case q of Err _ \<Rightarrow> False
       | Ok r \<Rightarrow> msg_type r = MSG_STORE_ACK \<and> (case from_cbor_store_ack C (body r) of Err _ \<Rightarrow> False | Ok ack \<Rightarrow> stored ack))"
    have "acked \<Longrightarrow> \<exists>f ack. q = Ok f \<and> from_cbor_store_ack C (body f) = Ok ack \<and> stored ack"
      by (auto simp: acked_def split: sum.splits)
    then have "publishing P (store_descriptor_field m) (node w1) (0 < (if acked then acks + 1 else acks))"
      using store_sent [OF assms Cons.prems(1) s] by (auto simp: publishing_def)
    moreover have "store_to P C net self_id b xs (if acked then acks + 1 else acks) w1 = (acks', w')"
      using Cons.prems(2) False s by (simp add: acked_def Let_def)
    ultimately show ?thesis by (rule Cons.IH)
  qed
qed

lemma store_keys_sent:
  assumes "codec_ok C" and "one_node P C node at_node (dn_identity n) T net" and "plain_schema P d"
  shows "publishing P d (node w) (0 < acks) \<Longrightarrow> store_keys P C net n d keys acks t w = Some (Ok acks', t', w') \<Longrightarrow>
     publishing P d (node w') (0 < acks')"
proof (induction keys arbitrary: acks t w)
  case Nil
  then show ?case by simp
next
  case (Cons key keys)
  let ?m = "\<lparr>store_sender = dn_identity n, store_sender_addr = dn_addr n, store_descriptor_field = d\<rparr>"
  obtain closest targets t1 w1 ts b where
    sd: "store_discover P C net n key (take (alpha (dn_config n)) closest) closest t w = Some (Ok targets, t1, w1)"
    and b: "to_cbor C (WStore ?m) = Ok b"
    and rest: "(case store_to P C net (dn_node_id n) b (take K ts) acks w1 of
       (acks1, w2) \<Rightarrow> store_keys P C net n d keys acks1 t1 w2) = Some (Ok acks', t', w')"
    using Cons.prems(2) by (auto simp: Let_def split: option.splits sum.splits)
  have p1: "publishing P d (node w1) (0 < acks)"
    by (rule store_discover_sent [OF assms(2) Cons.prems(1) sd])
  obtain acks1 w2 where to: "store_to P C net (dn_node_id n) b (take K ts) acks w1 = (acks1, w2)" by (rule prod.exhaust)
  have "publishing P d (node w2) (0 < acks1)"
    using store_to_sent [OF assms(1) _ b _ _ to, where node = node and at_node = at_node and T = T] assms(2,3) p1 by simp
  then show ?case using Cons.IH rest to by simp
qed

text \<open>A positive acknowledgement, of a replica or of the target that the client falls back to, means
  that the node holds the descriptor.\<close>

lemma publish_holds:
  assumes "codec_ok C" and "one_node P C node at_node (dn_identity cl) T net" and "client_ok P cl"
    and "plain_schema P d" and "plain_node P (node w)" and "id_hash d \<notin> revoked (dn_store (node w))"
    and "publish P C net cl d target w = Some (Ok ack, cl', w')" and "stored ack"
  shows "plain_node P (node w') \<and> holds d (dn_store (node w'))"
proof -
  obtain acks t w1 where keys: "store_keys P C net cl d (routing_keys d) 0 (dn_routing_table cl) w = Some (Ok acks, t, w1)"
    using assms(7) by (auto simp: publish_def iterative_store_def split: option.splits sum.splits)
  obtain now w2 where now: "net_now net w1 = (now, w2)" by (rule prod.exhaust)
  have "publishing P d (node w) (0 < (0 :: nat))" using assms(5,6) by (simp add: publishing_def)
  from store_keys_sent [OF assms(1,2,4) this keys] have "publishing P d (node w1) (0 < acks)" .
  moreover have "node w2 = node w1" using assms(2) now unfolding one_node_def by (metis snd_conv)
  ultimately have p2: "publishing P d (node w2) (0 < acks)" by simp
  show ?thesis
  proof (cases "0 < acks")
    case True
    then have "w' = w2" using assms(7) keys now by (auto simp: publish_def iterative_store_def)
    then show ?thesis using p2 True by (simp add: publishing_def)
  next
    case False
    let ?m = "\<lparr>store_sender = dn_identity cl, store_sender_addr = dn_addr cl, store_descriptor_field = d\<rparr>"
    have a: "ask C net target MSG_STORE (WStore ?m) MSG_STORE_ACK (from_cbor_store_ack C) w2 = (Ok ack, w')"
      using assms(3,7) keys now False
      by (auto simp: publish_def iterative_store_def client_ok_def split: prod.splits)
    then obtain b f where b: "to_cbor C (WStore ?m) = Ok b" and s: "send_new net target MSG_STORE b w2 = (Ok f, w')"
      and f: "from_cbor_store_ack C (body f) = Ok ack"
      by (auto simp: ask_def split: sum.splits prod.splits if_splits)
    have "publishing P d (node w') (False \<or> (\<exists>f' ack. (Ok f :: dht_transport_error + frame) = Ok f' \<and>
        from_cbor_store_ack C (body f') = Ok ack \<and> stored ack))"
      using store_sent [OF assms(1) _ b _ _ s, where node = node and at_node = at_node and T = T and acked = False]
        assms(2,4) p2 False
      by simp
    then show ?thesis using f assms(8) by (auto simp: publishing_def)
  qed
qed

subsection \<open>Discovering at the node\<close>

text \<open>The node's answer for the key fits into one message of at most twenty descriptors.\<close>

definition listable :: "codec \<Rightarrow> descriptor_store \<Rightarrow> hash \<Rightarrow> u64 \<Rightarrow> bool" where
  "listable C s key t \<longleftrightarrow> length (get_descriptors_at s key None t) \<le> 20 \<and>
     is_ok (to_cbor C (WFindValueResult \<lparr>fvr_descriptors = Some (get_descriptors_at s key None t), fvr_nodes = None\<rparr>))"

text \<open>The two requests of a discovery: of the lookup and of the query that it falls back to.\<close>

definition client_query :: "prims \<Rightarrow> client \<Rightarrow> hash \<Rightarrow> find_value" where
  "client_query P cl key =
     \<lparr>fv_sender = keypair_identity P (dn_keypair cl), fv_sender_addr = dn_addr cl, fv_key = key,
      fv_max_results = 100, fv_filters = None\<rparr>"

definition can_ask :: "prims \<Rightarrow> codec \<Rightarrow> client \<Rightarrow> hash \<Rightarrow> bool" where
  "can_ask P C cl key \<longleftrightarrow> is_ok (to_cbor C (WFindValue (find_value_request cl key))) \<and>
     is_ok (to_cbor C (WFindValue (client_query P cl key)))"

text \<open>What has been found so far: nothing, or descriptors that the node has under the key at a reading of
  its clock, \<open>d\<close> among them.\<close>

definition finding :: "descriptor_store \<Rightarrow> hash \<Rightarrow> u64 set \<Rightarrow> descriptor \<Rightarrow> descriptor list \<Rightarrow> bool" where
  "finding s key T d ds \<longleftrightarrow>
     (ds \<noteq> [] \<longrightarrow> d \<in> set ds) \<and> (\<forall>x \<in> set ds. \<exists>t \<in> T. x \<in> set (get_descriptors_at s key None t))"

lemma finding_simps [simp]: "finding s key T d []"
  "finding s key T d xs \<Longrightarrow> finding s key T d ys \<Longrightarrow> finding s key T d (xs @ ys)"
  by (auto simp: finding_def)

definition node_has :: "prims \<Rightarrow> descriptor_store \<Rightarrow> (descriptor_store, 'h) dht_node \<Rightarrow> bool" where
  "node_has P s n \<longleftrightarrow> plain_node P n \<and> dn_store n = s"

text \<open>What a discovery needs, for \<open>d\<close> to be found under \<open>key\<close> at a node whose store is \<open>s\<close>.\<close>

definition discovery ::
  "prims \<Rightarrow> codec \<Rightarrow> ('w \<Rightarrow> (descriptor_store, 'h) dht_node) \<Rightarrow> (node_addr \<Rightarrow> bool) \<Rightarrow> client \<Rightarrow> u64 set \<Rightarrow>
   'w net \<Rightarrow> descriptor_store \<Rightarrow> hash \<Rightarrow> descriptor \<Rightarrow> bool" where
  "discovery P C node at_node cl T net s key d \<longleftrightarrow>
     blake3_ok P \<and> full P key \<and> codec_ok C \<and> one_node P C node at_node (dn_identity cl) T net \<and>
     client_ok P cl \<and> can_ask P C cl key \<and>
     (\<forall>t \<in> T. d \<in> set (get_descriptors_at s key None t) \<and> listable C s key t)"

lemma discoveryD:
  assumes "discovery P C node at_node cl T net s key d"
  shows "blake3_ok P" "full P key" "codec_ok C" "one_node P C node at_node (dn_identity cl) T net" "client_ok P cl"
    "can_ask P C cl key" "t \<in> T \<Longrightarrow> d \<in> set (get_descriptors_at s key None t)" "t \<in> T \<Longrightarrow> listable C s key t"
  using assms by (simp_all add: discovery_def)

text \<open>The node answers with what it has; nobody else answers.\<close>

lemma asked:
  assumes D: "discovery P C node at_node cl T net s key d" and "node_has P s (node w)" and "to_cbor C (WFindValue q) = Ok b"
    and "fv_sender q = dn_identity cl" "fv_key q = key" "fv_filters q = None" "20 \<le> unat (fv_max_results q)"
    and "send_new net a MSG_FIND_VALUE b w = (r, w')"
  obtains (away) e where "\<not> at_node a" "r = Err e" "node_has P s (node w')"
  | (here) f t where "at_node a" "t \<in> T" "r = Ok f" "msg_type f = MSG_FIND_VALUE_RESULT" "node_has P s (node w')"
      "from_cbor_find_value_result C (body f) = Ok \<lparr>fvr_descriptors = Some (get_descriptors_at s key None t), fvr_nodes = None\<rparr>"
proof -
  note crates = discoveryD(1-3) [OF D] and net = discoveryD(4) [OF D] and there = discoveryD(7,8) [OF D]
  note assms = assms(2-)
  have n: "plain_node P (node w)" "dn_store (node w) = s" using assms(1) by (simp_all add: node_has_def)
  have n': "node_has P s (node w')" using find_sent [OF net n(1) assms(7)] n(2) by (simp add: node_has_def)
  show thesis
  proof (cases rule: send_one_node [OF net assms(7)])
    case (1 e)
    then show thesis using away n' by blast
  next
    case (2 i t t' answer)
    let ?ds = "get_descriptors_at s key None t'" and ?fr = "frame_new i MSG_FIND_VALUE b"
    have q: "from_cbor_find_value C b = Ok q" using crates(3) assms(2) by (simp add: codec_ok_def)
    obtain n1 where u: "update_routing_table P (node w) (fv_sender q) (fv_sender_addr q) t = Some n1"
      using update_routing_table_total [OF crates(1)] n(1) by (metis plain_node_def serving_def)
    have "?ds \<noteq> []" "length ?ds \<le> 20" using there [OF 2(3)] by (auto simp: listable_def)
    moreover obtain k where k: "to_cbor C (WFindValueResult \<lparr>fvr_descriptors = Some ?ds, fvr_nodes = None\<rparr>) = Ok k"
      using there(2) [OF 2(3)] by (auto simp: listable_def elim: is_okE)
    moreover have "be_get (mem_backend P) (dn_store (node w)) (fv_key q) (fv_filters q) t' = (?ds, s)"
      using n(2) assms(4,5) by (simp add: mem_backend_def)
    ultimately have "handle_find_value P (mem_backend P) (node w) q t t' =
        Some (\<lparr>fvr_descriptors = Some ?ds, fvr_nodes = None\<rparr>, n1\<lparr>dn_store := s\<rparr>)"
      using handle_find_value_found [OF _ _ _ u, of "mem_backend P" t' ?ds s] n(1) assms(6)
      by (simp add: plain_node_def dht_config_default_def)
    then have "dispatch_request P C (node w) ?fr (Some (dn_identity cl)) t t' =
        (Some (frame_response ?fr MSG_FIND_VALUE_RESULT k), n1\<lparr>dn_store := s\<rparr>)"
      using q assms(3) k by (simp add: dispatch_request_def msg_type_defs reply_def)
    then have "r = Ok (frame_response ?fr MSG_FIND_VALUE_RESULT k)" using 2(4,5) by auto
    then show thesis using here [OF 2(1,3)] n' k crates(3) by (simp add: codec_ok_def)
  qed
qed

lemma request_sel:
  assumes "client_ok P cl"
  shows "fv_sender (find_value_request cl key) = dn_identity cl" "fv_key (find_value_request cl key) = key"
  "fv_filters (find_value_request cl key) = None" "20 \<le> unat (fv_max_results (find_value_request cl key))"
  using assms by (simp_all add: find_value_request_def client_ok_def dht_config_default_def)

lemma found_here:
  "discovery P C node at_node cl T net s key d \<Longrightarrow> t \<in> T \<Longrightarrow> finding s key T d (get_descriptors_at s key None t)"
  using discoveryD(7) by (auto simp: finding_def)

definition lookup_state_ok ::
  "prims \<Rightarrow> ('w \<Rightarrow> (descriptor_store, 'h) dht_node) \<Rightarrow> descriptor_store \<Rightarrow> hash \<Rightarrow> u64 set \<Rightarrow> descriptor \<Rightarrow>
   'w lookup_state \<Rightarrow> bool" where
  "lookup_state_ok P node s key T d st \<longleftrightarrow> node_has P s (node (ls_world st)) \<and> ls_new_nodes st = [] \<and> finding s key T d (ls_collected st)"

lemma query_step:
  assumes D: "discovery P C node at_node cl T net s key d" and "lookup_state_ok P node s key T d st"
  shows "\<exists>st'. lookup_query P C net cl key x st = Some (Ok (), st') \<and> lookup_state_ok P node s key T d st'"
proof -
  obtain b where b: "to_cbor C (WFindValue (find_value_request cl key)) = Ok b"
    using discoveryD(6) [OF D] by (auto simp: can_ask_def elim: is_okE)
  obtain r w' where sent: "send_new net (ni_addr x) MSG_FIND_VALUE b (ls_world st) = (r, w')" by (rule prod.exhaust)
  have w: "node_has P s (node (ls_world st))" using assms by (simp add: lookup_state_ok_def)
  show ?thesis
    by (cases rule: asked [OF D w b request_sel [OF discoveryD(5) [OF D]] sent])
      (use assms b sent found_here [OF D] in \<open>auto simp: lookup_query_def Let_def lookup_state_ok_def\<close>)
qed

lemma queries_step:
  "discovery P C node at_node cl T net s key d \<Longrightarrow> lookup_state_ok P node s key T d st \<Longrightarrow> \<exists>st'. lookup_queries P C net cl key xs st = Some (Ok (), st') \<and> lookup_state_ok P node s key T d st'"
proof (induction xs arbitrary: st)
  case (Cons x xs)
  obtain st' where "lookup_query P C net cl key x st = Some (Ok (), st')" "lookup_state_ok P node s key T d st'"
    using query_step [OF Cons.prems] by blast
  then show ?case using Cons.IH Cons.prems(1) by simp
qed simp

lemma loop_done:
  assumes D: "discovery P C node at_node cl T net s key d" and "lookup_state_ok P node s key T d st"
  shows "\<exists>st'. lookup_loop P C net cl key (Suc fuel) candidates st = Done (Ok (), st') \<and> lookup_state_ok P node s key T d st'"
proof -
  have "sort_by (\<lambda>a b. distance_cmp P key (ni_id P a) (ni_id P b)) xs =
      Some (sort_key (\<lambda>e. dist key (ni_id P e)) xs)" for xs
    by (rule sort_by_key) (simp add: distance_cmp_dist discoveryD(1,2) [OF D])
  moreover have "lookup_state_ok P node s key T d (st\<lparr>ls_new_nodes := []\<rparr>)" using assms by (simp add: lookup_state_ok_def)
  from queries_step [OF D this] obtain st' where
    "lookup_queries P C net cl key (to_query P (alpha (dn_config cl)) (ls_queried st) candidates) (st\<lparr>ls_new_nodes := []\<rparr>) =
       Some (Ok (), st')" "lookup_state_ok P node s key T d st'" by blast
  ultimately show ?thesis using assms by (auto simp: Let_def lookup_state_ok_def)
qed

lemma broadcast_done:
  "discovery P C node at_node cl T net s key d \<Longrightarrow> node_has P s (node w) \<Longrightarrow> find_value_request n' key = find_value_request cl key \<Longrightarrow>
     \<exists>ds w'. lookup_broadcast C net n' key xs w = (Ok ds, w') \<and> node_has P s (node w') \<and> finding s key T d ds"
proof (induction xs arbitrary: w)
  case (Cons x xs)
  obtain b where b: "to_cbor C (WFindValue (find_value_request cl key)) = Ok b"
    using discoveryD(6) [OF Cons.prems(1)] by (auto simp: can_ask_def elim: is_okE)
  obtain r w' where sent: "send_new net (ni_addr x) MSG_FIND_VALUE b w = (r, w')" by (rule prod.exhaust)
  show ?case
  proof (cases rule: asked [OF Cons.prems(1,2) b request_sel [OF discoveryD(5) [OF Cons.prems(1)]] sent])
    case (1 e)
    then show ?thesis using Cons b sent by simp
  next
    case (2 f t)
    then show ?thesis using Cons b sent found_here [OF Cons.prems(1) 2(2)] discoveryD(7) [OF Cons.prems(1) 2(2)]
      by (auto simp: Let_def)
  qed
qed simp

lemma lookup_done:
  assumes D: "discovery P C node at_node cl T net s key d" and "node_has P s (node w)"
  shows "\<exists>ds cl' w'. lookup_value P C net (Suc fuel) cl key w = Done (Ok ds, cl', w') \<and> same_client cl cl' \<and>
     node_has P s (node w') \<and> finding s key T d ds"
proof -
  let ?st = "\<lparr>ls_queried = [], ls_collected = [], ls_new_nodes = [], ls_table = dn_routing_table cl, ls_world = w\<rparr>"
  obtain initial where i: "closest_nodes P (dn_routing_table cl) key (alpha (dn_config cl)) = Some initial"
    using closest_nodes_sort discoveryD(1,2) [OF D] by blast
  have "lookup_state_ok P node s key T d ?st" using assms(2) by (simp add: lookup_state_ok_def)
  then obtain st where st: "lookup_loop P C net cl key (Suc fuel) initial ?st = Done (Ok (), st)" "lookup_state_ok P node s key T d st"
    using loop_done [OF D] by blast
  let ?n = "cl\<lparr>dn_routing_table := ls_table st\<rparr>"
  have "find_value_request ?n key = find_value_request cl key" by (simp add: find_value_request_def)
  then obtain ds w' where "lookup_broadcast C net ?n key (all_nodes (ls_table st)) (ls_world st) = (Ok ds, w')"
    "node_has P s (node w')" "finding s key T d ds"
    using broadcast_done [OF D, of "ls_world st" ?n "all_nodes (ls_table st)"] st(2) by (auto simp: lookup_state_ok_def)
  then show ?thesis using i st by (auto simp: lookup_value_def Let_def lookup_state_ok_def same_client_def)
qed

lemma discovered:
  assumes D: "discovery P C node at_node cl T net s key d" and "node_has P s (node w)" and "at_node target"
  shows "\<exists>ds cl' w'. discover_from P C net (Suc fuel) cl key target w = Done (Ok ds, cl', w') \<and>
     d \<in> set ds \<and> (\<forall>x \<in> set ds. \<exists>t \<in> T. x \<in> set (get_descriptors_at s key None t))"
proof -
  obtain ds cl' w' where l: "lookup_value P C net (Suc fuel) cl key w = Done (Ok ds, cl', w')" "same_client cl cl'"
    "node_has P s (node w')" "finding s key T d ds"
    using lookup_done [OF D assms(2)] by blast
  show ?thesis
  proof (cases "ds = []")
    case False
    then show ?thesis using l by (simp add: discover_from_def discover_def finding_def)
  next
    case True
    let ?q = "client_query P cl key"
    have q: "fv_sender ?q = dn_identity cl" "fv_key ?q = key" "fv_filters ?q = None" "20 \<le> unat (fv_max_results ?q)"
      using discoveryD(5) [OF D] by (simp_all add: client_query_def client_ok_def)
    obtain b where b: "to_cbor C (WFindValue ?q) = Ok b" using discoveryD(6) [OF D] by (auto simp: can_ask_def elim: is_okE)
    obtain r w'' where sent: "send_new net target MSG_FIND_VALUE b w' = (r, w'')" by (rule prod.exhaust)
    have q': "client_query P cl' key = ?q" using l(2) by (simp add: client_query_def same_client_def)
    show ?thesis
    proof (cases rule: asked [OF D l(3) b q sent])
      case (2 f t)
      then have "query_node P C net cl' key target w' = (Ok (get_descriptors_at s key None t), w'')"
        using b sent q' by (simp add: query_node_def ask_def client_query_def)
      then show ?thesis using True l(1) discoveryD(7) [OF D 2(2)] 2(2) by (auto simp: discover_from_def discover_def)
    qed (use assms(3) in blast)
  qed
qed

subsection \<open>Publishing and discovering\<close>

lemma capability_descriptor_sel [simp]:
  "schema_hash (capability_descriptor P kp cap ep ps now) = schema_hash_of P ''core/capability''"
  "routing_keys (capability_descriptor P kp cap ep ps now) = hierarchical_routing_keys P cap"
  "timestamp (capability_descriptor P kp cap ep ps now) = now" "ttl (capability_descriptor P kp cap ep ps now) = 3600"
  "publisher (capability_descriptor P kp cap ep ps now) = keypair_identity P kp"
  "payload (capability_descriptor P kp cap ep ps now) = capability_payload P cap ep ps"
  by (simp_all add: capability_descriptor_def)

text \<open>BLAKE3 tells the schema of capabilities from the two schemas that the store interprets.\<close>

definition schemas_differ :: "prims \<Rightarrow> bool" where
  "schemas_differ P \<longleftrightarrow> schema_hash_of P ''core/capability'' \<noteq> SCHEMA_HASH_CORE_REVOCATION P \<and>
     schema_hash_of P ''core/capability'' \<noteq> SCHEMA_HASH_CORE_KEY_ROTATION P"

lemma hierarchical_keys_full:
  "blake3_ok P \<Longrightarrow> key \<in> set (hierarchical_routing_keys P ty) \<Longrightarrow> full P key"
  by (auto simp: hierarchical_routing_keys_def Let_def routing_key_def full_def)

text \<open>What was published at the node is discovered there.\<close>

lemma published_is_found:
  assumes "blake3_ok P" and "codec_ok C"
    and "client_ok P cl" and "one_node P C node at_node (dn_identity cl) T net" and "plain_node P (node w)"
    and "publish P C net cl d target w = Some (Ok ack, cl', w1)" and "stored ack"
    and "plain_schema P d" and "id_hash d \<notin> revoked (dn_store (node w))"
    and "client_ok P cl1" and "one_node P C node at_node (dn_identity cl1) T1 net1" and "at_node target1"
    and "plain_node P (node w2)" and "dn_store (node w2) = dn_store (node w1)"
    and "key \<in> set (routing_keys d)" and "full P key" and "can_ask P C cl1 key"
    and "\<And>t. t \<in> T1 \<Longrightarrow> \<not> expired t d \<and> listable C (dn_store (node w1)) key t"
  shows "\<exists>ds cl2 w3. discover_from P C net1 (Suc fuel) cl1 key target1 w2 = Done (Ok ds, cl2, w3) \<and> d \<in> set ds \<and>
     (\<forall>x \<in> set ds. \<exists>t \<in> T1. x \<in> set (get_descriptors_at (dn_store (node w1)) key None t))"
proof -
  have "holds d (dn_store (node w1))"
    using publish_holds [OF assms(2,4,3,8,5,9,6,7)] by blast
  then have "discovery P C node at_node cl1 T1 net1 (dn_store (node w1)) key d"
    using assms(1,2,10,11,15-18) by (simp add: discovery_def holds_found)
  moreover have "node_has P (dn_store (node w1)) (node w2)" using assms(13,14) by (simp add: node_has_def)
  ultimately show ?thesis using assms(12) by (rule discovered)
qed

lemma hour_not_expired:
  assumes "timestamp d = now" and "ttl d = 3600" and "sane_clock t" and "now \<le> t" and "unat t < unat now + 3600000000"
  shows "\<not> expired t d"
  using assms expired_unat [OF assms(3), of d] by (simp add: word_le_nat_alt)


subsection \<open>Witnesses\<close>

text \<open>Connections that are addresses, to a peer that never answers.\<close>

definition loopback :: socket_addr where
  "loopback = \<lparr>sa_ip = V4 127 0 0 1, sa_port = 1\<rparr>"

definition silent_quic :: "(socket_addr, unit) quic" where
  "silent_quic = \<lparr>q_parse = (\<lambda>_. Ok loopback), q_connect = (\<lambda>sa w. (Ok sa, w)),
     q_request = (\<lambda>_ _ w. (Err StreamClosed, w)), q_id = (\<lambda>w. ([], w)), q_instant = (\<lambda>w. (0, w)), q_micros = (\<lambda>w. (0, w))\<rparr>"

lemma request_reaches_addressee_witness:
  "\<exists>t'. quic_send (\<lambda>_. []) silent_quic (node_addr_quic ''h:1'') (frame_new [] MSG_PING []) (quic_transport_new ()) =
     (Err (FrameError ''stream closed unexpectedly''), t') \<and>
     obtain_connection (\<lambda>_. []) silent_quic loopback t' =
       (Ok loopback, \<lparr>qt_connections = [loopback \<mapsto> loopback], qt_outside = ()\<rparr>)"
proof -
  let ?t = "\<lparr>qt_connections = Map.empty(loopback := None), qt_outside = ()\<rparr>"
  have c: "connects_to silent_quic (\<lambda>sa. sa)" by (simp add: connects_to_def silent_quic_def)
  have s: "quic_send (\<lambda>_. []) silent_quic (node_addr_quic ''h:1'') (frame_new [] MSG_PING []) (quic_transport_new ()) =
      (Err (FrameError ''stream closed unexpectedly''), ?t)"
    by (simp add: quic_send_def obtain_connection_def silent_quic_def quic_transport_new_def)
  then have "quic_send (\<lambda>_. []) silent_quic (node_addr_quic ''h:1'') (frame_new [] MSG_PING [])
      (send_all (\<lambda>_. []) silent_quic [] (quic_transport_new ())) = (Err (FrameError ''stream closed unexpectedly''), ?t)"
    by (simp add: send_all_def)
  from request_reaches_addressee [OF c this] have "obtain_connection (\<lambda>_. []) silent_quic loopback ?t =
      (case q_connect silent_quic loopback (qt_outside ?t) of
         (Err e', w) \<Rightarrow> (Err (ConnectionFailed (transport_error_display (\<lambda>_. []) e')), ?t\<lparr>qt_outside := w\<rparr>)
       | (Ok c, w) \<Rightarrow> (Ok c, \<lparr>qt_connections = (qt_connections ?t)(loopback \<mapsto> c), qt_outside = w\<rparr>))"
    by (auto simp: silent_quic_def)
  then show ?thesis using s by (intro exI [of _ ?t]) (simp add: silent_quic_def)
qed

text \<open>A codec for one capability, one publisher and the two requests of one seeker; PING and FIND_NODE
  are sent, but the node cannot read them.\<close>

definition wire_codec :: "store_msg \<Rightarrow> find_value \<Rightarrow> find_value \<Rightarrow> codec" where
  "wire_codec m q q' = (let found = \<lparr>fvr_descriptors = Some [store_descriptor_field m], fvr_nodes = None\<rparr>;
       ack = \<lparr>stored = True, reason = None\<rparr>
     in (demo_codec found)
     \<lparr>to_cbor := \<lambda>w. if w = WStore m \<or> w = WStoreAck ack \<or> w = WFindValue q \<or> w = WFindValueResult found \<or>
          (\<exists>p. w = WPing p) \<or> (\<exists>f. w = WFindNode f) then Ok []
        else if w = WFindValue q' then Ok [1] else Err Expired,
      from_cbor_store := \<lambda>_. Ok m, from_cbor_find_value := \<lambda>b. Ok (if b = [] then q else q')\<rparr>)"

lemma wire_codec_ok: "codec_ok (wire_codec m q q')"
  by (auto simp: codec_ok_def wire_codec_def demo_codec_def Let_def split: if_splits)

definition demo_cap :: descriptor where
  "demo_cap = capability_descriptor pad_prims \<lparr>signing_key = [1]\<rparr> ''a'' ''e'' None 1000"

lemma demo_cap_keys: "hierarchical_routing_keys pad_prims ''a'' = [routing_key pad_prims ''a'']"
  by (simp add: hierarchical_routing_keys_def)

lemma demo_payload: "length (capability_payload pad_prims ''a'' ''e'' None) \<le> 65536"
proof -
  have w: "cbor_write pad_prims = enc_value" by (simp add: pad_prims_def)
  show ?thesis
    by (simp add: capability_payload_def w enc_blob_def enc_nat_def digits256.simps as_bytes_def)
qed

lemma demo_cap_valid: "validate pad_prims demo_cap 2000 = Ok ()"
  unfolding demo_cap_def capability_descriptor_def
  by (subst validate_create) (simp_all add: well_formed_def limit_defs MAX_CLOCK_SKEW_SECS_def
      ttl_micros_def demo_cap_keys demo_payload)

lemma pad_capability_schema: "schemas_differ pad_prims"
proof -
  have "pad_digest (as_bytes ''mesh:schema:core/capability'') ! 17 \<noteq> pad_digest (as_bytes ''mesh:schema:core/revocation'') ! 17"
    and "pad_digest (as_bytes ''mesh:schema:core/capability'') ! 17 \<noteq> pad_digest (as_bytes ''mesh:schema:core/key-rotation'') ! 17"
    by (simp_all add: pad_digest_def as_bytes_def)
  then have "pad_digest (as_bytes ''mesh:schema:core/capability'') \<noteq> pad_digest (as_bytes ''mesh:schema:core/revocation'')"
    and "pad_digest (as_bytes ''mesh:schema:core/capability'') \<noteq> pad_digest (as_bytes ''mesh:schema:core/key-rotation'')"
    by metis+
  then show ?thesis
    by (simp add: schemas_differ_def SCHEMA_HASH_CORE_KEY_ROTATION_def SCHEMA_HASH_CORE_REVOCATION_def
        schema_hash_of_def hash_blake3_def)
qed

definition publisher_msg :: "descriptor \<Rightarrow> store_msg" where
  "publisher_msg d = \<lparr>store_sender = keypair_identity pad_prims \<lparr>signing_key = [1]\<rparr>,
     store_sender_addr = dn_addr (client_new pad_prims \<lparr>signing_key = [1]\<rparr> ''h:1''), store_descriptor_field = d\<rparr>"

text \<open>A seeker that knows one node.\<close>

definition seeker :: client where
  "seeker = (client_new pad_prims \<lparr>signing_key = [2]\<rparr> ''h:2'')\<lparr>dn_routing_table := dn_routing_table demo_peer_node\<rparr>"

abbreviation demo_wire :: "descriptor \<Rightarrow> codec" where
  "demo_wire d \<equiv> wire_codec (publisher_msg d) (client_query pad_prims seeker (routing_key pad_prims ''a''))
     (find_value_request seeker (routing_key pad_prims ''a''))"

lemma seeker_ok: "client_ok pad_prims seeker" "dn_identity seeker = keypair_identity pad_prims \<lparr>signing_key = [2]\<rparr>"
  using client_ok_new [of pad_prims "\<lparr>signing_key = [2]\<rparr>" "''h:2''"] by (simp_all add: seeker_def client_ok_def)

lemma demo_wire_encodes:
  "same_client seeker cl \<Longrightarrow> can_ask pad_prims (demo_wire d) cl (routing_key pad_prims ''a'')"
  "get_descriptors_at s key None t = [d] \<Longrightarrow> listable (demo_wire d) s key t"
  by (simp_all add: can_ask_def listable_def wire_codec_def Let_def publisher_msg_def same_client_def client_query_def
      find_value_request_def)

text \<open>A capability of type \<open>a\<close> that is good from 2000 to 3000; the node takes it in.\<close>

definition storable :: "descriptor \<Rightarrow> bool" where
  "storable d \<longleftrightarrow> validate pad_prims d 2000 = Ok () \<and> \<not> expired 3000 d \<and> routing_keys d = [routing_key pad_prims ''a''] \<and>
     schema_hash d = schema_hash_of pad_prims ''core/capability''"

lemma demo_cap_storable: "storable demo_cap"
  by (simp add: storable_def demo_cap_valid) (simp add: demo_cap_def expired_unat sane_clock_def demo_cap_keys)

lemma storable_stored:
  assumes "storable d"
  obtains s where "store_descriptor_at pad_prims descriptor_store_new d 2000 = (Ok (), s)"
    and "get_descriptors_at s (routing_key pad_prims ''a'') None 3000 = [d]"
proof -
  have "schema_hash d \<noteq> SCHEMA_HASH_CORE_REVOCATION pad_prims" "schema_hash d \<noteq> SCHEMA_HASH_CORE_KEY_ROTATION pad_prims"
    using pad_capability_schema assms by (simp_all add: schemas_differ_def storable_def)
  then have "\<exists>s. store_descriptor_at pad_prims descriptor_store_new d 2000 = (Ok (), s) \<and>
      get_descriptors_at s (routing_key pad_prims ''a'') None 3000 = [d]"
    using assms by (simp add: store_descriptor_at_def check_and_record_def descriptor_store_new_def Let_def
        RATE_LIMIT_PER_MINUTE_def store_accepted_alt placed_def get_at at_def retain_all_def storable_def)
  then show thesis using that by blast
qed

abbreviation demo_client :: client where
  "demo_client \<equiv> client_new pad_prims \<lparr>signing_key = [1]\<rparr> ''h:1''"

abbreviation demo_link :: "descriptor \<Rightarrow> (descriptor_store, unit) dht_node net" where
  "demo_link d \<equiv> node_link pad_prims (demo_wire d) (keypair_identity pad_prims \<lparr>signing_key = [1]\<rparr>) [] 1000 2000"

text \<open>Without known nodes replication reaches nobody, and publishing falls back to the target.\<close>

lemma closest_nodes_new: "closest_nodes P (routing_table_new lid) key k = Some []"
  by (simp add: closest_nodes_def)

lemma store_keys_alone:
  assumes "\<forall>e. to_cbor C (WStore \<lparr>store_sender = dn_identity n, store_sender_addr = dn_addr n,
       store_descriptor_field = d\<rparr>) \<noteq> Err e"
  shows "store_keys P C net n d keys acks (routing_table_new lid) w = Some (Ok acks, routing_table_new lid, w)"
proof (induction keys)
  case Nil
  then show ?case by simp
next
  case (Cons key keys)
  then show ?case
    using assms by (auto simp: closest_nodes_new Let_def split: sum.split)
qed

lemma link_ask:
  assumes "to_cbor C m = Ok b"
    and "dispatch_request P C n (frame_new i ty b) (Some peer) t t = (Some resp, n')"
    and "msg_type resp = expected" and "dec (body resp) = Ok r"
  shows "ask C (node_link P C peer i now t) target ty m expected dec n = (Ok r, n')"
  using assms by (simp add: ask_def send_new_def node_link_def)

lemma demo_plain: "plain_node pad_prims demo_dht"
  using mem.inv_empty by (simp add: plain_node_def serving_def)

lemma storable_published:
  assumes "storable d"
  obtains n1 cl where "publish pad_prims (demo_wire d) (demo_link d) demo_client d (node_addr_quic ''h:9'') demo_dht =
      Some (Ok \<lparr>stored = True, reason = None\<rparr>, cl, n1)"
    and "get_descriptors_at (dn_store n1) (routing_key pad_prims ''a'') None 3000 = [d]" and "plain_node pad_prims n1"
proof -
  let ?P = pad_prims and ?m = "publisher_msg d" and ?C = "demo_wire d"
  let ?i = "keypair_identity pad_prims \<lparr>signing_key = [1]\<rparr>"
  obtain s where s: "store_descriptor_at ?P descriptor_store_new d 2000 = (Ok (), s)"
    "get_descriptors_at s (routing_key ?P ''a'') None 3000 = [d]"
    by (rule storable_stored [OF assms])
  obtain n0 where u: "update_routing_table ?P demo_dht (store_sender ?m) (store_sender_addr ?m) 2000 = Some n0"
    using update_routing_table_total [OF pad_prims_ok(1) demo_dht_ok] by blast
  have h: "handle_store ?P (mem_backend ?P) demo_dht ?m 2000 2000 =
      Some (\<lparr>stored = True, reason = None\<rparr>, n0\<lparr>dn_store := s\<rparr>)"
    using u s(1) by (simp add: handle_store_def Let_def mem_backend_def update_routing_table_keeps [OF u]
        publisher_msg_def)
  have enc: "to_cbor ?C (WStore ?m) = Ok []" "to_cbor ?C (WStoreAck \<lparr>stored = True, reason = None\<rparr>) = Ok []"
    "from_cbor_store ?C b = Ok ?m" "from_cbor_store_ack ?C b = Ok \<lparr>stored = True, reason = None\<rparr>" for b
    by (simp_all add: wire_codec_def Let_def demo_codec_def)
  have sender: "store_sender ?m = ?i" by (simp add: publisher_msg_def)
  have m: "\<lparr>store_sender = ?i, store_sender_addr = dn_addr demo_client, store_descriptor_field = d\<rparr> = ?m"
    by (simp add: publisher_msg_def)
  have dis: "dispatch_request ?P ?C demo_dht (frame_new [] MSG_STORE []) (Some ?i) 2000 2000 =
      (Some (frame_response (frame_new [] MSG_STORE []) MSG_STORE_ACK []), n0\<lparr>dn_store := s\<rparr>)"
    using h enc by (simp add: dispatch_request_def msg_type_defs sender reply_def)
  have a: "ask ?C (demo_link d) (node_addr_quic ''h:9'') MSG_STORE (WStore ?m) MSG_STORE_ACK (from_cbor_store_ack ?C) demo_dht =
      (Ok \<lparr>stored = True, reason = None\<rparr>, n0\<lparr>dn_store := s\<rparr>)"
    by (rule link_ask [OF enc(1) dis]) (simp_all add: enc)
  have "\<forall>e. to_cbor ?C (WStore \<lparr>store_sender = dn_identity demo_client, store_sender_addr = dn_addr demo_client,
      store_descriptor_field = d\<rparr>) \<noteq> Err e" by (simp add: m enc)
  from store_keys_alone [OF this, of ?P "demo_link d" "routing_keys d" 0, where w = demo_dht]
  have "iterative_store ?P ?C (demo_link d) (mem_backend ?P) demo_client d demo_dht =
      Some (Ok 0, demo_client\<lparr>dn_store := snd (be_store (mem_backend ?P) (dn_store demo_client) d 1000)\<rparr>, demo_dht)"
    by (simp add: iterative_store_def node_link_def)
  then have "publish ?P ?C (demo_link d) demo_client d (node_addr_quic ''h:9'') demo_dht = Some (Ok \<lparr>stored = True, reason = None\<rparr>,
      demo_client\<lparr>dn_store := snd (be_store (mem_backend ?P) (dn_store demo_client) d 1000)\<rparr>, n0\<lparr>dn_store := s\<rparr>)"
    using a by (simp add: publish_def m)
  moreover have "plain_node ?P (n0\<lparr>dn_store := s\<rparr>)" by (rule dispatch_plain [OF demo_plain dis])
  ultimately show thesis using that s(2) by simp
qed


end
