(* ===== verification/Commands.thy ===== *)
theory Commands
  imports Client
begin

section \<open>mesh-node: identity files and client commands\<close>

text \<open>
  The command line of mesh-node (main.rs). The file system is a map from paths to contents
  (directories, file modes and I/O errors other than a missing file are left out), a generated
  secret an argument. A command returns the lines that it prints and how it ends; \<open>None\<close> is a
  panic (the code's \<open>expect\<close>). Binding the local endpoint is the argument \<open>opened\<close>: its address
  or an error. clap's parsing, and \<open>cmd_start\<close>'s endless listening, are not modelled (the start
  itself is \<open>start_node\<close>).
\<close>

subsection \<open>Identity files\<close>

type_synonym files = "string \<rightharpoonup> bytes"

definition keypair_from_bytes :: "bytes \<Rightarrow> keypair" where
  "keypair_from_bytes secret = \<lparr>signing_key = secret\<rparr>"

definition secret_bytes :: "keypair \<Rightarrow> bytes" where
  "secret_bytes kp = signing_key kp"

definition write_secret_file :: "string \<Rightarrow> bytes \<Rightarrow> files \<Rightarrow> files" where
  "write_secret_file p data fs = fs(p \<mapsto> data)"

definition load_or_generate_keypair :: "bytes \<Rightarrow> string option \<Rightarrow> files \<Rightarrow> (keypair \<times> files) option" where
  "load_or_generate_keypair fresh path fs =
     (case path of
        Some p \<Rightarrow>
          (case fs p of
             Some bs \<Rightarrow> if length bs = 32 then Some (keypair_from_bytes bs, fs) else None
           | None \<Rightarrow>
               let kp = keypair_from_bytes fresh in Some (kp, write_secret_file p (secret_bytes kp) fs))
      | None \<Rightarrow> Some (keypair_from_bytes fresh, fs))"

datatype exit_status = Exit_ok | Exit_failure | Exit_error string

definition cmd_identity ::
  "prims \<Rightarrow> bool \<Rightarrow> bytes \<Rightarrow> string option \<Rightarrow> files \<Rightarrow> (string list \<times> exit_status \<times> files) option" where
  "cmd_identity P generate fresh path fs =
     (if generate then
        let kp = keypair_from_bytes fresh;
            out = [''Generated new identity:'', ''  DID: '' @ did P (keypair_identity P kp)]
        in (case path of
              Some p \<Rightarrow> Some (out @ [''  Saved to: '' @ p], Exit_ok, write_secret_file p (secret_bytes kp) fs)
            | None \<Rightarrow> Some (out @ [''  (use --path to save the key file)''], Exit_ok, fs))
      else
        (case path of
           Some p \<Rightarrow>
             (case fs p of
                Some bs \<Rightarrow>
                  if length bs = 32
                  then Some ([''Identity from '' @ p @ '':'',
                              ''  DID: '' @ did P (keypair_identity P (keypair_from_bytes bs))], Exit_ok, fs)
                  else None
              | None \<Rightarrow> Some ([''Key file not found: '' @ p], Exit_failure, fs))
         | None \<Rightarrow>
             Some ([''Specify --generate to create a new identity, or --path to load one.''], Exit_failure, fs)))"

subsection \<open>publish, discover and ping\<close>

definition dash :: string where "dash = [CHR 0xE2, CHR 0x80, CHR 0x94]"

definition publish_result :: "codec \<Rightarrow> frame \<Rightarrow> mesh_error + string" where
  "publish_result C resp =
     (if msg_type resp = MSG_STORE_ACK then
        (case from_cbor_store_ack C (body resp) of
           Err e \<Rightarrow> Err e
         | Ok ack \<Rightarrow>
             Ok (if stored ack then ''  Result:  stored successfully''
                 else ''  Result:  rejected '' @ dash @ '' '' @ (case reason ack of None \<Rightarrow> [] | Some r \<Rightarrow> r)))
      else Ok (''  Result:  unexpected response type 0x'' @ hex_u8 (msg_type resp)))"

definition cmd_publish ::
  "prims \<Rightarrow> codec \<Rightarrow> 'w net \<Rightarrow> dht_transport_error + string \<Rightarrow> keypair \<Rightarrow> string \<Rightarrow> string \<Rightarrow> string option \<Rightarrow> string \<Rightarrow>
   'w \<Rightarrow> (string list \<times> exit_status \<times> 'w) option" where
  "cmd_publish P C net opened kp cap_type endpoint params seed w =
     (let (now, w1) = net_now net w;
          d = capability_descriptor P kp cap_type endpoint params now;
          out = [''Publishing capability:'', ''  DID:    '' @ did P (keypair_identity P kp),
                 ''  Type:   '' @ cap_type, ''  ID:     '' @ hash_display P (id_hash d)]
      in case opened of
           Err e \<Rightarrow> Some (out, Exit_error (dht_transport_error_display e), w1)
         | Ok local_addr \<Rightarrow>
             (case to_cbor C (WStore \<lparr>store_sender = keypair_identity P kp,
                     store_sender_addr = make_node_addr local_addr, store_descriptor_field = d\<rparr>) of
                Err e \<Rightarrow> None
              | Ok b \<Rightarrow>
                  (case send_new net (make_node_addr seed) MSG_STORE b w1 of
                     (Err e, w2) \<Rightarrow> Some (out, Exit_error (''transport error: '' @ dht_transport_error_display e), w2)
                   | (Ok resp, w2) \<Rightarrow>
                       (case publish_result C resp of
                          Err e \<Rightarrow> Some (out, Exit_error (mesh_error_display e), w2)
                        | Ok line \<Rightarrow> Some (out @ [line], Exit_ok, w2)))))"

text \<open>How a payload is shown (CBOR, else JSON, else nothing) is ciborium's and serde\_json's.\<close>

definition show_descriptor :: "prims \<Rightarrow> (bytes \<Rightarrow> string option) \<Rightarrow> descriptor \<Rightarrow> string list" where
  "show_descriptor P show_payload d =
     [''    ---'', ''    Publisher: '' @ did P (publisher d), ''    Topic:     '' @ topic d,
      ''    ID:        '' @ hash_display P (id_hash d)]
     @ (case show_payload (payload d) of None \<Rightarrow> [] | Some s \<Rightarrow> [''    Payload:   '' @ s])"

definition cmd_discover ::
  "prims \<Rightarrow> codec \<Rightarrow> 'w net \<Rightarrow> (bytes \<Rightarrow> string option) \<Rightarrow> nat \<Rightarrow> dht_transport_error + string \<Rightarrow> keypair \<Rightarrow> string \<Rightarrow>
   string \<Rightarrow> 'w \<Rightarrow> (string list \<times> exit_status \<times> 'w) outcome" where
  "cmd_discover P C net show_payload fuel opened kp cap_type seed w =
     (let rk = routing_key P cap_type;
          out = [''Discovering: '' @ cap_type, ''  Routing key: '' @ hash_display P rk]
      in case opened of
           Err e \<Rightarrow> Done (out, Exit_error (dht_transport_error_display e), w)
         | Ok local_addr \<Rightarrow>
             (case bootstrap P C net (dht_node_new P kp (make_node_addr local_addr) dht_config_default ())
                     [make_node_addr seed] w of
                None \<Rightarrow> Panic
              | Some (r, dht, w1) \<Rightarrow>
                  let out1 = out @ [case r of
                        Ok k \<Rightarrow> ''  Bootstrap: discovered '' @ nat_string k @ '' nodes''
                      | Err e \<Rightarrow> ''  Bootstrap failed: '' @ dht_transport_error_display e]
                  in (case lookup_value P C net fuel dht rk w1 of
                        OutOfFuel \<Rightarrow> OutOfFuel
                      | Panic \<Rightarrow> Panic
                      | Done (Err e, dht1, w2) \<Rightarrow>
                          Done (out1, Exit_error (''lookup error: '' @ dht_transport_error_display e), w2)
                      | Done (Ok ds, dht1, w2) \<Rightarrow>
                          Done (out1 @
                            (if ds = [] then [''  No descriptors found'']
                             else (''  Found '' @ nat_string (length ds) @ '' descriptor(s):'')
                                  # concat (map (show_descriptor P show_payload) ds)), Exit_ok, w2))))"

definition cmd_ping ::
  "prims \<Rightarrow> codec \<Rightarrow> 'w net \<Rightarrow> dht_transport_error + string \<Rightarrow> keypair \<Rightarrow> string \<Rightarrow> 'w \<Rightarrow>
   (string list \<times> exit_status \<times> 'w) option" where
  "cmd_ping P C net opened kp addr w =
     (case opened of
        Err e \<Rightarrow> Some ([], Exit_error (dht_transport_error_display e), w)
      | Ok local_addr \<Rightarrow>
          (case to_cbor C (WPing \<lparr>ping_sender = keypair_identity P kp, ping_sender_addr = make_node_addr local_addr\<rparr>) of
             Err e \<Rightarrow> None
           | Ok b \<Rightarrow>
               (case send_new net (make_node_addr addr) MSG_PING b w of
                  (Err e, w1) \<Rightarrow> Some ([], Exit_error (''transport error: '' @ dht_transport_error_display e), w1)
                | (Ok resp, w1) \<Rightarrow>
                    if msg_type resp = MSG_PONG then
                      (case from_cbor_pong C (body resp) of
                         Err e \<Rightarrow> Some ([], Exit_error (mesh_error_display e), w1)
                       | Ok pg \<Rightarrow>
                           Some ([''PONG from '' @ did P (pong_sender pg),
                             ''  Observed addr: '' @ protocol (pong_observed_addr pg) @ ''://'' @ address (pong_observed_addr pg),
                             ''  Sender addr:   '' @ protocol (pong_sender_addr pg) @ ''://'' @ address (pong_sender_addr pg)],
                             Exit_ok, w1))
                    else Some ([''Unexpected response type 0x'' @ hex_u8 (msg_type resp)], Exit_ok, w1))))"

subsection \<open>Lemmas\<close>

text \<open>A node keeps its identity: what is generated is what every later run loads.\<close>

lemma identity_survives_restart:
  assumes "load_or_generate_keypair fresh (Some p) fs = Some (kp, fs1)" and "length fresh = 32"
  shows "load_or_generate_keypair fresh1 (Some p) fs1 = Some (kp, fs1)"
    and "cmd_identity P False fresh2 (Some p) fs1 =
       Some ([''Identity from '' @ p @ '':'', ''  DID: '' @ did P (keypair_identity P kp)], Exit_ok, fs1)"
    and "q \<noteq> p \<Longrightarrow> fs1 q = fs q"
proof -
  have "\<exists>bs. fs1 p = Some bs \<and> length bs = 32 \<and> kp = keypair_from_bytes bs" and "q \<noteq> p \<Longrightarrow> fs1 q = fs q"
    using assms by (auto simp: load_or_generate_keypair_def write_secret_file_def secret_bytes_def
        keypair_from_bytes_def Let_def split: option.splits if_splits)
  then show "load_or_generate_keypair fresh1 (Some p) fs1 = Some (kp, fs1)"
    and "cmd_identity P False fresh2 (Some p) fs1 =
       Some ([''Identity from '' @ p @ '':'', ''  DID: '' @ did P (keypair_identity P kp)], Exit_ok, fs1)"
    and "q \<noteq> p \<Longrightarrow> fs1 q = fs q"
    by (auto simp: load_or_generate_keypair_def cmd_identity_def)
qed

text \<open>The command says what the node did with the descriptor.\<close>

lemma cmd_publish_over_link:
  assumes "codec_ok C"
    and "cmd_publish P C (node_link P C (keypair_identity P kp) i now t) (Ok la) kp cap ep ps seed n = Some (out, Exit_ok, n1)"
  shows "\<exists>ack. handle_store P (mem_backend P) n \<lparr>store_sender = keypair_identity P kp, store_sender_addr = make_node_addr la,
       store_descriptor_field = capability_descriptor P kp cap ep ps now\<rparr> t t = Some (ack, n1) \<and>
     List.last out = (if stored ack then ''  Result:  stored successfully''
       else ''  Result:  rejected '' @ dash @ '' '' @ (case reason ack of None \<Rightarrow> [] | Some r \<Rightarrow> r))"
proof -
  let ?m = "\<lparr>store_sender = keypair_identity P kp, store_sender_addr = make_node_addr la,
       store_descriptor_field = capability_descriptor P kp cap ep ps now\<rparr>"
  let ?net = "node_link P C (store_sender ?m) i now t"
  have now: "net_now ?net n = (now, n)" by (simp add: node_link_def)
  obtain b where b: "to_cbor C (WStore ?m) = Ok b"
    using assms(2) now by (auto simp: cmd_publish_def Let_def split: sum.splits)
  obtain resp line where s: "send_new ?net (make_node_addr seed) MSG_STORE b n = (Ok resp, n1)"
    and line: "publish_result C resp = Ok line" "List.last out = line"
    using assms(2) now b by (auto simp: cmd_publish_def Let_def split: sum.splits prod.splits)
  have "from_cbor_store C b = Ok ?m" using assms(1) b by (simp add: codec_ok_def)
  then have "reply C (frame_new i MSG_STORE b) MSG_STORE_ACK WStoreAck
      (panicked P n (store_sender ?m) (store_sender_addr ?m) t) (handle_store P (mem_backend P) n ?m t t) = (Some resp, n1)"
    using s by (simp add: send_new_def node_link_def dispatch_request_def msg_type_defs split: prod.splits option.splits)
  then show ?thesis
  proof (rule reply_cases)
    fix a k
    assume r: "handle_store P (mem_backend P) n ?m t t = Some (a, n1)" "to_cbor C (WStoreAck a) = Ok k"
      "Some resp = Some (frame_response (frame_new i MSG_STORE b) MSG_STORE_ACK k)"
    moreover from this have "from_cbor_store_ack C k = Ok a" using assms(1) by (simp add: codec_ok_def)
    ultimately show ?thesis using line by (auto simp: publish_result_def)
  qed simp_all
qed

end
