(* ===== verification/Gateway.thy ===== *)
theory Gateway
  imports Commands
begin

section \<open>mesh-gateway: HTTP access to the mesh\<close>

text \<open>
  main.rs of mesh-gateway: the handlers behind its HTTP routes and the loading of its key. The
  gateway holds a mesh client behind a mutex (one request after another), the key pair and the
  seed. serde\_json's encoding and decoding of a capability is the record \<open>gateway_json\<close>; axum's
  routing and the parsing of requests are outside.
\<close>

record 'j capability =
  ca_type :: string
  ca_endpoint :: string
  ca_params :: "'j option"

record 'j gateway_json =
  gj_to_vec :: "'j capability \<Rightarrow> string + bytes"
  gj_from_slice :: "bytes \<Rightarrow> string + 'j capability"

record 'j publish_request =
  pr_type :: string
  pr_endpoint :: string
  pr_params :: "'j option"
  pr_ttl :: "u32 option"

record publish_response =
  ps_ok :: bool
  ps_descriptor_id :: string

record 'j descriptor_json =
  dj_id :: string
  dj_publisher :: string
  dj_type :: string
  dj_endpoint :: string
  dj_params :: "'j option"
  dj_timestamp :: u64
  dj_ttl :: u32
  dj_sequence :: u64

record health_response =
  hr_status :: string
  hr_identity :: string
  hr_seed :: string

datatype http_status = BAD_REQUEST | INTERNAL_SERVER_ERROR | BAD_GATEWAY

record app_state =
  as_client :: client
  as_keypair :: keypair
  as_seed :: node_addr

definition encode_capability_payload ::
  "'j gateway_json \<Rightarrow> string \<Rightarrow> string \<Rightarrow> 'j option \<Rightarrow> string + bytes" where
  "encode_capability_payload J cap_type endpoint params =
     gj_to_vec J \<lparr>ca_type = cap_type, ca_endpoint = endpoint, ca_params = params\<rparr>"

definition decode_capability_payload :: "'j gateway_json \<Rightarrow> bytes \<Rightarrow> string + 'j capability" where
  "decode_capability_payload J data = gj_from_slice J data"

definition health :: "prims \<Rightarrow> app_state \<Rightarrow> health_response" where
  "health P st = \<lparr>hr_status = ''ok'', hr_identity = did P (keypair_identity P (as_keypair st)),
     hr_seed = address (as_seed st)\<rparr>"

text \<open>\<open>req.ttl.unwrap_or(3600).clamp(60, 86400)\<close>.\<close>

definition request_ttl :: "u32 option \<Rightarrow> u32" where
  "request_ttl req_ttl = (let t = (case req_ttl of None \<Rightarrow> 3600 | Some t \<Rightarrow> t) in max 60 (min t 86400))"

definition gateway_descriptor :: "prims \<Rightarrow> keypair \<Rightarrow> string \<Rightarrow> bytes \<Rightarrow> u32 \<Rightarrow> u64 \<Rightarrow> descriptor" where
  "gateway_descriptor P kp cap_type pl tt now =
     create P kp (schema_hash_of P ''core/capability'') cap_type pl now 1 tt (hierarchical_routing_keys P cap_type)"

definition descriptor_id :: "prims \<Rightarrow> descriptor \<Rightarrow> string" where
  "descriptor_id P d = ''blake3:'' @ to_hex P (id_hash d)"

text \<open>\<open>Descriptor::create\<close> returns a \<open>Result\<close>, but its body always returns \<open>Ok\<close> (a failure of the CBOR
  writer would be a panic, and the writer is total); the handler's branch for its error is dead code.\<close>

definition gateway_publish ::
  "prims \<Rightarrow> codec \<Rightarrow> 'w net \<Rightarrow> 'j gateway_json \<Rightarrow> app_state \<Rightarrow> 'j publish_request \<Rightarrow> 'w \<Rightarrow>
   (((http_status \<times> string) + publish_response) \<times> app_state \<times> 'w) option" where
  "gateway_publish P C net J st req w =
     (case encode_capability_payload J (pr_type req) (pr_endpoint req) (pr_params req) of
        Err e \<Rightarrow> Some (Err (BAD_REQUEST, ''payload encoding failed: '' @ e), st, w)
      | Ok pl \<Rightarrow>
          let (now, w1) = net_now net w;
              created = Ok (gateway_descriptor P (as_keypair st) (pr_type req) pl (request_ttl (pr_ttl req)) now)
                :: mesh_error + descriptor
          in (case created of
                Err e \<Rightarrow> Some (Err (INTERNAL_SERVER_ERROR, ''descriptor creation failed: '' @ mesh_error_display e), st, w1)
              | Ok d \<Rightarrow>
                  (case publish P C net (as_client st) d (as_seed st) w1 of
                     None \<Rightarrow> None
                   | Some (r, cl, w2) \<Rightarrow>
                       Some (case r of
                           Err e \<Rightarrow> Err (BAD_GATEWAY, ''mesh publish failed: '' @ client_error_display e)
                         | Ok ack \<Rightarrow>
                             if \<not> stored ack then
                               Err (BAD_GATEWAY, ''mesh node rejected descriptor: ''
                                 @ (case reason ack of None \<Rightarrow> ''unknown'' | Some x \<Rightarrow> x))
                             else Ok \<lparr>ps_ok = True, ps_descriptor_id = descriptor_id P d\<rparr>,
                         st\<lparr>as_client := cl\<rparr>, w2))))"

definition descriptor_to_json :: "prims \<Rightarrow> 'j gateway_json \<Rightarrow> descriptor \<Rightarrow> string + 'j descriptor_json" where
  "descriptor_to_json P J d =
     (case decode_capability_payload J (payload d) of
        Err e \<Rightarrow> Err e
      | Ok cap \<Rightarrow>
          Ok \<lparr>dj_id = descriptor_id P d, dj_publisher = did P (publisher d), dj_type = ca_type cap,
              dj_endpoint = ca_endpoint cap, dj_params = ca_params cap, dj_timestamp = timestamp d,
              dj_ttl = ttl d, dj_sequence = sequence d\<rparr>)"

text \<open>\<open>filter_map(|d| descriptor_to_json(d).ok())\<close>.\<close>

definition listed :: "prims \<Rightarrow> 'j gateway_json \<Rightarrow> descriptor list \<Rightarrow> 'j descriptor_json list" where
  "listed P J ds = List.map_filter (\<lambda>d. case descriptor_to_json P J d of Err _ \<Rightarrow> None | Ok j \<Rightarrow> Some j) ds"

definition gateway_discover ::
  "prims \<Rightarrow> codec \<Rightarrow> 'w net \<Rightarrow> nat \<Rightarrow> 'j gateway_json \<Rightarrow> app_state \<Rightarrow> string \<Rightarrow> 'w \<Rightarrow>
   (((http_status \<times> string) + 'j descriptor_json list) \<times> app_state \<times> 'w) outcome" where
  "gateway_discover P C net fuel J st query_type w =
     (case discover_from P C net fuel (as_client st) (routing_key P query_type) (as_seed st) w of
        OutOfFuel \<Rightarrow> OutOfFuel
      | Panic \<Rightarrow> Panic
      | Done (Err e, cl, w1) \<Rightarrow>
          Done (Err (BAD_GATEWAY, ''mesh discover failed: '' @ client_error_display e), st\<lparr>as_client := cl\<rparr>, w1)
      | Done (Ok ds, cl, w1) \<Rightarrow> Done (Ok (listed P J ds), st\<lparr>as_client := cl\<rparr>, w1))"

text \<open>\<open>missing\<close> is the operating system's error for a file that is not there.\<close>

definition gateway_load_keypair :: "string \<Rightarrow> bytes \<Rightarrow> string option \<Rightarrow> files \<Rightarrow> string + keypair" where
  "gateway_load_keypair missing fresh path fs =
     (case path of
        Some p \<Rightarrow>
          (case fs p of
             None \<Rightarrow> Err missing
           | Some bs \<Rightarrow>
               if length bs \<noteq> 32 then Err (''identity file must be exactly 32 bytes, got '' @ nat_string (length bs))
               else Ok (keypair_from_bytes bs))
      | None \<Rightarrow> Ok (keypair_from_bytes fresh))"

text \<open>The state that \<open>main\<close> builds: the client and the signer share the secret.\<close>

definition gateway_start ::
  "prims \<Rightarrow> codec \<Rightarrow> 'w net \<Rightarrow> keypair \<Rightarrow> string \<Rightarrow> string \<Rightarrow> 'w \<Rightarrow> ((string + nat \<times> app_state) \<times> 'w) option" where
  "gateway_start P C net kp local_addr seed w =
     (let secret = secret_bytes kp; seed_addr = node_addr_quic seed
      in case client_bootstrap P C net (client_new P (keypair_from_bytes secret) local_addr) [seed_addr] w of
           None \<Rightarrow> None
         | Some (Err e, cl, w1) \<Rightarrow> Some (Err (''bootstrap failed: '' @ client_error_display e), w1)
         | Some (Ok k, cl, w1) \<Rightarrow>
             Some (Ok (k, \<lparr>as_client = cl, as_keypair = keypair_from_bytes secret, as_seed = seed_addr\<rparr>), w1))"

subsection \<open>Lemmas\<close>

lemma request_ttl_bounds: "MIN_TTL_SECS \<le> request_ttl r" "request_ttl r \<le> MAX_TTL_SECS"
  by (cases r; simp add: request_ttl_def Let_def limit_defs min_def max_def)+

lemma set_listed: "j \<in> set (listed P J ds) \<longleftrightarrow> (\<exists>d \<in> set ds. descriptor_to_json P J d = Ok j)"
proof (induction ds)
  case Nil
  show ?case by (simp add: listed_def)
next
  case (Cons d ds)
  then show ?case by (cases "descriptor_to_json P J d") (auto simp: listed_def)
qed

lemma gateway_descriptor_sel [simp]:
  "schema_hash (gateway_descriptor P kp ty pl tt now) = schema_hash_of P ''core/capability''"
  "routing_keys (gateway_descriptor P kp ty pl tt now) = hierarchical_routing_keys P ty"
  "timestamp (gateway_descriptor P kp ty pl tt now) = now" "ttl (gateway_descriptor P kp ty pl tt now) = tt"
  "publisher (gateway_descriptor P kp ty pl tt now) = keypair_identity P kp"
  "payload (gateway_descriptor P kp ty pl tt now) = pl" "sequence (gateway_descriptor P kp ty pl tt now) = 1"
  by (simp_all add: gateway_descriptor_def)

subsection \<open>Properties\<close>

text \<open>The states of a gateway: as \<open>main\<close> starts it, bootstrapped from its seed with whatever result, and
  after any requests.\<close>

inductive gateway_state :: "prims \<Rightarrow> codec \<Rightarrow> 'w net \<Rightarrow> 'j gateway_json \<Rightarrow> keypair \<Rightarrow> app_state \<Rightarrow> bool"
  for P C net J kp where
  started: "gateway_start P C net kp la seed w = Some (Ok (k, st), w') \<Longrightarrow> gateway_state P C net J kp st"
| published: "gateway_state P C net J kp st \<Longrightarrow> gateway_publish P C net J st req w = Some (r, st', w') \<Longrightarrow>
    gateway_state P C net J kp st'"
| discovered: "gateway_state P C net J kp st \<Longrightarrow> gateway_discover P C net fuel J st ty w = Done (r, st', w') \<Longrightarrow>
    gateway_state P C net J kp st'"

lemma gateway_state_ok:
  assumes "gateway_state P C net J kp st"
  shows "client_ok P (as_client st) \<and> dn_keypair (as_client st) = kp \<and> as_keypair st = kp"
  using assms
proof induction
  case (started la seed w k st w')
  have "keypair_from_bytes (secret_bytes kp) = kp" by (simp add: keypair_from_bytes_def secret_bytes_def)
  then obtain cl where b: "client_bootstrap P C net (client_new P kp la) [node_addr_quic seed] w = Some (Ok k, cl, w')"
    and st: "st = \<lparr>as_client = cl, as_keypair = kp, as_seed = node_addr_quic seed\<rparr>"
    using started by (auto simp: gateway_start_def Let_def split: option.splits sum.splits)
  then have "as_keypair st = kp \<and> same_client (client_new P kp la) (as_client st)"
    using bootstrap_same_client [OF b] by simp
  then show ?case
    using same_client_ok [OF _ client_ok_new, of P kp la "as_client st"] by (simp add: same_client_def)
next
  case (published st req w r st' w')
  then have "as_keypair st' = as_keypair st \<and> (as_client st' = as_client st \<or> same_client (as_client st) (as_client st'))"
    by (auto simp: gateway_publish_def Let_def split: option.splits sum.splits prod.splits dest: publish_same_client)
  then show ?case using published.IH by (auto simp: same_client_def client_ok_def)
next
  case (discovered st fuel ty w r st' w')
  then have "as_keypair st' = as_keypair st \<and> same_client (as_client st) (as_client st')"
    by (auto simp: gateway_discover_def split: outcome.splits sum.splits prod.splits dest: discover_same_client)
  then show ?case using discovered.IH by (auto simp: same_client_def client_ok_def)
qed

text \<open>The JSON of a capability is read back. serde\_json does so unless the parameters contain a number that
  its float parser rounds to another one or are an explicit \<open>null\<close>, which is read back as no parameters.\<close>

definition reads_back :: "'j gateway_json \<Rightarrow> 'j capability \<Rightarrow> bool" where
  "reads_back J c \<longleftrightarrow> (\<forall>b. gj_to_vec J c = Ok b \<longrightarrow> gj_from_slice J b = Ok c)"


text \<open>C40. A gateway does not see what the mesh's own client publishes: \<open>publish_capability\<close> (and \<open>mesh-node
  publish\<close>) writes the payload as a CBOR map, whose first byte is above 127, and the gateway
  reads payloads as JSON, which starts with ASCII; such descriptors are dropped from every
  listing without a trace.\<close>

theorem client_capabilities_hidden:
  assumes "\<And>b bs. 0x80 \<le> b \<Longrightarrow> \<exists>e. gj_from_slice J (b # bs) = Err e"
    and "\<And>ps. length ps < 24 \<Longrightarrow> \<exists>bs. cbor_write P (CMap ps) = of_nat (0xA0 + length ps) # bs"
  shows "listed P J (xs @ capability_descriptor P kp cap ep params now # ys) = listed P J (xs @ ys)"
proof -
  obtain ps where ps: "capability_payload P cap ep params = cbor_write P (CMap ps)" "length ps = 2 \<or> length ps = 3"
    by (cases params) (simp_all add: capability_payload_def)
  then obtain bs where "cbor_write P (CMap ps) = of_nat (0xA0 + length ps) # bs" using assms(2) [of ps] by auto
  moreover have "(0x80 :: u8) \<le> of_nat (0xA0 + length ps)" using ps(2) by auto
  ultimately obtain e where "gj_from_slice J (capability_payload P cap ep params) = Err e"
    using assms(1) ps(1) by metis
  then have "descriptor_to_json P J (capability_descriptor P kp cap ep params now) = Err e"
    by (simp add: descriptor_to_json_def decode_capability_payload_def)
  then show ?thesis by (simp add: listed_def map_filter_def)
qed

subsection \<open>Witnesses\<close>

text \<open>A JSON that knows one capability.\<close>

definition demo_request :: "unit publish_request" where
  "demo_request = \<lparr>pr_type = ''a'', pr_endpoint = ''e'', pr_params = None, pr_ttl = None\<rparr>"

definition demo_gateway_json :: "unit gateway_json" where
  "demo_gateway_json = (let c = \<lparr>ca_type = ''a'', ca_endpoint = ''e'', ca_params = None\<rparr>
     in \<lparr>gj_to_vec = \<lambda>x. if x = c then Ok [0x7B] else Err [], gj_from_slice = \<lambda>b. if b = [0x7B] then Ok c else Err []\<rparr>)"

lemma demo_gateway_json_ok: "reads_back demo_gateway_json c"
  by (simp add: reads_back_def demo_gateway_json_def Let_def)

definition demo_listed :: descriptor where
  "demo_listed = gateway_descriptor pad_prims \<lparr>signing_key = [1]\<rparr> ''a'' [0x7B] 3600 1000"

lemma demo_listed_storable: "storable demo_listed"
proof -
  have "validate pad_prims demo_listed 2000 = Ok ()"
    unfolding demo_listed_def gateway_descriptor_def
    by (subst validate_create) (simp_all add: well_formed_def limit_defs MAX_CLOCK_SKEW_SECS_def
        ttl_micros_def demo_cap_keys)
  then show ?thesis
    by (simp add: storable_def) (simp add: demo_listed_def expired_unat sane_clock_def demo_cap_keys)
qed

text \<open>A gateway at the node; the bootstrap gets no answers, and the gateway starts all the same.\<close>

definition gateway_at :: "keypair \<Rightarrow> string \<Rightarrow> app_state" where
  "gateway_at kp la = \<lparr>as_client = client_new pad_prims kp la, as_keypair = kp, as_seed = node_addr_quic ''h:9''\<rparr>"

lemma gateway_at_starts:
  "gateway_state pad_prims (demo_wire d)
     (node_link pad_prims (demo_wire d) (keypair_identity pad_prims kp) i now t :: (descriptor_store, unit) dht_node net)
     J kp (gateway_at kp la)"
proof (rule started)
  have c: "(client_new pad_prims kp la)\<lparr>dn_routing_table := routing_table_new (node_id pad_prims (keypair_identity pad_prims kp))\<rparr> =
      client_new pad_prims kp la"
    by (simp add: client_new_def dht_node_new_def with_store_def Let_def)
  have k: "keypair_from_bytes (secret_bytes kp) = kp" by (simp add: keypair_from_bytes_def secret_bytes_def)
  show "gateway_start pad_prims (demo_wire d) (node_link pad_prims (demo_wire d) (keypair_identity pad_prims kp) i now t)
      kp la ''h:9'' demo_dht = Some (Ok (0, gateway_at kp la), demo_dht)"
    by (simp add: gateway_start_def Let_def client_bootstrap_def bootstrap_def bootstrap_ping_def wire_codec_def
        demo_codec_def send_new_def node_link_def dispatch_request_def msg_type_defs k c gateway_at_def)
qed


text \<open>pad\_prims with the map header of RFC 8949.\<close>

definition header_prims :: prims where
  "header_prims = pad_prims\<lparr>cbor_write := \<lambda>v. case v of CMap ps \<Rightarrow> of_nat (0xA0 + length ps) # enc_value v | _ \<Rightarrow> enc_value v\<rparr>"

lemma client_capabilities_hidden_witness:
  "listed header_prims demo_gateway_json
     ([capability_descriptor header_prims \<lparr>signing_key = [1]\<rparr> ''a'' ''e'' None 1000, demo_listed]) =
   listed header_prims demo_gateway_json [demo_listed]"
proof -
  have "\<exists>e. gj_from_slice demo_gateway_json (b # bs) = Err e" if "0x80 \<le> b" for b :: u8 and bs
    using that by (auto simp: demo_gateway_json_def Let_def)
  moreover have "\<exists>bs. cbor_write header_prims (CMap ps) = of_nat (0xA0 + length ps) # bs" for ps
    by (simp add: header_prims_def)
  ultimately show ?thesis
    using client_capabilities_hidden [of demo_gateway_json header_prims "[]" "\<lparr>signing_key = [1]\<rparr>" "''a''" "''e''" None 1000 "[demo_listed]"]
    by simp
qed

end
