(* ===== verification/Hub_Contents.thy ===== *)
theory Hub_Contents
  imports Peering
begin

section \<open>What a hub's storage holds\<close>

text \<open>
  The descriptors that a hub can hand out are the rows of its database and the lists in its cache.
  \<open>contents\<close> is their set, and the lemmas bound what each operation of the storage adds to it: a
  store adds at most its own descriptor, and only a valid one; lookups and evictions add nothing,
  and a lookup answers out of the set. An invariant of a hub's storage is then the well-formedness
  of database and cache (\<open>storage_ok\<close>) with a statement about all members of the set.
\<close>

definition database_rows :: "'db redb \<Rightarrow> ('db \<Rightarrow> redb_tables) \<Rightarrow> 'db redb_storage \<Rightarrow> descriptor set" where
  "database_rows R v s = {d. \<exists>k b. tb_desc (v (rs_db s)) k = Some b \<and> desc_dec R b = Ok d}"

definition cached_rows :: "('m \<Rightarrow> bytes \<rightharpoonup> descriptor list) \<Rightarrow> 'm \<Rightarrow> descriptor set" where
  "cached_rows cv c = {d. \<exists>k ds. cv c k = Some ds \<and> d \<in> set ds}"

definition contents ::
  "'db redb \<Rightarrow> ('db \<Rightarrow> redb_tables) \<Rightarrow> ('m \<Rightarrow> bytes \<rightharpoonup> descriptor list) \<Rightarrow> ('db, 'm) hub_store \<Rightarrow> descriptor set" where
  "contents R v cv st = database_rows R v (cs_inner st) \<union> cached_rows cv (cs_cache st)"

definition storage_ok ::
  "prims \<Rightarrow> 'db redb \<Rightarrow> ('db \<Rightarrow> redb_tables) \<Rightarrow> ('m \<Rightarrow> bytes \<rightharpoonup> descriptor list) \<Rightarrow> ('db, 'm) hub_store \<Rightarrow> bool" where
  "storage_ok P R v cv st \<longleftrightarrow> cached_inv P (redb_inv P R v) cv st"

subsection \<open>The database\<close>

lemma redb_store_rows:
  assumes "redb_ok R v"
  shows "database_rows R v (snd (redb_store_at P R s d now)) \<subseteq>
     database_rows R v s \<union> (if validate P d now = Ok () then {d} else {})"
proof (cases rule: redb_store_cases [of P R s d now])
  case (refused e s1)
  then show ?thesis by (auto simp: database_rows_def)
next
  case (written_back db s1)
  obtain cbor old where w: "desc_dec R cbor = Ok d"
    "tb_desc (v db) (hash_bytes (id_hash d)) = Some cbor"
    "\<And>k. k \<noteq> hash_bytes (id_hash d) \<Longrightarrow>
       tb_desc (v db) k = tb_desc (v (rs_db s)) k \<or> old = Some k \<and> tb_desc (v db) k = None"
    by (rule redb_write_Ok [OF assms written_back(3)]) blast
  have "x \<in> insert d (database_rows R v s)" if "tb_desc (v db) k = Some b" "desc_dec R b = Ok x" for k b x
    using w(1,2) w(3) [of k] that by (cases "k = hash_bytes (id_hash d)") (auto simp: database_rows_def)
  then have "{x. \<exists>k b. tb_desc (v db) k = Some b \<and> desc_dec R b = Ok x} \<subseteq> insert d (database_rows R v s)" by blast
  then show ?thesis using written_back(1,2,4) by (simp add: database_rows_def)
qed

lemma redb_evict_rows:
  assumes "redb_ok R v"
  shows "database_rows R v (redb_evict_at P R s now) \<subseteq> database_rows R v s"
proof (rule redb_evict_cases [OF assms, of P s now])
  assume "v (rs_db (redb_evict_at P R s now)) = v (rs_db s)"
  then show ?thesis by (simp add: database_rows_def)
next
  fix t rows
  assume e: "v (rs_db (redb_evict_at P R s now)) = v (fold (redb_drop P R) (redb_expired R now rows) t)"
    and t: "v t = v (rs_db s)"
  have "tb_desc (v (rs_db (redb_evict_at P R s now))) k = Some b \<Longrightarrow> tb_desc (v (rs_db s)) k = Some b" for k b
    using fold_redb_drop_tables [OF assms, of P "redb_expired R now rows" t] unfolding e t
    by (metis option.distinct(1))
  then show ?thesis by (auto simp: database_rows_def)
qed

lemma redb_get_rows:
  assumes "redb_ok R v"
  shows "set (redb_get_at R s k f now) \<subseteq> database_rows R v s"
proof
  fix d
  assume d: "d \<in> set (redb_get_at R s k f now)"
  obtain t rows where t: "rd_begin_read R (rs_db s) = Ok t" and "d \<in> set (redb_collect R t f now rows)"
    using d that by (cases "rd_begin_read R (rs_db s)"; cases "rk_get R (projr (rd_begin_read R (rs_db s))) (hash_bytes k)")
      (auto simp: redb_get_at_def)
  then obtain i b where "desc_get R t i = Ok (Some b)" "desc_dec R b = Ok d" by (auto simp: redb_collect_set)
  then show "d \<in> database_rows R v s"
    using redb_okD(4) [OF assms, of t i "Some b"] redb_okD(1) [OF assms t] unfolding database_rows_def
    by (intro CollectI exI [of _ i] exI [of _ b]) simp
qed

subsection \<open>The storage\<close>

lemma storage_ok_backend:
  assumes "redb_ok R v" and "cache_ok M cv"
  shows "node_backend P (hub_backend P R M) (storage_ok P R v cv)"
  using cached_node_backend [OF assms(2) redb_node_backend [OF assms(1)], of P]
  by (simp add: storage_ok_def [abs_def])

lemma store_contents:
  assumes "redb_ok R v" and "cache_ok M cv"
  shows "contents R v cv (snd (be_store (hub_backend P R M) st d now)) \<subseteq>
     contents R v cv st \<union> (if validate P d now = Ok () then {d} else {})"
proof -
  obtain r i where s: "redb_store_at P R (cs_inner st) d now = (r, i)" by (rule prod.exhaust)
  let ?st = "snd (be_store (hub_backend P R M) st d now)"
  have inner: "cs_inner ?st = i"
    by (cases r) (simp_all add: cached_backend_def cached_store_def Let_def redb_backend_def s)
  have "\<exists>ks. cs_cache ?st = fold (\<lambda>rk c. cache_invalidate M c rk) ks (cs_cache st)"
    by (cases r) (auto simp: cached_backend_def cached_store_def Let_def redb_backend_def s intro: exI [of _ "[]"])
  then obtain ks where ks: "cs_cache ?st = fold (\<lambda>rk c. cache_invalidate M c rk) ks (cs_cache st)" by blast
  have "cached_rows cv (cs_cache ?st) \<subseteq> cached_rows cv (cs_cache st)"
    unfolding cached_rows_def ks using cache_invalidates [OF assms(2), THEN conjunct1] by blast
  moreover have "database_rows R v i \<subseteq> database_rows R v (cs_inner st) \<union> (if validate P d now = Ok () then {d} else {})"
    using redb_store_rows [OF assms(1), of P "cs_inner st" d now] s by simp
  ultimately show ?thesis unfolding contents_def inner by blast
qed

lemma get_contents:
  assumes "redb_ok R v" and "cache_ok M cv" and "be_get (hub_backend P R M) st k f now = (ds, st')"
  shows "set ds \<subseteq> contents R v cv st \<and> contents R v cv st' \<subseteq> contents R v cv st \<and> cs_inner st' = cs_inner st"
proof (cases rule: cached_get_cases [of M st k "redb_backend P R" f now])
  case (hit es c1)
  have "cached_rows cv c1 \<subseteq> cached_rows cv (cs_cache st)" "set es \<subseteq> cached_rows cv (cs_cache st)"
    using cache_okD(1,2) [OF assms(2) hit(1)] by (fastforce simp: cached_rows_def)+
  moreover have "st' = st\<lparr>cs_cache := c1\<rparr>" "set ds \<subseteq> set es"
    using assms(3) hit(2) by (auto simp: cached_backend_def split: option.splits)
  ultimately show ?thesis by (auto simp: contents_def)
next
  case (miss es c1 i)
  have i: "i = cs_inner st" "es = redb_get_at R (cs_inner st) k None now"
    using miss(2) by (auto simp: redb_backend_def)
  then have rows: "set es \<subseteq> database_rows R v (cs_inner st)" using redb_get_rows [OF assms(1)] by simp
  have "cached_rows cv (cache_insert M c1 (hash_bytes k) es) \<subseteq> set es \<union> cached_rows cv (cs_cache st)"
    using cache_okD(3) [OF assms(2), of c1 "hash_bytes k" es] cache_okD(1) [OF assms(2) miss(1)]
    by (fastforce simp: cached_rows_def)
  moreover have "st' = st\<lparr>cs_inner := i, cs_cache := cache_insert M c1 (hash_bytes k) es\<rparr>" "set ds \<subseteq> set es"
    using assms(3) miss(3) by (auto simp: cached_backend_def split: option.splits)
  ultimately show ?thesis using i(1) rows by (auto simp: contents_def)
qed

lemma evict_contents:
  assumes "redb_ok R v" and "cache_ok M cv"
  shows "contents R v cv (be_evict (hub_backend P R M) st now) \<subseteq> contents R v cv st"
  using redb_evict_rows [OF assms(1), of P "cs_inner st" now] cache_okD(5) [OF assms(2)]
  by (auto simp: contents_def cached_rows_def cached_backend_def cached_evict_def redb_backend_def)

lemma set_skip_contents [simp]:
  "contents R v cv (set_skip b st) = contents R v cv st"
  "storage_ok P R v cv (set_skip b st) = storage_ok P R v cv st"
  by (simp_all add: contents_def database_rows_def set_skip_def storage_ok_def cached_inv_def redb_inv_def)

end
