(* ===== verification/Hub_Server.thy ===== *)
theory Hub_Server
  imports Peering Requests Disk_Spec
begin

section \<open>mesh-hub: the protocol server and seeding\<close>

text \<open>
  \<open>handle_protocol_request\<close> of lib.rs, the entry point of every frame that reaches a hub, and
  seeding.rs. A hub is the record \<open>hub_server\<close> of its node (the disk store behind the cache, the
  policy hook in front), its peer manager, and whether the mutex around the node is poisoned: a
  handler that panics holds its lock, and from then on every \<open>lock().unwrap()\<close> panics as well.
  (What a panicking handler has changed before is not recorded: nobody gets past the lock to
  see it.) The clock readings of one request are the record \<open>clock\<close>. \<open>None\<close> is a request that gets
  no response. The metrics are left out.
\<close>

record clock =
  ck_instant :: nat
  ck_hub_ads :: u64
  ck_table :: u64
  ck_store :: u64

record ('db, 'm, 'c) hub_server =
  hs_node :: "('db, 'm) hub_node"
  hs_peering :: "'c peer_manager option"
  hs_poisoned :: bool

text \<open>Whether the sender is a known peer hub, and its registration if its advertisement is in the
  storage.\<close>

definition incoming_peer :: "clock \<Rightarrow> 'c peer_state" where
  "incoming_peer ck = \<lparr>ps_connection = None, ps_addr = node_addr_quic ''incoming'', ps_status = Connected,
     ps_last_seen = ck_instant ck, ps_failures = 0\<rparr>"

definition peer_hub_check ::
  "prims \<Rightarrow> 'db redb \<Rightarrow> 'm cache \<Rightarrow> clock \<Rightarrow> ('db, 'm, 'c) hub_server \<Rightarrow> identity option \<Rightarrow>
   bool \<times> ('db, 'm, 'c) hub_server" where
  "peer_hub_check P R M ck srv peer_identity =
     (case (hs_peering srv, peer_identity) of
        (Some pm, Some pid) \<Rightarrow>
          if (case map_of (pm_peers pm) (did P pid) of Some p \<Rightarrow> ps_status p = Connected | None \<Rightarrow> False)
          then (True, srv)
          else
            let (hub_descs, st) = be_get (hub_backend P R M) (dn_store (hs_node srv))
                                    (ROUTING_KEY_INFRASTRUCTURE_HUB P) None (ck_hub_ads ck);
                srv1 = srv\<lparr>hs_node := (hs_node srv)\<lparr>dn_store := st\<rparr>\<rparr>
            in if list_ex (\<lambda>d. did P (publisher d) = did P pid) hub_descs then
                 (True, case map_of (pm_peers pm) (did P pid) of
                    None \<Rightarrow> srv1\<lparr>hs_peering := Some (insert_peer (did P pid) (incoming_peer ck) pm)\<rparr>
                  | Some _ \<Rightarrow> srv1)
               else (False, srv1)
      | _ \<Rightarrow> (False, srv))"

text \<open>The node at the instant of the request.\<close>

definition at_instant :: "clock \<Rightarrow> ('s, hub_hook_state) dht_node \<Rightarrow> ('s, hub_hook_state) dht_node" where
  "at_instant ck n = n\<lparr>dn_hook_state := (dn_hook_state n)\<lparr>hk_now := ck_instant ck\<rparr>\<rparr>"

text \<open>A store of a peer hub: straight to the storage, without the hook and the rate limits.\<close>

definition store_unlimited ::
  "prims \<Rightarrow> 'db redb \<Rightarrow> 'm cache \<Rightarrow> ('db, 'm) hub_node \<Rightarrow> descriptor \<Rightarrow> u64 \<Rightarrow> store_ack \<times> ('db, 'm) hub_node" where
  "store_unlimited P R M n d now =
     (let (r, st) = be_store (hub_backend P R M) (set_skip True (dn_store n)) d now
      in (\<lparr>stored = is_ok r, reason = (case r of Err e \<Rightarrow> Some (store_error_display e) | Ok _ \<Rightarrow> None)\<rparr>,
          n\<lparr>dn_store := set_skip False st\<rparr>))"

text \<open>The response to a request that a handler answered; \<open>to_cbor(..).unwrap()\<close> panics on an error.\<close>

definition respond ::
  "codec \<Rightarrow> ('db, 'm, 'c) hub_server \<Rightarrow> frame \<Rightarrow> u8 \<Rightarrow> (wire \<times> ('db, 'm) hub_node) option \<Rightarrow>
   frame option \<times> ('db, 'm, 'c) hub_server" where
  "respond C srv fr ty r =
     (case r of
        None \<Rightarrow> (None, srv\<lparr>hs_poisoned := True\<rparr>)
      | Some (m, n) \<Rightarrow>
          (case to_cbor C m of
             Err _ \<Rightarrow> (None, srv\<lparr>hs_node := n, hs_poisoned := True\<rparr>)
           | Ok b \<Rightarrow> (Some (frame_response fr ty b), srv\<lparr>hs_node := n\<rparr>)))"

text \<open>What follows the check of the sender: the handler under the node's lock.\<close>

definition answer_request ::
  "prims \<Rightarrow> codec \<Rightarrow> 'db redb \<Rightarrow> 'm cache \<Rightarrow> clock \<Rightarrow> bool \<Rightarrow> ('db, 'm, 'c) hub_server \<Rightarrow> frame \<Rightarrow> identity option \<Rightarrow>
   frame option \<times> ('db, 'm, 'c) hub_server" where
  "answer_request P C R M ck is_peer_hub srv fr peer_identity =
     (if hs_poisoned srv then (None, srv)
      else
        let n = at_instant ck (hs_node srv);
            B = hub_backend P R M;
            dropped = (None, srv)
        in
          if msg_type fr = MSG_PING then
            bound P peer_identity ping_sender (from_cbor_ping C (body fr)) dropped (\<lambda>m.
              respond C srv fr MSG_PONG
                (map_option (\<lambda>(r, n'). (WPong r, n')) (handle_ping P n m (ck_table ck))))
          else if msg_type fr = MSG_STORE then
            bound P peer_identity store_sender (from_cbor_store C (body fr)) dropped (\<lambda>m.
              respond C srv fr MSG_STORE_ACK
                (map_option (\<lambda>(r, n'). (WStoreAck r, n'))
                  (if is_peer_hub then Some (store_unlimited P R M n (store_descriptor_field m) (ck_store ck))
                   else handle_store P B n m (ck_table ck) (ck_store ck))))
          else if msg_type fr = MSG_FIND_NODE then
            bound P peer_identity fn_sender (from_cbor_find_node C (body fr)) dropped (\<lambda>m.
              respond C srv fr MSG_FIND_NODE_RESULT
                (map_option (\<lambda>(r, n'). (WFindNodeResult r, n'))
                  (handle_find_node P n m (ck_table ck) (ck_table ck))))
          else if msg_type fr = MSG_FIND_VALUE then
            bound P peer_identity fv_sender (from_cbor_find_value C (body fr)) dropped (\<lambda>m.
              respond C srv fr MSG_FIND_VALUE_RESULT
                (map_option (\<lambda>(r, n'). (WFindValueResult r, n'))
                  (handle_find_value P B n m (ck_table ck) (ck_store ck))))
          else dropped)"

definition handle_protocol_request ::
  "prims \<Rightarrow> codec \<Rightarrow> 'db redb \<Rightarrow> 'm cache \<Rightarrow> clock \<Rightarrow> ('db, 'm, 'c) hub_server \<Rightarrow> frame \<Rightarrow> identity option \<Rightarrow>
   frame option \<times> ('db, 'm, 'c) hub_server" where
  "handle_protocol_request P C R M ck srv fr peer_identity =
     (if hs_poisoned srv then (None, srv)
      else (case peer_hub_check P R M ck srv peer_identity of
              (is_peer_hub, srv1) \<Rightarrow> answer_request P C R M ck is_peer_hub srv1 fr peer_identity))"

subsection \<open>Seeding\<close>

text \<open>\<open>serde_json\<close>: strings as values, the members of an object, and writing an object.\<close>

record 'j json =
  j_string :: "string \<Rightarrow> 'j"
  j_members :: "'j \<Rightarrow> (string \<times> 'j) list option"
  j_to_vec :: "(string \<rightharpoonup> 'j) \<Rightarrow> bytes option"

record 'j seed_entry =
  se_type :: string
  se_endpoint :: string
  se_params :: "'j option"

definition seed_payload :: "'j json \<Rightarrow> 'j seed_entry \<Rightarrow> bytes" where
  "seed_payload J e =
     (let base = [''type'' \<mapsto> j_string J (se_type e), ''endpoint'' \<mapsto> j_string J (se_endpoint e)];
          object = (case se_params e of
             None \<Rightarrow> base
           | Some params \<Rightarrow> (case j_members J params of
               None \<Rightarrow> base
             | Some ps \<Rightarrow> fold (\<lambda>(k, v) m. m(k \<mapsto> v)) ps base))
      in case j_to_vec J object of None \<Rightarrow> [] | Some b \<Rightarrow> b)"

definition seed_descriptor :: "prims \<Rightarrow> 'j json \<Rightarrow> keypair \<Rightarrow> u64 \<Rightarrow> 'j seed_entry \<Rightarrow> descriptor" where
  "seed_descriptor P J kp now e =
     create P kp (schema_hash_of P ''core/capability'') (se_type e) (seed_payload J e) now 1 3600
       (hierarchical_routing_keys P (se_type e))"

text \<open>Each entry with the time that its store reads; the counts are \<open>(ok, fail)\<close>.\<close>

fun seed_entries ::
  "prims \<Rightarrow> 'j json \<Rightarrow> 's backend \<Rightarrow> keypair \<Rightarrow> u64 \<Rightarrow> ('j seed_entry \<times> u64) list \<Rightarrow> nat \<Rightarrow> nat \<Rightarrow> 's \<Rightarrow>
   (nat \<times> nat) \<times> 's" where
  "seed_entries P J B kp now [] k l s = ((k, l), s)"
| "seed_entries P J B kp now ((e, t) # es) k l s =
     (case be_store B s (seed_descriptor P J kp now e) t of
        (Ok _, s1) \<Rightarrow> seed_entries P J B kp now es (k + 1) l s1
      | (Err _, s1) \<Rightarrow> seed_entries P J B kp now es k (l + 1) s1)"

definition seed_now ::
  "prims \<Rightarrow> 'j json \<Rightarrow> 'db redb \<Rightarrow> 'm cache \<Rightarrow> ('db, 'm) hub_store \<Rightarrow> keypair \<Rightarrow> u64 \<Rightarrow> ('j seed_entry \<times> u64) list \<Rightarrow>
   (nat \<times> nat) \<times> ('db, 'm) hub_store" where
  "seed_now P J R M st kp now es =
     (let (counts, st1) = seed_entries P J (hub_backend P R M) kp now es 0 0 (set_skip True st)
      in (counts, set_skip False st1))"

subsection \<open>Lemmas on requests\<close>

lemma respond_Some:
  "respond C srv fr ty r = (Some fr', srv') \<Longrightarrow>
     \<exists>m n b. r = Some (m, n) \<and> to_cbor C m = Ok b \<and> fr' = frame_response fr ty b \<and> srv' = srv\<lparr>hs_node := n\<rparr>"
  by (auto simp: respond_def split: option.splits sum.splits)

text \<open>What the peer check does to the node: the store's cache may change.\<close>

lemma peer_hub_check_node:
  assumes "peer_hub_check P R M ck srv peer = (h, srv1)"
  obtains st where "hs_node srv1 = (hs_node srv)\<lparr>dn_store := st\<rparr>" and "cs_inner st = cs_inner (dn_store (hs_node srv))"
    and "hs_poisoned srv1 = hs_poisoned srv"
proof -
  have "hs_node srv1 = (hs_node srv)\<lparr>dn_store := dn_store (hs_node srv1)\<rparr> \<and>
      cs_inner (dn_store (hs_node srv1)) = cs_inner (dn_store (hs_node srv)) \<and> hs_poisoned srv1 = hs_poisoned srv"
    using assms
    by (auto simp: peer_hub_check_def Let_def cached_backend_def cached_get_def redb_backend_def
        split: option.splits if_splits prod.splits)
  then show thesis using that by blast
qed

text \<open>What the handlers do with a frame that is let through.\<close>

definition outcome ::
  "prims \<Rightarrow> codec \<Rightarrow> 'db redb \<Rightarrow> 'm cache \<Rightarrow> clock \<Rightarrow> bool \<Rightarrow> ('db, 'm) hub_node \<Rightarrow> frame \<Rightarrow>
   (wire \<times> ('db, 'm) hub_node) option" where
  "outcome P C R M ck is_peer_hub n fr =
     (if msg_type fr = MSG_PING then
        map_option (\<lambda>(r, n'). (WPong r, n')) (handle_ping P n (the (decoded (from_cbor_ping C (body fr)))) (ck_table ck))
      else if msg_type fr = MSG_STORE then
        (let m = the (decoded (from_cbor_store C (body fr)))
         in map_option (\<lambda>(r, n'). (WStoreAck r, n'))
              (if is_peer_hub then Some (store_unlimited P R M n (store_descriptor_field m) (ck_store ck))
               else handle_store P (hub_backend P R M) n m (ck_table ck) (ck_store ck)))
      else if msg_type fr = MSG_FIND_NODE then
        map_option (\<lambda>(r, n'). (WFindNodeResult r, n'))
          (handle_find_node P n (the (decoded (from_cbor_find_node C (body fr)))) (ck_table ck) (ck_table ck))
      else if msg_type fr = MSG_FIND_VALUE then
        map_option (\<lambda>(r, n'). (WFindValueResult r, n'))
          (handle_find_value P (hub_backend P R M) n (the (decoded (from_cbor_find_value C (body fr)))) (ck_table ck) (ck_store ck))
      else None)"

lemma outcome_answers: "outcome P C R M ck h n fr = Some (m, n') \<Longrightarrow> answers (msg_type fr) m"
  by (auto simp: outcome_def Let_def split: if_splits)

lemma answer_request_eq:
  assumes "\<not> hs_poisoned srv"
  shows "answer_request P C R M ck h srv fr peer =
     (if peer \<noteq> None \<and> peer = claimed_sender C fr
      then respond C srv fr (msg_type fr OR 0x80) (outcome P C R M ck h (at_instant ck (hs_node srv)) fr)
      else (None, srv))"
proof -
  consider "msg_type fr = MSG_PING" | "msg_type fr = MSG_STORE" | "msg_type fr = MSG_FIND_NODE" | "msg_type fr = MSG_FIND_VALUE"
    | "msg_type fr \<notin> {MSG_PING, MSG_STORE, MSG_FIND_NODE, MSG_FIND_VALUE}" by blast
  then show ?thesis
    by cases (use assms in \<open>auto simp: answer_request_def bound_decoded claimed_sender_def outcome_def Let_def msg_type_defs\<close>)
qed

text \<open>A request that nothing interrupts: the check, then the answer.\<close>

lemma handle_protocol_request_steps:
  assumes "\<not> hs_poisoned srv" and "peer_hub_check P R M ck srv peer = (h, srv1)"
  shows "handle_protocol_request P C R M ck srv fr peer = answer_request P C R M ck h srv1 fr peer" and "\<not> hs_poisoned srv1"
  using assms by (auto simp: handle_protocol_request_def elim: peer_hub_check_node)

lemma handle_protocol_request_eq:
  assumes "\<not> hs_poisoned srv" and "peer_hub_check P R M ck srv peer = (h, srv1)"
  shows "handle_protocol_request P C R M ck srv fr peer =
     (if peer \<noteq> None \<and> peer = claimed_sender C fr
      then respond C srv1 fr (msg_type fr OR 0x80) (outcome P C R M ck h (at_instant ck (hs_node srv1)) fr)
      else (None, srv1))"
  using handle_protocol_request_steps [OF assms] by (simp add: answer_request_eq)

lemma poisoned_drops: "hs_poisoned srv \<Longrightarrow> handle_protocol_request P C R M ck srv fr peer = (None, srv)"
  by (simp add: handle_protocol_request_def)

text \<open>C9. A hub answers authenticated requests only, with the response that belongs to them: if there is
  a response, the request decodes, the identity of the connection is the sender that it names,
  and the response carries the message that answers this kind of request, its type with the
  response bit and its id. A request without an identity, one that names somebody else, one that
  does not decode and one of another type get nothing and leave the routing table, the hook's
  limits and the database alone.\<close>

theorem responses_bound_and_typed:
  assumes "handle_protocol_request P C R M ck srv fr peer = (resp, srv')"
  shows "(\<forall>fr'. resp = Some fr' \<longrightarrow>
       (\<exists>s m b. peer = Some s \<and> claimed_sender C fr = Some s \<and> to_cbor C m = Ok b \<and> answers (msg_type fr) m \<and>
          fr' = frame_response fr (msg_type fr OR 0x80) b) \<and> is_response fr') \<and>
     (peer = None \<or> peer \<noteq> claimed_sender C fr \<longrightarrow>
        resp = None \<and> dn_routing_table (hs_node srv') = dn_routing_table (hs_node srv) \<and>
        dn_hook_state (hs_node srv') = dn_hook_state (hs_node srv) \<and>
        cs_inner (dn_store (hs_node srv')) = cs_inner (dn_store (hs_node srv)) \<and>
        hs_poisoned srv' = hs_poisoned srv)"
proof (cases "hs_poisoned srv")
  case True
  then show ?thesis using assms poisoned_drops [OF True, of P C R M ck fr peer] by auto
next
  case False
  obtain h srv1 where c: "peer_hub_check P R M ck srv peer = (h, srv1)" by (rule prod.exhaust)
  obtain st where st: "hs_node srv1 = (hs_node srv)\<lparr>dn_store := st\<rparr>" "cs_inner st = cs_inner (dn_store (hs_node srv))"
    "hs_poisoned srv1 = hs_poisoned srv" by (rule peer_hub_check_node [OF c])
  note eq = handle_protocol_request_eq [OF False c, of C fr, unfolded assms]
  show ?thesis
  proof (cases "peer \<noteq> None \<and> peer = claimed_sender C fr")
    case False
    then show ?thesis using eq st by (auto split: if_splits)
  next
    case True
    then have r: "respond C srv1 fr (msg_type fr OR 0x80) (outcome P C R M ck h (at_instant ck (hs_node srv1)) fr) = (resp, srv')"
      using eq unfolding if_P [OF True] by simp
    have "(\<exists>m b. to_cbor C m = Ok b \<and> answers (msg_type fr) m \<and> fr' = frame_response fr (msg_type fr OR 0x80) b) \<and> is_response fr'"
      if "resp = Some fr'" for fr'
    proof -
      have "respond C srv1 fr (msg_type fr OR 0x80) (outcome P C R M ck h (at_instant ck (hs_node srv1)) fr) = (Some fr', srv')"
        using r that by simp
      then obtain m n b where m: "answers (msg_type fr) m" "to_cbor C m = Ok b" "fr' = frame_response fr (msg_type fr OR 0x80) b"
        using outcome_answers by (blast dest: respond_Some)
      have "msg_type fr \<in> {MSG_PING, MSG_STORE, MSG_FIND_NODE, MSG_FIND_VALUE}" using m(1) by (cases m) auto
      then have "is_response fr'" by (auto simp: m(3) is_response_def msg_type_defs)
      then show ?thesis using m by blast
    qed
    then show ?thesis using True by auto
  qed
qed

subsection \<open>Who is held to the policy\<close>

lemma set_skip_inner [simp]: "cs_inner (set_skip b s) = (cs_inner s)\<lparr>skip_rate_limit := b\<rparr>"
  by (simp add: set_skip_def)

lemma redb_store_skip:
  assumes "skip_rate_limit s"
  shows "redb_store_at P R s d now =
     (case validate P d now of
        Err e \<Rightarrow> (Err (ValidationFailed (mesh_error_display e)), s)
      | Ok _ \<Rightarrow> (case redb_write P R (rs_db s) d of Err e \<Rightarrow> (Err e, s) | Ok db \<Rightarrow> (Ok (), s\<lparr>rs_db := db\<rparr>)))"
  using assms by (simp add: redb_store_at_def Let_def split: sum.split)

lemma cached_store_result:
  "fst (be_store (cached_backend B M) s d now) = fst (be_store B (cs_inner s) d now)"
  "cs_inner (snd (be_store (cached_backend B M) s d now)) = snd (be_store B (cs_inner s) d now)"
  by (simp_all add: cached_backend_def cached_store_def Let_def case_prod_unfold split: sum.split)

lemma store_unlimited_result:
  "stored (fst (store_unlimited P R M n d now)) \<longleftrightarrow>
     validate P d now = Ok () \<and> is_ok (redb_write P R (rs_db (cs_inner (dn_store n))) d)"
  "rs_db (cs_inner (dn_store (snd (store_unlimited P R M n d now)))) =
     (case redb_write P R (rs_db (cs_inner (dn_store n))) d of
        Ok db \<Rightarrow> if validate P d now = Ok () then db else rs_db (cs_inner (dn_store n))
      | Err _ \<Rightarrow> rs_db (cs_inner (dn_store n)))"
  "dn_hook_state (snd (store_unlimited P R M n d now)) = dn_hook_state n"
  by (auto simp: store_unlimited_def case_prod_unfold Let_def cached_store_result redb_backend_def redb_store_skip
      is_ok_unit_iff split: sum.split)

text \<open>A sender that a hub with peering takes for a peer hub: an entry in the peer table, or a descriptor
  that the storage serves under the well-known key.\<close>

definition counts_as_peer ::
  "prims \<Rightarrow> 'db redb \<Rightarrow> 'm cache \<Rightarrow> clock \<Rightarrow> ('db, 'm, 'c) hub_server \<Rightarrow> identity \<Rightarrow> bool" where
  "counts_as_peer P R M ck srv i \<longleftrightarrow>
     (\<exists>pm. hs_peering srv = Some pm \<and>
        ((\<exists>p. map_of (pm_peers pm) (did P i) = Some p \<and> ps_status p = Connected) \<or>
         (\<exists>d \<in> set (fst (be_get (hub_backend P R M) (dn_store (hs_node srv)) (ROUTING_KEY_INFRASTRUCTURE_HUB P) None
              (ck_hub_ads ck))). did P (publisher d) = did P i)))"

lemma peer_hub_check_True: "fst (peer_hub_check P R M ck srv (Some i)) = counts_as_peer P R M ck srv i"
  by (auto simp: peer_hub_check_def counts_as_peer_def Let_def case_prod_unfold list_ex_iff split: option.split)

lemma store_request:
  assumes "msg_type fr = MSG_STORE" and "from_cbor_store C (body fr) = Ok m" and "\<not> hs_poisoned srv"
    and "peer_hub_check P R M ck srv (Some (store_sender m)) = (h, srv1)"
  shows "handle_protocol_request P C R M ck srv fr (Some (store_sender m)) =
     respond C srv1 fr MSG_STORE_ACK (map_option (\<lambda>(r, n'). (WStoreAck r, n'))
       (if h then Some (store_unlimited P R M (at_instant ck (hs_node srv1)) (store_descriptor_field m) (ck_store ck))
        else handle_store P (hub_backend P R M) (at_instant ck (hs_node srv1)) m (ck_table ck) (ck_store ck)))"
  using assms handle_protocol_request_steps(2) [OF assms(3,4)]
  by (simp add: handle_protocol_request_def answer_request_def msg_type_defs)

lemma ping_request:
  assumes "msg_type fr = MSG_PING" and "from_cbor_ping C (body fr) = Ok m" and "\<not> hs_poisoned srv"
    and "peer_hub_check P R M ck srv (Some (ping_sender m)) = (h, srv1)"
  shows "handle_protocol_request P C R M ck srv fr (Some (ping_sender m)) =
     respond C srv1 fr MSG_PONG (map_option (\<lambda>(r, n'). (WPong r, n'))
       (handle_ping P (at_instant ck (hs_node srv1)) m (ck_table ck)))"
  using assms handle_protocol_request_steps(2) [OF assms(3,4)]
  by (simp add: handle_protocol_request_def answer_request_def)

text \<open>C19. The policy binds everybody but the peer hubs, and a peer hub is whom the storage holds a
  descriptor of under the well-known routing key of hub advertisements, whatever its schema and
  payload. The STORE of such a sender is stored exactly if its descriptor is valid and the
  database takes it: hook, blocklists, store mode and both rate limits are passed over, nothing
  is charged. Everybody else's is stored only if the hook admits it.\<close>

theorem policy_binds_all_but_peer_hubs:
  assumes "blake3_ok P" and "node_ok P (hs_node srv)" and "dn_hooks (hs_node srv) = Some (hub_hook P Q c)"
    and "\<not> hs_poisoned srv" and "msg_type fr = MSG_STORE" and "from_cbor_store C (body fr) = Ok m"
    and "\<And>r. is_ok (to_cbor C (WStoreAck r))"
  shows "\<exists>ack b srv'. handle_protocol_request P C R M ck srv fr (Some (store_sender m)) =
       (Some (frame_response fr MSG_STORE_ACK b), srv') \<and> to_cbor C (WStoreAck ack) = Ok b \<and>
     (counts_as_peer P R M ck srv (store_sender m) \<longrightarrow>
       (stored ack \<longleftrightarrow> validate P (store_descriptor_field m) (ck_store ck) = Ok () \<and>
          is_ok (redb_write P R (rs_db (cs_inner (dn_store (hs_node srv)))) (store_descriptor_field m))) \<and>
       hk_limiter (dn_hook_state (hs_node srv')) = hk_limiter (dn_hook_state (hs_node srv))) \<and>
     (\<not> counts_as_peer P R M ck srv (store_sender m) \<longrightarrow> stored ack \<longrightarrow>
        admitted P Q c (hk_tenants (dn_hook_state (hs_node srv))) (store_descriptor_field m) \<and>
        limiter_allows (hk_limiter (dn_hook_state (hs_node srv))) (publisher (store_descriptor_field m)) (ck_instant ck))"
proof -
  obtain h srv1 where c: "peer_hub_check P R M ck srv (Some (store_sender m)) = (h, srv1)" by (rule prod.exhaust)
  obtain st where st: "hs_node srv1 = (hs_node srv)\<lparr>dn_store := st\<rparr>" "cs_inner st = cs_inner (dn_store (hs_node srv))"
    "hs_poisoned srv1 = hs_poisoned srv" by (rule peer_hub_check_node [OF c])
  let ?n = "at_instant ck (hs_node srv1)"
  have n: "node_ok P ?n" "dn_hooks ?n = Some (hub_hook P Q c)" "dn_store ?n = st"
    "hk_limiter (dn_hook_state ?n) = hk_limiter (dn_hook_state (hs_node srv))"
    "hk_tenants (dn_hook_state ?n) = hk_tenants (dn_hook_state (hs_node srv))" "hk_now (dn_hook_state ?n) = ck_instant ck"
    using assms(2,3) st by (simp_all add: at_instant_def)
  note req = store_request [OF assms(5,6,4) c]
  show ?thesis
  proof (cases h)
    case True
    let ?u = "store_unlimited P R M ?n (store_descriptor_field m) (ck_store ck)"
    obtain b where b: "to_cbor C (WStoreAck (fst ?u)) = Ok b" using assms(7) [of "fst ?u"] by (elim is_okE)
    have "handle_protocol_request P C R M ck srv fr (Some (store_sender m)) =
        (Some (frame_response fr MSG_STORE_ACK b), srv1\<lparr>hs_node := snd ?u\<rparr>)"
      unfolding req using True b by (simp add: respond_def case_prod_unfold)
    moreover have "counts_as_peer P R M ck srv (store_sender m)" using peer_hub_check_True c True by (metis fst_conv)
    ultimately show ?thesis using b n st
      by (intro exI [of _ "fst ?u"] exI [of _ b] exI [of _ "srv1\<lparr>hs_node := snd ?u\<rparr>"])
        (simp add: store_unlimited_result)
  next
    case False
    obtain r n' where r: "handle_store P (hub_backend P R M) ?n m (ck_table ck) (ck_store ck) = (Some (r, n'))"
      and refuse: "\<forall>e. fst (hub_pre_store P Q c (dn_hook_state ?n) (store_descriptor_field m)) = Err e \<longrightarrow>
         r = \<lparr>stored = False, reason = Some e\<rparr> \<and> dn_store n' = dn_store ?n"
      by (rule handle_store_hub [OF assms(1) n(1,2), of "hub_backend P R M" m "ck_table ck" "ck_store ck"]) (rule that)
    obtain b where b: "to_cbor C (WStoreAck r) = Ok b" using assms(7) [of r] by (elim is_okE)
    have out: "handle_protocol_request P C R M ck srv fr (Some (store_sender m)) =
        (Some (frame_response fr MSG_STORE_ACK b), srv1\<lparr>hs_node := n'\<rparr>)"
      unfolding req using False b r by (simp add: respond_def)
    have "admitted P Q c (hk_tenants (dn_hook_state ?n)) (store_descriptor_field m) \<and>
        limiter_allows (hk_limiter (dn_hook_state ?n)) (publisher (store_descriptor_field m)) (hk_now (dn_hook_state ?n))"
      if "stored r"
    proof -
      have "\<nexists>e. fst (hub_pre_store P Q c (dn_hook_state ?n) (store_descriptor_field m)) = Err e"
        using refuse that by auto
      then show ?thesis unfolding hub_pre_store_result by (auto split: if_splits)
    qed
    moreover have "\<not> counts_as_peer P R M ck srv (store_sender m)" using peer_hub_check_True c False by (metis fst_conv)
    ultimately show ?thesis using b out n
      by (intro exI [of _ r] exI [of _ b] exI [of _ "srv1\<lparr>hs_node := n'\<rparr>"]) auto
  qed
qed

subsection \<open>A panic under the lock\<close>

text \<open>C32. One request stops a hub for good: a FIND_NODE whose target has fewer than 32 bytes (in a debug build,
  not exactly 32) makes the handler panic as soon as the routing table holds two nodes (the sender, just entered, counts).
  The panic happens under the node's mutex, so every later request of anybody panics at the lock
  and gets no response.\<close>

theorem short_target_stops_hub:
  assumes "msg_type fr = MSG_FIND_NODE" and "from_cbor_find_node C (body fr) = Ok m"
    and "\<not> full P (fn_target m)" and "\<not> hs_poisoned srv"
    and "add_node P (dn_routing_table (hs_node srv)) \<lparr>ni_identity = fn_sender m, ni_addr = fn_sender_addr m,
       last_seen = ck_table ck\<rparr> = Some (res, t)" and "2 \<le> table_len t"
    and "handle_protocol_request P C R M ck srv fr (Some (fn_sender m)) = (resp, srv')"
  shows "resp = None \<and> (\<forall>ck' fr' peer. handle_protocol_request P C R M ck' srv' fr' peer = (None, srv'))"
proof -
  obtain h srv1 where c: "peer_hub_check P R M ck srv (Some (fn_sender m)) = (h, srv1)" by (rule prod.exhaust)
  obtain st where st: "hs_node srv1 = (hs_node srv)\<lparr>dn_store := st\<rparr>" "hs_poisoned srv1 = hs_poisoned srv"
    by (rule peer_hub_check_node [OF c]) (rule that)
  have "closest_nodes P t (fn_target m) K = None"
    by (rule closest_nodes_short [OF assms(3,6)])
  then have "handle_find_node P (at_instant ck (hs_node srv1)) m (ck_table ck) (ck_table ck) = None"
    using assms(5) st by (simp add: handle_find_node_def update_routing_table_def at_instant_def)
  then have "handle_protocol_request P C R M ck srv fr (Some (fn_sender m)) = (None, srv1\<lparr>hs_poisoned := True\<rparr>)"
    using assms(1,2,4) c st(2) by (simp add: handle_protocol_request_def answer_request_def msg_type_defs respond_def)
  then show ?thesis using assms(7) by (auto simp: poisoned_drops)
qed

subsection \<open>Two hubs\<close>

text \<open>The outside of one hub is another hub: requests over the connection go to its server, which knows
  the sender's identity from the connection. The id of the frames and the clock are fixed.\<close>

definition hub_link ::
  "prims \<Rightarrow> codec \<Rightarrow> 'db redb \<Rightarrow> 'm cache \<Rightarrow> clock \<Rightarrow> bytes \<Rightarrow> identity \<Rightarrow> (unit, ('db, 'm, 'c) hub_server) quic" where
  "hub_link P C R M ck i sender =
     \<lparr>q_parse = (\<lambda>_. Err ''''), q_connect = (\<lambda>_ srv. (Ok (), srv)),
      q_request = (\<lambda>_ fr srv. case handle_protocol_request P C R M ck srv fr (Some sender) of
         (Some r, srv') \<Rightarrow> (Ok r, srv') | (None, srv') \<Rightarrow> (Err StreamClosed, srv')),
      q_id = (\<lambda>srv. (i, srv)), q_instant = (\<lambda>srv. (ck_instant ck, srv)), q_micros = (\<lambda>srv. (ck_store ck, srv))\<rparr>"

text \<open>A running hub that has the sender as a connected peer.\<close>

definition peers_with :: "prims \<Rightarrow> identity \<Rightarrow> ('db, 'm, 'c) hub_server \<Rightarrow> bool" where
  "peers_with P i srv \<longleftrightarrow> \<not> hs_poisoned srv \<and>
     (\<exists>pm p. hs_peering srv = Some pm \<and> map_of (pm_peers pm) (did P i) = Some p \<and> ps_status p = Connected)"

definition server_db :: "('db, 'm, 'c) hub_server \<Rightarrow> 'db" where
  "server_db srv = rs_db (cs_inner (dn_store (hs_node srv)))"

text \<open>What the shelf of a hub's disk store (\<open>Disk_Spec\<close>) becomes when a batch is stored: a valid descriptor
  takes its slot unless the slot holds a later version. A shelf is caught up with a descriptor if
  the descriptor's slot holds it or a version that is not older.\<close>

definition shelf_take :: "prims \<Rightarrow> u64 \<Rightarrow> descriptor \<Rightarrow> (bytes \<rightharpoonup> descriptor) \<Rightarrow> bytes \<rightharpoonup> descriptor" where
  "shelf_take P now d m =
     (if validate P d now = Ok () \<and> (\<forall>x. m (redb_dedup_key P d) = Some x \<longrightarrow> sequence x \<le> sequence d)
      then m(redb_dedup_key P d \<mapsto> d) else m)"

definition shelf_take_all :: "prims \<Rightarrow> u64 \<Rightarrow> descriptor list \<Rightarrow> (bytes \<rightharpoonup> descriptor) \<Rightarrow> bytes \<rightharpoonup> descriptor" where
  "shelf_take_all P now ds m = fold (shelf_take P now) ds m"

definition caught_up :: "prims \<Rightarrow> (bytes \<rightharpoonup> descriptor) \<Rightarrow> descriptor \<Rightarrow> bool" where
  "caught_up P m d \<longleftrightarrow> (\<exists>x. m (redb_dedup_key P d) = Some x \<and> sequence d \<le> sequence x)"

lemma shelf_take_ran: "ran (shelf_take P now d m) \<subseteq> insert d (ran m)"
  by (auto simp: shelf_take_def ran_def)

lemma shelf_take_caught_up:
  "caught_up P m x \<Longrightarrow> caught_up P (shelf_take P now d m) x"
  "validate P d now = Ok () \<Longrightarrow> caught_up P (shelf_take P now d m) d"
  by (auto simp: shelf_take_def caught_up_def not_le intro: order_trans less_imp_le)

lemma shelf_take_all_caught_up:
  "caught_up P m x \<Longrightarrow> caught_up P (shelf_take_all P now ds m) x"
  "d \<in> set ds \<Longrightarrow> validate P d now = Ok () \<Longrightarrow> caught_up P (shelf_take_all P now ds m) d"
proof -
  show keep: "caught_up P m x \<Longrightarrow> caught_up P (shelf_take_all P now ds m) x" for m x
    by (induction ds arbitrary: m) (simp_all add: shelf_take_all_def shelf_take_caught_up(1))
  show "d \<in> set ds \<Longrightarrow> validate P d now = Ok () \<Longrightarrow> caught_up P (shelf_take_all P now ds m) d"
  proof (induction ds arbitrary: m)
    case (Cons e ds)
    have all: "shelf_take_all P now (e # ds) m = shelf_take_all P now ds (shelf_take P now e m)" for m
      by (simp add: shelf_take_all_def)
    show ?case
    proof (cases "d = e")
      case True
      have "caught_up P (fold (shelf_take P now) ds n) x" if "caught_up P n x" for n x
        using that by (induction ds arbitrary: n) (simp_all add: shelf_take_caught_up(1))
      then show ?thesis using shelf_take_caught_up(2) [OF Cons.prems(2), of m] True by (simp add: shelf_take_all_def)
    next
      case False
      then show ?thesis using Cons unfolding all by simp
    qed
  qed simp
qed

lemma write_takes:
  assumes "redb_ok R v" and "redb_up R v" and "cbor_ok P" and "is_ok (desc_enc R d)" and "on_disk P R m (v db)"
    and "\<not> collision P (insert d (ran m))"
  shows "on_disk P R (shelf_take P now d m)
     (v (if validate P d now = Ok () then (case redb_write P R db d of Ok db' \<Rightarrow> db' | Err _ \<Rightarrow> db) else db))"
proof (cases "validate P d now = Ok ()")
  case True
  let ?dk = "redb_dedup_key P d"
  have auth: "authentic P d" using True by (simp add: validate_Ok_iff)
  obtain c where c: "desc_enc R d = Ok c" using assms(4) by (elim is_okE)
  have new: "dk = ?dk" if "m dk = Some x" "id_hash x = id_hash d" for dk x
    using on_diskD(2) [OF assms(5) that(1)] authentic_slot [OF assms(3,6) _ auth _ _ that(2)] that(1) by (auto simp: ran_Some)
  have seq: "tb_seq (v db) ?dk = map_option sequence (m ?dk)" by (simp add: on_diskD(6) [OF assms(5)])
  note total = redb_write_total [OF assms(1,2) c, of db P]
  show ?thesis
  proof (cases "\<forall>x. m ?dk = Some x \<longrightarrow> sequence x \<le> sequence d")
    case older: True
    then obtain db' where w: "redb_write P R db d = Ok db'" using conjunct2 [OF total] by (auto simp: seq)
    then show ?thesis
      using write_keeps_shelf [OF assms(1,2) c assms(5) auth new w] True older by (simp add: shelf_take_def)
  next
    case False
    then obtain x where "m ?dk = Some x" "sequence d < sequence x" by (auto simp: not_le)
    then have "redb_write P R db d = Err (StaleDescriptor (sequence d) (sequence x))"
      using conjunct1 [OF total] by (simp add: seq)
    then show ?thesis using True False assms(5) by (auto simp: shelf_take_def)
  qed
qed (use assms(5) in \<open>simp add: shelf_take_def\<close>)

lemma peer_check_connected: "peers_with P i srv \<Longrightarrow> peer_hub_check P R M ck srv (Some i) = (True, srv)"
  by (auto simp: peers_with_def peer_hub_check_def)

text \<open>One gossiped descriptor.\<close>

lemma gossip_one:
  assumes "redb_ok R v" and "redb_up R v" and "cbor_ok P" and "peers_with P (store_sender m) srv"
    and "from_cbor_store C b = Ok m" and "\<And>r. is_ok (to_cbor C (WStoreAck r))"
    and "is_ok (desc_enc R (store_descriptor_field m))"
    and "q_request (hub_link P C R M ck i (store_sender m)) c (frame_new j MSG_STORE b) srv = (res, srv')"
  shows "is_ok res" and "peers_with P (store_sender m) srv'"
    and "on_disk P R sh (v (server_db srv)) \<Longrightarrow> \<not> collision P (insert (store_descriptor_field m) (ran sh)) \<Longrightarrow>
      on_disk P R (shelf_take P (ck_store ck) (store_descriptor_field m) sh) (v (server_db srv'))"
proof -
  let ?n = "at_instant ck (hs_node srv)" and ?d = "store_descriptor_field m"
  let ?u = "store_unlimited P R M ?n ?d (ck_store ck)"
  obtain k where k: "to_cbor C (WStoreAck (fst ?u)) = Ok k" using assms(6) [of "fst ?u"] by (elim is_okE)
  have "handle_protocol_request P C R M ck srv (frame_new j MSG_STORE b) (Some (store_sender m)) =
      (Some (frame_response (frame_new j MSG_STORE b) MSG_STORE_ACK k), srv\<lparr>hs_node := snd ?u\<rparr>)"
    using store_request [of "frame_new j MSG_STORE b" C m srv P R M ck True srv] assms(4,5)
      peer_check_connected [OF assms(4), of R M ck] k
    by (simp add: peers_with_def respond_def case_prod_unfold)
  then have r: "is_ok res" "srv' = srv\<lparr>hs_node := snd ?u\<rparr>" using assms(8) by (auto simp: hub_link_def)
  have n: "server_db srv = rs_db (cs_inner (dn_store ?n))" by (simp add: server_db_def at_instant_def)
  have db: "server_db srv' = (if validate P ?d (ck_store ck) = Ok ()
      then (case redb_write P R (server_db srv) ?d of Ok db' \<Rightarrow> db' | Err _ \<Rightarrow> server_db srv) else server_db srv)"
    unfolding n by (simp add: server_db_def r(2) store_unlimited_result split: sum.split)
  show "is_ok res" "peers_with P (store_sender m) srv'" using r assms(4) by (auto simp: peers_with_def)
  show "on_disk P R (shelf_take P (ck_store ck) ?d sh) (v (server_db srv'))"
    if "on_disk P R sh (v (server_db srv))" "\<not> collision P (insert ?d (ran sh))"
    using write_takes [OF assms(1-3,7) that, of "ck_store ck"] unfolding db .
qed

text \<open>A message that the codec reads back as it was written.\<close>

definition carries :: "codec \<Rightarrow> 'c peer_manager \<Rightarrow> descriptor \<Rightarrow> bool" where
  "carries C pm d \<longleftrightarrow> (\<exists>b. to_cbor C (WStore \<lparr>store_sender = pm_identity pm, store_sender_addr = pm_addr pm,
     store_descriptor_field = d\<rparr>) = Ok b \<and> from_cbor_store C b = Ok \<lparr>store_sender = pm_identity pm,
     store_sender_addr = pm_addr pm, store_descriptor_field = d\<rparr>)"

lemma gossip_to_all:
  assumes "redb_ok R v" and "redb_up R v" and "cbor_ok P" and "peers_with P (pm_identity pm) srv"
    and "\<forall>d \<in> set batch. carries C pm d \<and> is_ok (desc_enc R d)"
    and "\<And>r. is_ok (to_cbor C (WStoreAck r))"
    and "map_of (pm_peers pm) e = Some p" and "ps_connection p = Some ()"
    and "gossip_to C (hub_link P C R M ck i (pm_identity pm)) pm e batch failures srv = (failures', srv')"
  shows "failures' = failures \<and>
     (on_disk P R m (v (server_db srv)) \<longrightarrow> \<not> collision P (set batch \<union> ran m) \<longrightarrow>
      on_disk P R (shelf_take_all P (ck_store ck) batch m) (v (server_db srv')))"
  using assms(4,5,9)
proof (induction batch arbitrary: srv m)
  case Nil
  then show ?case by (simp add: shelf_take_all_def)
next
  case (Cons d batch)
  let ?m = "\<lparr>store_sender = pm_identity pm, store_sender_addr = pm_addr pm, store_descriptor_field = d\<rparr>"
  let ?Q = "hub_link P C R M ck i (pm_identity pm)" and ?sh = "shelf_take P (ck_store ck) d m"
  obtain b where b: "to_cbor C (WStore ?m) = Ok b" "from_cbor_store C b = Ok ?m"
    using Cons.prems(2) by (auto simp: carries_def)
  obtain res srv1 where q: "q_request ?Q () (frame_new i MSG_STORE b) srv = (res, srv1)" by (rule prod.exhaust)
  have "peers_with P (store_sender ?m) srv" "is_ok (desc_enc R (store_descriptor_field ?m))"
    using Cons.prems(1,2) by auto
  note one = gossip_one [OF assms(1-3) this(1) b(2) assms(6) this(2), of M ck i "()" i res srv1]
  have ok: "is_ok res" "peers_with P (pm_identity pm) srv1" using one(1,2) q by simp_all
  have "ask_peer ?Q pm e MSG_STORE b srv = (Some res, srv1)"
    using q assms(7,8) by (simp add: ask_peer_def hub_link_def)
  then have "gossip_to C ?Q pm e batch failures srv1 = (failures', srv')"
    using Cons.prems(3) b(1) ok(1) by (cases res) simp_all
  note rest = Cons.IH [OF ok(2) _ this]
  have "on_disk P R (shelf_take_all P (ck_store ck) (d # batch) m) (v (server_db srv'))"
    if sh: "on_disk P R m (v (server_db srv))" "\<not> collision P (set (d # batch) \<union> ran m)"
  proof -
    have "\<not> collision P (insert (store_descriptor_field ?m) (ran m))"
      using sh(2) collision_mono [of P "insert d (ran m)" "set (d # batch) \<union> ran m"] by auto
    from one(3) [OF _ sh(1) this] q have "on_disk P R ?sh (v (server_db srv1))" by simp
    moreover have "set batch \<union> ran ?sh \<subseteq> set (d # batch) \<union> ran m" using shelf_take_ran [of P "ck_store ck" d m] by auto
    then have "\<not> collision P (set batch \<union> ran ?sh)" using sh(2) collision_mono by blast
    ultimately show ?thesis using rest Cons.prems(2) by (simp add: shelf_take_all_def)
  qed
  then show ?case using rest Cons.prems(2) by simp
qed

text \<open>C18. Gossip replicates. The receiving hub knows the sender as a connected peer, its engine works,
  and its tables hold a shelf \<open>m\<close> (as after any history of its store, see \<open>Disk_Spec\<close>). After one
  gossip round its tables hold the shelf that results from storing the first fifty descriptors
  that the sender offers, in order: for each of them that is valid on the receiver's clock the
  slot then holds the descriptor itself or a version that is not older, and nothing that the
  receiver was caught up with is lost. The round counts no failure and leaves the sender's peers
  alone. (Or two of these descriptors, offered or held, collide under BLAKE3. The messages and
  the rows can be encoded.)\<close>

theorem gossip_replicates:
  assumes "redb_ok R v" and "redb_up R v" and "cbor_ok P" and "peers_with P (pm_identity pm) srv"
    and "\<forall>d \<in> set (take 50 ds). carries C pm d \<and> is_ok (desc_enc R d)"
    and "\<And>r. is_ok (to_cbor C (WStoreAck r))"
    and "pm_peers pm = [(e, p)]" and "ps_status p = Connected" and "ps_connection p = Some ()"
    and "on_disk P R m (v (server_db srv))"
    and "gossip_round C (hub_link P C R M ck i (pm_identity pm)) ds pm srv = (pm', srv')"
  shows "pm' = pm \<and> (collision P (set (take 50 ds) \<union> ran m) \<or>
     (\<exists>m'. m' = shelf_take_all P (ck_store ck) (take 50 ds) m \<and> on_disk P R m' (v (server_db srv')) \<and>
       (\<forall>d \<in> set (take 50 ds). validate P d (ck_store ck) = Ok () \<longrightarrow>
          (\<exists>x. m' (redb_dedup_key P d) = Some x \<and> sequence d \<le> sequence x)) \<and>
       (\<forall>d. caught_up P m d \<longrightarrow> caught_up P m' d)))"
proof (cases "take 50 ds = []")
  case True
  then have "pm' = pm" "srv' = srv" "shelf_take_all P (ck_store ck) (take 50 ds) m = m"
    using assms(11) by (auto simp: gossip_round_def MAX_GOSSIP_BATCH_def shelf_take_all_def)
  then show ?thesis using assms(10) True by simp
next
  case False
  let ?Q = "hub_link P C R M ck i (pm_identity pm)"
  let ?m = "shelf_take_all P (ck_store ck) (take 50 ds) m"
  obtain failures srv1 where g: "gossip_to C ?Q pm e (take 50 ds) 0 srv = (failures, srv1)"
    by (rule prod.exhaust)
  have peer: "map_of (pm_peers pm) e = Some p" using assms(7) by simp
  note all = gossip_to_all [OF assms(1-6) peer assms(9) g, of m]
  have "(pm', srv') = (pm, srv1)"
    using assms(7-9,11) False g all by (simp add: gossip_round_def Let_def MAX_GOSSIP_BATCH_def)
  then show ?thesis
    using all assms(10) shelf_take_all_caught_up [where P = P and now = "ck_store ck" and ds = "take 50 ds" and m = m]
    by (auto simp: caught_up_def [symmetric])
qed

subsection \<open>Seeding publishes\<close>

lemma seed_entries_total:
  "seed_entries P J B kp now es k l s = ((k', l'), s') \<Longrightarrow> k' + l' = k + l + length es"
  by (induction P J B kp now es k l s rule: seed_entries.induct) (auto split: prod.splits sum.splits)

text \<open>An entry within the limits of a descriptor.\<close>

definition seedable :: "'j json \<Rightarrow> 'j seed_entry \<Rightarrow> bool" where
  "seedable J e \<longleftrightarrow> count_list (se_type e) (CHR ''/'') \<le> 7 \<and> length (se_type e) \<le> 255 \<and>
     length (seed_payload J e) \<le> 65536"

lemma seed_descriptor_valid:
  assumes "ed25519_ok P" and "seedable J e" and "sane_clock t" and "unat now \<le> unat t + 120000000"
    and "unat t < unat now + 3600000000"
  shows "validate P (seed_descriptor P J kp now e) t = Ok ()"
proof -
  let ?d = "seed_descriptor P J kp now e"
  have f: "ttl ?d = 3600" "timestamp ?d = now" by (simp_all add: seed_descriptor_def)
  have "expired t ?d \<longleftrightarrow> unat now + 3600 * 1000000 \<le> unat t"
    using expired_plain [OF assms(3), of ?d] by (simp add: f)
  moreover have "now \<le> t + MAX_CLOCK_SKEW_SECS * 1000000"
    using assms(4) skew_unat [OF assms(3)] by (simp add: word_le_nat_alt)
  moreover have "well_formed ?d"
    using assms(2) length_hierarchical_routing_keys [of P "se_type e"]
    by (auto simp: well_formed_def limit_defs seed_descriptor_def seedable_def word_le_nat_alt)
  ultimately show ?thesis
    using assms(5) unfolding seed_descriptor_def by (subst validate_create [OF assms(1)]) (simp_all add: expired_def)
qed

lemma unlimited_store:
  assumes "redb_ok R v" and "redb_up R v" and "skip_rate_limit (cs_inner s)" and "validate P d t = Ok ()"
    and "desc_enc R d = Ok c"
    and "\<forall>n. tb_seq (v (rs_db (cs_inner s))) (redb_dedup_key P d) = Some n \<longrightarrow> n \<le> sequence d"
  obtains s' where "be_store (hub_backend P R M) s d t = (Ok (), s')" and "skip_rate_limit (cs_inner s')"
    and "tb_seq (v (rs_db (cs_inner s'))) = (tb_seq (v (rs_db (cs_inner s))))(redb_dedup_key P d \<mapsto> sequence d)"
    and "redb_store_at P R (cs_inner s) d t = (Ok (), cs_inner s')"
proof -
  obtain db where db: "redb_write P R (rs_db (cs_inner s)) d = Ok db"
    using redb_write_total [OF assms(1,2,5), where P = P and db = "rs_db (cs_inner s)"] assms(6) by blast
  have seq: "tb_seq (v db) = (tb_seq (v (rs_db (cs_inner s))))(redb_dedup_key P d \<mapsto> sequence d)"
    by (rule redb_write_Ok [OF assms(1) db])
  have r: "redb_store_at P R (cs_inner s) d t = (Ok (), (cs_inner s)\<lparr>rs_db := db\<rparr>)"
    by (simp add: redb_store_skip [OF assms(3)] assms(4) db)
  let ?b = "be_store (hub_backend P R M) s d t"
  have "fst ?b = Ok ()" "cs_inner (snd ?b) = (cs_inner s)\<lparr>rs_db := db\<rparr>"
    using r by (simp_all add: cached_store_result redb_backend_def)
  then show thesis using that [of "snd ?b"] seq r assms(3) by (cases ?b) simp
qed

lemma seed_entries_all:
  assumes "redb_ok R v" and "redb_up R v" and "skip_rate_limit (cs_inner s)"
    and "\<forall>(e, t) \<in> set es. validate P (seed_descriptor P J kp now e) t = Ok () \<and>
       is_ok (desc_enc R (seed_descriptor P J kp now e))"
    and "\<forall>e \<in> fst ` set es. \<forall>n. tb_seq (v (rs_db (cs_inner s))) (redb_dedup_key P (seed_descriptor P J kp now e)) = Some n
       \<longrightarrow> n \<le> 1"
  shows "\<exists>s'. seed_entries P J (hub_backend P R M) kp now es k l s = ((k + length es, l), s') \<and>
     skip_rate_limit (cs_inner s') \<and>
     (es \<noteq> [] \<longrightarrow> (\<exists>r. redb_store_at P R r (seed_descriptor P J kp now (fst (last es))) (snd (last es)) = (Ok (), cs_inner s')))"
  using assms(3-5)
proof (induction es arbitrary: k s)
  case Nil
  then show ?case by simp
next
  case (Cons et es)
  obtain e t where et: "et = (e, t)" by (cases et)
  let ?d = "seed_descriptor P J kp now e"
  have sq: "sequence ?d = 1" by (simp add: seed_descriptor_def)
  obtain c where c: "desc_enc R ?d = Ok c" using Cons.prems(2) et by (auto elim: is_okE)
  obtain s1 where s1: "be_store (hub_backend P R M) s ?d t = (Ok (), s1)" "skip_rate_limit (cs_inner s1)"
    "tb_seq (v (rs_db (cs_inner s1))) = (tb_seq (v (rs_db (cs_inner s))))(redb_dedup_key P ?d \<mapsto> 1)"
    "redb_store_at P R (cs_inner s) ?d t = (Ok (), cs_inner s1)"
    by (rule unlimited_store [OF assms(1,2) Cons.prems(1) _ c, of P t M]) (use Cons.prems(2,3) et sq in auto)
  have "\<exists>s'. seed_entries P J (hub_backend P R M) kp now es (k + 1) l s1 = ((k + 1 + length es, l), s') \<and>
     skip_rate_limit (cs_inner s') \<and>
     (es \<noteq> [] \<longrightarrow> (\<exists>r. redb_store_at P R r (seed_descriptor P J kp now (fst (last es))) (snd (last es)) = (Ok (), cs_inner s')))"
    by (rule Cons.IH) (use s1 Cons.prems(2,3) in auto)
  then obtain s' where s': "seed_entries P J (hub_backend P R M) kp now es (k + 1) l s1 = ((k + 1 + length es, l), s')"
    "skip_rate_limit (cs_inner s')"
    "es \<noteq> [] \<Longrightarrow> \<exists>r. redb_store_at P R r (seed_descriptor P J kp now (fst (last es))) (snd (last es)) = (Ok (), cs_inner s')"
    by blast
  have "s' = s1" if "es = []" using s'(1) that by simp
  then show ?case using s' s1 et by auto
qed

text \<open>Seeding publishes: every entry is counted as stored or failed, and the store's own rate limit is
  in force again afterwards. With a working engine, a clock within the descriptors' lifetime and
  entries within the limits (at most seven slashes in a type) none fails, unless a slot holds a
  sequence above one, and the descriptor of the last entry is found under each key of its type
  path until its hour is over.\<close>

theorem seeding_publishes:
  assumes "seed_now P J R M st kp now es = ((stored_ok, failed), st')"
  shows "stored_ok + failed = length es \<and> \<not> skip_rate_limit (cs_inner st') \<and>
     (redb_ok R v \<longrightarrow> redb_up R v \<longrightarrow> ed25519_ok P \<longrightarrow>
      (\<forall>(e, t) \<in> set es. seedable J e \<and> is_ok (desc_enc R (seed_descriptor P J kp now e)) \<and> sane_clock t \<and>
         unat now \<le> unat t + 120000000 \<and> unat t < unat now + 3600000000) \<longrightarrow>
      (\<forall>e \<in> fst ` set es. \<forall>n. tb_seq (v (rs_db (cs_inner st))) (redb_dedup_key P (seed_descriptor P J kp now e)) = Some n
         \<longrightarrow> n \<le> 1) \<longrightarrow>
      failed = 0 \<and>
      (\<forall>k later. es \<noteq> [] \<longrightarrow> k \<in> set (hierarchical_routing_keys P (se_type (fst (last es)))) \<longrightarrow>
         \<not> expired later (seed_descriptor P J kp now (fst (last es))) \<longrightarrow>
         seed_descriptor P J kp now (fst (last es)) \<in> set (redb_get_at R (cs_inner st') k None later)))"
proof -
  obtain st1 where e: "seed_entries P J (hub_backend P R M) kp now es 0 0 (set_skip True st) = ((stored_ok, failed), st1)"
    and st': "st' = set_skip False st1"
    using assms by (auto simp: seed_now_def split: prod.splits)
  have "failed = 0 \<and>
      (\<forall>k later. es \<noteq> [] \<longrightarrow> k \<in> set (hierarchical_routing_keys P (se_type (fst (last es)))) \<longrightarrow>
         \<not> expired later (seed_descriptor P J kp now (fst (last es))) \<longrightarrow>
         seed_descriptor P J kp now (fst (last es)) \<in> set (redb_get_at R (cs_inner st') k None later))"
    if R: "redb_ok R v" "redb_up R v" and P: "ed25519_ok P"
      and es: "\<forall>(e, t) \<in> set es. seedable J e \<and> is_ok (desc_enc R (seed_descriptor P J kp now e)) \<and> sane_clock t \<and>
         unat now \<le> unat t + 120000000 \<and> unat t < unat now + 3600000000"
      and w: "\<forall>e \<in> fst ` set es. \<forall>n. tb_seq (v (rs_db (cs_inner st))) (redb_dedup_key P (seed_descriptor P J kp now e)) = Some n
         \<longrightarrow> n \<le> 1"
  proof -
    have "\<forall>(e, t) \<in> set es. validate P (seed_descriptor P J kp now e) t = Ok () \<and>
        is_ok (desc_enc R (seed_descriptor P J kp now e))"
      using es seed_descriptor_valid [OF P, of J _ _ now kp] by fastforce
    from seed_entries_all [OF R _ this, of "set_skip True st" M 0 0] w e
    have all: "failed = 0" "es \<noteq> [] \<Longrightarrow> \<exists>r. redb_store_at P R r (seed_descriptor P J kp now (fst (last es))) (snd (last es)) =
        (Ok (), cs_inner st1)" by auto
    have get: "redb_get_at R (cs_inner st') k f later = redb_get_at R (cs_inner st1) k f later" for k f later
      by (simp add: redb_get_at_def st')
    have "seed_descriptor P J kp now (fst (last es)) \<in> set (redb_get_at R (cs_inner st') k None later)"
      if ne: "es \<noteq> []" and k: "k \<in> set (hierarchical_routing_keys P (se_type (fst (last es))))"
        and ex: "\<not> expired later (seed_descriptor P J kp now (fst (last es)))" for k later
    proof -
      obtain r where "redb_store_at P R r (seed_descriptor P J kp now (fst (last es))) (snd (last es)) = (Ok (), cs_inner st1)"
        using all(2) [OF ne] by blast
      from redb_stored_is_served [OF R this _ ex, of k None] k show ?thesis
        unfolding get by (simp add: seed_descriptor_def)
    qed
    then show ?thesis using all(1) by blast
  qed
  moreover have "stored_ok + failed = length es" using seed_entries_total [OF e] by simp
  ultimately show ?thesis by (auto simp: st')
qed

subsection \<open>Witnesses\<close>

definition demo_clock :: clock where
  "demo_clock = \<lparr>ck_instant = 5, ck_hub_ads = 2000, ck_table = 2000, ck_store = 2000\<rparr>"

text \<open>A tenants-only hub without tenants, with one connected peer (the publisher of \<open>demo_desc\<close>).\<close>

definition demo_server :: "(demo_db, bytes \<rightharpoonup> descriptor list, unit) hub_server" where
  "demo_server = \<lparr>hs_node = with_hooks (demo_hooked demo_cached0)
       (hub_hook pad_prims demo_sqlite (demo_hub_policy\<lparr>pc_store_mode := TenantOnly\<rparr>)),
     hs_peering = Some demo_manager, hs_poisoned = False\<rparr>"

definition demo_peer_id :: identity where
  "demo_peer_id = keypair_identity pad_prims \<lparr>signing_key = [1]\<rparr>"

definition demo_peer_ping :: ping where
  "demo_peer_ping = \<lparr>ping_sender = demo_peer_id, ping_sender_addr = node_addr_quic ''h:1''\<rparr>"

definition demo_peer_store :: store_msg where
  "demo_peer_store = \<lparr>store_sender = demo_peer_id, store_sender_addr = node_addr_quic ''h:1'',
     store_descriptor_field = demo_desc 7 1000\<rparr>"

definition demo_short_find :: find_node where
  "demo_short_find = \<lparr>fn_sender = short_identity 5, fn_sender_addr = node_addr_quic ''h:1'', fn_target = \<lparr>hash_algorithm = 3, digest = [1]\<rparr>\<rparr>"

abbreviation demo_server_codec :: codec where
  "demo_server_codec \<equiv> server_codec demo_peer_ping demo_peer_store demo_short_find"

lemma demo_server_ok: "node_ok pad_prims (hs_node demo_server)"
  "dn_hooks (hs_node demo_server) = Some (hub_hook pad_prims demo_sqlite (demo_hub_policy\<lparr>pc_store_mode := TenantOnly\<rparr>))"
  "dn_store (hs_node demo_server) = demo_cached0" "\<not> hs_poisoned demo_server" "hs_peering demo_server = Some demo_manager"
  "dn_hook_state (hs_node demo_server) = demo_hook_state"
  using demo_hooked_ok(1) [of demo_cached0] by (simp_all add: demo_server_def with_hooks_def node_ok_def)

lemma demo_server_peers: "peers_with pad_prims demo_peer_id demo_server"
  by (simp add: peers_with_def demo_server_ok demo_peer_id_def demo_lost_peer_def)

lemma responses_bound_and_typed_witness:
  "\<exists>r srv'. handle_protocol_request pad_prims demo_server_codec demo_redb demo_cache demo_clock demo_server
       (frame_new (replicate 16 9) MSG_PING []) (Some demo_peer_id) = (Some r, srv') \<and>
     is_response r \<and> msg_id r = replicate 16 9"
proof -
  let ?fr = "frame_new (replicate 16 9) MSG_PING []"
  let ?n = "at_instant demo_clock (hs_node demo_server)"
  have sender: "ping_sender demo_peer_ping = demo_peer_id" by (simp add: demo_peer_ping_def)
  have "node_ok pad_prims ?n" using demo_server_ok(1) by (simp add: at_instant_def)
  then obtain n1 where "update_routing_table pad_prims ?n demo_peer_id (node_addr_quic ''h:1'') 2000 = Some n1"
    using update_routing_table_total [OF pad_prims_ok(1)] by blast
  then obtain p n' where p: "handle_ping pad_prims ?n demo_peer_ping 2000 = Some (p, n')"
    by (auto simp: handle_ping_def demo_peer_ping_def)
  have t: "ck_table demo_clock = 2000" by (simp add: demo_clock_def)
  have h: "handle_protocol_request pad_prims demo_server_codec demo_redb demo_cache demo_clock demo_server
       ?fr (Some demo_peer_id) = (Some (frame_response ?fr MSG_PONG []), demo_server\<lparr>hs_node := n'\<rparr>)"
    unfolding sender [symmetric]
    by (subst ping_request) (simp_all add: demo_server_ok(4) sender peer_check_connected [OF demo_server_peers] t respond_def,
      subst p, simp)
  have "is_response (frame_response ?fr MSG_PONG [])" using responses_bound_and_typed [OF h, THEN conjunct1] by blast
  then show ?thesis
    by (intro exI [of _ "frame_response ?fr MSG_PONG []"] exI [of _ "demo_server\<lparr>hs_node := n'\<rparr>"] conjI h) simp_all
qed

lemma policy_binds_all_but_peer_hubs_witness:
  "\<exists>ack b srv'. handle_protocol_request pad_prims demo_server_codec demo_redb demo_cache demo_clock demo_server
       (frame_new (replicate 16 9) MSG_STORE []) (Some demo_peer_id) =
         (Some (frame_response (frame_new (replicate 16 9) MSG_STORE []) MSG_STORE_ACK b), srv') \<and>
     to_cbor demo_server_codec (WStoreAck ack) = Ok b \<and> stored ack \<and> \<not> admitted pad_prims demo_sqlite (demo_hub_policy\<lparr>pc_store_mode := TenantOnly\<rparr>)
       (hk_tenants (dn_hook_state (hs_node demo_server))) (demo_desc 7 1000)"
proof -
  have w: "is_ok (redb_write pad_prims demo_redb (rs_db demo_store0) (demo_desc 7 1000))"
  proof (rule demo_redb_stored)
    fix s'
    assume "redb_store_at pad_prims demo_redb demo_store0 (demo_desc 7 1000) 2000 = (Ok (), s')"
    then have "fst (redb_store_at pad_prims demo_redb demo_store0 (demo_desc 7 1000) 2000) = Ok ()" by simp
    then obtain db where "redb_write pad_prims demo_redb (rs_db demo_store0) (demo_desc 7 1000) = Ok db"
      by (rule redb_store_Ok)
    then show ?thesis by simp
  qed
  have peer: "counts_as_peer pad_prims demo_redb demo_cache demo_clock demo_server (store_sender demo_peer_store)"
    by (simp add: counts_as_peer_def demo_server_ok demo_peer_id_def demo_peer_store_def demo_lost_peer_def)
  have not: "\<not> admitted pad_prims demo_sqlite (demo_hub_policy\<lparr>pc_store_mode := TenantOnly\<rparr>)
       (hk_tenants (dn_hook_state (hs_node demo_server))) (demo_desc 7 1000)"
    by (simp add: admitted_def is_tenant_of_def demo_server_ok demo_hook_state_def empty_db_def)
  have f: "msg_type (frame_new (replicate 16 9) MSG_STORE []) = MSG_STORE"
    "from_cbor_store demo_server_codec (body (frame_new (replicate 16 9) MSG_STORE [])) = Ok demo_peer_store"
    "is_ok (to_cbor demo_server_codec (WStoreAck r))" for r by simp_all
  have sender: "store_sender demo_peer_store = demo_peer_id" by (simp add: demo_peer_store_def)
  have v: "validate pad_prims (store_descriptor_field demo_peer_store) (ck_store demo_clock) = Ok ()"
    "is_ok (redb_write pad_prims demo_redb (rs_db (cs_inner (dn_store (hs_node demo_server))))
       (store_descriptor_field demo_peer_store))"
    using w by (simp_all add: demo_peer_store_def demo_clock_def demo_server_ok demo_cached0_def)
  from policy_binds_all_but_peer_hubs [OF pad_prims_ok(1) demo_server_ok(1,2,4) f(1,2) f(3),
      of demo_redb demo_cache demo_clock] peer v not
  show ?thesis unfolding sender by (elim exE conjE) (intro exI conjI, assumption, assumption, simp, assumption)
qed

lemma short_target_stops_hub_witness:
  "\<exists>srv'. handle_protocol_request pad_prims demo_server_codec demo_redb demo_cache demo_clock
       (demo_server\<lparr>hs_node := (hs_node demo_server)\<lparr>dn_routing_table := demo_table\<rparr>\<rparr>)
       (frame_new (replicate 16 9) MSG_FIND_NODE []) (Some (short_identity 5)) = (None, srv') \<and>
     (\<forall>ck' fr' peer. handle_protocol_request pad_prims demo_server_codec demo_redb demo_cache ck' srv' fr' peer = (None, srv'))"
proof -
  let ?srv = "demo_server\<lparr>hs_node := (hs_node demo_server)\<lparr>dn_routing_table := demo_table\<rparr>\<rparr>"
  let ?fr = "frame_new (replicate 16 9) MSG_FIND_NODE []"
  obtain resp srv' where h: "handle_protocol_request pad_prims demo_server_codec demo_redb demo_cache demo_clock ?srv ?fr
      (Some (fn_sender demo_short_find)) = (resp, srv')" by (rule prod.exhaust)
  let ?i = "\<lparr>ni_identity = short_identity 5, ni_addr = node_addr_quic ''h:1'', last_seen = 2000\<rparr>"
  let ?t = "set_entries demo_table 250 [demo_node 4, ?i]"
  have a: "add_node pad_prims demo_table ?i = Some (Updated, ?t)"
    using demo_table_bucket by (simp add: add_node_def Let_def demo_table_entries remove_at_def ni_id_def)
  have t: "2 \<le> table_len ?t"
    by (simp add: table_len_all_nodes demo_table_def all_nodes_one_bucket NUM_BUCKETS_def)
  from short_target_stops_hub [OF _ _ _ _ _ t h] show ?thesis
    using a h demo_server_ok(4) by (auto simp: demo_short_find_def demo_clock_def full_def long_def)
qed

text \<open>An engine that can encode one given descriptor.\<close>

definition redb_for :: "descriptor \<Rightarrow> demo_db redb" where
  "redb_for d = demo_redb\<lparr>desc_enc := \<lambda>x. if x = d then Ok [1] else Err (Cbor ''unsupported''),
     desc_dec := \<lambda>b. if b = [1] then Ok d else Err (Cbor ''unsupported'')\<rparr>"

lemma redb_for_ok: "redb_ok (redb_for d) demo_view" "redb_up (redb_for d) demo_view"
  using demo_redb_ok demo_redb_up by (simp_all add: redb_ok_def redb_up_def redb_for_def)

lemma gossip_replicates_witness:
  "\<exists>srv'. gossip_round demo_server_codec
       (hub_link pad_prims demo_server_codec (redb_for (demo_desc 7 1000)) demo_cache demo_clock [] demo_peer_id)
       [demo_desc 7 1000]
       ((peer_manager_new demo_peer_id \<lparr>signing_key = [1]\<rparr> (node_addr_quic ''h:1'') (build_hub_metadata 0 [] ''a'') 50 [])
         \<lparr>pm_peers := [(''hub'', demo_lost_peer\<lparr>ps_connection := Some ()\<rparr>)]\<rparr>) demo_server =
     ((peer_manager_new demo_peer_id \<lparr>signing_key = [1]\<rparr> (node_addr_quic ''h:1'') (build_hub_metadata 0 [] ''a'') 50 [])
         \<lparr>pm_peers := [(''hub'', demo_lost_peer\<lparr>ps_connection := Some ()\<rparr>)]\<rparr>, srv') \<and>
     on_disk pad_prims (redb_for (demo_desc 7 1000)) [redb_dedup_key pad_prims (demo_desc 7 1000) \<mapsto> demo_desc 7 1000]
       (demo_view (server_db srv'))"
proof -
  let ?pm = "(peer_manager_new demo_peer_id \<lparr>signing_key = [1]\<rparr> (node_addr_quic ''h:1'') (build_hub_metadata 0 [] ''a'') 50 [])
      \<lparr>pm_peers := [(''hub'', demo_lost_peer\<lparr>ps_connection := Some ()\<rparr>)]\<rparr>"
  let ?R = "redb_for (demo_desc 7 1000)"
  have i: "pm_identity ?pm = demo_peer_id" "pm_addr ?pm = node_addr_quic ''h:1''" by (simp_all add: peer_manager_new_def)
  obtain pm' srv' where g: "gossip_round demo_server_codec
      (hub_link pad_prims demo_server_codec ?R demo_cache demo_clock [] (pm_identity ?pm)) [demo_desc 7 1000] ?pm demo_server =
      (pm', srv')" by (rule prod.exhaust)
  have peers: "peers_with pad_prims (pm_identity ?pm) demo_server" unfolding i by (rule demo_server_peers)
  have msgs: "\<forall>d \<in> set (take 50 [demo_desc 7 1000]). carries demo_server_codec ?pm d \<and> is_ok (desc_enc ?R d)"
    unfolding carries_def i by (simp add: demo_peer_store_def redb_for_def)
  have empty: "on_disk pad_prims ?R Map.empty (demo_view (server_db demo_server))"
    by (simp add: on_disk_def unique_rows_def server_db_def demo_server_def demo_cached0_def demo_store0_def
        demo_view_def with_hooks_def fun_eq_iff)
  have nc: "\<not> collision pad_prims (set (take 50 [demo_desc 7 1000]) \<union> ran Map.empty)" by (simp add: collision_def)
  have "validate pad_prims (demo_desc 7 1000) (ck_store demo_clock) = Ok ()" by (simp add: demo_clock_def)
  then have "pm' = ?pm \<and> on_disk pad_prims ?R [redb_dedup_key pad_prims (demo_desc 7 1000) \<mapsto> demo_desc 7 1000]
      (demo_view (server_db srv'))"
    using gossip_replicates [OF redb_for_ok pad_prims_ok(3) peers msgs _ _ _ _ empty g, of "''hub''" "demo_lost_peer\<lparr>ps_connection := Some ()\<rparr>"] nc
    by (simp add: demo_lost_peer_def shelf_take_all_def shelf_take_def)
  then show ?thesis using g i by auto
qed

definition demo_json :: "string json" where
  "demo_json = \<lparr>j_string = id, j_members = (\<lambda>_. None), j_to_vec = (\<lambda>_. Some [5])\<rparr>"

definition demo_seed :: "string seed_entry" where
  "demo_seed = \<lparr>se_type = ''a/b'', se_endpoint = ''e'', se_params = None\<rparr>"

lemma seeding_publishes_witness:
  "\<exists>st'. seed_now pad_prims demo_json (redb_for (seed_descriptor pad_prims demo_json \<lparr>signing_key = [9]\<rparr> 1000 demo_seed))
       demo_cache demo_cached0 \<lparr>signing_key = [9]\<rparr> 1000 [(demo_seed, 2000)] = ((1, 0), st') \<and>
     seed_descriptor pad_prims demo_json \<lparr>signing_key = [9]\<rparr> 1000 demo_seed \<in>
       set (redb_get_at (redb_for (seed_descriptor pad_prims demo_json \<lparr>signing_key = [9]\<rparr> 1000 demo_seed)) (cs_inner st')
         (routing_key pad_prims ''a/b'') None 3000)"
proof -
  let ?d = "seed_descriptor pad_prims demo_json \<lparr>signing_key = [9]\<rparr> 1000 demo_seed"
  let ?R = "redb_for ?d"
  obtain k l st' where s: "seed_now pad_prims demo_json ?R demo_cache demo_cached0 \<lparr>signing_key = [9]\<rparr> 1000 [(demo_seed, 2000)] =
      ((k, l), st')" by (metis prod.exhaust)
  have ok: "seedable demo_json demo_seed" by (simp add: seedable_def demo_seed_def seed_payload_def demo_json_def)
  have enc: "is_ok (desc_enc ?R ?d)" by (simp add: redb_for_def)
  have w: "tb_seq (demo_view (rs_db (cs_inner demo_cached0))) x = None" for x
    by (simp add: demo_cached0_def demo_store0_def demo_view_def)
  have ne: "hierarchical_routing_keys pad_prims ''a/b'' \<noteq> []"
    using length_hierarchical_routing_keys [of pad_prims "''a/b''"] by auto
  have key: "routing_key pad_prims ''a/b'' \<in> set (hierarchical_routing_keys pad_prims (se_type demo_seed))"
    using last_hierarchical_routing_keys [of pad_prims "''a/b''"] last_in_set [OF ne] by (simp add: demo_seed_def)
  have "\<not> expired 3000 ?d" by (simp add: expired_unat sane_clock_def seed_descriptor_def)
  then show ?thesis
    using seeding_publishes [OF s, of demo_view] redb_for_ok [of ?d] ok enc w key s by (auto simp: sane_clock_def)
qed

end
