(* ===== verification/Admin.thy ===== *)
theory Admin
  imports Tenants Redb_Storage
begin

section \<open>mesh-hub: the admin API\<close>

text \<open>
  admin.rs: one definition per handler, and \<open>admin_handle\<close> for the router. A handler takes the
  request's parts as axum extracts them (the path segments as text, the body already parsed, the
  authorization header if it is text) and returns the status code, the body and the new database.
  \<open>parse_uuid\<close> is \<open>Uuid::parse_str\<close>. Clock readings, ids and nonces of a request are the record
  \<open>fresh\<close>. The mutexes are never poisoned here except where a handler looks at that.
\<close>

record admin_state =
  as_db :: tenant_db
  as_hub_did :: "string option"
  as_operator_token :: "string option"
  as_metrics :: "string option"

record fresh =
  fr_now :: u64
  fr_uuid :: uuid
  fr_nonce :: bytes

datatype reply_body =
    NoBody
  | JError string
  | JTenant tenant
  | JTenants "tenant list"
  | JUsage tenant_usage
  | JChallenge did_auth_challenge
  | JRegistered string
  | JStatus nat nat nat nat
  | Text string

type_synonym reply = "nat \<times> reply_body"

definition check_operator_token :: "admin_state \<Rightarrow> string option \<Rightarrow> nat + unit" where
  "check_operator_token a auth_header =
     (case as_operator_token a of
        None \<Rightarrow> Ok ()
      | Some expected \<Rightarrow>
          (case strip_prefix ''Bearer '' (case auth_header of None \<Rightarrow> '''' | Some h \<Rightarrow> h) of
             Some token \<Rightarrow> if token = expected then Ok () else Err 401
           | None \<Rightarrow> Err 401))"

subsection \<open>Public routes\<close>

definition healthz :: reply where
  "healthz = (200, NoBody)"

definition readyz :: "bool \<Rightarrow> reply" where
  "readyz poisoned = (if poisoned then (503, NoBody) else (200, NoBody))"

definition hub_status :: "sqlite \<Rightarrow> admin_state \<Rightarrow> nat \<Rightarrow> nat \<Rightarrow> nat \<Rightarrow> reply" where
  "hub_status Q a uptime descs keys =
     (200, JStatus uptime descs keys
        (case list_tenants Q (as_db a) of Err _ \<Rightarrow> 0 | Ok ts \<Rightarrow> length ts))"

definition create_identity_challenge ::
  "sqlite \<Rightarrow> (string \<Rightarrow> uuid option) \<Rightarrow> fresh \<Rightarrow> admin_state \<Rightarrow> string \<Rightarrow> string \<Rightarrow> reply \<times> admin_state" where
  "create_identity_challenge Q parse_uuid f a path_id action =
     (case parse_uuid path_id of
        None \<Rightarrow> ((400, JError ''invalid uuid''), a)
      | Some i \<Rightarrow>
          let hub_did = (case as_hub_did a of None \<Rightarrow> '''' | Some d \<Rightarrow> d) in
          (case get_tenant Q (as_db a) i of
             Ok None \<Rightarrow> ((404, NoBody), a)
           | Err e \<Rightarrow> ((500, JError e), a)
           | Ok (Some _) \<Rightarrow>
               (case create_challenge Q (as_db a) i hub_did action (fr_uuid f) (fr_nonce f) (fr_now f) of
                  (Ok c, db) \<Rightarrow> ((201, JChallenge c), a\<lparr>as_db := db\<rparr>)
                | (Err e, db) \<Rightarrow> ((500, JError e), a\<lparr>as_db := db\<rparr>))))"

record verify_request =
  vr_challenge_id :: string
  vr_identity_bytes :: string
  vr_did :: string
  vr_signature :: string

definition verify_identity ::
  "prims \<Rightarrow> sqlite \<Rightarrow> (string \<Rightarrow> uuid option) \<Rightarrow> fresh \<Rightarrow> admin_state \<Rightarrow> string \<Rightarrow> verify_request \<Rightarrow>
   reply \<times> admin_state" where
  "verify_identity P Q parse_uuid f a path_id req =
     (case parse_uuid path_id of
        None \<Rightarrow> ((400, JError ''invalid tenant uuid''), a)
      | Some tenant_uuid \<Rightarrow>
     (case parse_uuid (vr_challenge_id req) of
        None \<Rightarrow> ((400, JError ''invalid challenge_id''), a)
      | Some challenge_uuid \<Rightarrow>
     (case hex_decode P (vr_identity_bytes req) of
        None \<Rightarrow> ((400, JError ''invalid hex for identity_bytes''), a)
      | Some id_bytes \<Rightarrow>
     (case hex_decode P (vr_signature req) of
        None \<Rightarrow> ((400, JError ''invalid hex for signature''), a)
      | Some sig_bytes \<Rightarrow>
          if length id_bytes < 2 then ((400, JError ''identity_bytes too short''), a)
          else
            let i = \<lparr>id_algorithm = hd id_bytes, public_key = tl id_bytes\<rparr> in
            if did P i \<noteq> vr_did req then ((400, JError ''DID does not match identity''), a)
            else
              (case get_challenge Q (as_db a) challenge_uuid of
                 Ok None \<Rightarrow> ((404, JError ''challenge not found or already consumed''), a)
               | Err e \<Rightarrow> ((500, JError e), a)
               | Ok (Some c) \<Rightarrow>
                   if is_expired c (fr_now f) then ((410, JError ''challenge expired''), a)
                   else
                     (case challenge_verify P c i sig_bytes of
                        Err e \<Rightarrow> ((403, JError e), a)
                      | Ok _ \<Rightarrow>
                          (case consume_challenge Q (as_db a) challenge_uuid of
                             (Err e, db) \<Rightarrow> ((409, JError e), a\<lparr>as_db := db\<rparr>)
                           | (Ok _, db) \<Rightarrow>
                               (case register_identity Q db tenant_uuid id_bytes (vr_did req) (fr_now f) of
                                  (Err e, db') \<Rightarrow> ((500, JError e), a\<lparr>as_db := db'\<rparr>)
                                | (Ok _, db') \<Rightarrow> ((200, JRegistered (vr_did req)), a\<lparr>as_db := db'\<rparr>))))))))) "

subsection \<open>Operator routes\<close>

text \<open>\<open>if let Err(status) = check_operator_token(..) { return status }\<close>, then the rest.\<close>

definition operator_only ::
  "admin_state \<Rightarrow> string option \<Rightarrow> reply \<times> admin_state \<Rightarrow> reply \<times> admin_state" where
  "operator_only a auth_header r =
     (case check_operator_token a auth_header of Err status \<Rightarrow> ((status, NoBody), a) | Ok _ \<Rightarrow> r)"

definition with_uuid ::
  "(string \<Rightarrow> uuid option) \<Rightarrow> admin_state \<Rightarrow> string \<Rightarrow> (uuid \<Rightarrow> reply \<times> admin_state) \<Rightarrow> reply \<times> admin_state" where
  "with_uuid parse_uuid a path_id k =
     (case parse_uuid path_id of None \<Rightarrow> ((400, JError ''invalid uuid''), a) | Some i \<Rightarrow> k i)"

definition prometheus_metrics :: "admin_state \<Rightarrow> string option \<Rightarrow> reply \<times> admin_state" where
  "prometheus_metrics a auth_header = operator_only a auth_header
     (case as_metrics a of
        None \<Rightarrow> ((503, Text ''metrics not enabled''), a)
      | Some m \<Rightarrow> ((200, Text m), a))"

definition default_tier :: string where
  "default_tier = ''free''"

definition admin_create_tenant ::
  "sqlite \<Rightarrow> fresh \<Rightarrow> admin_state \<Rightarrow> string option \<Rightarrow> string \<Rightarrow> string option \<Rightarrow> reply \<times> admin_state" where
  "admin_create_tenant Q f a auth_header name tier = operator_only a auth_header
     (case create_tenant Q (as_db a) (fr_uuid f) (fr_now f) name
             (case tier of None \<Rightarrow> default_tier | Some t \<Rightarrow> t) of
        (Ok t, db) \<Rightarrow> ((201, JTenant t), a\<lparr>as_db := db\<rparr>)
      | (Err e, db) \<Rightarrow> ((500, JError e), a\<lparr>as_db := db\<rparr>))"

definition admin_list_tenants :: "sqlite \<Rightarrow> admin_state \<Rightarrow> string option \<Rightarrow> reply \<times> admin_state" where
  "admin_list_tenants Q a auth_header = operator_only a auth_header
     (case list_tenants Q (as_db a) of
        Ok ts \<Rightarrow> ((200, JTenants ts), a)
      | Err e \<Rightarrow> ((500, JError e), a))"

definition admin_get_tenant ::
  "sqlite \<Rightarrow> (string \<Rightarrow> uuid option) \<Rightarrow> admin_state \<Rightarrow> string option \<Rightarrow> string \<Rightarrow> reply \<times> admin_state" where
  "admin_get_tenant Q parse_uuid a auth_header path_id = operator_only a auth_header
     (with_uuid parse_uuid a path_id (\<lambda>i.
        case get_tenant Q (as_db a) i of
          Ok (Some t) \<Rightarrow> ((200, JTenant t), a)
        | Ok None \<Rightarrow> ((404, NoBody), a)
        | Err e \<Rightarrow> ((500, JError e), a)))"

text \<open>\<open>Ok(true)\<close> is NO CONTENT, \<open>Ok(false)\<close> NOT FOUND.\<close>

definition deleted :: "admin_state \<Rightarrow> (string + bool) \<times> tenant_db \<Rightarrow> reply \<times> admin_state" where
  "deleted a r =
     (case r of
        (Ok found, db) \<Rightarrow> ((if found then 204 else 404, NoBody), a\<lparr>as_db := db\<rparr>)
      | (Err e, db) \<Rightarrow> ((500, JError e), a\<lparr>as_db := db\<rparr>))"

definition admin_delete_tenant ::
  "sqlite \<Rightarrow> (string \<Rightarrow> uuid option) \<Rightarrow> admin_state \<Rightarrow> string option \<Rightarrow> string \<Rightarrow> reply \<times> admin_state" where
  "admin_delete_tenant Q parse_uuid a auth_header path_id = operator_only a auth_header
     (with_uuid parse_uuid a path_id (\<lambda>i. deleted a (delete_tenant Q (as_db a) i)))"

definition admin_register_identity ::
  "prims \<Rightarrow> sqlite \<Rightarrow> (string \<Rightarrow> uuid option) \<Rightarrow> fresh \<Rightarrow> admin_state \<Rightarrow> string option \<Rightarrow> string \<Rightarrow>
   string \<Rightarrow> string \<Rightarrow> reply \<times> admin_state" where
  "admin_register_identity P Q parse_uuid f a auth_header path_id req_did req_bytes =
     operator_only a auth_header
     (with_uuid parse_uuid a path_id (\<lambda>i.
        case hex_decode P req_bytes of
          None \<Rightarrow> ((400, JError ''invalid hex for identity_bytes''), a)
        | Some id_bytes \<Rightarrow>
            (case register_identity Q (as_db a) i id_bytes req_did (fr_now f) of
               (Ok _, db) \<Rightarrow> ((201, NoBody), a\<lparr>as_db := db\<rparr>)
             | (Err e, db) \<Rightarrow> ((500, JError e), a\<lparr>as_db := db\<rparr>))))"

definition admin_remove_identity ::
  "sqlite \<Rightarrow> (string \<Rightarrow> uuid option) \<Rightarrow> admin_state \<Rightarrow> string option \<Rightarrow> string \<Rightarrow> string \<Rightarrow>
   reply \<times> admin_state" where
  "admin_remove_identity Q parse_uuid a auth_header path_id d = operator_only a auth_header
     (with_uuid parse_uuid a path_id (\<lambda>i. deleted a (remove_identity Q (as_db a) i d)))"

definition get_tenant_usage ::
  "sqlite \<Rightarrow> (string \<Rightarrow> uuid option) \<Rightarrow> admin_state \<Rightarrow> string option \<Rightarrow> string \<Rightarrow> reply \<times> admin_state" where
  "get_tenant_usage Q parse_uuid a auth_header path_id = operator_only a auth_header
     (with_uuid parse_uuid a path_id (\<lambda>i.
        case get_usage Q (as_db a) i of
          Ok u \<Rightarrow> ((200, JUsage u), a)
        | Err e \<Rightarrow> ((500, JError e), a)))"

definition update_tenant_quota ::
  "sqlite \<Rightarrow> (string \<Rightarrow> uuid option) \<Rightarrow> admin_state \<Rightarrow> string option \<Rightarrow> string \<Rightarrow>
   u64 option \<Rightarrow> u64 option \<Rightarrow> int option \<Rightarrow> reply \<times> admin_state" where
  "update_tenant_quota Q parse_uuid a auth_header path_id max_desc max_storage limit =
     operator_only a auth_header
     (with_uuid parse_uuid a path_id (\<lambda>i.
        case get_tenant Q (as_db a) i of
          Ok None \<Rightarrow> ((404, NoBody), a)
        | Err e \<Rightarrow> ((500, JError e), a)
        | Ok (Some _) \<Rightarrow>
            (case update_quotas Q (as_db a) i max_desc max_storage limit of
               (Ok _, db) \<Rightarrow>
                 ((case get_tenant Q db i of Ok (Some t) \<Rightarrow> (200, JTenant t) | _ \<Rightarrow> (200, NoBody)),
                  a\<lparr>as_db := db\<rparr>)
             | (Err e, db) \<Rightarrow> ((500, JError e), a\<lparr>as_db := db\<rparr>))))"

subsection \<open>The router\<close>

datatype admin_request =
    Healthz
  | Readyz bool
  | Hub_status nat nat nat
  | Create_challenge string string
  | Verify_identity string verify_request
  | Metrics "string option"
  | List_tenants "string option"
  | Create_tenant "string option" string "string option"
  | Get_tenant "string option" string
  | Delete_tenant_req "string option" string
  | Register_identity "string option" string string string
  | Remove_identity "string option" string string
  | Get_usage "string option" string
  | Update_quota "string option" string "u64 option" "u64 option" "int option"

fun admin_handle ::
  "prims \<Rightarrow> sqlite \<Rightarrow> (string \<Rightarrow> uuid option) \<Rightarrow> fresh \<Rightarrow> admin_state \<Rightarrow> admin_request \<Rightarrow>
   reply \<times> admin_state" where
  "admin_handle P Q pu f a Healthz = (healthz, a)"
| "admin_handle P Q pu f a (Readyz poisoned) = (readyz poisoned, a)"
| "admin_handle P Q pu f a (Hub_status up ds ks) = (hub_status Q a up ds ks, a)"
| "admin_handle P Q pu f a (Create_challenge i action) = create_identity_challenge Q pu f a i action"
| "admin_handle P Q pu f a (Verify_identity i req) = verify_identity P Q pu f a i req"
| "admin_handle P Q pu f a (Metrics h) = prometheus_metrics a h"
| "admin_handle P Q pu f a (List_tenants h) = admin_list_tenants Q a h"
| "admin_handle P Q pu f a (Create_tenant h name tier) = admin_create_tenant Q f a h name tier"
| "admin_handle P Q pu f a (Get_tenant h i) = admin_get_tenant Q pu a h i"
| "admin_handle P Q pu f a (Delete_tenant_req h i) = admin_delete_tenant Q pu a h i"
| "admin_handle P Q pu f a (Register_identity h i d b) = admin_register_identity P Q pu f a h i d b"
| "admin_handle P Q pu f a (Remove_identity h i d) = admin_remove_identity Q pu a h i d"
| "admin_handle P Q pu f a (Get_usage h i) = get_tenant_usage Q pu a h i"
| "admin_handle P Q pu f a (Update_quota h i x y z) = update_tenant_quota Q pu a h i x y z"

subsection \<open>Who may change what\<close>

text \<open>The authorization header of an operator route; public routes have none.\<close>

fun auth_of :: "admin_request \<Rightarrow> string option option" where
  "auth_of (Metrics h) = Some h"
| "auth_of (List_tenants h) = Some h"
| "auth_of (Create_tenant h _ _) = Some h"
| "auth_of (Get_tenant h _) = Some h"
| "auth_of (Delete_tenant_req h _) = Some h"
| "auth_of (Register_identity h _ _ _) = Some h"
| "auth_of (Remove_identity h _ _) = Some h"
| "auth_of (Get_usage h _) = Some h"
| "auth_of (Update_quota h _ _ _ _) = Some h"
| "auth_of _ = None"

lemma check_operator_token_iff:
  "check_operator_token a h = Ok () \<longleftrightarrow>
     as_operator_token a = None \<or>
     (\<exists>t. as_operator_token a = Some t \<and> h = Some (''Bearer '' @ t))"
proof (cases "as_operator_token a")
  case None
  then show ?thesis by (simp add: check_operator_token_def)
next
  case (Some t)
  have "check_operator_token a h = Ok () \<longleftrightarrow>
      strip_prefix ''Bearer '' (case h of None \<Rightarrow> '''' | Some h \<Rightarrow> h) = Some t"
    by (auto simp: check_operator_token_def Some split: option.splits)
  then show ?thesis unfolding strip_prefix_Some by (cases h) (simp_all add: Some)
qed

lemma check_operator_token_Err: "check_operator_token a h = Err s \<Longrightarrow> s = 401"
  by (auto simp: check_operator_token_def split: option.splits if_splits)

lemma unauthorized:
  assumes "check_operator_token a h \<noteq> Ok ()"
  shows "operator_only a h r = ((401, NoBody), a)"
  using assms check_operator_token_Err [of a h]
  by (cases "check_operator_token a h") (auto simp: operator_only_def)

lemma operator_state:
  "snd (operator_only a h r) = (if check_operator_token a h = Ok () then snd r else a)"
  using unauthorized [of a h r] by (auto simp: operator_only_def split: sum.split)

text \<open>C25. A configured operator token guards every operator route: a request to one of them without
  exactly \<open>Bearer <token>\<close> in its header gets 401 and changes nothing. Requests to public routes
  leave the table of tenants alone (they can create challenges and register identities, see
  \<open>anyone_can_become_tenant\<close> below), and no request changes the token.\<close>

theorem operator_token_guards:
  assumes "as_operator_token a = Some token"
  shows "(\<forall>h. auth_of req = Some h \<and> h \<noteq> Some (''Bearer '' @ token) \<longrightarrow>
       admin_handle P Q pu f a req = ((401, NoBody), a)) \<and>
     (auth_of req = None \<longrightarrow>
       tbl_tenants (as_db (snd (admin_handle P Q pu f a req))) = tbl_tenants (as_db a)) \<and>
     as_operator_token (snd (admin_handle P Q pu f a req)) = Some token"
proof (intro conjI allI impI)
  fix h
  assume h: "auth_of req = Some h \<and> h \<noteq> Some (''Bearer '' @ token)"
  then have "check_operator_token a h \<noteq> Ok ()" using assms by (simp add: check_operator_token_iff)
  then show "admin_handle P Q pu f a req = ((401, NoBody), a)"
    using h by (cases req)
      (simp_all add: unauthorized prometheus_metrics_def admin_create_tenant_def admin_list_tenants_def
        admin_get_tenant_def admin_delete_tenant_def admin_register_identity_def admin_remove_identity_def
        get_tenant_usage_def update_tenant_quota_def)
next
  assume "auth_of req = None"
  then show "tbl_tenants (as_db (snd (admin_handle P Q pu f a req))) = tbl_tenants (as_db a)"
    by (cases req)
      (auto simp: create_identity_challenge_def verify_identity_def create_challenge_def Let_def exec_def
        consume_challenge_def register_identity_def split: option.splits sum.splits)
next
  show "as_operator_token (snd (admin_handle P Q pu f a req)) = Some token"
    using assms
    by (cases req)
      (auto simp: create_identity_challenge_def verify_identity_def Let_def operator_state with_uuid_def deleted_def
        prometheus_metrics_def admin_create_tenant_def admin_list_tenants_def
        admin_get_tenant_def admin_delete_tenant_def admin_register_identity_def admin_remove_identity_def
        get_tenant_usage_def update_tenant_quota_def split: option.splits sum.splits prod.splits)
qed

subsection \<open>Challenges\<close>

lemma verify_identity_cases:
  obtains (registered) t cid ib sig c db1 db2 where "pu path_id = Some t"
      and "pu (vr_challenge_id req) = Some cid" and "hex_decode P (vr_identity_bytes req) = Some ib"
      and "hex_decode P (vr_signature req) = Some sig" and "2 \<le> length ib"
      and "did P \<lparr>id_algorithm = hd ib, public_key = tl ib\<rparr> = vr_did req"
      and "get_challenge Q (as_db a) cid = Ok (Some c)" and "\<not> is_expired c (fr_now f)"
      and "challenge_verify P c \<lparr>id_algorithm = hd ib, public_key = tl ib\<rparr> sig = Ok ()"
      and "consume_challenge Q (as_db a) cid = (Ok (), db1)"
      and "register_identity Q db1 t ib (vr_did req) (fr_now f) = (Ok (), db2)"
      and "verify_identity P Q pu f a path_id req = ((200, JRegistered (vr_did req)), a\<lparr>as_db := db2\<rparr>)"
  | (rejected) st b where "verify_identity P Q pu f a path_id req = ((st, b), a)" and "st \<in> {400, 403, 404, 409, 410, 500}"
  | (consumed_only) cid db1 e where "consume_challenge Q (as_db a) cid = (Ok (), db1)"
      and "verify_identity P Q pu f a path_id req = ((500, JError e), a\<lparr>as_db := db1\<rparr>)"
proof (cases "pu path_id"; cases "pu (vr_challenge_id req)"; cases "hex_decode P (vr_identity_bytes req)";
    cases "hex_decode P (vr_signature req)")
  fix t cid ib sig
  assume p: "pu path_id = Some t" "pu (vr_challenge_id req) = Some cid"
    "hex_decode P (vr_identity_bytes req) = Some ib" "hex_decode P (vr_signature req) = Some sig"
  let ?i = "\<lparr>id_algorithm = hd ib, public_key = tl ib\<rparr>"
  show thesis
  proof (cases "2 \<le> length ib \<and> did P ?i = vr_did req \<and> (\<exists>c. get_challenge Q (as_db a) cid = Ok (Some c) \<and>
      \<not> is_expired c (fr_now f) \<and> challenge_verify P c ?i sig = Ok ())")
    case False
    have "\<exists>st b. verify_identity P Q pu f a path_id req = ((st, b), a) \<and> st \<in> {400, 403, 404, 409, 410, 500}"
    proof (cases "get_challenge Q (as_db a) cid")
      case (Inl e)
      then show ?thesis by (simp add: verify_identity_def p Let_def)
    next
      case (Inr ch)
      then show ?thesis using False
        by (cases ch; cases "challenge_verify P (the ch) ?i sig")
          (auto simp: verify_identity_def p Let_def not_le)
    qed
    then show thesis using rejected by blast
  next
    case True
    then obtain c where c: "get_challenge Q (as_db a) cid = Ok (Some c)" "\<not> is_expired c (fr_now f)"
      "challenge_verify P c ?i sig = Ok ()" and i: "2 \<le> length ib" "did P ?i = vr_did req" by blast
    obtain r1 db1 where 1: "consume_challenge Q (as_db a) cid = (r1, db1)" by (rule prod.exhaust)
    obtain r2 db2 where 2: "register_identity Q db1 t ib (vr_did req) (fr_now f) = (r2, db2)" by (rule prod.exhaust)
    have same: "db1 = as_db a" if "r1 = Err e" for e
      using 1 that by (auto simp: consume_challenge_def split: sum.splits option.splits if_splits)
    have same2: "db2 = db1" if "r2 = Err e" for e
      using 2 that by (auto simp: register_identity_def exec_def split: option.splits if_splits)
    have v: "verify_identity P Q pu f a path_id req =
        (case r1 of Err e \<Rightarrow> ((409, JError e), a\<lparr>as_db := db1\<rparr>)
         | Ok _ \<Rightarrow> (case r2 of Err e \<Rightarrow> ((500, JError e), a\<lparr>as_db := db2\<rparr>)
                   | Ok _ \<Rightarrow> ((200, JRegistered (vr_did req)), a\<lparr>as_db := db2\<rparr>)))"
      using p c i by (simp add: verify_identity_def Let_def 1 2 split: sum.split)
    show thesis
    proof (cases r1)
      case (Inl e)
      then show ?thesis using rejected [of 409] v same by simp
    next
      case (Inr u)
      show ?thesis
      proof (cases r2)
        case (Inl e)
        then show ?thesis using consumed_only [of cid db1 e] v same2 1 Inr by simp
      next
        case (Inr u')
        then show ?thesis using registered [OF p i c] 1 2 v \<open>r1 = Inr u\<close> by simp
      qed
    qed
  qed
qed (auto simp: verify_identity_def intro: rejected)

text \<open>Every request moves the database by steps of the manager.\<close>

lemma manager_one: "manager_step Q db db' \<Longrightarrow> manager_reachable Q db db'"
  by (blast intro: manager_start manager_next)

lemma manager_two: "manager_step Q db db1 \<Longrightarrow> manager_step Q db1 db2 \<Longrightarrow> manager_reachable Q db db2"
  by (blast intro: manager_start manager_next)

lemma admin_handle_reachable: "manager_reachable Q (as_db a) (as_db (snd (admin_handle P Q pu f a req)))"
proof (cases req)
  case (Create_challenge i action)
  show ?thesis
    using manager_one [OF manager_step.intros(7)] manager_start
    by (auto simp: Create_challenge create_identity_challenge_def Let_def case_prod_unfold
        split: option.splits sum.splits)
next
  case (Verify_identity i vr)
  show ?thesis
  proof (cases rule: verify_identity_cases [where P = P and Q = Q and pu = pu and f = f and a = a and path_id = i and req = vr])
    case (registered t cid ib sig c db1 db2)
    show ?thesis
      using manager_two [OF manager_step.intros(8) manager_step.intros(3), of Q "as_db a" cid t ib "vr_did vr" "fr_now f"]
        registered(10-12) by (simp add: Verify_identity)
  next
    case (rejected st b)
    then show ?thesis by (simp add: Verify_identity manager_start)
  next
    case (consumed_only cid db1 e)
    show ?thesis using manager_one [OF manager_step.intros(8), of Q "as_db a" cid] consumed_only
      by (simp add: Verify_identity)
  qed
next
  case (Create_tenant h name tier)
  show ?thesis using manager_one [OF manager_step.intros(1)] manager_start
    by (auto simp: Create_tenant admin_create_tenant_def operator_state case_prod_unfold split: sum.splits option.splits)
next
  case (Delete_tenant_req h i)
  show ?thesis using manager_one [OF manager_step.intros(2)] manager_start
    by (auto simp: Delete_tenant_req admin_delete_tenant_def operator_state with_uuid_def deleted_def case_prod_unfold
        split: sum.splits option.splits)
next
  case (Register_identity h i d b)
  show ?thesis using manager_one [OF manager_step.intros(3)] manager_start
    by (auto simp: Register_identity admin_register_identity_def operator_state with_uuid_def case_prod_unfold
        split: sum.splits option.splits)
next
  case (Remove_identity h i d)
  show ?thesis using manager_one [OF manager_step.intros(4)] manager_start
    by (auto simp: Remove_identity admin_remove_identity_def operator_state with_uuid_def deleted_def case_prod_unfold
        split: sum.splits option.splits)
next
  case (Update_quota h i x y z)
  show ?thesis using manager_one [OF manager_step.intros(6)] manager_start
    by (auto simp: Update_quota update_tenant_quota_def operator_state with_uuid_def case_prod_unfold
        split: sum.splits option.splits)
qed (simp_all add: manager_start operator_state prometheus_metrics_def admin_list_tenants_def admin_get_tenant_def
    get_tenant_usage_def with_uuid_def split: option.split sum.split)

text \<open>A challenge that was consumed stays consumed.\<close>

definition spent :: "uuid \<Rightarrow> tenant_db \<Rightarrow> bool" where
  "spent cid db \<longleftrightarrow> (\<exists>r \<in> set (tbl_challenges db). ch_id (cr_challenge r) = cid) \<and>
     (\<forall>r \<in> set (tbl_challenges db). ch_id (cr_challenge r) = cid \<longrightarrow> cr_consumed r)"

lemma spent_same: "tbl_challenges db' = tbl_challenges db \<Longrightarrow> spent cid db' = spent cid db"
  by (simp add: spent_def)

lemma spent_map:
  assumes "\<And>r. ch_id (cr_challenge (g r)) = ch_id (cr_challenge r)" and "\<And>r. cr_consumed r \<Longrightarrow> cr_consumed (g r)"
    and "spent cid db"
  shows "spent cid (db\<lparr>tbl_challenges := map g (tbl_challenges db)\<rparr>)"
  using assms by (auto simp: spent_def)

lemma update_column_challenges: "tbl_challenges (snd (update_column Q st i v g db)) = tbl_challenges db"
  by (auto simp: update_column_def exec_def split: option.split)

lemma update_quotas_challenges: "tbl_challenges (snd (update_quotas Q db i x y z)) = tbl_challenges db"
  by (simp add: update_quotas_def case_prod_unfold update_column_challenges split: sum.split)

lemma manager_step_spent:
  assumes "manager_step Q db db'" and "spent cid db"
  shows "spent cid db'"
  using assms(1)
proof (rule manager_stepE)
  fix i hub_did action c nonce now
  assume "db' = snd (create_challenge Q db i hub_did action c nonce now)"
  then show ?thesis using assms(2)
    by (auto simp: create_challenge_def challenge_new_def exec_def Let_def spent_def list_ex_iff split: option.splits)
next
  fix c
  assume "db' = snd (consume_challenge Q db c)"
  then show ?thesis using assms(2)
    by (auto simp: consume_challenge_def intro: spent_map split: option.splits sum.splits)
next
  fix i x y z
  assume "db' = snd (update_quotas Q db i x y z)"
  then show ?thesis using assms(2) spent_same [OF update_quotas_challenges] by simp
next
  fix cost i
  assume "db' = snd (deduct_mu Q db i cost)"
  then show ?thesis using assms(2)
    by (cases rule: deduct_mu_cases [of Q db i cost]) (simp_all add: spent_def)
qed (use assms(2) in \<open>auto simp: spent_def create_tenant_def delete_tenant_def register_identity_def
    remove_identity_def exec_def Let_def split: option.splits\<close>)

lemma manager_reachable_spent: "manager_reachable Q db db' \<Longrightarrow> spent cid db \<Longrightarrow> spent cid db'"
  by (induction rule: manager_reachable.induct) (simp_all add: manager_step_spent)

lemma consume_spent:
  assumes "consume_challenge Q db cid = (Ok (), db')"
  shows "spent cid db'"
proof -
  obtain r where r: "find (\<lambda>r. ch_id (cr_challenge r) = cid) (tbl_challenges db) = Some r"
    and db': "db' = db\<lparr>tbl_challenges := map (\<lambda>r. if ch_id (cr_challenge r) = cid
        then r\<lparr>cr_consumed := True\<rparr> else r) (tbl_challenges db)\<rparr>"
    using assms by (auto simp: consume_challenge_def split: option.splits sum.splits if_splits)
  have "r \<in> set (tbl_challenges db)" "ch_id (cr_challenge r) = cid"
    using r by (auto simp: find_Some_iff)
  then have "r\<lparr>cr_consumed := True\<rparr> \<in> set (tbl_challenges db')"
    unfolding db' by (auto intro!: image_eqI [where x = r])
  then show ?thesis using \<open>ch_id (cr_challenge r) = cid\<close>
    by (auto simp: spent_def db' intro!: bexI [where x = "r\<lparr>cr_consumed := True\<rparr>"])
qed

lemma spent_get:
  assumes "spent cid db"
  shows "get_challenge Q db cid \<noteq> Ok (Some c)"
proof -
  obtain r where "find (\<lambda>r. ch_id (cr_challenge r) = cid) (tbl_challenges db) = Some r"
    using assms unfolding spent_def
    by (metis (mono_tags, lifting) find_None_iff not_Some_eq)
  moreover from this have "cr_consumed r" using assms by (auto simp: spent_def find_Some_iff)
  ultimately show ?thesis by (simp add: get_challenge_def split: option.split)
qed

text \<open>A history of requests.\<close>

definition admin_run ::
  "prims \<Rightarrow> sqlite \<Rightarrow> (string \<Rightarrow> uuid option) \<Rightarrow> (fresh \<times> admin_request) list \<Rightarrow> admin_state \<Rightarrow> admin_state" where
  "admin_run P Q pu rs a = fold (\<lambda>(f, req) a. snd (admin_handle P Q pu f a req)) rs a"

lemma manager_reachable_trans:
  "manager_reachable Q a b \<Longrightarrow> manager_reachable Q b c \<Longrightarrow> manager_reachable Q a c"
  by (rotate_tac 1, induction rule: manager_reachable.induct) (auto intro: manager_next)

lemma admin_run_reachable: "manager_reachable Q (as_db a) (as_db (admin_run P Q pu rs a))"
proof (induction rs arbitrary: a)
  case Nil
  show ?case by (simp add: admin_run_def manager_start)
next
  case (Cons r rs)
  obtain f req where r: "r = (f, req)" by (cases r)
  have "admin_run P Q pu (r # rs) a = admin_run P Q pu rs (snd (admin_handle P Q pu f a req))"
    by (simp add: admin_run_def r)
  then show ?case using manager_reachable_trans [OF admin_handle_reachable Cons.IH] by simp
qed

text \<open>C24. Registration over the public route needs a fresh proof of the key, once: a 200 answer means
  that the request names a known challenge that was neither consumed nor expired, carries the
  DID of the identity and a signature by it over the challenge; the identity's row is in the
  database afterwards, and no later request with the same challenge is answered 200, whatever
  requests come in between. Without a 200 answer no identity appears.\<close>

theorem verified_registration_single_use:
  assumes "verify_identity P Q pu f a path_id req = ((st, b), a')"
  shows "(st = 200 \<longrightarrow>
       (\<exists>cid i c sig. pu (vr_challenge_id req) = Some cid \<and>
          get_challenge Q (as_db a) cid = Ok (Some c) \<and> fr_now f < ch_expiry c \<and>
          hex_decode P (vr_identity_bytes req) = Some (identity_bytes i) \<and> did P i = vr_did req \<and>
          hex_decode P (vr_signature req) = Some sig \<and>
          identity_verify P i (to_signable_bytes P c) sig = Ok () \<and>
          (\<exists>t r. pu path_id = Some t \<and> r \<in> set (tbl_identities (as_db a')) \<and> ir_tenant r = t \<and>
             ir_identity r = identity_bytes i \<and> ir_did r = did P i) \<and>
          (\<forall>rs f' path' req' b' a''. pu (vr_challenge_id req') = Some cid \<longrightarrow>
             verify_identity P Q pu f' (admin_run P Q pu rs a') path' req' \<noteq> ((200, b'), a'')))) \<and>
     (st \<noteq> 200 \<longrightarrow> tbl_identities (as_db a') = tbl_identities (as_db a))"
proof (cases rule: verify_identity_cases [where P = P and Q = Q and pu = pu and f = f and a = a and
      path_id = path_id and req = req])
  case (registered t cid ib sig c db1 db2)
  let ?i = "\<lparr>id_algorithm = hd ib, public_key = tl ib\<rparr>"
  have ib: "identity_bytes ?i = ib" using registered(5) by (cases ib) (simp_all add: identity_bytes_def)
  have a': "a' = a\<lparr>as_db := db2\<rparr>" "st = 200" using registered(12) assms by simp_all
  have row: "\<exists>r. r \<in> set (tbl_identities db2) \<and> ir_tenant r = t \<and> ir_identity r = ib \<and> ir_did r = did P ?i"
    using registered(6,11) by (auto simp: register_identity_def exec_def split: option.splits if_splits)
  have sig: "identity_verify P ?i (to_signable_bytes P c) sig = Ok ()"
    using registered(9) by (simp add: challenge_verify_def split: sum.splits)
  have "spent cid db2"
    using manager_step_spent [OF manager_step.intros(3) consume_spent [OF registered(10)], of Q t ib "vr_did req" "fr_now f"]
      registered(11) by simp
  then have later: "spent cid (as_db (admin_run P Q pu rs a'))" for rs
    using manager_reachable_spent [OF admin_run_reachable] by (simp add: a')
  have "verify_identity P Q pu f' (admin_run P Q pu rs a') path' req' \<noteq> ((200, b'), a'')"
    if "pu (vr_challenge_id req') = Some cid" for rs f' path' req' b' a''
  proof (cases rule: verify_identity_cases [where P = P and Q = Q and pu = pu and f = f' and
        a = "admin_run P Q pu rs a'" and path_id = path' and req = req'])
    case (registered t' cid' ib' sig' c' db1' db2')
    then show ?thesis using spent_get [OF later] that by simp
  qed auto
  then show ?thesis
    using registered ib row sig a' by (simp add: is_expired_def not_le) (rule exI [of _ ?i], simp)
next
  case (rejected st' b')
  then show ?thesis using assms by auto
next
  case (consumed_only cid db1 e)
  then show ?thesis using assms
    by (auto simp: consume_challenge_def split: option.splits sum.splits if_splits)
qed

definition hex_ok :: "prims \<Rightarrow> bool" where
  "hex_ok P \<longleftrightarrow> (\<forall>b. hex_decode P (hex_encode P b) = Some b)"

definition own_request :: "prims \<Rightarrow> keypair \<Rightarrow> string \<Rightarrow> did_auth_challenge \<Rightarrow> verify_request" where
  "own_request P kp cs c =
     \<lparr>vr_challenge_id = cs, vr_identity_bytes = hex_encode P (identity_bytes (keypair_identity P kp)),
      vr_did = did P (keypair_identity P kp), vr_signature = hex_encode P (keypair_sign P kp (to_signable_bytes P c))\<rparr>"

lemma find_append_new: "find p (xs @ [x]) = (case find p xs of None \<Rightarrow> if p x then Some x else None | Some y \<Rightarrow> Some y)"
  by (induction xs) auto

lemma self_registration:
  assumes "hex_ok P" and "ed25519_ok P" and "\<And>st db. sql_error Q st db = None"
    and "t \<in> set (tbl_tenants (as_db a))" and "u \<in> set (tbl_tenants (as_db a))"
    and "pu path_t = Some (t_id t)" and "pu path_u = Some (t_id u)" and "pu cs = Some (fr_uuid f1)"
    and "\<And>r. r \<in> set (tbl_challenges (as_db a)) \<Longrightarrow> ch_id (cr_challenge r) \<noteq> fr_uuid f1"
    and "fr_now f2 < fr_now f1 + CHALLENGE_TTL_MICROS" and "real_balances (as_db a) = []"
  shows "\<exists>c a1 a2. admin_handle P Q pu f1 a (Create_challenge path_u action) = ((201, JChallenge c), a1) \<and>
     admin_handle P Q pu f2 a1 (Verify_identity path_t (own_request P kp cs c)) =
       ((200, JRegistered (did P (keypair_identity P kp))), a2) \<and>
     (\<exists>r \<in> set (tbl_identities (as_db a2)). ir_tenant r = t_id t \<and>
        ir_identity r = identity_bytes (keypair_identity P kp) \<and> ir_did r = did P (keypair_identity P kp)) \<and>
     (\<exists>i. find_tenant_by_identity Q (as_db a2) (identity_bytes (keypair_identity P kp)) = Ok (Some i))"
proof -
  let ?i = "keypair_identity P kp"
  have len: "2 \<le> length (identity_bytes ?i)"
    using assms(2) by (simp add: identity_bytes_def keypair_identity_def ed25519_ok_def)
  have id: "\<lparr>id_algorithm = hd (identity_bytes ?i), public_key = tl (identity_bytes ?i)\<rparr> = ?i"
    by (simp add: identity_bytes_def)
  have t: "list_ex (\<lambda>r. t_id r = t_id t) (tbl_tenants (as_db a))" using assms(4) by (auto simp: list_ex_iff)
  obtain u' where u: "find (\<lambda>r. t_id r = t_id u) (tbl_tenants (as_db a)) = Some u'"
    using assms(5) by (cases "find (\<lambda>r. t_id r = t_id u) (tbl_tenants (as_db a))") (auto simp: find_None_iff)
  define c where "c = challenge_new (fr_uuid f1) (fr_nonce f1) (fr_now f1)
      (case as_hub_did a of None \<Rightarrow> '''' | Some d \<Rightarrow> d) action"
  define row where "row = \<lparr>cr_challenge = c, cr_tenant = t_id u, cr_consumed = False\<rparr>"
  define db1 where "db1 = as_db a\<lparr>tbl_challenges := tbl_challenges (as_db a) @ [row]\<rparr>"
  have new: "\<not> list_ex (\<lambda>r. ch_id (cr_challenge r) = fr_uuid f1) (tbl_challenges (as_db a))"
    using assms(9) by (auto simp: list_ex_iff)
  have 1: "admin_handle P Q pu f1 a (Create_challenge path_u action) = ((201, JChallenge c), a\<lparr>as_db := db1\<rparr>)"
    using assms(3,7,11) u new by (simp add: create_identity_challenge_def get_tenant_def row_to_tenant_def
        create_challenge_def exec_def Let_def c_def [symmetric] row_def [symmetric] db1_def)
  have c: "ch_id c = fr_uuid f1" "\<not> is_expired c (fr_now f2)"
    using assms(10) by (simp_all add: c_def challenge_new_def is_expired_def)
  have "find (\<lambda>r. ch_id (cr_challenge r) = fr_uuid f1) (tbl_challenges (as_db a)) = None"
    using assms(9) by (auto simp: find_None_iff)
  then have found: "find (\<lambda>r. ch_id (cr_challenge r) = fr_uuid f1) (tbl_challenges db1) = Some row"
    by (simp add: db1_def find_append_new row_def c)
  have get: "get_challenge Q db1 (fr_uuid f1) = Ok (Some c)"
    using assms(3) found by (simp add: get_challenge_def row_def)
  obtain db2 where consume: "consume_challenge Q db1 (fr_uuid f1) = (Ok (), db2)" and "tbl_tenants db2 = tbl_tenants (as_db a)"
    using assms(3) found by (simp add: consume_challenge_def row_def db1_def)
  then obtain db3 where reg: "register_identity Q db2 (t_id t) (identity_bytes ?i) (did P ?i) (fr_now f2) = (Ok (), db3)"
    and mem: "\<exists>r \<in> set (tbl_identities db3). ir_tenant r = t_id t \<and> ir_identity r = identity_bytes ?i \<and> ir_did r = did P ?i"
    using assms(3) t by (simp add: register_identity_def exec_def)
  have ver: "challenge_verify P c ?i (keypair_sign P kp (to_signable_bytes P c)) = Ok ()"
    using keypair_sign_verifies [OF assms(2)] by (simp add: challenge_verify_def)
  have 2: "admin_handle P Q pu f2 (a\<lparr>as_db := db1\<rparr>) (Verify_identity path_t (own_request P kp cs c)) =
       ((200, JRegistered (did P ?i)), a\<lparr>as_db := db3\<rparr>)"
    using assms(1,6,8) len id get c ver consume reg
    by (simp add: verify_identity_def own_request_def hex_ok_def Let_def)
  have "\<exists>j. find_tenant_by_identity Q db3 (identity_bytes ?i) = Ok (Some j)"
    using assms(3) mem by (cases "find (\<lambda>r. ir_identity r = identity_bytes ?i) (tbl_identities db3)")
      (auto simp: find_tenant_by_identity_def find_None_iff)
  then show ?thesis using 1 2 mem by auto
qed

text \<open>C37. The public routes are open to everybody: with an engine that does not fail and two existing
  tenants, any key pair gets registered as an identity of the first one in two requests that need no
  operator token - a challenge for the second tenant (the challenge is not bound to the path it is
  used with, its action is not looked at), and a signature over it. A store mode that admits
  tenants only is then open to that identity: the lookup of the hook finds a tenant for it.\<close>

theorem anyone_can_become_tenant:
  assumes "hex_ok P" and "ed25519_ok P" and "\<And>st db. sql_error Q st db = None"
    and "t \<in> set (tbl_tenants (as_db a))" and "u \<in> set (tbl_tenants (as_db a))"
    and "pu path_t = Some (t_id t)" and "pu path_u = Some (t_id u)" and "pu cs = Some (fr_uuid f1)"
    and "\<And>r. r \<in> set (tbl_challenges (as_db a)) \<Longrightarrow> ch_id (cr_challenge r) \<noteq> fr_uuid f1"
    and "fr_now f2 < fr_now f1 + CHALLENGE_TTL_MICROS" and "real_balances (as_db a) = []"
  shows "\<exists>c a1 a2. admin_handle P Q pu f1 a (Create_challenge path_u action) = ((201, JChallenge c), a1) \<and>
     admin_handle P Q pu f2 a1 (Verify_identity path_t (own_request P kp cs c)) =
       ((200, JRegistered (did P (keypair_identity P kp))), a2) \<and>
     (\<exists>r \<in> set (tbl_identities (as_db a2)). ir_tenant r = t_id t \<and>
        ir_identity r = identity_bytes (keypair_identity P kp) \<and> ir_did r = did P (keypair_identity P kp)) \<and>
     (\<exists>i. find_tenant_by_identity Q (as_db a2) (identity_bytes (keypair_identity P kp)) = Ok (Some i))"
  using assms by (rule self_registration)

subsection \<open>Witnesses\<close>

definition raw_hex_prims :: prims where
  "raw_hex_prims = pad_prims\<lparr>hex_encode := map (\<lambda>b. char_of (unat b)), hex_decode := \<lambda>s. Some (map (\<lambda>c. of_nat (of_char c)) s)\<rparr>"

lemma raw_hex_prims_ok [simp]: "hex_ok raw_hex_prims" "ed25519_ok raw_hex_prims"
proof -
  have "of_nat (unat b mod 256) = b" for b :: u8
    by (cases b) (simp add: unat_of_nat take_bit_eq_mod)
  then show "hex_ok raw_hex_prims" by (simp add: hex_ok_def raw_hex_prims_def comp_def)
  show "ed25519_ok raw_hex_prims" using pad_prims_ok(2) by (simp add: raw_hex_prims_def ed25519_ok_def)
qed

definition demo_admin :: admin_state where
  "demo_admin = \<lparr>as_db = demo_tenant_db, as_hub_did = Some ''did:hub'', as_operator_token = Some ''secret'', as_metrics = None\<rparr>"

definition demo_fresh :: fresh where
  "demo_fresh = \<lparr>fr_now = 5, fr_uuid = 77, fr_nonce = [1, 2]\<rparr>"

definition demo_uuid :: "string \<Rightarrow> uuid option" where
  "demo_uuid s = (if s = ''one'' then Some 1 else if s = ''two'' then Some 2 else if s = ''c'' then Some 77 else None)"

lemma operator_token_guards_witness:
  "admin_handle raw_hex_prims demo_sqlite demo_uuid demo_fresh demo_admin (Delete_tenant_req (Some ''Bearer guess'') ''one'') =
     ((401, NoBody), demo_admin)"
proof -
  have "as_operator_token demo_admin = Some ''secret''" by (simp add: demo_admin_def)
  from operator_token_guards [OF this, of "Delete_tenant_req (Some ''Bearer guess'') ''one''"]
  show ?thesis by simp
qed

lemma demo_tenants:
  obtains t u where "t \<in> set (tbl_tenants (as_db demo_admin))" "u \<in> set (tbl_tenants (as_db demo_admin))" "t_id t = 1" "t_id u = 2"
proof -
  obtain t u where "tbl_tenants demo_tenant_db = [t, u]" "t_id t = 1" "t_id u = 2"
    using demo_tenant_db_rows(1) by (auto simp: map_eq_Cons_conv simp del: demo_tenant_db_rows)
  then show thesis by (intro that [of t u]) (simp_all add: demo_admin_def)
qed

lemma anyone_can_become_tenant_witness:
  "\<exists>c a1 a2. admin_handle raw_hex_prims demo_sqlite demo_uuid demo_fresh demo_admin (Create_challenge ''two'' ''x'') =
       ((201, JChallenge c), a1) \<and>
     admin_handle raw_hex_prims demo_sqlite demo_uuid demo_fresh a1
       (Verify_identity ''one'' (own_request raw_hex_prims \<lparr>signing_key = [9]\<rparr> ''c'' c)) =
       ((200, JRegistered (did raw_hex_prims (keypair_identity raw_hex_prims \<lparr>signing_key = [9]\<rparr>))), a2) \<and>
     (\<exists>r \<in> set (tbl_identities (as_db a2)). ir_tenant r = 1 \<and>
        ir_identity r = identity_bytes (keypair_identity raw_hex_prims \<lparr>signing_key = [9]\<rparr>))"
proof -
  obtain t u where tu: "t \<in> set (tbl_tenants (as_db demo_admin))" "u \<in> set (tbl_tenants (as_db demo_admin))"
    "t_id t = 1" "t_id u = 2" by (rule demo_tenants)
  have "real_balances (as_db demo_admin) = []"
    by (simp add: demo_admin_def demo_tenant_db_def create_tenant_def exec_def empty_db_def Let_def)
  from anyone_can_become_tenant [of raw_hex_prims demo_sqlite t demo_admin u demo_uuid "''one''" "''two''" "''c''"
      demo_fresh demo_fresh "''x''" "\<lparr>signing_key = [9]\<rparr>", OF _ _ _ _ _ _ _ _ _ _ this] tu
  show ?thesis
    by (fastforce simp: demo_uuid_def demo_fresh_def demo_admin_def CHALLENGE_TTL_MICROS_def)
qed

text \<open>The request of the previous witness is answered 200 once: repeated, it is refused.\<close>

lemma verified_registration_single_use_witness:
  "\<exists>a1 req a2. verify_identity raw_hex_prims demo_sqlite demo_uuid demo_fresh a1 ''one'' req =
       ((200, JRegistered (vr_did req)), a2) \<and>
     (\<forall>b a3. verify_identity raw_hex_prims demo_sqlite demo_uuid demo_fresh a2 ''one'' req \<noteq> ((200, b), a3))"
proof -
  obtain t u where tu: "t \<in> set (tbl_tenants (as_db demo_admin))" "u \<in> set (tbl_tenants (as_db demo_admin))"
    "t_id t = 1" "t_id u = 2" by (rule demo_tenants)
  define kp where "kp = \<lparr>signing_key = [9]\<rparr>"
  obtain c a1 a2 where v: "verify_identity raw_hex_prims demo_sqlite demo_uuid demo_fresh a1 ''one''
      (own_request raw_hex_prims kp ''c'' c) = ((200, JRegistered (did raw_hex_prims (keypair_identity raw_hex_prims kp))), a2)"
    using self_registration [of raw_hex_prims demo_sqlite t demo_admin u demo_uuid "''one''" "''two''" "''c''"
        demo_fresh demo_fresh "''x''" kp] tu
    by (auto simp: demo_tenant_db_def create_tenant_def exec_def empty_db_def Let_def demo_uuid_def demo_fresh_def demo_admin_def CHALLENGE_TTL_MICROS_def)
  have c: "demo_uuid (vr_challenge_id (own_request raw_hex_prims kp ''c'' c)) = Some 77"
    by (simp add: own_request_def demo_uuid_def)
  have run: "admin_run raw_hex_prims demo_sqlite demo_uuid [] a2 = a2" by (simp add: admin_run_def)
  have "verify_identity raw_hex_prims demo_sqlite demo_uuid demo_fresh a2 ''one'' (own_request raw_hex_prims kp ''c'' c)
      \<noteq> ((200, b), a3)" for b a3
    using verified_registration_single_use [OF v] c run by (metis option.inject)
  moreover have "did raw_hex_prims (keypair_identity raw_hex_prims kp) = vr_did (own_request raw_hex_prims kp ''c'' c)"
    by (simp add: own_request_def)
  ultimately show ?thesis using v by metis
qed

end
