(* ===== verification/Hub_Runtime.thy ===== *)
theory Hub_Runtime
  imports Hub_Contents Hub_Server Admin Commands
begin

section \<open>mesh-hub: configuration, runtime and binary\<close>

text \<open>
  config.rs, \<open>HubBuilder::build\<close> and \<open>HubRuntime\<close> of lib.rs, and the binary's main.rs. The
  configuration is the record the TOML file deserializes to (an absent section is its default;
  socket addresses and paths are text). A running hub is the record \<open>hub_runtime\<close>: its
  configuration, key pair and the server of \<open>Hub_Server\<close>, whose hook state holds the rate limiter
  and the tenant database that the tasks and the admin API share with the hook. After the start
  everything that happens to a hub is an event: a request, a round of a background task, an
  admin request. A round takes its locks one after another and is one event (its single steps are
  those of Hub_Tasks), and the network calls in it return; the order of the events is any. The record \<open>hub_env\<close> bundles the parameters (third-party crates, files, network).
  A task that panics at the poisoned lock is an event that changes nothing.
\<close>

subsection \<open>Configuration\<close>

record peering_config =
  pr_enabled :: bool
  gossip_interval_secs :: u64
  health_check_interval_secs :: u64
  pr_max_peers :: nat
  pr_regions :: "string list"
  pr_max_descriptors :: u64
  pr_seed_peers :: "string list"

definition default_gossip_interval :: u64 where "default_gossip_interval = 60"
definition default_health_check_interval :: u64 where "default_health_check_interval = 10"
definition default_max_peers :: nat where "default_max_peers = 50"
definition default_max_descriptors :: u64 where "default_max_descriptors = 1000000"

definition peering_config_default :: peering_config where
  "peering_config_default =
     \<lparr>pr_enabled = False, gossip_interval_secs = default_gossip_interval,
      health_check_interval_secs = default_health_check_interval, pr_max_peers = default_max_peers,
      pr_regions = [], pr_max_descriptors = default_max_descriptors, pr_seed_peers = []\<rparr>"

record identity_config =
  keypair_path :: string

record network_config =
  nc_listen_addr :: string
  nc_admin_addr :: string

definition default_admin_addr :: string where "default_admin_addr = ''127.0.0.1:8080''"

record storage_config =
  data_dir :: string
  hot_cache_entries :: u64

definition storage_config_default :: storage_config where
  "storage_config_default = \<lparr>data_dir = ''data'', hot_cache_entries = 10000\<rparr>"

record tenant_config =
  tc_enabled :: bool
  db_path :: string

definition tenant_config_default :: tenant_config where
  "tenant_config_default = \<lparr>tc_enabled = True, db_path = ''data/tenants.sqlite''\<rparr>"

record security_config =
  max_connections_per_ip :: u32
  max_queries_per_identity_per_sec :: u32
  admin_bearer_token :: "string option"
  outbound_allowlist :: "string list"

definition security_config_default :: security_config where
  "security_config_default =
     \<lparr>max_connections_per_ip = 50, max_queries_per_identity_per_sec = 20, admin_bearer_token = None,
      outbound_allowlist = []\<rparr>"

record mu_costs =
  cost_store_new :: int
  cost_store_update :: int
  cost_find_value :: int
  cost_find_node :: int

definition mu_costs_default :: mu_costs where
  "mu_costs_default = \<lparr>cost_store_new = 10, cost_store_update = 5, cost_find_value = 1, cost_find_node = 1\<rparr>"

record observability_config =
  metrics_enabled :: bool

definition observability_config_default :: observability_config where
  "observability_config_default = \<lparr>metrics_enabled = True\<rparr>"

record seeding_config =
  sd_enabled :: bool
  seed_file :: "string option"
  interval_secs :: u64

definition seeding_config_default :: seeding_config where
  "seeding_config_default = \<lparr>sd_enabled = False, seed_file = None, interval_secs = 1800\<rparr>"

record hub_config =
  hc_identity :: identity_config
  hc_network :: network_config
  hc_storage :: storage_config
  hc_tenants :: tenant_config
  hc_policy :: policy_config
  hc_security :: security_config
  hc_peering :: peering_config
  hc_mu_costs :: mu_costs
  hc_observability :: observability_config
  hc_seeding :: seeding_config
  hc_operator_token :: "string option"
  hc_rate_limit :: rate_limit_config

text \<open>\<open>HubConfig::from_file\<close>: reading the text and \<open>toml::from_str\<close>.\<close>

definition hub_config_from_file ::
  "(string \<Rightarrow> string + string) \<Rightarrow> (string \<Rightarrow> string + hub_config) \<Rightarrow> string \<Rightarrow> string + hub_config" where
  "hub_config_from_file read_to_string from_str path =
     (case read_to_string path of Err e \<Rightarrow> Err e | Ok content \<Rightarrow> from_str content)"

subsection \<open>The binary\<close>

text \<open>\<open>io_error\<close> is the system's text for a missing file.\<close>

definition load_keypair :: "string \<Rightarrow> string \<Rightarrow> files \<Rightarrow> string + keypair" where
  "load_keypair io_error path fs =
     (case fs path of
        None \<Rightarrow> Err (''failed to read keypair at '' @ path @ '': '' @ io_error)
      | Some bs \<Rightarrow>
          if length bs \<noteq> 32 then
            Err (''keypair file must be exactly 32 bytes (got '' @ nat_string (length bs) @ '')'')
          else Ok (keypair_from_bytes bs))"

text \<open>What the file system answers for a path: an error of creating the directories above it, of opening
  it for writing, of writing to it (with the number of bytes that got written before).\<close>

record key_io =
  io_create_dirs :: "string \<Rightarrow> string option"
  io_open :: "string \<Rightarrow> string option"
  io_write :: "string \<Rightarrow> (nat \<times> string) option"

definition generate_keypair ::
  "prims \<Rightarrow> key_io \<Rightarrow> bytes \<Rightarrow> string \<Rightarrow> files \<Rightarrow> (string + string list) \<times> files" where
  "generate_keypair P io fresh path fs =
     (if fs path \<noteq> None then (Err (''keypair file already exists: '' @ path), fs)
      else
     (case io_create_dirs io path of
        Some e \<Rightarrow> (Err e, fs)
      | None \<Rightarrow>
          let kp = keypair_from_bytes fresh in
     (case io_open io path of
        Some e \<Rightarrow> (Err e, fs)
      | None \<Rightarrow>
     (case io_write io path of
        Some (n, e) \<Rightarrow> (Err e, fs(path \<mapsto> take n (secret_bytes kp)))
      | None \<Rightarrow>
          (Ok [''Generated keypair at '' @ path, ''  DID: '' @ did P (keypair_identity P kp)],
           fs(path \<mapsto> secret_bytes kp))))))"

subsection \<open>The parameters and the running hub\<close>

record ('db, 'm, 'c, 'w, 'j) hub_env =
  he_prims :: prims
  he_codec :: codec
  he_metadata :: metadata_codec
  he_quic :: "('c, 'w) quic"
  he_redb :: "'db redb"
  he_cache :: "'m cache"
  he_json :: "'j json"
  he_sqlite :: sqlite
  he_parse_uuid :: "string \<Rightarrow> uuid option"
  he_create_dirs :: "string \<Rightarrow> string \<Rightarrow> string + unit"
  he_open_redb :: "string \<Rightarrow> string + 'db"
  he_open_tenants :: "string \<Rightarrow> string + tenant_db"
  he_new_cache :: "u64 \<Rightarrow> 'm"
  he_bind :: "string \<Rightarrow> string + unit"
  he_load_seed_file :: "string \<Rightarrow> string + 'j seed_entry list"
  he_metrics_text :: string

record ('db, 'm, 'c) hub_runtime =
  hr_config :: hub_config
  hr_identity :: identity
  hr_keypair :: keypair
  hr_metrics :: bool
  hr_server :: "('db, 'm, 'c) hub_server"

definition join_path :: "string \<Rightarrow> string \<Rightarrow> string" where
  "join_path dir file =
     (if dir = [] then file else if last dir = CHR ''/'' then dir @ file else dir @ ''/'' @ file)"

text \<open>The hook is given metrics if they are enabled, with an empty family of rate-limit counters.\<close>

definition hook_metrics :: "hub_config \<Rightarrow> (string \<rightharpoonup> u64) option" where
  "hook_metrics c = (if metrics_enabled (hc_observability c) then Some Map.empty else None)"

text \<open>The node of the hub, and its peer manager if peering is enabled.\<close>

definition hub_node_new ::
  "('db, 'm, 'c, 'w, 'j) hub_env \<Rightarrow> hub_config \<Rightarrow> keypair \<Rightarrow> 'db \<Rightarrow> tenant_db \<Rightarrow> ('db, 'm) hub_node" where
  "hub_node_new E c kp db tdb =
     (let redb_storage = \<lparr>rs_db = db, rs_rate = Map.empty, skip_rate_limit = False\<rparr>;
          cached_storage = \<lparr>cs_inner = redb_storage, cs_cache = he_new_cache E (hot_cache_entries (hc_storage c))\<rparr>;
          hook_state = \<lparr>hk_limiter = hub_rate_limiter_new (hc_rate_limit c), hk_tenants = tdb, hk_now = 0,
            hk_rate_limited = hook_metrics c\<rparr>
      in with_hooks
           (with_store (he_prims E) kp (node_addr_quic (nc_listen_addr (hc_network c))) dht_config_default
              cached_storage hook_state)
           (hub_hook (he_prims E) (he_sqlite E) (hc_policy c)))"

definition hub_peer_manager ::
  "('db, 'm, 'c, 'w, 'j) hub_env \<Rightarrow> hub_config \<Rightarrow> keypair \<Rightarrow> string + 'c peer_manager option" where
  "hub_peer_manager E c kp =
     (if pr_enabled (hc_peering c) then
        (case he_bind E ''0.0.0.0:0'' of
           Err e \<Rightarrow> Err e
         | Ok _ \<Rightarrow>
             Ok (Some (peer_manager_new (keypair_identity (he_prims E) kp) kp
               (node_addr_quic (nc_listen_addr (hc_network c)))
               (build_hub_metadata (pr_max_descriptors (hc_peering c)) (pr_regions (hc_peering c))
                  (nc_listen_addr (hc_network c)))
               (pr_max_peers (hc_peering c)) (outbound_allowlist (hc_security c)))))
      else Ok None)"

definition build :: "('db, 'm, 'c, 'w, 'j) hub_env \<Rightarrow> hub_config \<Rightarrow> keypair \<Rightarrow> string + ('db, 'm, 'c) hub_runtime" where
  "build E c kp =
     (case he_create_dirs E (data_dir (hc_storage c)) (db_path (hc_tenants c)) of
        Err e \<Rightarrow> Err e
      | Ok _ \<Rightarrow>
     (case he_open_redb E (join_path (data_dir (hc_storage c)) ''descriptors.redb'') of
        Err e \<Rightarrow> Err e
      | Ok db \<Rightarrow>
     (case he_open_tenants E (db_path (hc_tenants c)) of
        Err e \<Rightarrow> Err e
      | Ok tdb \<Rightarrow>
     (case he_bind E (nc_listen_addr (hc_network c)) of
        Err e \<Rightarrow> Err e
      | Ok _ \<Rightarrow>
     (case hub_peer_manager E c kp of
        Err e \<Rightarrow> Err e
      | Ok pm \<Rightarrow>
          Ok \<lparr>hr_config = c, hr_identity = keypair_identity (he_prims E) kp, hr_keypair = kp,
              hr_metrics = metrics_enabled (hc_observability c),
              hr_server = \<lparr>hs_node = hub_node_new E c kp db tdb, hs_peering = pm, hs_poisoned = False\<rparr>\<rparr>)))))"

subsection \<open>The start\<close>

text \<open>The handler's view of the current server; a panic under the lock poisons it.\<close>

abbreviation he_backend :: "('db, 'm, 'c, 'w, 'j) hub_env \<Rightarrow> ('db, 'm) hub_store backend" where
  "he_backend E \<equiv> hub_backend (he_prims E) (he_redb E) (he_cache E)"

text \<open>The advertisement task; \<open>ck_hub_ads\<close> is the reading that dates the descriptor, \<open>locked\<close> whether
  another task holds the peer manager.\<close>

definition advertise ::
  "('db, 'm, 'c, 'w, 'j) hub_env \<Rightarrow> bool \<Rightarrow> clock \<Rightarrow> ('db, 'm, 'c) hub_server \<Rightarrow> ('db, 'm, 'c) hub_server" where
  "advertise E locked ck srv =
     (case hs_peering srv of
        None \<Rightarrow> srv
      | Some pm \<Rightarrow>
          if hs_poisoned srv \<or> locked then srv
          else (case publish_self_advertisement (he_prims E) (he_metadata E) (he_backend E) locked pm
                       (at_instant ck (hs_node srv)) (ck_hub_ads ck) (ck_table ck) (ck_store ck) of
                  None \<Rightarrow> srv\<lparr>hs_poisoned := True\<rparr>
                | Some n \<Rightarrow> srv\<lparr>hs_node := n\<rparr>))"

definition bootstrap_hub ::
  "('db, 'm, 'c, 'w, 'j) hub_env \<Rightarrow> string list \<Rightarrow> ('db, 'm, 'c) hub_server \<Rightarrow> 'w \<Rightarrow> ('db, 'm, 'c) hub_server \<times> 'w" where
  "bootstrap_hub E seeds srv w =
     (case hs_peering srv of
        None \<Rightarrow> (srv, w)
      | Some pm \<Rightarrow>
          if seeds = [] \<or> hs_poisoned srv then (srv, w)
          else (case bootstrap_from_seeds (he_prims E) (he_codec E) (he_quic E) (he_redb E) (he_cache E) seeds
                       (dn_store (hs_node srv), pm, w) of
                  (st, pm', w') \<Rightarrow>
                    (srv\<lparr>hs_node := (hs_node srv)\<lparr>dn_store := st\<rparr>, hs_peering := Some pm'\<rparr>, w')))"

text \<open>One round of seeding; \<open>clk i\<close> is the time that the store of entry \<open>i\<close> reads.\<close>

definition timed :: "(nat \<Rightarrow> u64) \<Rightarrow> 'a list \<Rightarrow> ('a \<times> u64) list" where
  "timed clk es = map (\<lambda>(i, e). (e, clk i)) (List.enumerate 0 es)"

definition seed_hub ::
  "('db, 'm, 'c, 'w, 'j) hub_env \<Rightarrow> keypair \<Rightarrow> 'j seed_entry list \<Rightarrow> u64 \<Rightarrow> (nat \<Rightarrow> u64) \<Rightarrow>
   ('db, 'm, 'c) hub_server \<Rightarrow> ('db, 'm, 'c) hub_server" where
  "seed_hub E kp es now clk srv =
     (if hs_poisoned srv then srv
      else srv\<lparr>hs_node := (hs_node srv)\<lparr>dn_store :=
        snd (seed_now (he_prims E) (he_json E) (he_redb E) (he_cache E) (dn_store (hs_node srv)) kp now
               (timed clk es))\<rparr>\<rparr>)"

text \<open>The entries that \<open>run\<close> seeds, none if seeding is off or the file does not load.\<close>

definition hub_seed_entries :: "('db, 'm, 'c, 'w, 'j) hub_env \<Rightarrow> hub_config \<Rightarrow> 'j seed_entry list option" where
  "hub_seed_entries E c =
     (if sd_enabled (hc_seeding c) then
        (case seed_file (hc_seeding c) of
           None \<Rightarrow> None
         | Some path \<Rightarrow> (case he_load_seed_file E path of Ok es \<Rightarrow> Some es | Err _ \<Rightarrow> None))
      else None)"

text \<open>What \<open>run\<close> does itself before the tasks and the listener take over: binding the admin address
  (an error ends it), the first advertisement, the bootstrap, the first seeding.\<close>

definition run_start ::
  "('db, 'm, 'c, 'w, 'j) hub_env \<Rightarrow> clock \<Rightarrow> u64 \<Rightarrow> (nat \<Rightarrow> u64) \<Rightarrow> ('db, 'm, 'c) hub_runtime \<Rightarrow> 'w \<Rightarrow>
   string + ('db, 'm, 'c) hub_runtime \<times> 'w" where
  "run_start E ck now clk h w =
     (case he_bind E (nc_admin_addr (hc_network (hr_config h))) of
        Err e \<Rightarrow> Err e
      | Ok _ \<Rightarrow>
          let srv1 = advertise E False ck (hr_server h);
              (srv2, w') = bootstrap_hub E (pr_seed_peers (hc_peering (hr_config h))) srv1 w;
              srv3 = (case hub_seed_entries E (hr_config h) of
                 None \<Rightarrow> srv2
               | Some es \<Rightarrow> seed_hub E (hr_keypair h) es now clk srv2)
          in Ok (h\<lparr>hr_server := srv3\<rparr>, w'))"

subsection \<open>Events\<close>

definition discovery_round ::
  "('db, 'm, 'c, 'w, 'j) hub_env \<Rightarrow> 'w \<Rightarrow> ('db, 'm, 'c) hub_server \<Rightarrow> ('db, 'm, 'c) hub_server" where
  "discovery_round E w srv =
     (case hs_peering srv of
        None \<Rightarrow> srv
      | Some pm \<Rightarrow>
          if hs_poisoned srv then srv
          else (case run_discovery (he_prims E) (he_metadata E) (he_quic E) (he_backend E) (hs_node srv) pm w of
                  (n, pm', w') \<Rightarrow> srv\<lparr>hs_node := n, hs_peering := Some pm'\<rparr>))"

definition gossip_task ::
  "('db, 'm, 'c, 'w, 'j) hub_env \<Rightarrow> 'w \<Rightarrow> ('db, 'm, 'c) hub_server \<Rightarrow> ('db, 'm, 'c) hub_server" where
  "gossip_task E w srv =
     (case hs_peering srv of
        None \<Rightarrow> srv
      | Some pm \<Rightarrow>
          if hs_poisoned srv then srv
          else srv\<lparr>hs_peering := Some (fst (run_gossip_round (he_codec E) (he_quic E) (he_redb E)
                 (dn_store (hs_node srv)) pm w))\<rparr>)"

definition health_task ::
  "('db, 'm, 'c, 'w, 'j) hub_env \<Rightarrow> 'w \<Rightarrow> ('db, 'm, 'c) hub_server \<Rightarrow> ('db, 'm, 'c) hub_server" where
  "health_task E w srv =
     (case hs_peering srv of
        None \<Rightarrow> srv
      | Some pm \<Rightarrow> srv\<lparr>hs_peering := Some (fst (run_health_check (he_codec E) (he_quic E) pm w))\<rparr>)"

definition expiry_task ::
  "('db, 'm, 'c, 'w, 'j) hub_env \<Rightarrow> u64 \<Rightarrow> ('db, 'm, 'c) hub_server \<Rightarrow> ('db, 'm, 'c) hub_server" where
  "expiry_task E now srv =
     (if hs_poisoned srv then srv
      else srv\<lparr>hs_node := (hs_node srv)\<lparr>dn_store := be_evict (he_backend E) (dn_store (hs_node srv)) now\<rparr>\<rparr>)"

text \<open>Tenants and limiter lie in the hook state.\<close>

definition map_hook_state ::
  "(hub_hook_state \<Rightarrow> hub_hook_state) \<Rightarrow> ('db, 'm, 'c) hub_server \<Rightarrow> ('db, 'm, 'c) hub_server" where
  "map_hook_state f srv = srv\<lparr>hs_node := (hs_node srv)\<lparr>dn_hook_state := f (dn_hook_state (hs_node srv))\<rparr>\<rparr>"

definition limiter_task :: "nat \<Rightarrow> ('db, 'm, 'c) hub_server \<Rightarrow> ('db, 'm, 'c) hub_server" where
  "limiter_task now = map_hook_state (\<lambda>k. k\<lparr>hk_limiter := cleanup (hk_limiter k) now\<rparr>)"

text \<open>The state of the admin API, the parts of a request that it reads off the node, and a request.
  The status page panics at the poisoned lock.\<close>

definition hub_admin_state :: "('db, 'm, 'c, 'w, 'j) hub_env \<Rightarrow> ('db, 'm, 'c) hub_runtime \<Rightarrow> admin_state" where
  "hub_admin_state E h =
     \<lparr>as_db = hk_tenants (dn_hook_state (hs_node (hr_server h))),
      as_hub_did = Some (did (he_prims E) (hr_identity h)),
      as_operator_token = hc_operator_token (hr_config h),
      as_metrics = (if hr_metrics h then Some (he_metrics_text E) else None)\<rparr>"

fun admin_view ::
  "('db, 'm, 'c, 'w, 'j) hub_env \<Rightarrow> ('db, 'm, 'c) hub_server \<Rightarrow> admin_request \<Rightarrow> admin_request" where
  "admin_view E srv (Readyz _) = Readyz (hs_poisoned srv)"
| "admin_view E srv (Hub_status up _ _) =
     Hub_status up (redb_descriptor_count (he_redb E) (cs_inner (dn_store (hs_node srv))))
       (redb_routing_key_count (he_redb E) (cs_inner (dn_store (hs_node srv))))"
| "admin_view E srv req = req"

fun reads_node :: "admin_request \<Rightarrow> bool" where
  "reads_node (Hub_status _ _ _) = True"
| "reads_node _ = False"

definition hub_admin ::
  "('db, 'm, 'c, 'w, 'j) hub_env \<Rightarrow> fresh \<Rightarrow> admin_request \<Rightarrow> ('db, 'm, 'c) hub_runtime \<Rightarrow>
   reply option \<times> ('db, 'm, 'c) hub_runtime" where
  "hub_admin E f req h =
     (if hs_poisoned (hr_server h) \<and> reads_node req then (None, h)
      else
        let (r, a) = admin_handle (he_prims E) (he_sqlite E) (he_parse_uuid E) f (hub_admin_state E h)
                       (admin_view E (hr_server h) req)
        in (Some r, h\<lparr>hr_server := map_hook_state (\<lambda>k. k\<lparr>hk_tenants := as_db a\<rparr>) (hr_server h)\<rparr>))"

datatype 'w hub_event =
    Request clock frame "identity option"
  | Expire u64
  | Clean_limiter nat
  | Advertise bool clock
  | Discover 'w
  | Gossip 'w
  | Check_health 'w
  | Reseed u64 "nat \<Rightarrow> u64"
  | Admin_request fresh admin_request

fun hub_step ::
  "('db, 'm, 'c, 'w, 'j) hub_env \<Rightarrow> 'w hub_event \<Rightarrow> ('db, 'm, 'c) hub_runtime \<Rightarrow> ('db, 'm, 'c) hub_runtime" where
  "hub_step E (Request ck fr peer) h = h\<lparr>hr_server :=
     snd (handle_protocol_request (he_prims E) (he_codec E) (he_redb E) (he_cache E) ck (hr_server h) fr peer)\<rparr>"
| "hub_step E (Expire now) h = h\<lparr>hr_server := expiry_task E now (hr_server h)\<rparr>"
| "hub_step E (Clean_limiter now) h = h\<lparr>hr_server := limiter_task now (hr_server h)\<rparr>"
| "hub_step E (Advertise locked ck) h = h\<lparr>hr_server := advertise E locked ck (hr_server h)\<rparr>"
| "hub_step E (Discover w) h = h\<lparr>hr_server := discovery_round E w (hr_server h)\<rparr>"
| "hub_step E (Gossip w) h = h\<lparr>hr_server := gossip_task E w (hr_server h)\<rparr>"
| "hub_step E (Check_health w) h = h\<lparr>hr_server := health_task E w (hr_server h)\<rparr>"
| "hub_step E (Reseed now clk) h =
     (case hub_seed_entries E (hr_config h) of
        None \<Rightarrow> h
      | Some es \<Rightarrow> h\<lparr>hr_server := seed_hub E (hr_keypair h) es now clk (hr_server h)\<rparr>)"
| "hub_step E (Admin_request f req) h = snd (hub_admin E f req h)"

definition hub_run ::
  "('db, 'm, 'c, 'w, 'j) hub_env \<Rightarrow> 'w hub_event list \<Rightarrow> ('db, 'm, 'c) hub_runtime \<Rightarrow> ('db, 'm, 'c) hub_runtime" where
  "hub_run E es h = fold (hub_step E) es h"

end
