(* ===== verification/Hub_System.thy ===== *)
theory Hub_System
  imports Hub_Runtime
begin

section \<open>mesh-hub: a whole hub\<close>

text \<open>
  Properties of a hub as a system: built from a configuration, started, and then driven by any
  sequence of events. The invariant \<open>hub_holds\<close> says that database and cache are well-formed, that
  node and hook are the configured ones, and that everything the hub can hand out lies in a set
  \<open>ok\<close> of descriptors. A set is adequate if the policy admits nothing else, if the hub's own
  descriptors lie in it, and if it is everything in case the hub has peers (their stores and the
  bootstrap pass the policy over).
\<close>

text \<open>What is relied on: hashes of 32 bytes, the database engine and the cache with their views,
  a cache that starts empty.\<close>

definition hub_env_ok ::
  "('db, 'm, 'c, 'w, 'j) hub_env \<Rightarrow> ('db \<Rightarrow> redb_tables) \<Rightarrow> ('m \<Rightarrow> bytes \<rightharpoonup> descriptor list) \<Rightarrow> bool" where
  "hub_env_ok E v cv \<longleftrightarrow> blake3_ok (he_prims E) \<and> redb_ok (he_redb E) v \<and> Hub_Storage.cache_ok (he_cache E) cv \<and>
     (\<forall>n. cv (he_new_cache E n) = Map.empty)"

subsection \<open>The storage\<close>

definition store_holds ::
  "('db, 'm, 'c, 'w, 'j) hub_env \<Rightarrow> ('db \<Rightarrow> redb_tables) \<Rightarrow> ('m \<Rightarrow> bytes \<rightharpoonup> descriptor list) \<Rightarrow> descriptor set \<Rightarrow>
   ('db, 'm) hub_store \<Rightarrow> bool" where
  "store_holds E v cv ok st \<longleftrightarrow>
     storage_ok (he_prims E) (he_redb E) v cv st \<and> contents (he_redb E) v cv st \<subseteq> ok"

lemma store_holds_skip [simp]: "store_holds E v cv ok (set_skip b st) = store_holds E v cv ok st"
  by (simp add: store_holds_def)

lemma store_holds_store:
  assumes "hub_env_ok E v cv" and "store_holds E v cv ok st" and "d \<in> ok"
  shows "store_holds E v cv ok (snd (be_store (he_backend E) st d t))"
proof -
  have e: "redb_ok (he_redb E) v" "Hub_Storage.cache_ok (he_cache E) cv" using assms(1) by (simp_all add: hub_env_ok_def)
  show ?thesis
    using node_backend.backend_store [OF storage_ok_backend [OF e, of "he_prims E"], of st d t]
      store_contents [OF e, of "he_prims E" st d t] assms(2,3)
    by (auto simp: store_holds_def split: if_splits)
qed

lemma store_holds_get:
  assumes "hub_env_ok E v cv" and "store_holds E v cv ok st" and "be_get (he_backend E) st k f t = (ds, st')"
  shows "store_holds E v cv ok st' \<and>
     (\<forall>d \<in> set ds. d \<in> ok \<and> authentic (he_prims E) d \<and> well_formed d \<and> filter_matches f d)"
proof -
  have e: "redb_ok (he_redb E) v" "Hub_Storage.cache_ok (he_cache E) cv" using assms(1) by (simp_all add: hub_env_ok_def)
  note B = storage_ok_backend [OF e, of "he_prims E"]
  show ?thesis
    using node_backend.backend_get [OF B, of st k f t] node_backend.backend_sound [OF B, of st _ k f t]
      get_contents [OF e assms(3)] assms(2,3)
    by (auto simp: store_holds_def)
qed

lemma store_holds_evict:
  assumes "hub_env_ok E v cv" and "store_holds E v cv ok st"
  shows "store_holds E v cv ok (be_evict (he_backend E) st t)"
proof -
  have e: "redb_ok (he_redb E) v" "Hub_Storage.cache_ok (he_cache E) cv" using assms(1) by (simp_all add: hub_env_ok_def)
  show ?thesis
    using node_backend.backend_evict [OF storage_ok_backend [OF e, of "he_prims E"], of st t]
      evict_contents [OF e, of "he_prims E" st t] assms(2)
    by (auto simp: store_holds_def)
qed

subsection \<open>The node\<close>

definition node_holds ::
  "('db, 'm, 'c, 'w, 'j) hub_env \<Rightarrow> ('db \<Rightarrow> redb_tables) \<Rightarrow> ('m \<Rightarrow> bytes \<rightharpoonup> descriptor list) \<Rightarrow> policy_config \<Rightarrow>
   descriptor set \<Rightarrow> ('db, 'm) hub_node \<Rightarrow> bool" where
  "node_holds E v cv c ok n \<longleftrightarrow> node_ok (he_prims E) n \<and>
     dn_hooks n = Some (hub_hook (he_prims E) (he_sqlite E) c) \<and> dn_config n = dht_config_default \<and>
     store_holds E v cv ok (dn_store n)"

definition policy_within :: "('db, 'm, 'c, 'w, 'j) hub_env \<Rightarrow> policy_config \<Rightarrow> descriptor set \<Rightarrow> bool" where
  "policy_within E c ok \<longleftrightarrow> (\<forall>tdb d. admitted (he_prims E) (he_sqlite E) c tdb d \<longrightarrow> d \<in> ok)"

lemma node_holds_upd [simp]:
  "node_holds E v cv c ok (n\<lparr>dn_hook_state := k\<rparr>) = node_holds E v cv c ok n"
  "node_holds E v cv c ok n \<Longrightarrow> node_holds E v cv c ok (n\<lparr>dn_store := st\<rparr>) = store_holds E v cv ok st"
  by (auto simp: node_holds_def)

lemma node_holds_instant [simp]: "node_holds E v cv c ok (at_instant ck n) = node_holds E v cv c ok n"
  by (simp add: at_instant_def)

lemma node_holds_store: "node_holds E v cv c ok n \<Longrightarrow> store_holds E v cv ok (dn_store n)"
  by (simp add: node_holds_def)

lemma node_holds_by_step:
  assumes "node_step (he_prims E) (he_backend E) n n'" and "node_holds E v cv c ok n"
    and "node_ok (he_prims E) n'" and "store_holds E v cv ok (dn_store n')"
  shows "node_holds E v cv c ok n'"
  using node_step_config [OF assms(1)] assms(2-4) by (simp add: node_holds_def)

lemma handle_ping_holds:
  assumes "handle_ping (he_prims E) n p t = Some (r, n')" and "node_holds E v cv c ok n"
  shows "node_holds E v cv c ok n'"
proof -
  obtain u where u: "update_routing_table (he_prims E) n (ping_sender p) (ping_sender_addr p) t = Some u" "n' = u"
    using assms(1) by (auto simp: handle_ping_def split: option.splits)
  show ?thesis
    using update_routing_table_keeps [OF u(1)] update_routing_table_ok [OF _ u(1)] assms(2) u(2)
    by (simp add: node_holds_def)
qed

lemma handle_find_node_holds:
  assumes "handle_find_node (he_prims E) n p t t' = Some (r, n')" and "node_holds E v cv c ok n"
  shows "node_holds E v cv c ok n'"
proof -
  obtain u where u: "update_routing_table (he_prims E) n (fn_sender p) (fn_sender_addr p) t = Some u" "n' = u"
    using assms(1) by (auto simp: handle_find_node_def split: option.splits)
  show ?thesis
    using update_routing_table_keeps [OF u(1)] update_routing_table_ok [OF _ u(1)] assms(2) u(2)
    by (simp add: node_holds_def)
qed

lemma handle_find_value_holds:
  assumes "hub_env_ok E v cv" and "handle_find_value (he_prims E) (he_backend E) n p t t' = Some (r, n')"
    and "node_holds E v cv c ok n"
  shows "node_holds E v cv c ok n'"
proof (rule node_holds_by_step [OF step_find_value [OF assms(2)] assms(3)])
  show "node_ok (he_prims E) n'" using handle_find_value_ok [OF assms(2)] assms(3) by (simp add: node_holds_def)
  show "store_holds E v cv ok (dn_store n')"
    using handle_find_value_store [OF assms(2)] node_holds_store [OF assms(3)]
      store_holds_get [OF assms(1) node_holds_store [OF assms(3)] prod.collapse [symmetric]] by auto
qed

text \<open>The policy hook lets nothing into the storage but what the policy admits.\<close>

lemma handle_store_holds:
  assumes "hub_env_ok E v cv" and "policy_within E c ok" and "node_holds E v cv c ok n"
  obtains r n' where "handle_store (he_prims E) (he_backend E) n m t t' = Some (r, n')" and "node_holds E v cv c ok n'"
proof -
  have n: "blake3_ok (he_prims E)" "node_ok (he_prims E) n" "dn_hooks n = Some (hub_hook (he_prims E) (he_sqlite E) c)"
    using assms(1,3) by (simp_all add: hub_env_ok_def node_holds_def)
  let ?pre = "hub_pre_store (he_prims E) (he_sqlite E) c (dn_hook_state n) (store_descriptor_field m)"
  obtain r n' where h: "handle_store (he_prims E) (he_backend E) n m t t' = Some (r, n')" "node_ok (he_prims E) n'"
    and refused: "\<forall>e. fst ?pre = Err e \<longrightarrow> r = \<lparr>stored = False, reason = Some e\<rparr> \<and> dn_store n' = dn_store n"
    and taken: "fst ?pre = Ok () \<longrightarrow> stored r = is_ok (fst (be_store (he_backend E) (dn_store n) (store_descriptor_field m) t')) \<and>
       dn_store n' = snd (be_store (he_backend E) (dn_store n) (store_descriptor_field m) t')"
    by (rule handle_store_hub [OF n, of "he_backend E" m t t']) (rule that)
  have "store_holds E v cv ok (dn_store n')"
  proof (cases "fst ?pre")
    case (Inl e)
    then show ?thesis using refused node_holds_store [OF assms(3)] by simp
  next
    case (Inr u)
    then have "admitted (he_prims E) (he_sqlite E) c (hk_tenants (dn_hook_state n)) (store_descriptor_field m)"
      by (simp add: hub_pre_store_result split: if_splits)
    then have "store_descriptor_field m \<in> ok" using assms(2) by (auto simp: policy_within_def)
    then show ?thesis using Inr taken store_holds_store [OF assms(1) node_holds_store [OF assms(3)]] by simp
  qed
  then have "node_holds E v cv c ok n'" by (rule node_holds_by_step [OF step_store [OF h(1)] assms(3) h(2)])
  then show thesis using that h(1) by blast
qed

subsection \<open>The server\<close>

definition server_holds ::
  "('db, 'm, 'c, 'w, 'j) hub_env \<Rightarrow> ('db \<Rightarrow> redb_tables) \<Rightarrow> ('m \<Rightarrow> bytes \<rightharpoonup> descriptor list) \<Rightarrow> policy_config \<Rightarrow>
   descriptor set \<Rightarrow> ('db, 'm, 'c) hub_server \<Rightarrow> bool" where
  "server_holds E v cv c ok srv \<longleftrightarrow> node_holds E v cv c ok (hs_node srv) \<and> (hs_peering srv \<noteq> None \<longrightarrow> ok = UNIV)"

lemma server_holds_upd [simp]:
  "server_holds E v cv c ok (srv\<lparr>hs_poisoned := b\<rparr>) = server_holds E v cv c ok srv"
  "server_holds E v cv c ok srv \<Longrightarrow> server_holds E v cv c ok (srv\<lparr>hs_node := n\<rparr>) = node_holds E v cv c ok n"
  "hs_peering srv \<noteq> None \<Longrightarrow> server_holds E v cv c ok (srv\<lparr>hs_peering := Some pm\<rparr>) = server_holds E v cv c ok srv"
  by (auto simp: server_holds_def)

lemma peer_hub_check_holds:
  assumes "hub_env_ok E v cv" and "server_holds E v cv c ok srv"
    and "peer_hub_check (he_prims E) (he_redb E) (he_cache E) ck srv peer = (h, srv1)"
  shows "server_holds E v cv c ok srv1 \<and> (h \<longrightarrow> ok = UNIV)"
proof (cases "\<exists>pm pid. hs_peering srv = Some pm \<and> peer = Some pid")
  case False
  then have "h = False" "srv1 = srv" using assms(3) by (auto simp: peer_hub_check_def split: option.splits)
  then show ?thesis using assms(2) by simp
next
  case True
  then obtain pm pid where p: "hs_peering srv = Some pm" "peer = Some pid" by blast
  have n: "node_holds E v cv c ok (hs_node srv)" and U: "ok = UNIV" using assms(2) p by (auto simp: server_holds_def)
  obtain ds st where g: "be_get (he_backend E) (dn_store (hs_node srv)) (ROUTING_KEY_INFRASTRUCTURE_HUB (he_prims E)) None
      (ck_hub_ads ck) = (ds, st)" by (rule prod.exhaust)
  have "store_holds E v cv ok st" using store_holds_get [OF assms(1) node_holds_store [OF n] g] by blast
  then have s: "server_holds E v cv c ok (srv\<lparr>hs_node := (hs_node srv)\<lparr>dn_store := st\<rparr>\<rparr>)"
    using assms(2) n by simp
  have "srv1 = srv \<or> (\<exists>pm'. srv1 = srv\<lparr>hs_node := (hs_node srv)\<lparr>dn_store := st\<rparr>, hs_peering := pm'\<rparr>)"
    using assms(3) p g
    by (auto simp: peer_hub_check_def Let_def split: option.splits if_splits) (metis hub_server.surjective hub_server.update_convs)+
  then show ?thesis using assms(2) s U by (auto simp: server_holds_def)
qed

lemma respond_holds:
  assumes "server_holds E v cv c ok srv" and "\<And>m n. r = Some (m, n) \<Longrightarrow> node_holds E v cv c ok n"
  shows "server_holds E v cv c ok (snd (respond C srv fr ty r))"
  using assms by (auto simp: respond_def split: option.split sum.split)

text \<open>A store of a peer hub goes past the policy.\<close>

lemma store_unlimited_holds:
  assumes "hub_env_ok E v cv" and "node_holds E v cv c ok n" and "d \<in> ok"
  shows "node_holds E v cv c ok (snd (store_unlimited (he_prims E) (he_redb E) (he_cache E) n d t))"
proof -
  have "store_holds E v cv ok (set_skip True (dn_store n))" using node_holds_store [OF assms(2)] by simp
  from store_holds_store [OF assms(1) this assms(3)] show ?thesis
    using assms(2) by (simp add: store_unlimited_def case_prod_unfold Let_def)
qed

lemma outcome_holds:
  assumes "hub_env_ok E v cv" and "policy_within E c ok" and "node_holds E v cv c ok n" and "h \<Longrightarrow> ok = UNIV"
    and "outcome (he_prims E) (he_codec E) (he_redb E) (he_cache E) ck h n fr = Some (m, n')"
  shows "node_holds E v cv c ok n'"
proof -
  have store: "node_holds E v cv c ok n'"
    if "(if h then Some (store_unlimited (he_prims E) (he_redb E) (he_cache E) n d t)
        else handle_store (he_prims E) (he_backend E) n s t' t) = Some (r, n')" for d s t t' r n'
  proof (cases h)
    case True
    then show ?thesis using that store_unlimited_holds [OF assms(1,3), of d t] assms(4) by simp
  next
    case False
    then show ?thesis using that handle_store_holds [OF assms(1-3), of s t' t] by fastforce
  qed
  show ?thesis
    using assms(5)
    by (auto simp: outcome_def Let_def split: if_splits
        dest: handle_ping_holds [OF _ assms(3)] handle_find_node_holds [OF _ assms(3)]
          handle_find_value_holds [OF assms(1) _ assms(3)] handle_store_holds [OF assms(1-3)]
        intro: store [of _ _ _ _ _ n'])
qed

lemma answer_holds:
  assumes "hub_env_ok E v cv" and "policy_within E c ok" and "server_holds E v cv c ok srv" and "h \<Longrightarrow> ok = UNIV"
  shows "server_holds E v cv c ok
     (snd (answer_request (he_prims E) (he_codec E) (he_redb E) (he_cache E) ck h srv fr peer))"
proof (cases "hs_poisoned srv")
  case True
  then show ?thesis using assms(3) by (simp add: answer_request_def)
next
  case False
  have "node_holds E v cv c ok (at_instant ck (hs_node srv))" using assms(3) by (simp add: server_holds_def)
  from respond_holds [OF assms(3) outcome_holds [OF assms(1,2) this assms(4)]] show ?thesis
    unfolding answer_request_eq [OF False] using assms(3) by simp
qed

lemma request_holds:
  assumes "hub_env_ok E v cv" and "policy_within E c ok" and "server_holds E v cv c ok srv"
  shows "server_holds E v cv c ok
     (snd (handle_protocol_request (he_prims E) (he_codec E) (he_redb E) (he_cache E) ck srv fr peer))"
proof (cases "hs_poisoned srv")
  case True
  then show ?thesis using assms(3) by (simp add: poisoned_drops)
next
  case False
  obtain h srv1 where pc: "peer_hub_check (he_prims E) (he_redb E) (he_cache E) ck srv peer = (h, srv1)"
    by (rule prod.exhaust)
  have s1: "server_holds E v cv c ok srv1" "h \<Longrightarrow> ok = UNIV"
    using peer_hub_check_holds [OF assms(1,3) pc] by simp_all
  show ?thesis unfolding handle_protocol_request_steps(1) [OF False pc] by (rule answer_holds [OF assms(1,2) s1])
qed

subsection \<open>The background tasks\<close>

text \<open>The hub's own descriptors.\<close>

definition own_within :: "('db, 'm, 'c, 'w, 'j) hub_env \<Rightarrow> keypair \<Rightarrow> descriptor set \<Rightarrow> bool" where
  "own_within E kp ok \<longleftrightarrow> (\<forall>d. publisher d = keypair_identity (he_prims E) kp \<longrightarrow> d \<in> ok)"

lemma advertise_holds:
  assumes "hub_env_ok E v cv" and "policy_within E c ok" and "server_holds E v cv c ok srv"
  shows "server_holds E v cv c ok (advertise E locked ck srv) \<and> hs_poisoned (advertise E locked ck srv) = hs_poisoned srv"
proof (cases "hs_peering srv = None \<or> hs_poisoned srv \<or> locked")
  case True
  then show ?thesis using assms(3) by (auto simp: advertise_def split: option.split)
next
  case False
  then obtain pm where pm: "hs_peering srv = Some pm" "\<not> hs_poisoned srv" "\<not> locked" by auto
  have n: "node_holds E v cv c ok (at_instant ck (hs_node srv))" using assms(3) by (simp add: server_holds_def)
  have "\<exists>n'. publish_self_advertisement (he_prims E) (he_metadata E) (he_backend E) locked pm
      (at_instant ck (hs_node srv)) (ck_hub_ads ck) (ck_table ck) (ck_store ck) = Some n' \<and> node_holds E v cv c ok n'"
  proof (cases "self_advertisement_descriptor (he_prims E) (he_metadata E) pm (ck_hub_ads ck)")
    case (Inl e)
    then show ?thesis using n by (simp add: publish_self_advertisement_def)
  next
    case (Inr d)
    obtain r n' where "handle_store (he_prims E) (he_backend E) (at_instant ck (hs_node srv)) \<lparr>store_sender = pm_identity pm,
        store_sender_addr = pm_addr pm, store_descriptor_field = d\<rparr> (ck_table ck) (ck_store ck) = Some (r, n')"
      and "node_holds E v cv c ok n'" by (rule handle_store_holds [OF assms(1,2) n])
    then show ?thesis using Inr n by (simp add: publish_self_advertisement_def)
  qed
  then show ?thesis using pm assms(3) by (auto simp: advertise_def)
qed

lemma store_each_holds:
  assumes "hub_env_ok E v cv" and "set ds \<subseteq> ok" and "store_holds E v cv ok st"
  shows "store_holds E v cv ok (fst (store_each (he_backend E) Q ds st w))"
  using assms(2,3)
proof (induction ds arbitrary: st w)
  case (Cons d ds)
  have "store_holds E v cv ok (snd (be_store (he_backend E) st d t))" for t
    using store_holds_store [OF assms(1) Cons.prems(2)] Cons.prems(1) by simp
  then show ?case using Cons.IH Cons.prems(1) by (simp split: prod.split)
qed simp

lemma bootstrap_seed_holds:
  assumes "hub_env_ok E v cv" and "store_holds E v cv UNIV st"
  shows "store_holds E v cv UNIV
     (fst (bootstrap_seed (he_prims E) (he_codec E) (he_quic E) (he_redb E) (he_cache E) seed (st, pm, w)))"
proof -
  have "store_holds E v cv UNIV (fst (store_each (he_backend E) (he_quic E) ds (set_skip True st) w))" for ds w
    by (rule store_each_holds [OF assms(1)]) (use assms(2) in simp_all)
  then show ?thesis using assms(2)
    by (simp add: bootstrap_seed_def Let_def case_prod_unfold split: sum.split option.split)
qed

lemma bootstrap_from_seeds_holds:
  assumes "hub_env_ok E v cv" and "store_holds E v cv UNIV (fst s)"
  shows "store_holds E v cv UNIV
     (fst (bootstrap_from_seeds (he_prims E) (he_codec E) (he_quic E) (he_redb E) (he_cache E) seeds s))"
  using assms(2)
proof (induction seeds arbitrary: s)
  case (Cons a seeds)
  then show ?case using bootstrap_seed_holds [OF assms(1), of "fst s" a "fst (snd s)" "snd (snd s)"]
    by (simp add: bootstrap_from_seeds_def)
qed (simp add: bootstrap_from_seeds_def)

lemma bootstrap_hub_holds:
  assumes "hub_env_ok E v cv" and "server_holds E v cv c ok srv" and "bootstrap_hub E seeds srv w = (srv', w')"
  shows "server_holds E v cv c ok srv' \<and> hs_poisoned srv' = hs_poisoned srv"
proof (cases "\<exists>pm. hs_peering srv = Some pm \<and> seeds \<noteq> [] \<and> \<not> hs_poisoned srv")
  case True
  then obtain pm where pm: "hs_peering srv = Some pm" by blast
  then have U: "ok = UNIV" and n: "node_holds E v cv c UNIV (hs_node srv)" using assms(2) by (auto simp: server_holds_def)
  obtain st pm' w1 where b: "bootstrap_from_seeds (he_prims E) (he_codec E) (he_quic E) (he_redb E) (he_cache E) seeds
      (dn_store (hs_node srv), pm, w) = (st, pm', w1)" by (rule prod_cases3)
  have "store_holds E v cv UNIV st"
    using bootstrap_from_seeds_holds [OF assms(1), of "(dn_store (hs_node srv), pm, w)" seeds] node_holds_store [OF n] b by simp
  then show ?thesis using True assms(3) b pm n U by (auto simp: bootstrap_hub_def server_holds_def)
next
  case False
  then show ?thesis using assms(2,3) by (auto simp: bootstrap_hub_def split: option.splits if_splits)
qed

lemma seed_entries_holds:
  assumes "hub_env_ok E v cv" and "own_within E kp ok" and "store_holds E v cv ok st"
  shows "store_holds E v cv ok (snd (seed_entries (he_prims E) J (he_backend E) kp now es k l st))"
  using assms(3)
proof (induction es arbitrary: k l st)
  case (Cons et es)
  obtain e t where et: "et = (e, t)" by (rule prod.exhaust)
  have "publisher (seed_descriptor (he_prims E) J kp now e) = keypair_identity (he_prims E) kp"
    by (simp add: seed_descriptor_def)
  then have "seed_descriptor (he_prims E) J kp now e \<in> ok" using assms(2) by (simp add: own_within_def)
  then have "store_holds E v cv ok (snd (be_store (he_backend E) st (seed_descriptor (he_prims E) J kp now e) t))"
    by (rule store_holds_store [OF assms(1) Cons.prems])
  then show ?case using Cons.IH by (auto simp: et split: prod.split sum.split)
qed simp

lemma seed_hub_holds:
  assumes "hub_env_ok E v cv" and "own_within E kp ok" and "server_holds E v cv c ok srv"
  shows "server_holds E v cv c ok (seed_hub E kp es now clk srv) \<and>
     hs_poisoned (seed_hub E kp es now clk srv) = hs_poisoned srv"
proof -
  have n: "node_holds E v cv c ok (hs_node srv)" using assms(3) by (simp add: server_holds_def)
  have "store_holds E v cv ok (snd (seed_now (he_prims E) (he_json E) (he_redb E) (he_cache E) (dn_store (hs_node srv)) kp now
      (timed clk es)))"
    using seed_entries_holds [OF assms(1,2), of "set_skip True (dn_store (hs_node srv))"] node_holds_store [OF n]
    by (simp add: seed_now_def case_prod_unfold Let_def)
  then show ?thesis using n assms(3) by (simp add: seed_hub_def)
qed

lemma discovery_holds:
  assumes "hub_env_ok E v cv" and "server_holds E v cv c ok srv"
  shows "server_holds E v cv c ok (discovery_round E w srv) \<and>
     hs_poisoned (discovery_round E w srv) = hs_poisoned srv"
proof (cases "\<exists>pm. hs_peering srv = Some pm \<and> \<not> hs_poisoned srv")
  case True
  then obtain pm where pm: "hs_peering srv = Some pm" "\<not> hs_poisoned srv" by blast
  have n: "node_holds E v cv c ok (hs_node srv)" using assms(2) by (simp add: server_holds_def)
  obtain n' pm' w' where d: "run_discovery (he_prims E) (he_metadata E) (he_quic E) (he_backend E) (hs_node srv) pm w =
      (n', pm', w')" by (rule prod_cases3)
  then obtain t where "n' = (hs_node srv)\<lparr>dn_store :=
      snd (be_get (he_backend E) (dn_store (hs_node srv)) (ROUTING_KEY_INFRASTRUCTURE_HUB (he_prims E)) None t)\<rparr>"
    by (auto simp: run_discovery_def Let_def case_prod_unfold split: if_splits)
  then have "node_holds E v cv c ok n'"
    using store_holds_get [OF assms(1) node_holds_store [OF n] prod.collapse [symmetric]] n by simp
  then show ?thesis using pm d assms(2) by (auto simp: discovery_round_def server_holds_def)
next
  case False
  then show ?thesis using assms(2) by (auto simp: discovery_round_def split: option.split)
qed

lemma other_tasks_hold:
  assumes "hub_env_ok E v cv" and "server_holds E v cv c ok srv"
  shows "server_holds E v cv c ok (gossip_task E w srv)" "hs_poisoned (gossip_task E w srv) = hs_poisoned srv"
    "server_holds E v cv c ok (health_task E w srv)" "hs_poisoned (health_task E w srv) = hs_poisoned srv"
    "server_holds E v cv c ok (expiry_task E now srv)" "hs_poisoned (expiry_task E now srv) = hs_poisoned srv"
    "server_holds E v cv c ok (map_hook_state f srv)" "hs_poisoned (map_hook_state f srv) = hs_poisoned srv"
  using assms(2) store_holds_evict [OF assms(1), of ok "dn_store (hs_node srv)" now]
    node_holds_store [of E v cv c ok "hs_node srv"]
  by (auto simp: gossip_task_def health_task_def expiry_task_def map_hook_state_def server_holds_def split: option.split)

subsection \<open>Any sequence of events\<close>

definition hub_holds ::
  "('db, 'm, 'c, 'w, 'j) hub_env \<Rightarrow> ('db \<Rightarrow> redb_tables) \<Rightarrow> ('m \<Rightarrow> bytes \<rightharpoonup> descriptor list) \<Rightarrow> descriptor set \<Rightarrow>
   ('db, 'm, 'c) hub_runtime \<Rightarrow> bool" where
  "hub_holds E v cv ok h \<longleftrightarrow> server_holds E v cv (hc_policy (hr_config h)) ok (hr_server h) \<and>
     policy_within E (hc_policy (hr_config h)) ok \<and> own_within E (hr_keypair h) ok"

lemma hub_step_config [simp]:
  "hr_config (hub_step E e h) = hr_config h" "hr_keypair (hub_step E e h) = hr_keypair h"
  "hr_identity (hub_step E e h) = hr_identity h" "hr_metrics (hub_step E e h) = hr_metrics h"
  by (cases e; simp add: hub_admin_def Let_def case_prod_unfold split: option.split)+

lemma hub_step_holds:
  assumes "hub_env_ok E v cv" and "hub_holds E v cv ok h"
  shows "hub_holds E v cv ok (hub_step E e h)"
proof -
  have s: "server_holds E v cv (hc_policy (hr_config h)) ok (hr_server h)"
    and p: "policy_within E (hc_policy (hr_config h)) ok" and o: "own_within E (hr_keypair h) ok"
    using assms(2) by (simp_all add: hub_holds_def)
  have "server_holds E v cv (hc_policy (hr_config h)) ok (hr_server (hub_step E e h))"
    using s request_holds [OF assms(1) p s] advertise_holds [OF assms(1) p s] discovery_holds [OF assms(1) s]
      other_tasks_hold [OF assms(1) s] seed_hub_holds [OF assms(1) o s]
    by (cases e) (simp_all add: limiter_task_def hub_admin_def Let_def case_prod_unfold split: option.split)
  then show ?thesis using p o by (simp add: hub_holds_def)
qed

lemma hub_run_keeps:
  assumes "\<And>e h. e \<in> set es \<Longrightarrow> I h \<Longrightarrow> I (hub_step E e h)" and "I h"
  shows "I (hub_run E es h)"
  using assms
proof (induction es arbitrary: h)
  case (Cons e es)
  then show ?case by (simp add: hub_run_def)
qed (simp add: hub_run_def)

lemma hub_run_holds: "hub_env_ok E v cv \<Longrightarrow> hub_holds E v cv ok h \<Longrightarrow> hub_holds E v cv ok (hub_run E es h)"
  by (rule hub_run_keeps) (simp_all add: hub_step_holds)

lemma hub_run_config [simp]:
  "hr_config (hub_run E es h) = hr_config h" "hr_keypair (hub_run E es h) = hr_keypair h"
  by (induction es arbitrary: h) (simp_all add: hub_run_def)

subsection \<open>The start\<close>

text \<open>A database that a hub may open: its rows lie in the set, decode, and are authentic and
  well-formed (a new database has none).\<close>

definition opened_db ::
  "('db, 'm, 'c, 'w, 'j) hub_env \<Rightarrow> ('db \<Rightarrow> redb_tables) \<Rightarrow> descriptor set \<Rightarrow> 'db \<Rightarrow> bool" where
  "opened_db E v ok db \<longleftrightarrow> (\<forall>k b. tb_desc (v db) k = Some b \<longrightarrow>
     (\<exists>d. desc_dec (he_redb E) b = Ok d \<and> desc_good (he_prims E) d \<and> k = hash_bytes (id_hash d) \<and> d \<in> ok))"

definition opens ::
  "('db, 'm, 'c, 'w, 'j) hub_env \<Rightarrow> ('db \<Rightarrow> redb_tables) \<Rightarrow> descriptor set \<Rightarrow> bool" where
  "opens E v ok \<longleftrightarrow> (\<forall>path db. he_open_redb E path = Ok db \<longrightarrow> opened_db E v ok db)"

lemma build_holds:
  assumes "hub_env_ok E v cv" and "build E c kp = Ok h"
    and "opens E v ok"
    and "policy_within E (hc_policy c) ok" and "own_within E kp ok" and "pr_enabled (hc_peering c) \<Longrightarrow> ok = UNIV"
  shows "hub_holds E v cv ok h \<and> hr_config h = c \<and> hr_keypair h = kp \<and> \<not> hs_poisoned (hr_server h)"
proof -
  obtain path db tdb pm where db: "he_open_redb E path = Ok db" and pm: "hub_peer_manager E c kp = Ok pm"
    and h: "h = \<lparr>hr_config = c, hr_identity = keypair_identity (he_prims E) kp, hr_keypair = kp,
      hr_metrics = metrics_enabled (hc_observability c),
      hr_server = \<lparr>hs_node = hub_node_new E c kp db tdb, hs_peering = pm, hs_poisoned = False\<rparr>\<rparr>"
    using assms(2) by (auto simp: build_def split: sum.splits)
  have o: "opened_db E v ok db" using assms(3) db by (simp add: opens_def)
  have e: "blake3_ok (he_prims E)" "\<And>n. cv (he_new_cache E n) = Map.empty" using assms(1) by (simp_all add: hub_env_ok_def)
  let ?n = "hub_node_new E c kp db tdb"
  have st: "rs_db (cs_inner (dn_store ?n)) = db" "cv (cs_cache (dn_store ?n)) = Map.empty"
    using e(2) by (simp_all add: hub_node_new_def Let_def with_hooks_def with_store_def)
  have "redb_inv (he_prims E) (he_redb E) v (cs_inner (dn_store ?n))"
    using o unfolding redb_inv_def st opened_db_def by blast
  moreover have "database_rows (he_redb E) v (cs_inner (dn_store ?n)) \<subseteq> ok"
    using o unfolding database_rows_def st opened_db_def by fastforce
  ultimately have "store_holds E v cv ok (dn_store ?n)"
    by (simp add: store_holds_def storage_ok_def cached_inv_def contents_def cached_rows_def st)
  moreover have "node_ok (he_prims E) ?n"
    using node_ok_with_store [OF e(1)] by (simp add: hub_node_new_def Let_def with_hooks_def node_ok_def)
  ultimately have "node_holds E v cv (hc_policy c) ok ?n"
    by (simp add: node_holds_def hub_node_new_def Let_def with_hooks_def with_store_def)
  moreover have "pm \<noteq> None \<longrightarrow> ok = UNIV"
    using pm assms(6) by (auto simp: hub_peer_manager_def split: if_splits sum.splits)
  ultimately show ?thesis using assms(4,5) by (simp add: h hub_holds_def server_holds_def)
qed

lemma run_start_holds:
  assumes "hub_env_ok E v cv" and "hub_holds E v cv ok h" and "run_start E ck now clk h w = Ok (h', w')"
  shows "hub_holds E v cv ok h' \<and> hr_config h' = hr_config h \<and> hr_keypair h' = hr_keypair h \<and>
     hs_poisoned (hr_server h') = hs_poisoned (hr_server h)"
proof -
  have p: "policy_within E (hc_policy (hr_config h)) ok" and o: "own_within E (hr_keypair h) ok"
    and s: "server_holds E v cv (hc_policy (hr_config h)) ok (hr_server h)"
    using assms(2) by (simp_all add: hub_holds_def)
  obtain srv2 w2 where b: "bootstrap_hub E (pr_seed_peers (hc_peering (hr_config h))) (advertise E False ck (hr_server h)) w =
      (srv2, w2)" by (rule prod.exhaust)
  note s1 = advertise_holds [OF assms(1) p s, of False ck]
  note s2 = bootstrap_hub_holds [OF assms(1) conjunct1 [OF s1] b]
  note s3 = seed_hub_holds [OF assms(1) o conjunct1 [OF s2]]
  have "h' = h\<lparr>hr_server := (case hub_seed_entries E (hr_config h) of None \<Rightarrow> srv2
      | Some es \<Rightarrow> seed_hub E (hr_keypair h) es now clk srv2)\<rparr>"
    using assms(3) b by (auto simp: run_start_def Let_def split: sum.splits)
  then show ?thesis using p o s1 s2 s3 by (auto simp: hub_holds_def split: option.split)
qed

subsection \<open>What a hub hands out\<close>

lemma answer_find_value:
  assumes "hub_env_ok E v cv" and "server_holds E v cv c ok srv" and "msg_type fr = MSG_FIND_VALUE"
    and "answer_request (he_prims E) (he_codec E) (he_redb E) (he_cache E) ck h srv fr peer = (Some fr', srv')"
  obtains m r b where "from_cbor_find_value (he_codec E) (body fr) = Ok m" and "to_cbor (he_codec E) (WFindValueResult r) = Ok b"
    and "fr' = frame_response fr MSG_FIND_VALUE_RESULT b"
    and "\<And>ds. fvr_descriptors r = Some ds \<Longrightarrow> length ds \<le> unat (fv_max_results m) \<and> length ds \<le> 20 \<and>
      (\<forall>d \<in> set ds. d \<in> ok \<and> authentic (he_prims E) d \<and> well_formed d \<and> filter_matches (fv_filters m) d)"
proof -
  let ?n = "at_instant ck (hs_node srv)"
  have n: "node_holds E v cv c ok ?n" using assms(2) by (simp add: server_holds_def)
  have live: "\<not> hs_poisoned srv" using assms(4) by (auto simp: answer_request_def)
  let ?m = "the (decoded (from_cbor_find_value (he_codec E) (body fr)))"
  note eq = answer_request_eq [OF live, of "he_prims E" "he_codec E" "he_redb E" "he_cache E" ck h fr peer, unfolded assms(4)]
  have let_in: "peer \<noteq> None \<and> peer = claimed_sender (he_codec E) fr"
    by (rule ccontr) (use eq in \<open>simp only: if_False prod.inject option.distinct simp_thms\<close>)
  then have "respond (he_codec E) srv fr MSG_FIND_VALUE_RESULT
      (outcome (he_prims E) (he_codec E) (he_redb E) (he_cache E) ck h ?n fr) = (Some fr', srv')"
    using eq [unfolded if_P [OF let_in]] assms(3) by (simp add: msg_type_defs)
  then obtain r n' b where h: "handle_find_value (he_prims E) (he_backend E) ?n ?m (ck_table ck) (ck_store ck) = Some (r, n')"
    and b: "to_cbor (he_codec E) (WFindValueResult r) = Ok b" "fr' = frame_response fr MSG_FIND_VALUE_RESULT b"
    using assms(3) by (auto simp: outcome_def msg_type_defs dest!: respond_Some)
  obtain m where m: "from_cbor_find_value (he_codec E) (body fr) = Ok m" "?m = m"
    using let_in assms(3) by (cases "from_cbor_find_value (he_codec E) (body fr)") (auto simp: claimed_sender_def msg_type_defs)
  have "length ds \<le> unat (fv_max_results m) \<and> length ds \<le> 20 \<and>
      (\<forall>d \<in> set ds. d \<in> ok \<and> authentic (he_prims E) d \<and> well_formed d \<and> filter_matches (fv_filters m) d)"
    if "fvr_descriptors r = Some ds" for ds
    using handle_find_value_answers [OF h [unfolded m(2)] that] n
      store_holds_get [OF assms(1) node_holds_store [OF n] prod.collapse [symmetric]]
    by (auto simp: node_holds_def dht_config_default_def)
  then show thesis using that m(1) b by blast
qed

lemma hub_find_value:
  assumes "hub_env_ok E v cv" and "server_holds E v cv c ok srv" and "msg_type fr = MSG_FIND_VALUE"
    and "handle_protocol_request (he_prims E) (he_codec E) (he_redb E) (he_cache E) ck srv fr peer = (Some fr', srv')"
  obtains m r b where "from_cbor_find_value (he_codec E) (body fr) = Ok m" and "to_cbor (he_codec E) (WFindValueResult r) = Ok b"
    and "fr' = frame_response fr MSG_FIND_VALUE_RESULT b"
    and "\<And>ds. fvr_descriptors r = Some ds \<Longrightarrow> length ds \<le> unat (fv_max_results m) \<and> length ds \<le> 20 \<and>
      (\<forall>d \<in> set ds. d \<in> ok \<and> authentic (he_prims E) d \<and> well_formed d \<and> filter_matches (fv_filters m) d)"
proof -
  obtain h srv1 where pc: "peer_hub_check (he_prims E) (he_redb E) (he_cache E) ck srv peer = (h, srv1)"
    by (rule prod.exhaust)
  have live: "\<not> hs_poisoned srv" using assms(4) by (auto simp: handle_protocol_request_def)
  have "server_holds E v cv c ok srv1" using peer_hub_check_holds [OF assms(1,2) pc] by simp
  from answer_find_value [OF assms(1) this assms(3) assms(4) [unfolded handle_protocol_request_steps(1) [OF live pc]]] that
  show thesis .
qed

lemma opened_db_again:
  assumes "hub_env_ok E v cv" and "server_holds E v cv c ok srv"
  shows "opened_db E v ok (server_db srv)"
proof -
  have s: "store_holds E v cv ok (dn_store (hs_node srv))" using assms(2) by (simp add: server_holds_def node_holds_def)
  have "d \<in> ok" if "tb_desc (v (server_db srv)) k = Some b" "desc_dec (he_redb E) b = Ok d" for k b d
    using s that by (auto simp: store_holds_def contents_def database_rows_def server_db_def)
  moreover have "\<exists>d. desc_dec (he_redb E) b = Ok d \<and> desc_good (he_prims E) d \<and> k = hash_bytes (id_hash d)"
    if "tb_desc (v (server_db srv)) k = Some b" for k b
    using s that by (auto simp: store_holds_def storage_ok_def cached_inv_def redb_inv_def server_db_def)
  ultimately show ?thesis unfolding opened_db_def by blast
qed

text \<open>The descriptors that the blocklists of a policy let pass.\<close>

definition unblocked :: "prims \<Rightarrow> policy_config \<Rightarrow> descriptor \<Rightarrow> bool" where
  "unblocked P c d \<longleftrightarrow> did P (publisher d) \<notin> set (blocked_identities c) \<and>
     (\<forall>rk \<in> set (routing_keys d). hex_encode P (digest rk) \<notin> set (blocked_routing_keys c))"

text \<open>A hub hands out valid descriptors only: built from any configuration over a database that
  holds valid descriptors (a new one holds none), started, and driven by any sequence of requests
  and rounds of its tasks - with errors of the database at any point, a cache that forgets, peers
  and seeds that answer anything -, it answers a FIND_VALUE with descriptors that their publishers
  signed, that are well-formed and pass the request's filters, at most as many as asked for and
  twenty. The database that it leaves is again one that a hub may open, so this holds across
  restarts.\<close>

theorem hub_always_serves_valid:
  assumes "hub_env_ok E v cv" and "opens E v UNIV"
    and "build E c kp = Ok h0" and "run_start E ck0 now clk h0 w = Ok (h1, w1)"
  shows "opened_db E v UNIV (server_db (hr_server (hub_run E es h1))) \<and>
     (\<forall>ck fr peer fr' srv'. msg_type fr = MSG_FIND_VALUE \<longrightarrow>
       handle_protocol_request (he_prims E) (he_codec E) (he_redb E) (he_cache E) ck (hr_server (hub_run E es h1)) fr peer =
         (Some fr', srv') \<longrightarrow>
       (\<exists>m r b. from_cbor_find_value (he_codec E) (body fr) = Ok m \<and> to_cbor (he_codec E) (WFindValueResult r) = Ok b \<and>
          fr' = frame_response fr MSG_FIND_VALUE_RESULT b \<and>
          (\<forall>ds. fvr_descriptors r = Some ds \<longrightarrow> length ds \<le> unat (fv_max_results m) \<and> length ds \<le> 20 \<and>
             (\<forall>d \<in> set ds. authentic (he_prims E) d \<and> well_formed d \<and> filter_matches (fv_filters m) d))))"
proof -
  have "hub_holds E v cv UNIV h0"
    using build_holds [OF assms(1,3,2)] by (simp add: policy_within_def own_within_def)
  then have "hub_holds E v cv UNIV (hub_run E es h1)"
    using run_start_holds [OF assms(1) _ assms(4)] hub_run_holds [OF assms(1)] by blast
  then have s: "server_holds E v cv (hc_policy (hr_config (hub_run E es h1))) UNIV (hr_server (hub_run E es h1))"
    by (simp add: hub_holds_def)
  show ?thesis
    using opened_db_again [OF assms(1) s] hub_find_value [OF assms(1) s] by (metis (no_types, lifting))
qed

definition own_or_unblocked :: "prims \<Rightarrow> hub_config \<Rightarrow> keypair \<Rightarrow> descriptor set" where
  "own_or_unblocked P c kp = {d. publisher d = keypair_identity P kp \<or> unblocked P (hc_policy c) d}"

text \<open>C7. The blocklists of a hub without peers hold at all times: whatever requests it serves and
  whatever happens to its tenants, the database, the cache and every FIND_VALUE answer contain,
  next to descriptors that the hub published itself (its seeds), none of a blocked identity and
  none under a blocked routing key, if the database contained none when it was opened. With
  peering enabled this is lost: peer hubs and the bootstrap pass the policy over.\<close>

theorem blocklists_hold:
  assumes "hub_env_ok E v cv" and "\<not> pr_enabled (hc_peering c)"
    and "opens E v (own_or_unblocked (he_prims E) c kp)"
    and "build E c kp = Ok h0" and "run_start E ck0 now clk h0 w = Ok (h1, w1)"
  shows "contents (he_redb E) v cv (dn_store (hs_node (hr_server (hub_run E es h1)))) \<subseteq> own_or_unblocked (he_prims E) c kp \<and>
     (\<forall>ck fr peer fr' srv'. msg_type fr = MSG_FIND_VALUE \<longrightarrow>
       handle_protocol_request (he_prims E) (he_codec E) (he_redb E) (he_cache E) ck (hr_server (hub_run E es h1)) fr peer =
         (Some fr', srv') \<longrightarrow>
       (\<exists>r b. to_cbor (he_codec E) (WFindValueResult r) = Ok b \<and> fr' = frame_response fr MSG_FIND_VALUE_RESULT b \<and>
          (\<forall>ds. fvr_descriptors r = Some ds \<longrightarrow> set ds \<subseteq> own_or_unblocked (he_prims E) c kp)))"
proof -
  let ?ok = "own_or_unblocked (he_prims E) c kp"
  have "hub_holds E v cv ?ok h0 \<and> hr_config h0 = c \<and> hr_keypair h0 = kp"
    using build_holds [OF assms(1,4,3)] assms(2)
    by (auto simp: policy_within_def own_within_def own_or_unblocked_def admitted_def unblocked_def)
  then have "hub_holds E v cv ?ok (hub_run E es h1)" "hr_config (hub_run E es h1) = c"
    using run_start_holds [OF assms(1) _ assms(5)] hub_run_holds [OF assms(1)] by auto
  then have s: "server_holds E v cv c' ?ok (hr_server (hub_run E es h1))" if "c' = hc_policy c" for c'
    using that by (simp add: hub_holds_def)
  then have "store_holds E v cv ?ok (dn_store (hs_node (hr_server (hub_run E es h1))))"
    by (simp add: server_holds_def node_holds_def)
  then show ?thesis
    using hub_find_value [OF assms(1) s [OF refl]] unfolding store_holds_def by (metis (no_types, lifting) subsetI)
qed

subsection \<open>Staying up\<close>

text \<open>A request whose target or key, if it has one, is a digest of 32 bytes (in a release build, of
  at least 32). A server that is up: the lock is not poisoned.\<close>

definition full_request :: "prims \<Rightarrow> codec \<Rightarrow> frame \<Rightarrow> bool" where
  "full_request P C fr \<longleftrightarrow> (\<forall>h. requested C fr = Some h \<longrightarrow> full P h)"

fun full_event :: "prims \<Rightarrow> codec \<Rightarrow> 'w hub_event \<Rightarrow> bool" where
  "full_event P C (Request ck fr peer) = full_request P C fr"
| "full_event P C _ = True"

lemma outcome_total:
  assumes "blake3_ok P" and "node_ok P n" and "full_request P C fr" and "claimed_sender C fr \<noteq> None"
  shows "\<exists>m n'. outcome P C R M ck h n fr = Some (m, n')"
proof -
  note total = handlers_total [OF assms(1,2)]
  have full: "msg_type fr = MSG_FIND_NODE \<Longrightarrow> full P (fn_target (the (decoded (from_cbor_find_node C (body fr)))))"
    "msg_type fr = MSG_FIND_VALUE \<Longrightarrow> full P (fv_key (the (decoded (from_cbor_find_value C (body fr)))))"
    using assms(3,4) by (auto simp: full_request_def requested_def claimed_sender_def msg_type_defs)
  consider "msg_type fr = MSG_PING" | "msg_type fr = MSG_STORE" | "msg_type fr = MSG_FIND_NODE" | "msg_type fr = MSG_FIND_VALUE"
    using assms(4) by (auto simp: claimed_sender_def split: if_splits)
  then show ?thesis
  proof cases
    case 1
    then show ?thesis
      using total(1) [of "the (decoded (from_cbor_ping C (body fr)))" "ck_table ck"] by (auto simp: outcome_def)
  next
    case 2
    then show ?thesis
      using total(2) [of "hub_backend P R M" "the (decoded (from_cbor_store C (body fr)))" "ck_table ck" "ck_store ck"]
      by (auto simp: outcome_def Let_def msg_type_defs store_unlimited_def case_prod_unfold)
  next
    case 3
    then show ?thesis using total(3) [OF full(1) [OF 3], of "ck_table ck" "ck_table ck"] by (auto simp: outcome_def msg_type_defs)
  next
    case 4
    then show ?thesis
      using total(4) [OF full(2) [OF 4], of "hub_backend P R M" "ck_table ck" "ck_store ck"] by (auto simp: outcome_def msg_type_defs)
  qed
qed

lemma answer_up:
  assumes "hub_env_ok E v cv" and "server_holds E v cv c UNIV srv" and "\<not> hs_poisoned srv"
    and enc: "\<And>m. is_ok (to_cbor (he_codec E) m)" and full: "full_request (he_prims E) (he_codec E) fr"
    and hp: "answer_request (he_prims E) (he_codec E) (he_redb E) (he_cache E) ck h srv fr peer = (resp, srv')"
  shows "\<not> hs_poisoned srv' \<and> (peer \<noteq> None \<and> peer = claimed_sender (he_codec E) fr \<longrightarrow>
     (\<exists>m b. resp = Some (frame_response fr (msg_type fr OR 0x80) b) \<and> to_cbor (he_codec E) m = Ok b \<and> answers (msg_type fr) m))"
proof -
  let ?n = "at_instant ck (hs_node srv)"
  have n: "blake3_ok (he_prims E)" "node_ok (he_prims E) ?n"
    using assms(1,2) by (simp_all add: hub_env_ok_def server_holds_def node_holds_def at_instant_def)
  note eq = answer_request_eq [OF assms(3), of "he_prims E" "he_codec E" "he_redb E" "he_cache E" ck h fr peer, unfolded hp]
  show ?thesis
  proof (cases "peer \<noteq> None \<and> peer = claimed_sender (he_codec E) fr")
    case True
    then obtain m n' where m: "outcome (he_prims E) (he_codec E) (he_redb E) (he_cache E) ck h ?n fr = Some (m, n')"
      using outcome_total [OF n full] by metis
    obtain b where "to_cbor (he_codec E) m = Ok b" using enc [of m] by (elim is_okE)
    then show ?thesis using eq [unfolded if_P [OF True]] assms(3) m outcome_answers [OF m] by (auto simp: respond_def)
  next
    case False
    then show ?thesis using eq assms(3) by (auto split: if_splits)
  qed
qed

lemma request_up:
  assumes "hub_env_ok E v cv" and "server_holds E v cv c UNIV srv" and "\<not> hs_poisoned srv"
    and enc: "\<And>m. is_ok (to_cbor (he_codec E) m)" and full: "full_request (he_prims E) (he_codec E) fr"
    and hp: "handle_protocol_request (he_prims E) (he_codec E) (he_redb E) (he_cache E) ck srv fr peer = (resp, srv')"
  shows "\<not> hs_poisoned srv' \<and> (peer \<noteq> None \<and> peer = claimed_sender (he_codec E) fr \<longrightarrow>
     (\<exists>m b. resp = Some (frame_response fr (msg_type fr OR 0x80) b) \<and> to_cbor (he_codec E) m = Ok b \<and> answers (msg_type fr) m))"
proof -
  obtain h srv1 where pc: "peer_hub_check (he_prims E) (he_redb E) (he_cache E) ck srv peer = (h, srv1)"
    by (rule prod.exhaust)
  have s1: "server_holds E v cv c UNIV srv1" using peer_hub_check_holds [OF assms(1,2) pc] by simp
  note steps = handle_protocol_request_steps [OF assms(3) pc]
  show ?thesis by (rule answer_up [OF assms(1) s1 steps(2) enc full hp [unfolded steps(1)]])
qed

lemma hub_step_up:
  assumes "hub_env_ok E v cv" and "\<And>m. is_ok (to_cbor (he_codec E) m)" and "full_event (he_prims E) (he_codec E) e"
    and "hub_holds E v cv UNIV h \<and> \<not> hs_poisoned (hr_server h)"
  shows "hub_holds E v cv UNIV (hub_step E e h) \<and> \<not> hs_poisoned (hr_server (hub_step E e h))"
proof
  show "hub_holds E v cv UNIV (hub_step E e h)" using hub_step_holds [OF assms(1)] assms(4) by blast
  have s: "server_holds E v cv (hc_policy (hr_config h)) UNIV (hr_server h)"
    and p: "policy_within E (hc_policy (hr_config h)) UNIV" and o: "own_within E (hr_keypair h) UNIV"
    and up: "\<not> hs_poisoned (hr_server h)"
    using assms(4) by (simp_all add: hub_holds_def)
  show "\<not> hs_poisoned (hr_server (hub_step E e h))"
  proof (cases e)
    case (Request ck fr peer)
    then show ?thesis
      using request_up [OF assms(1) s up assms(2) _ prod.collapse [symmetric]] assms(3) by simp
  next
    case (Advertise locked ck)
    then show ?thesis using advertise_holds [OF assms(1) p s] up by simp
  qed (use up discovery_holds [OF assms(1) s] other_tasks_hold [OF assms(1) s] seed_hub_holds [OF assms(1) o s]
      in \<open>simp_all add: limiter_task_def hub_admin_def Let_def case_prod_unfold split: option.split\<close>)
qed

lemma hub_answers:
  assumes "hub_env_ok E v cv" and "opens E v UNIV"
    and "\<And>m. is_ok (to_cbor (he_codec E) m)"
    and "build E c kp = Ok h0" and "run_start E ck0 now clk h0 w = Ok (h1, w1)"
    and "\<forall>e \<in> set es. full_event (he_prims E) (he_codec E) e"
    and "claimed_sender (he_codec E) fr = Some s" and "full_request (he_prims E) (he_codec E) fr"
  shows "\<not> hs_poisoned (hr_server (hub_run E es h1)) \<and>
     (\<exists>m b srv'. handle_protocol_request (he_prims E) (he_codec E) (he_redb E) (he_cache E) ck (hr_server (hub_run E es h1)) fr (Some s) =
         (Some (frame_response fr (msg_type fr OR 0x80) b), srv') \<and>
       to_cbor (he_codec E) m = Ok b \<and> answers (msg_type fr) m)"
proof -
  have "hub_holds E v cv UNIV h0 \<and> \<not> hs_poisoned (hr_server h0)"
    using build_holds [OF assms(1,4,2)] by (simp add: policy_within_def own_within_def)
  then have "hub_holds E v cv UNIV h1 \<and> \<not> hs_poisoned (hr_server h1)"
    using run_start_holds [OF assms(1) _ assms(5)] by blast
  then have up: "hub_holds E v cv UNIV (hub_run E es h1) \<and> \<not> hs_poisoned (hr_server (hub_run E es h1))"
    using hub_run_keeps [of es "\<lambda>h. hub_holds E v cv UNIV h \<and> \<not> hs_poisoned (hr_server h)" E h1]
      hub_step_up [OF assms(1,3)] assms(6) by blast
  then have s: "server_holds E v cv (hc_policy (hr_config (hub_run E es h1))) UNIV (hr_server (hub_run E es h1))"
    by (simp add: hub_holds_def)
  obtain resp srv' where r: "handle_protocol_request (he_prims E) (he_codec E) (he_redb E) (he_cache E) ck
      (hr_server (hub_run E es h1)) fr (Some s) = (resp, srv')" by (rule prod.exhaust)
  show ?thesis using request_up [OF assms(1) s conjunct2 [OF up] assms(3,8) r] up r assms(7) by auto
qed

text \<open>A hub stays up: over a database of valid descriptors it starts whatever its seed peers answer
  - if the calls to them return -, and as long as the targets and keys of requests have 32 bytes, no sequence of
  requests - malformed or forged, refused or stored -, task rounds, admin calls and database
  errors poisons its lock: it answers every further request whose sender is the peer of the
  connection with the message that belongs to it. (One request with a short target stops it for
  good.)\<close>

theorem hub_stays_up:
  assumes "hub_env_ok E v cv" and "opens E v UNIV"
    and "\<And>m. is_ok (to_cbor (he_codec E) m)"
    and "build E c kp = Ok h0" and "he_bind E (nc_admin_addr (hc_network c)) = Ok ()"
    and "claimed_sender (he_codec E) fr = Some s" and "full_request (he_prims E) (he_codec E) fr"
  shows "\<exists>h1 w1. run_start E ck0 now clk h0 w = Ok (h1, w1) \<and>
     (\<forall>es ck. (\<forall>e \<in> set es. full_event (he_prims E) (he_codec E) e) \<longrightarrow>
       (\<exists>m b srv'. handle_protocol_request (he_prims E) (he_codec E) (he_redb E) (he_cache E) ck (hr_server (hub_run E es h1)) fr (Some s) =
           (Some (frame_response fr (msg_type fr OR 0x80) b), srv') \<and>
         to_cbor (he_codec E) m = Ok b \<and> answers (msg_type fr) m))"
proof -
  have "hr_config h0 = c"
    using build_holds [OF assms(1,4,2)] by (simp add: policy_within_def own_within_def)
  then obtain h1 w1 where r: "run_start E ck0 now clk h0 w = Ok (h1, w1)"
    using assms(5) by (cases "bootstrap_hub E (pr_seed_peers (hc_peering c)) (advertise E False ck0 (hr_server h0)) w")
      (auto simp: run_start_def Let_def)
  then show ?thesis using hub_answers [OF assms(1-4) r _ assms(6,7)] by blast
qed

subsection \<open>The operator token\<close>

lemma hub_admin_create:
  assumes "hc_operator_token (hr_config h) = None" and "sql_error (he_sqlite E) Insert_tenant (as_db (hub_admin_state E h)) = None"
    and "\<forall>t \<in> set (tbl_tenants (as_db (hub_admin_state E h))). t_id t \<noteq> fr_uuid f"
  shows "\<exists>t h'. hub_admin E f (Create_tenant hdr name tier) h = (Some (201, JTenant t), h') \<and> t_name t = name \<and>
     tbl_tenants (as_db (hub_admin_state E h')) = tbl_tenants (as_db (hub_admin_state E h)) @ [t]"
  using assms
  by (auto simp: hub_admin_def admin_create_tenant_def operator_only_def check_operator_token_def create_tenant_def
      exec_def Let_def hub_admin_state_def map_hook_state_def list_ex_iff split: option.split)

text \<open>C36. \<open>security.admin_bearer_token\<close> protects nothing: the admin API compares the token of a request
  with \<open>operator_token\<close> alone, so a hub that is configured with the bearer token only - at any
  time, after any events - creates a tenant for whoever asks, with any authorization header or
  none.\<close>

theorem admin_bearer_token_ignored:
  assumes "build E c kp = Ok h0" and "run_start E ck0 now clk h0 w = Ok (h1, w1)"
    and "admin_bearer_token (hc_security c) = Some secret" and "hc_operator_token c = None"
    and "\<And>db. sql_error (he_sqlite E) Insert_tenant db = None"
    and "\<forall>t \<in> set (tbl_tenants (as_db (hub_admin_state E (hub_run E es h1)))). t_id t \<noteq> fr_uuid f"
  shows "\<exists>t h'. hub_admin E f (Create_tenant hdr name tier) (hub_run E es h1) = (Some (201, JTenant t), h') \<and> t_name t = name \<and>
     t \<in> set (tbl_tenants (as_db (hub_admin_state E h')))"
proof -
  have "hr_config h0 = c" using assms(1) by (auto simp: build_def split: sum.splits)
  moreover have "hr_config h1 = hr_config h0"
    using assms(2) by (auto simp: run_start_def Let_def split: sum.splits prod.splits)
  ultimately have "hc_operator_token (hr_config (hub_run E es h1)) = None" using assms(4) by simp
  from hub_admin_create [OF this assms(5,6), of hdr name tier] show ?thesis by auto
qed

subsection \<open>Witnesses\<close>

text \<open>A hub without peers, over an empty database, whose policy blocks the identity of one publisher and
  which is given the bearer token of the security section only.\<close>

definition demo_find_hub :: find_value where
  "demo_find_hub = \<lparr>fv_sender = demo_peer_id, fv_sender_addr = node_addr_quic ''h:1'', fv_key = zero_id,
     fv_max_results = 5, fv_filters = None\<rparr>"

definition demo_hub_env :: "(demo_db, bytes \<rightharpoonup> descriptor list, unit, socket_addr list, string) hub_env" where
  "demo_hub_env = \<lparr>he_prims = pad_prims,
     he_codec = demo_server_codec\<lparr>from_cbor_find_value := \<lambda>_. Ok demo_find_hub\<rparr>,
     he_metadata = demo_metadata_codec ''8.8.8.8:1'', he_quic = demo_quic, he_redb = demo_redb, he_cache = demo_cache,
     he_json = demo_json, he_sqlite = demo_sqlite, he_parse_uuid = demo_uuid, he_create_dirs = \<lambda>_ _. Ok (),
     he_open_redb = \<lambda>_. Ok (rs_db demo_store0), he_open_tenants = \<lambda>_. Ok empty_db, he_new_cache = \<lambda>_. Map.empty,
     he_bind = \<lambda>_. Ok (), he_load_seed_file = \<lambda>_. Ok [demo_seed], he_metrics_text = ''''\<rparr>"

definition demo_hub_config :: hub_config where
  "demo_hub_config = \<lparr>hc_identity = \<lparr>keypair_path = ''hub.key''\<rparr>,
     hc_network = \<lparr>nc_listen_addr = ''0.0.0.0:4433'', nc_admin_addr = default_admin_addr\<rparr>,
     hc_storage = storage_config_default, hc_tenants = tenant_config_default,
     hc_policy = policy_config_default\<lparr>blocked_identities := [did pad_prims (short_identity 5)]\<rparr>,
     hc_security = security_config_default\<lparr>admin_bearer_token := Some ''secret''\<rparr>, hc_peering = peering_config_default,
     hc_mu_costs = mu_costs_default, hc_observability = observability_config_default,
     hc_seeding = seeding_config_default, hc_operator_token = None, hc_rate_limit = rate_limit_config_default\<rparr>"

definition demo_events :: "socket_addr list hub_event list" where
  "demo_events = [Request demo_clock (frame_new (replicate 16 9) MSG_STORE []) (Some demo_peer_id), Clean_limiter 9, Expire 2500]"

lemma demo_hub_env_sel [simp]:
  "he_prims demo_hub_env = pad_prims" "he_redb demo_hub_env = demo_redb" "he_cache demo_hub_env = demo_cache"
  "he_sqlite demo_hub_env = demo_sqlite" "to_cbor (he_codec demo_hub_env) x = Ok []"
  "he_open_redb demo_hub_env p = Ok (rs_db demo_store0)" "he_open_tenants demo_hub_env p = Ok empty_db"
  "he_create_dirs demo_hub_env p q = Ok ()" "he_bind demo_hub_env p = Ok ()" "he_new_cache demo_hub_env n = Map.empty"
  by (simp_all add: demo_hub_env_def)

lemma demo_hub_env_ok: "hub_env_ok demo_hub_env demo_view id" "opens demo_hub_env demo_view ok"
  using demo_redb_ok demo_cache_ok
  by (simp_all add: hub_env_ok_def opens_def opened_db_def demo_store0_def demo_view_def)

lemma demo_hub_built:
  obtains h where "build demo_hub_env demo_hub_config \<lparr>signing_key = [9]\<rparr> = Ok h"
    and "run_start demo_hub_env demo_clock 0 (\<lambda>_. 0) h [] = Ok (h, [])"
    and "as_db (hub_admin_state demo_hub_env h) = empty_db"
proof -
  have pm: "hub_peer_manager demo_hub_env demo_hub_config kp = Ok None" for kp
    by (simp add: hub_peer_manager_def demo_hub_config_def peering_config_default_def)
  obtain h where h: "build demo_hub_env demo_hub_config \<lparr>signing_key = [9]\<rparr> = Ok h"
    by (simp add: build_def pm)
  have "hr_config h = demo_hub_config" "hs_peering (hr_server h) = None" "as_db (hub_admin_state demo_hub_env h) = empty_db"
    using h by (auto simp: build_def pm hub_admin_state_def hub_node_new_def Let_def with_hooks_def with_store_def)
  moreover have "run_start demo_hub_env demo_clock 0 (\<lambda>_. 0) h [] = Ok (h, [])"
    using calculation(1,2)
    by (simp add: run_start_def advertise_def bootstrap_hub_def hub_seed_entries_def demo_hub_config_def
        seeding_config_default_def)
  ultimately show thesis using that h by blast
qed

lemma demo_hub_requests:
  "claimed_sender (he_codec demo_hub_env) (frame_new i MSG_FIND_VALUE []) = Some demo_peer_id"
  "full_request (he_prims demo_hub_env) (he_codec demo_hub_env) (frame_new i MSG_FIND_VALUE [])"
  "e \<in> set demo_events \<Longrightarrow> full_event (he_prims demo_hub_env) (he_codec demo_hub_env) e"
  by (auto simp: claimed_sender_def full_request_def requested_def msg_type_defs demo_hub_env_def demo_find_hub_def
      demo_events_def zero_id_def full_def)

lemma demo_hub_answers:
  assumes "build demo_hub_env demo_hub_config \<lparr>signing_key = [9]\<rparr> = Ok h"
    and "run_start demo_hub_env demo_clock 0 (\<lambda>_. 0) h [] = Ok (h, [])"
  obtains b srv' where "handle_protocol_request pad_prims (he_codec demo_hub_env) demo_redb demo_cache demo_clock
      (hr_server (hub_run demo_hub_env demo_events h)) (frame_new (replicate 16 8) MSG_FIND_VALUE []) (Some demo_peer_id) =
      (Some (frame_response (frame_new (replicate 16 8) MSG_FIND_VALUE []) MSG_FIND_VALUE_RESULT b), srv')"
  using hub_answers [OF demo_hub_env_ok(1,2) _ assms, of demo_events "frame_new (replicate 16 8) MSG_FIND_VALUE []" demo_peer_id
      demo_clock] demo_hub_requests
  by (auto simp: msg_type_defs)

lemma hub_always_serves_valid_witness:
  "\<exists>h b srv'. build demo_hub_env demo_hub_config \<lparr>signing_key = [9]\<rparr> = Ok h \<and>
     handle_protocol_request pad_prims (he_codec demo_hub_env) demo_redb demo_cache demo_clock
      (hr_server (hub_run demo_hub_env demo_events h)) (frame_new (replicate 16 8) MSG_FIND_VALUE []) (Some demo_peer_id) =
      (Some (frame_response (frame_new (replicate 16 8) MSG_FIND_VALUE []) MSG_FIND_VALUE_RESULT b), srv') \<and>
     (\<exists>m r. from_cbor_find_value (he_codec demo_hub_env) [] = Ok m \<and> to_cbor (he_codec demo_hub_env) (WFindValueResult r) = Ok b \<and>
        (\<forall>ds. fvr_descriptors r = Some ds \<longrightarrow> length ds \<le> unat (fv_max_results m) \<and> (\<forall>d \<in> set ds. authentic pad_prims d))) \<and>
     opened_db demo_hub_env demo_view UNIV (server_db (hr_server (hub_run demo_hub_env demo_events h)))"
proof (rule demo_hub_built)
  fix h
  assume h: "build demo_hub_env demo_hub_config \<lparr>signing_key = [9]\<rparr> = Ok h"
    "run_start demo_hub_env demo_clock 0 (\<lambda>_. 0) h [] = Ok (h, [])"
  obtain b srv' where r: "handle_protocol_request pad_prims (he_codec demo_hub_env) demo_redb demo_cache demo_clock
      (hr_server (hub_run demo_hub_env demo_events h)) (frame_new (replicate 16 8) MSG_FIND_VALUE []) (Some demo_peer_id) =
      (Some (frame_response (frame_new (replicate 16 8) MSG_FIND_VALUE []) MSG_FIND_VALUE_RESULT b), srv')"
    by (rule demo_hub_answers [OF h])
  note T = hub_always_serves_valid [OF demo_hub_env_ok(1,2) h, of demo_events, unfolded demo_hub_env_sel(1-3)]
  have f: "msg_type (frame_new i MSG_FIND_VALUE []) = MSG_FIND_VALUE" "body (frame_new i MSG_FIND_VALUE []) = []" for i by simp_all
  have inj: "b = b'" if "frame_response fr ty b = frame_response fr ty b'" for fr ty b b'
    using that by (metis frame.select_convs(5) frame_response_def)
  from conjunct2 [OF T, rule_format, OF f(1) r] show ?thesis
    using h(1) r conjunct1 [OF T] inj unfolding f(2) by blast
qed

lemma blocklists_hold_witness:
  "\<exists>h. build demo_hub_env demo_hub_config \<lparr>signing_key = [9]\<rparr> = Ok h \<and>
     (\<forall>d \<in> contents demo_redb demo_view id (dn_store (hs_node (hr_server (hub_run demo_hub_env demo_events h)))).
        publisher d = keypair_identity pad_prims \<lparr>signing_key = [9]\<rparr> \<or> did pad_prims (publisher d) \<noteq> did pad_prims (short_identity 5))"
proof (rule demo_hub_built)
  fix h
  assume h: "build demo_hub_env demo_hub_config \<lparr>signing_key = [9]\<rparr> = Ok h"
    "run_start demo_hub_env demo_clock 0 (\<lambda>_. 0) h [] = Ok (h, [])"
  have "\<not> pr_enabled (hc_peering demo_hub_config)" by (simp add: demo_hub_config_def peering_config_default_def)
  from conjunct1 [OF blocklists_hold [OF demo_hub_env_ok(1) this demo_hub_env_ok(2) h, of demo_events]] h(1)
  show ?thesis by (auto simp: own_or_unblocked_def unblocked_def demo_hub_config_def)
qed

lemma hub_stays_up_witness:
  "\<exists>h h1 w1 b srv'. build demo_hub_env demo_hub_config \<lparr>signing_key = [9]\<rparr> = Ok h \<and>
     run_start demo_hub_env demo_clock 0 (\<lambda>_. 0) h [] = Ok (h1, w1) \<and>
     handle_protocol_request pad_prims (he_codec demo_hub_env) demo_redb demo_cache demo_clock
      (hr_server (hub_run demo_hub_env demo_events h1)) (frame_new (replicate 16 8) MSG_FIND_VALUE []) (Some demo_peer_id) =
      (Some (frame_response (frame_new (replicate 16 8) MSG_FIND_VALUE []) MSG_FIND_VALUE_RESULT b), srv')"
proof (rule demo_hub_built)
  fix h
  assume h: "build demo_hub_env demo_hub_config \<lparr>signing_key = [9]\<rparr> = Ok h"
  from hub_stays_up [OF demo_hub_env_ok(1,2) _ h demo_hub_env_sel(9) demo_hub_requests(1,2), of demo_clock 0 "\<lambda>_. 0" "[]"] h demo_hub_requests(3)
  show ?thesis by (fastforce simp: msg_type_defs)
qed

lemma admin_bearer_token_ignored_witness:
  "\<exists>h t h'. build demo_hub_env demo_hub_config \<lparr>signing_key = [9]\<rparr> = Ok h \<and>
     hub_admin demo_hub_env demo_fresh (Create_tenant None ''x'' None) h = (Some (201, JTenant t), h') \<and> t_name t = ''x''"
proof (rule demo_hub_built)
  fix h
  assume h: "build demo_hub_env demo_hub_config \<lparr>signing_key = [9]\<rparr> = Ok h"
    "run_start demo_hub_env demo_clock 0 (\<lambda>_. 0) h [] = Ok (h, [])" "as_db (hub_admin_state demo_hub_env h) = empty_db"
  have "admin_bearer_token (hc_security demo_hub_config) = Some ''secret''" "hc_operator_token demo_hub_config = None"
    by (simp_all add: demo_hub_config_def)
  from admin_bearer_token_ignored [OF h(1,2) this, of "[]" demo_fresh None "''x''" None] h(1,3)
  show ?thesis by (auto simp: hub_run_def empty_db_def)
qed

end
