(* ===== verification/Endpoint.thy ===== *)
theory Endpoint
  imports Frame
begin

section \<open>mesh-transport: certificates, TLS configuration and the endpoint\<close>

text \<open>
  The rest of tls.rs, endpoint.rs and the streams of connection.rs put together. rcgen and rustls
  are the record \<open>tls_lib\<close>: certificates and keys are their DER bytes, a handshake takes the
  client's and the server's configuration and yields the certificate chains that each side sees.
  A configuration holds what the code sets; which certificates the two verifiers of the code
  accept is \<open>verify_client_cert\<close> and \<open>verify_server_cert\<close>. The QUIC library around it (binding a
  socket, streams, closing) enters as results that may be errors. Tasks of concurrent streams
  are served one after another, in any order.
\<close>

subsection \<open>Certificates and configurations (tls.rs)\<close>

definition MESH_ALPN :: bytes where
  "MESH_ALPN = as_bytes ''mesh/0''"

datatype signature_scheme =
    ED25519 | ECDSA_NISTP256_SHA256 | ECDSA_NISTP384_SHA384 | RSA_PSS_SHA256 | RSA_PSS_SHA384 | RSA_PSS_SHA512
  | RSA_PKCS1_SHA256 | RSA_PKCS1_SHA384 | RSA_PKCS1_SHA512

definition supported_schemes :: "signature_scheme list" where
  "supported_schemes =
     [ED25519, ECDSA_NISTP256_SHA256, ECDSA_NISTP384_SHA384, RSA_PSS_SHA256, RSA_PSS_SHA384, RSA_PSS_SHA512,
      RSA_PKCS1_SHA256, RSA_PKCS1_SHA384, RSA_PKCS1_SHA512]"

text \<open>The configuration of one side: its chain and key (PKCS#8), the ALPN protocols, and whether it asks
  for the other side's certificate and insists on it (the server's verifier does; a client always
  checks the server's).\<close>

record tls_config =
  tls_chain :: "bytes list"
  tls_key :: bytes
  tls_offer_client_auth :: bool
  tls_client_auth_mandatory :: bool
  tls_schemes :: "signature_scheme list"
  tls_alpn :: "bytes list"

record ('k, 'p) tls_lib =
  rc_key_pair :: "bytes \<Rightarrow> string + 'k"
  rc_params :: "string list \<Rightarrow> string + 'p"
  rc_self_signed :: "'p \<Rightarrow> 'k \<Rightarrow> string + bytes"
  ru_single_cert :: "bytes list \<Rightarrow> bytes \<Rightarrow> string + unit"
  ru_quic :: "tls_config \<Rightarrow> string + unit"
  ru_handshake :: "tls_config \<Rightarrow> tls_config \<Rightarrow> (bytes list \<times> bytes list) option"

definition generate_self_signed_cert ::
  "prims \<Rightarrow> ('k, 'p) tls_lib \<Rightarrow> keypair \<Rightarrow> transport_error + bytes list \<times> bytes" where
  "generate_self_signed_cert P L kp =
     (let d = did P (keypair_identity P kp);
          pkcs8_der = ed25519_secret_to_pkcs8_der (signing_key kp)
      in case rc_key_pair L pkcs8_der of
           Err e \<Rightarrow> Err (Tls (''keypair from der: '' @ e))
         | Ok key_pair \<Rightarrow>
             (case rc_params L [d] of
                Err e \<Rightarrow> Err (Tls (''cert params: '' @ e))
              | Ok cert_params \<Rightarrow>
                  (case rc_self_signed L cert_params key_pair of
                     Err e \<Rightarrow> Err (Tls (''self-sign: '' @ e))
                   | Ok cert_der \<Rightarrow> Ok ([cert_der], pkcs8_der))))"

definition server_crypto_config ::
  "('k, 'p) tls_lib \<Rightarrow> bytes list \<Rightarrow> bytes \<Rightarrow> transport_error + tls_config" where
  "server_crypto_config L cert_chain key =
     (case ru_single_cert L cert_chain key of
        Err e \<Rightarrow> Err (Tls (''server config: '' @ e))
      | Ok _ \<Rightarrow> Ok \<lparr>tls_chain = cert_chain, tls_key = key, tls_offer_client_auth = True,
                     tls_client_auth_mandatory = True, tls_schemes = supported_schemes, tls_alpn = [MESH_ALPN]\<rparr>)"

definition client_crypto_config ::
  "('k, 'p) tls_lib \<Rightarrow> bytes list \<Rightarrow> bytes \<Rightarrow> transport_error + tls_config" where
  "client_crypto_config L cert_chain key =
     (case ru_single_cert L cert_chain key of
        Err e \<Rightarrow> Err (Tls (''client config: '' @ e))
      | Ok _ \<Rightarrow> Ok \<lparr>tls_chain = cert_chain, tls_key = key, tls_offer_client_auth = False,
                     tls_client_auth_mandatory = False, tls_schemes = supported_schemes, tls_alpn = [MESH_ALPN]\<rparr>)"

subsection \<open>The endpoint (endpoint.rs)\<close>

text \<open>Times in milliseconds.\<close>

record transport_settings =
  max_idle_timeout :: nat
  keep_alive_interval :: nat
  max_concurrent_bidi_streams :: nat
  max_concurrent_uni_streams :: nat
  initial_rtt :: nat

definition mesh_transport_config :: transport_settings where
  "mesh_transport_config = \<lparr>max_idle_timeout = 30000, keep_alive_interval = 10000,
     max_concurrent_bidi_streams = 100, max_concurrent_uni_streams = 0, initial_rtt = 100\<rparr>"

record mesh_endpoint =
  ep_server :: tls_config
  ep_client :: tls_config
  ep_settings :: transport_settings
  ep_local_addr :: string

text \<open>\<open>bound\<close> is what \<open>Endpoint::server\<close> and \<open>local_addr\<close> return for the address: the local address or an
  I/O error.\<close>

definition mesh_endpoint_new ::
  "prims \<Rightarrow> ('k, 'p) tls_lib \<Rightarrow> (string \<Rightarrow> string + string) \<Rightarrow> string \<Rightarrow> keypair \<Rightarrow> transport_error + mesh_endpoint" where
  "mesh_endpoint_new P L bind a kp =
     (case generate_self_signed_cert P L kp of
        Err e \<Rightarrow> Err e
      | Ok (cert_chain, key) \<Rightarrow>
     (case server_crypto_config L cert_chain key of
        Err e \<Rightarrow> Err e
      | Ok server_crypto \<Rightarrow>
     (case client_crypto_config L cert_chain key of
        Err e \<Rightarrow> Err e
      | Ok client_crypto \<Rightarrow>
     (case ru_quic L server_crypto of
        Err e \<Rightarrow> Err (Tls (''quic server config: '' @ e))
      | Ok _ \<Rightarrow>
     (case ru_quic L client_crypto of
        Err e \<Rightarrow> Err (Tls (''quic client config: '' @ e))
      | Ok _ \<Rightarrow>
     (case bind a of
        Err e \<Rightarrow> Err (Io_error e)
      | Ok local \<Rightarrow> Ok \<lparr>ep_server = server_crypto, ep_client = client_crypto,
                        ep_settings = mesh_transport_config, ep_local_addr = local\<rparr>))))))"

text \<open>\<open>connect\<close> of one endpoint to another: the client's connection (the chain it sees) and the server's,
  or the handshake's failure on both sides.\<close>

definition endpoint_connect ::
  "('k, 'p) tls_lib \<Rightarrow> mesh_endpoint \<Rightarrow> mesh_endpoint \<Rightarrow> transport_error + bytes list \<times> bytes list" where
  "endpoint_connect L client server =
     (case ru_handshake L (ep_client client) (ep_server server) of
        None \<Rightarrow> Err (Connection ''handshake failed'')
      | Some seen \<Rightarrow> Ok seen)"

text \<open>The task of one stream: the request is read, the handler answers (or not), the response is sent; a
  handler's answer is sent through the \<open>ResponseSender\<close>, whose error is only logged.\<close>

type_synonym 's request_handler = "frame \<Rightarrow> identity option \<Rightarrow> 's \<Rightarrow> frame option \<times> 's"

definition fresh_stream :: send_stream where
  "fresh_stream = \<lparr>written = [], finished = False, write_fails = None\<rparr>"

definition serve_stream ::
  "'s request_handler \<Rightarrow> identity option \<Rightarrow> send_stream \<times> bytes \<Rightarrow> 's \<Rightarrow> send_stream \<times> 's" where
  "serve_stream handler peer_identity stream s =
     (case stream of (send, recv) \<Rightarrow>
       (case accept_request send recv of
          Err e \<Rightarrow> (send, s)
        | Ok (fr, sender) \<Rightarrow>
            (case handler fr peer_identity s of
               (None, s') \<Rightarrow> (send, s')
             | (Some response, s') \<Rightarrow>
                 (case response_sender_send sender response of
                    (_, Some send') \<Rightarrow> (send', s')
                  | (_, None) \<Rightarrow> (send, s')))))"

text \<open>The task of one connection, and \<open>listen\<close>: incoming connections fail or bring the peer's chain and a
  number of streams.\<close>

fun serve_streams ::
  "'s request_handler \<Rightarrow> identity option \<Rightarrow> (send_stream \<times> bytes) list \<Rightarrow> 's \<Rightarrow> send_stream list \<times> 's" where
  "serve_streams handler peer_identity [] s = ([], s)"
| "serve_streams handler peer_identity (x # xs) s =
     (case serve_stream handler peer_identity x s of (out, s1) \<Rightarrow>
        (case serve_streams handler peer_identity xs s1 of (outs, s2) \<Rightarrow> (out # outs, s2)))"

definition serve_connection ::
  "'s request_handler \<Rightarrow> bytes list option \<Rightarrow> (send_stream \<times> bytes) list \<Rightarrow> 's \<Rightarrow> send_stream list \<times> 's" where
  "serve_connection handler peer_certs streams s =
     serve_streams handler (peer_mesh_identity peer_certs) streams s"

fun listen ::
  "'s request_handler \<Rightarrow> (string + bytes list option \<times> (send_stream \<times> bytes) list) list \<Rightarrow> 's \<Rightarrow>
   send_stream list list \<times> 's" where
  "listen handler [] s = ([], s)"
| "listen handler (Err e # incoming) s = (case listen handler incoming s of (outs, s') \<Rightarrow> ([] # outs, s'))"
| "listen handler (Ok (peer_certs, streams) # incoming) s =
     (case serve_connection handler peer_certs streams s of (out, s1) \<Rightarrow>
        (case listen handler incoming s1 of (outs, s2) \<Rightarrow> (out # outs, s2)))"

subsection \<open>Who is at the other end\<close>

text \<open>What is relied on of rustls: if the server asks for a client certificate and insists on it, the two
  sides have a protocol in common and both accept the signature schemes of the code, then a
  handshake succeeds if both verifiers accept the end certificates and both sides sign, in one of
  these schemes, with a key that fits the subject key of theirs (\<open>proves\<close>); each side then sees the
  other's chain.\<close>

definition handshake_ok :: "('k, 'p) tls_lib \<Rightarrow> (bytes \<Rightarrow> bytes \<Rightarrow> bool) \<Rightarrow> bool" where
  "handshake_ok L proves \<longleftrightarrow>
     (\<forall>c s cc cs sc ss. tls_chain c = cc # cs \<longrightarrow> tls_chain s = sc # ss \<longrightarrow>
        tls_offer_client_auth s \<and> tls_client_auth_mandatory s \<longrightarrow> set (tls_alpn c) \<inter> set (tls_alpn s) \<noteq> {} \<longrightarrow>
        set supported_schemes \<subseteq> set (tls_schemes c) \<inter> set (tls_schemes s) \<longrightarrow>
        verify_server_cert sc \<and> verify_client_cert cc \<and> proves cc (tls_key c) \<and> proves sc (tls_key s) \<longrightarrow>
        ru_handshake L c s = Some (sc # ss, cc # cs))"

text \<open>What is relied on of rcgen for a key pair: the certificate carries its public key after the Ed25519
  pattern of the subject key, with no such pattern before it and the signature behind it, and the
  key pair's PKCS#8 form proves its possession.\<close>

definition certified :: "prims \<Rightarrow> ('k, 'p) tls_lib \<Rightarrow> (bytes \<Rightarrow> bytes \<Rightarrow> bool) \<Rightarrow> keypair \<Rightarrow> bool" where
  "certified P L proves kp \<longleftrightarrow>
     (\<exists>cert pre post. generate_self_signed_cert P L kp = Ok ([cert], ed25519_secret_to_pkcs8_der (signing_key kp)) \<and>
        cert = pre @ spki_pattern @ public_key (keypair_identity P kp) @ post \<and> post \<noteq> [] \<and>
        length (public_key (keypair_identity P kp)) = 32 \<and> (\<forall>j < length pre. \<not> spki_at cert j) \<and>
        proves cert (ed25519_secret_to_pkcs8_der (signing_key kp)))"

lemma certified_cert:
  assumes "certified P L proves kp"
  obtains cert where "generate_self_signed_cert P L kp = Ok ([cert], ed25519_secret_to_pkcs8_der (signing_key kp))"
    and "identity_from_cert_der cert = Some (keypair_identity P kp)" and "verify_client_cert cert" and "verify_server_cert cert"
    and "proves cert (ed25519_secret_to_pkcs8_der (signing_key kp))"
proof -
  obtain cert pre post where c: "generate_self_signed_cert P L kp = Ok ([cert], ed25519_secret_to_pkcs8_der (signing_key kp))"
    "cert = pre @ spki_pattern @ public_key (keypair_identity P kp) @ post" "post \<noteq> []"
    "length (public_key (keypair_identity P kp)) = 32" "\<forall>j < length pre. \<not> spki_at cert j"
    "proves cert (ed25519_secret_to_pkcs8_der (signing_key kp))"
    using assms unfolding certified_def by blast
  have "extract_ed25519_pubkey_from_cert_der cert = Some (public_key (keypair_identity P kp))"
    unfolding c(2) by (rule extract_first) (use c(2-5) in auto)
  then show thesis
    using that c(1,6)
    by (simp add: identity_from_cert_der_def verify_client_cert_def verify_server_cert_def keypair_identity_def)
qed

lemma mesh_endpoint_new_Ok:
  assumes "mesh_endpoint_new P L bind a kp = Ok e" and "generate_self_signed_cert P L kp = Ok (chain, key)"
  shows "tls_chain (ep_server e) = chain \<and> tls_chain (ep_client e) = chain \<and> tls_key (ep_server e) = key \<and>
     tls_key (ep_client e) = key \<and> tls_alpn (ep_server e) = [MESH_ALPN] \<and> tls_alpn (ep_client e) = [MESH_ALPN] \<and>
     tls_offer_client_auth (ep_server e) \<and> tls_client_auth_mandatory (ep_server e) \<and>
     tls_schemes (ep_server e) = supported_schemes \<and> tls_schemes (ep_client e) = supported_schemes"
  using assms by (auto simp: mesh_endpoint_new_def server_crypto_config_def client_crypto_config_def split: sum.splits)

text \<open>Two endpoints that the code sets up connect, and each takes the other for the owner of the key pair it
  was set up with.\<close>

lemma endpoints_authenticate:
  assumes "handshake_ok L proves" and "certified P L proves kp" and "certified P L proves kp'"
    and "mesh_endpoint_new P L bind a kp = Ok client" and "mesh_endpoint_new P L bind' a' kp' = Ok server"
  obtains seen_by_client seen_by_server where "endpoint_connect L client server = Ok (seen_by_client, seen_by_server)"
    and "peer_mesh_identity (Some seen_by_client) = Some (keypair_identity P kp')"
    and "peer_mesh_identity (Some seen_by_server) = Some (keypair_identity P kp)"
proof -
  obtain cert where c: "generate_self_signed_cert P L kp = Ok ([cert], ed25519_secret_to_pkcs8_der (signing_key kp))"
    "identity_from_cert_der cert = Some (keypair_identity P kp)" "verify_client_cert cert"
    "proves cert (ed25519_secret_to_pkcs8_der (signing_key kp))" by (rule certified_cert [OF assms(2)])
  obtain cert' where s: "generate_self_signed_cert P L kp' = Ok ([cert'], ed25519_secret_to_pkcs8_der (signing_key kp'))"
    "identity_from_cert_der cert' = Some (keypair_identity P kp')" "verify_server_cert cert'"
    "proves cert' (ed25519_secret_to_pkcs8_der (signing_key kp'))" by (rule certified_cert [OF assms(3)])
  have "ru_handshake L (ep_client client) (ep_server server) = Some ([cert'], [cert])"
    using assms(1) mesh_endpoint_new_Ok [OF assms(4) c(1)] mesh_endpoint_new_Ok [OF assms(5) s(1)] c(3,4) s(3,4)
    unfolding handshake_ok_def by auto
  then show thesis using that c(2) s(2) by (simp add: endpoint_connect_def peer_mesh_identity_def)
qed

text \<open>The check of the certificates looks at the first pattern only, so a client with a key of its own and a
  certificate for it that carries somebody else's key after an earlier pattern is that somebody.\<close>

lemma impersonated:
  assumes "handshake_ok L proves" and "tls_offer_client_auth s \<and> tls_client_auth_mandatory s" and "set (tls_alpn c) \<inter> set (tls_alpn s) \<noteq> {}"
    and "set supported_schemes \<subseteq> set (tls_schemes c) \<inter> set (tls_schemes s)"
    and "tls_chain s = sc # ss" and "verify_server_cert sc" and "proves sc (tls_key s)"
    and "tls_chain c = (pre @ spki_pattern @ victim @ rest) # cs" and "length victim = 32" and "rest \<noteq> []"
    and "\<And>j. j < length pre \<Longrightarrow> \<not> spki_at (pre @ spki_pattern @ victim @ rest) j"
    and "proves (pre @ spki_pattern @ victim @ rest) (tls_key c)"
  shows "\<exists>seen. ru_handshake L c s = Some (tls_chain s, seen) \<and>
     peer_mesh_identity (Some seen) = Some \<lparr>id_algorithm = ALG_ED25519, public_key = victim\<rparr>"
proof -
  have "extract_ed25519_pubkey_from_cert_der (pre @ spki_pattern @ victim @ rest) = Some victim"
    by (rule extract_first) (use assms(9-11) in auto)
  then have "verify_client_cert (pre @ spki_pattern @ victim @ rest)"
    "identity_from_cert_der (pre @ spki_pattern @ victim @ rest) = Some \<lparr>id_algorithm = ALG_ED25519, public_key = victim\<rparr>"
    by (simp_all add: verify_client_cert_def identity_from_cert_der_def)
  moreover have "ru_handshake L c s = Some (tls_chain s, tls_chain c)"
    using assms(1-8,12) calculation(1) unfolding handshake_ok_def by auto
  ultimately show ?thesis using assms(8) by (simp add: peer_mesh_identity_def)
qed

subsection \<open>A request and its answer on a stream\<close>

text \<open>The exchange of \<open>send_request\<close> with the task of the stream it opens.\<close>

definition exchange :: "'s request_handler \<Rightarrow> identity option \<Rightarrow> 's \<Rightarrow> frame \<Rightarrow> transport_error + frame" where
  "exchange handler peer_identity s fr =
     send_request (Ok fresh_stream) (\<lambda>bs. written (fst (serve_stream handler peer_identity (fresh_stream, bs) s))) fr"

definition too_large :: "nat \<Rightarrow> transport_error" where
  "too_large n = Frame_error (FrameBody (''body too large: '' @ nat_string n @ '' bytes (max '' @ nat_string MAX_FRAME_BODY @ '')''))"

lemma served_request:
  assumes "frame_ok fr" and "length (body fr) \<le> MAX_FRAME_BODY"
  shows "serve_stream handler peer (fresh_stream, to_bytes fr) s =
     (case handler fr peer s of
        (None, s') \<Rightarrow> (fresh_stream, s')
      | (Some r, s') \<Rightarrow> (\<lparr>written = to_bytes r, finished = True, write_fails = None\<rparr>, s'))"
proof -
  have "recv_frame (to_bytes fr @ []) = Ok (fr, [])"
    using recv_to_bytes [OF assms(1), of "[]"] assms(2) by (simp add: MAX_FRAME_BODY_def)
  then show ?thesis
    by (simp add: serve_stream_def accept_request_def response_sender_new_def response_sender_send_def send_frame_def
        fresh_stream_def Let_def split: prod.split option.split)
qed

lemma exchange_answer:
  assumes "frame_ok fr" and "length (body fr) \<le> MAX_FRAME_BODY"
  shows "handler fr peer s = (Some r, s') \<Longrightarrow> frame_ok r \<Longrightarrow> length (body r) < 2 ^ 32 \<Longrightarrow>
      exchange handler peer s fr = (if length (body r) \<le> MAX_FRAME_BODY then Ok r else Err (too_large (length (body r))))"
    and "handler fr peer s = (None, s') \<Longrightarrow> exchange handler peer s fr = Err (ReadExact 0)"
proof -
  have w: "send_frame fresh_stream fr = (Ok (), \<lparr>written = to_bytes fr, finished = True, write_fails = None\<rparr>)"
    by (simp add: send_frame_def fresh_stream_def Let_def)
  show "exchange handler peer s fr = (if length (body r) \<le> MAX_FRAME_BODY then Ok r else Err (too_large (length (body r))))"
    if "handler fr peer s = (Some r, s')" "frame_ok r" "length (body r) < 2 ^ 32"
    using recv_to_bytes [OF that(2,3), of "[]"] that(1)
    by (simp add: exchange_def send_request_def w served_request [OF assms] too_large_def)
  show "exchange handler peer s fr = Err (ReadExact 0)" if "handler fr peer s = (None, s')"
  proof -
    have "recv_frame (written fresh_stream) = Err (ReadExact 0)"
      by (simp add: fresh_stream_def recv_frame_def read_exact_def)
    then show ?thesis using that by (simp add: exchange_def send_request_def w served_request [OF assms])
  qed
qed

end
