(* ===== verification/Wire.thy ===== *)
theory Wire
  imports Hub_System Endpoint
begin

section \<open>A client and a hub on the wire\<close>

text \<open>
  The layers put together: two endpoints that mesh-transport sets up, the streams between them, and
  the hub's listener behind them, which hands every request to \<open>handle_protocol_request\<close> with the
  identity that the certificate of the connection shows.
\<close>

text \<open>The closure that \<open>run\<close> passes to \<open>listen\<close>; \<open>ck\<close> is the clock of this request.\<close>

definition hub_listener ::
  "('db, 'm, 'c, 'w, 'j) hub_env \<Rightarrow> clock \<Rightarrow> ('db, 'm, 'c) hub_server request_handler" where
  "hub_listener E ck fr peer srv =
     handle_protocol_request (he_prims E) (he_codec E) (he_redb E) (he_cache E) ck srv fr peer"

text \<open>An answer of the listener comes back as the frame that it is, if it is small enough.\<close>

lemma listener_exchange:
  assumes "frame_ok fr" and "length (body fr) \<le> MAX_FRAME_BODY"
    and "handle_protocol_request (he_prims E) (he_codec E) (he_redb E) (he_cache E) ck srv fr peer =
      (Some (frame_response fr ty b), srv')"
    and "length b < 2 ^ 32"
  shows "exchange (hub_listener E ck) peer srv fr =
     (if length b \<le> MAX_FRAME_BODY then Ok (frame_response fr ty b) else Err (too_large (length b)))"
proof -
  have "frame_ok (frame_response fr ty b)" using assms(1) by (simp add: frame_ok_def frame_response_def)
  then show ?thesis
    using exchange_answer(1) [OF assms(1,2), of "hub_listener E ck" peer srv "frame_response fr ty b" srv'] assms(3,4)
    by (simp add: hub_listener_def)
qed

text \<open>The server side of a connection of a client with a crafted certificate.\<close>

lemma server_deceived:
  assumes "handshake_ok L proves" and "certified P L proves kp" and "mesh_endpoint_new P L bnd a kp = Ok server"
    and "MESH_ALPN \<in> set (tls_alpn c) \<and> set supported_schemes \<subseteq> set (tls_schemes c)" and "tls_chain c = (pre @ spki_pattern @ victim @ rest) # cs"
    and "length victim = 32" and "rest \<noteq> []"
    and "\<And>j. j < length pre \<Longrightarrow> \<not> spki_at (pre @ spki_pattern @ victim @ rest) j"
    and "proves (pre @ spki_pattern @ victim @ rest) (tls_key c)"
  shows "\<exists>chain seen. ru_handshake L c (ep_server server) = Some (chain, seen) \<and>
     peer_mesh_identity (Some seen) = Some \<lparr>id_algorithm = ALG_ED25519, public_key = victim\<rparr>"
proof -
  obtain cert where k: "generate_self_signed_cert P L kp = Ok ([cert], ed25519_secret_to_pkcs8_der (signing_key kp))"
    "verify_server_cert cert" "proves cert (ed25519_secret_to_pkcs8_der (signing_key kp))"
    by (rule certified_cert [OF assms(2)])
  from mesh_endpoint_new_Ok [OF assms(3) k(1)] show ?thesis
    using impersonated [OF assms(1) _ _ _ _ k(2) _ assms(5-9), of "ep_server server" "[]"] assms(4) k(3) by auto
qed

subsection \<open>Properties\<close>

text \<open>C8. From end to end: a client and a hub whose endpoints the code sets up connect and see each
  other's identity, and whatever happened to the hub before - short of a request with a target or
  key that has not 32 bytes, which can stop it for good, see \<open>short_target_stops_hub\<close> -, a request of
  a body within the limit that the client sends in its own name is answered on its stream:
  \<open>send_request\<close> returns the response frame with the request's id, the type that belongs to it and
  the hub's message as its body, or - the hub does not look at the size of what it sends - the
  error that the body has more than a megabyte. (For bodies of less than four gigabytes, the
  range of the length field.)\<close>

theorem hub_answers_on_the_wire:
  assumes "hub_env_ok E v cv" and "opens E v UNIV" and "\<And>m. is_ok (to_cbor (he_codec E) m)"
    and "handshake_ok L proves" and "certified (he_prims E) L proves kp" and "certified (he_prims E) L proves kp'"
    and "mesh_endpoint_new (he_prims E) L bnd a kp = Ok server" and "mesh_endpoint_new (he_prims E) L bnd' a' kp' = Ok client"
    and "build E c kp = Ok h0" and "run_start E ck0 now clk h0 w = Ok (h1, w1)"
    and "\<forall>e \<in> set es. full_event (he_prims E) (he_codec E) e"
    and "claimed_sender (he_codec E) fr = Some (keypair_identity (he_prims E) kp')" and "full_request (he_prims E) (he_codec E) fr"
    and "frame_ok fr" and "length (body fr) \<le> MAX_FRAME_BODY"
  shows "\<exists>seen_by_client seen_by_server m b. endpoint_connect L client server = Ok (seen_by_client, seen_by_server) \<and>
     peer_mesh_identity (Some seen_by_client) = Some (keypair_identity (he_prims E) kp) \<and>
     peer_mesh_identity (Some seen_by_server) = Some (keypair_identity (he_prims E) kp') \<and>
     to_cbor (he_codec E) m = Ok b \<and> answers (msg_type fr) m \<and>
     (length b < 2 ^ 32 \<longrightarrow>
       exchange (hub_listener E ck) (peer_mesh_identity (Some seen_by_server)) (hr_server (hub_run E es h1)) fr =
         (if length b \<le> MAX_FRAME_BODY then Ok (frame_response fr (msg_type fr OR 0x80) b) else Err (too_large (length b))))"
proof -
  obtain sc ss where s: "endpoint_connect L client server = Ok (sc, ss)"
    "peer_mesh_identity (Some sc) = Some (keypair_identity (he_prims E) kp)"
    "peer_mesh_identity (Some ss) = Some (keypair_identity (he_prims E) kp')"
    by (rule endpoints_authenticate [OF assms(4,6,5,8,7)])
  obtain m b srv' where "handle_protocol_request (he_prims E) (he_codec E) (he_redb E) (he_cache E) ck
      (hr_server (hub_run E es h1)) fr (Some (keypair_identity (he_prims E) kp')) =
      (Some (frame_response fr (msg_type fr OR 0x80) b), srv')"
    and mb: "to_cbor (he_codec E) m = Ok b" "answers (msg_type fr) m"
    using hub_answers [OF assms(1-3,9-13)] by blast
  from listener_exchange [OF assms(14,15) this(1)] show ?thesis using s mb by metis
qed

text \<open>C34. Identities can be borrowed: whoever holds any key with a certificate for it that carries
  somebody else's public key after an earlier Ed25519 pattern (in a name, say) connects to a hub,
  with the protocol and the signature schemes of the code, as that somebody, and the hub answers
  requests in that name.\<close>

theorem hub_serves_impersonator:
  assumes "hub_env_ok E v cv" and "opens E v UNIV" and "\<And>m. is_ok (to_cbor (he_codec E) m)"
    and "handshake_ok L proves" and "certified (he_prims E) L proves kp"
    and "mesh_endpoint_new (he_prims E) L bnd a kp = Ok server"
    and "build E c kp = Ok h0" and "run_start E ck0 now clk h0 w = Ok (h1, w1)"
    and "\<forall>e \<in> set es. full_event (he_prims E) (he_codec E) e"
    and "MESH_ALPN \<in> set (tls_alpn cc) \<and> set supported_schemes \<subseteq> set (tls_schemes cc)" and "tls_chain cc = (pre @ spki_pattern @ victim @ rest) # cs"
    and "length victim = 32" and "rest \<noteq> []"
    and "\<And>j. j < length pre \<Longrightarrow> \<not> spki_at (pre @ spki_pattern @ victim @ rest) j"
    and "proves (pre @ spki_pattern @ victim @ rest) (tls_key cc)"
    and "claimed_sender (he_codec E) fr = Some \<lparr>id_algorithm = ALG_ED25519, public_key = victim\<rparr>"
    and "full_request (he_prims E) (he_codec E) fr"
  shows "\<exists>chain seen m b srv'. ru_handshake L cc (ep_server server) = Some (chain, seen) \<and>
     hub_listener E ck fr (peer_mesh_identity (Some seen)) (hr_server (hub_run E es h1)) =
       (Some (frame_response fr (msg_type fr OR 0x80) b), srv') \<and>
     to_cbor (he_codec E) m = Ok b \<and> answers (msg_type fr) m"
proof -
  obtain chain seen where s: "ru_handshake L cc (ep_server server) = Some (chain, seen)"
    "peer_mesh_identity (Some seen) = Some \<lparr>id_algorithm = ALG_ED25519, public_key = victim\<rparr>"
    using server_deceived [OF assms(4-6,10-15)] by blast
  from hub_answers [OF assms(1-3,7-9,16,17), of ck] show ?thesis
    using s unfolding hub_listener_def by metis
qed

subsection \<open>Witnesses\<close>

text \<open>Certificates of a few bytes: the pattern, the public key and one byte of signature; a key fits a
  certificate that ends so. Handshakes follow the law.\<close>

definition demo_cert :: "bytes \<Rightarrow> bytes" where
  "demo_cert key = [48] @ spki_pattern @ ed_public pad_prims (drop 16 key) @ [0]"

definition demo_proves :: "bytes \<Rightarrow> bytes \<Rightarrow> bool" where
  "demo_proves cert key \<longleftrightarrow> drop (length cert - 41) cert = spki_pattern @ ed_public pad_prims (drop 16 key) @ [0]"

definition demo_tls :: "(bytes, string list) tls_lib" where
  "demo_tls = \<lparr>rc_key_pair = Ok, rc_params = Ok, rc_self_signed = \<lambda>_ key. Ok (demo_cert key),
     ru_single_cert = \<lambda>_ _. Ok (), ru_quic = \<lambda>_. Ok (),
     ru_handshake = \<lambda>c s. if verify_server_cert (hd (tls_chain s)) \<and> verify_client_cert (hd (tls_chain c)) \<and>
         demo_proves (hd (tls_chain c)) (tls_key c) \<and> demo_proves (hd (tls_chain s)) (tls_key s)
         \<and> set (tls_schemes c) \<inter> set (tls_schemes s) \<noteq> {}
       then Some (tls_chain s, tls_chain c) else None\<rparr>"

lemma demo_handshake_ok: "handshake_ok demo_tls demo_proves"
  by (auto simp: handshake_ok_def demo_tls_def supported_schemes_def)

lemma demo_certified: "certified pad_prims demo_tls demo_proves kp"
  unfolding certified_def
proof (intro exI conjI)
  let ?pkcs8 = "ed25519_secret_to_pkcs8_der (signing_key kp)"
  have p: "drop 16 ?pkcs8 = signing_key kp" by (simp add: ed25519_secret_to_pkcs8_der_def)
  show "generate_self_signed_cert pad_prims demo_tls kp = Ok ([demo_cert ?pkcs8], ?pkcs8)"
    by (simp add: generate_self_signed_cert_def demo_tls_def Let_def)
  show "demo_cert ?pkcs8 = [48] @ spki_pattern @ public_key (keypair_identity pad_prims kp) @ [0]"
    by (simp add: demo_cert_def p keypair_identity_def)
  show "demo_proves (demo_cert ?pkcs8) ?pkcs8" by (simp add: demo_proves_def demo_cert_def spki_pattern_def)
  show "\<forall>j < length [48 :: u8]. \<not> spki_at (demo_cert ?pkcs8) j" by (simp add: spki_at_def demo_cert_def spki_pattern_def)
qed (simp_all add: keypair_identity_def)

lemma demo_endpoint:
  obtains e where "mesh_endpoint_new pad_prims demo_tls Ok a kp = Ok e"
  by (simp add: mesh_endpoint_new_def generate_self_signed_cert_def server_crypto_config_def client_crypto_config_def
      demo_tls_def Let_def)

abbreviation demo_frame :: frame where
  "demo_frame \<equiv> frame_new (replicate 16 8) MSG_FIND_VALUE []"

lemma hub_answers_on_the_wire_witness:
  "\<exists>h client server seen_by_client seen_by_server r. build demo_hub_env demo_hub_config \<lparr>signing_key = [9]\<rparr> = Ok h \<and>
     mesh_endpoint_new pad_prims demo_tls Ok ''0.0.0.0:4433'' \<lparr>signing_key = [9]\<rparr> = Ok server \<and>
     mesh_endpoint_new pad_prims demo_tls Ok ''0.0.0.0:0'' \<lparr>signing_key = [1]\<rparr> = Ok client \<and>
     endpoint_connect demo_tls client server = Ok (seen_by_client, seen_by_server) \<and>
     exchange (hub_listener demo_hub_env demo_clock) (peer_mesh_identity (Some seen_by_server))
       (hr_server (hub_run demo_hub_env demo_events h)) demo_frame = Ok r \<and>
     msg_type r = MSG_FIND_VALUE_RESULT \<and> msg_id r = replicate 16 8"
proof (rule demo_hub_built)
  fix h
  assume h: "build demo_hub_env demo_hub_config \<lparr>signing_key = [9]\<rparr> = Ok h"
    "run_start demo_hub_env demo_clock 0 (\<lambda>_. 0) h [] = Ok (h, [])"
  obtain server where server: "mesh_endpoint_new pad_prims demo_tls Ok ''0.0.0.0:4433'' \<lparr>signing_key = [9]\<rparr> = Ok server"
    by (rule demo_endpoint)
  obtain client where client: "mesh_endpoint_new pad_prims demo_tls Ok ''0.0.0.0:0'' \<lparr>signing_key = [1]\<rparr> = Ok client"
    by (rule demo_endpoint)
  have "to_cbor (he_codec demo_hub_env) m = Ok b \<Longrightarrow> b = []" for m b by simp
  then show ?thesis
    using hub_answers_on_the_wire [OF demo_hub_env_ok(1,2) _ demo_handshake_ok, unfolded demo_hub_env_sel(1),
        OF _ demo_certified demo_certified server client h, of demo_events demo_frame demo_clock]
      demo_hub_requests h(1) server client
    by (fastforce simp: demo_peer_id_def MAX_FRAME_BODY_def msg_type_defs)
qed

lemma hub_serves_impersonator_witness:
  "\<exists>h server chain seen b srv'. build demo_hub_env demo_hub_config \<lparr>signing_key = [9]\<rparr> = Ok h \<and>
     mesh_endpoint_new pad_prims demo_tls Ok ''0.0.0.0:4433'' \<lparr>signing_key = [9]\<rparr> = Ok server \<and>
     ru_handshake demo_tls \<lparr>tls_chain = [[48] @ spki_pattern @ public_key demo_peer_id @ demo_cert (replicate 17 66)],
       tls_key = replicate 17 66, tls_offer_client_auth = False, tls_client_auth_mandatory = False,
       tls_schemes = supported_schemes, tls_alpn = [MESH_ALPN]\<rparr> (ep_server server) = Some (chain, seen) \<and>
     hub_listener demo_hub_env demo_clock demo_frame (peer_mesh_identity (Some seen))
       (hr_server (hub_run demo_hub_env demo_events h)) = (Some (frame_response demo_frame MSG_FIND_VALUE_RESULT b), srv')"
proof (rule demo_hub_built)
  fix h
  assume h: "build demo_hub_env demo_hub_config \<lparr>signing_key = [9]\<rparr> = Ok h"
    "run_start demo_hub_env demo_clock 0 (\<lambda>_. 0) h [] = Ok (h, [])"
  obtain server where server: "mesh_endpoint_new pad_prims demo_tls Ok ''0.0.0.0:4433'' \<lparr>signing_key = [9]\<rparr> = Ok server"
    by (rule demo_endpoint)
  let ?rest = "demo_cert (replicate 17 66)"
  let ?cert = "[48] @ spki_pattern @ public_key demo_peer_id @ ?rest"
  let ?c = "\<lparr>tls_chain = [?cert], tls_key = replicate 17 66, tls_offer_client_auth = False, tls_client_auth_mandatory = False,
     tls_schemes = supported_schemes, tls_alpn = [MESH_ALPN]\<rparr>"
  have v: "length (public_key demo_peer_id) = 32" "?rest \<noteq> []" "MESH_ALPN \<in> set (tls_alpn ?c) \<and> set supported_schemes \<subseteq> set (tls_schemes ?c)" "tls_chain ?c = ?cert # []"
    by (simp_all add: demo_peer_id_def keypair_identity_def demo_cert_def)
  have j: "\<not> spki_at ?cert j" if "j < length [48 :: u8]" for j
    using that by (simp add: spki_at_def spki_pattern_def)
  have k: "demo_proves ?cert (tls_key ?c)"
    using v(1) by (simp add: demo_proves_def demo_cert_def spki_pattern_def)
  have i: "demo_peer_id = \<lparr>id_algorithm = ALG_ED25519, public_key = public_key demo_peer_id\<rparr>"
    by (simp add: demo_peer_id_def keypair_identity_def)
  show ?thesis
    using hub_serves_impersonator [OF demo_hub_env_ok(1,2) _ demo_handshake_ok, unfolded demo_hub_env_sel(1),
        OF _ demo_certified server h _ v(3,4,1,2) j k, of demo_events demo_frame demo_clock]
      demo_hub_requests h(1) server i
    by (fastforce simp: msg_type_defs)
qed

end
