(* ===== verification/Metrics.thy ===== *)
theory Metrics
  imports Hub_System
begin

section \<open>mesh-hub: metrics\<close>

text \<open>
  metrics.rs and the two places that record: \<open>handle_protocol_request\<close> after it has computed a
  response, and the hook when the limiter refuses (\<open>hub_pre_store\<close>, into the family of counters
  \<open>hk_rate_limited\<close> that the hook shares with the metrics). Counters and gauges are 64 bits wide; a histogram is the list of its upper bounds and of
  the durations observed, in microseconds. The registry and its text form are prometheus_client's.
\<close>

record histogram =
  upper_bounds :: "nat list"
  observations :: "nat list"

definition histogram_new :: "nat list \<Rightarrow> histogram" where
  "histogram_new bs = \<lparr>upper_bounds = bs, observations = []\<rparr>"

definition observe :: "nat \<Rightarrow> histogram \<Rightarrow> histogram" where
  "observe x h = h\<lparr>observations := observations h @ [x]\<rparr>"

definition exponential_buckets :: "nat \<Rightarrow> nat \<Rightarrow> nat \<Rightarrow> nat list" where
  "exponential_buckets start factor n = map (\<lambda>i. start * factor ^ i) [0..<n]"

record hub_metrics =
  stores_total :: u64
  queries_total :: u64
  store_duration_seconds :: histogram
  query_duration_seconds :: histogram
  descriptors_total :: "64 word"
  evictions_total :: u64
  peers_connected :: "64 word"
  gossip_rounds_total :: u64
  rate_limited_total :: "string \<rightharpoonup> u64"
  connections_active :: "64 word"

definition hub_metrics_new :: hub_metrics where
  "hub_metrics_new =
     \<lparr>stores_total = 0, queries_total = 0,
      store_duration_seconds = histogram_new (exponential_buckets 100 2 18),
      query_duration_seconds = histogram_new (exponential_buckets 100 2 18),
      descriptors_total = 0, evictions_total = 0, peers_connected = 0, gossip_rounds_total = 0,
      rate_limited_total = Map.empty, connections_active = 0\<rparr>"

definition record_store :: "nat \<Rightarrow> hub_metrics \<Rightarrow> hub_metrics" where
  "record_store duration m =
     m\<lparr>stores_total := stores_total m + 1, store_duration_seconds := observe duration (store_duration_seconds m)\<rparr>"

definition record_query :: "nat \<Rightarrow> hub_metrics \<Rightarrow> hub_metrics" where
  "record_query duration m =
     m\<lparr>queries_total := queries_total m + 1, query_duration_seconds := observe duration (query_duration_seconds m)\<rparr>"

definition set_descriptor_count :: "64 word \<Rightarrow> hub_metrics \<Rightarrow> hub_metrics" where
  "set_descriptor_count n m = m\<lparr>descriptors_total := n\<rparr>"

definition set_peers_connected :: "64 word \<Rightarrow> hub_metrics \<Rightarrow> hub_metrics" where
  "set_peers_connected n m = m\<lparr>peers_connected := n\<rparr>"

subsection \<open>Where the hub records\<close>

text \<open>The end of \<open>handle_protocol_request\<close>; a request without a response has returned before.\<close>

definition record_request :: "frame \<Rightarrow> frame option \<Rightarrow> nat \<Rightarrow> hub_metrics \<Rightarrow> hub_metrics" where
  "record_request fr response elapsed m =
     (if response = None then m
      else if msg_type fr = MSG_STORE then record_store elapsed m
      else if msg_type fr = MSG_FIND_VALUE then record_query elapsed m
      else m)"

text \<open>The family of rate-limit counters is the hook's: both hold the same one.\<close>

abbreviation hook_of :: "('db, 'm, 'c) hub_server \<Rightarrow> hub_hook_state" where
  "hook_of srv \<equiv> dn_hook_state (hs_node srv)"

definition with_hook_family :: "('db, 'm, 'c) hub_runtime \<Rightarrow> hub_metrics \<Rightarrow> hub_metrics" where
  "with_hook_family h m =
     (case hk_rate_limited (hook_of (hr_server h)) of
        None \<Rightarrow> m | Some family \<Rightarrow> m\<lparr>rate_limited_total := family\<rparr>)"

text \<open>An event with the time it took: the hook records in the course of the event, the request handler
  what it answered. Metrics are kept if \<open>observability.metrics_enabled\<close> is set (\<open>hr_metrics\<close>).\<close>

fun event_answer :: "('db, 'm, 'c, 'w, 'j) hub_env \<Rightarrow> 'w hub_event \<Rightarrow> ('db, 'm, 'c) hub_runtime \<Rightarrow> (frame \<times> frame option) option" where
  "event_answer E (Request ck fr peer) h =
     Some (fr, fst (handle_protocol_request (he_prims E) (he_codec E) (he_redb E) (he_cache E) ck (hr_server h) fr peer))"
| "event_answer E _ h = None"

definition metered_step ::
  "('db, 'm, 'c, 'w, 'j) hub_env \<Rightarrow> 'w hub_event \<times> nat \<Rightarrow> ('db, 'm, 'c) hub_runtime \<times> hub_metrics \<Rightarrow>
   ('db, 'm, 'c) hub_runtime \<times> hub_metrics" where
  "metered_step E x hm =
     (case (x, hm) of ((e, elapsed), (h, m)) \<Rightarrow>
        let h' = hub_step E e h;
            m1 = with_hook_family h' m;
            m2 = (case event_answer E e h of None \<Rightarrow> m1 | Some (fr, response) \<Rightarrow> record_request fr response elapsed m1)
        in (h', if hr_metrics h then m2 else m))"

definition metered_run ::
  "('db, 'm, 'c, 'w, 'j) hub_env \<Rightarrow> ('w hub_event \<times> nat) list \<Rightarrow> ('db, 'm, 'c) hub_runtime \<times> hub_metrics \<Rightarrow>
   ('db, 'm, 'c) hub_runtime \<times> hub_metrics" where
  "metered_run E es hm = fold (metered_step E) es hm"

subsection \<open>What the metrics count\<close>

definition answers_type :: "u8 \<Rightarrow> (frame \<times> frame option) option \<Rightarrow> bool" where
  "answers_type ty a \<longleftrightarrow> (case a of Some (fr, Some _) \<Rightarrow> msg_type fr = ty | _ \<Rightarrow> False)"

text \<open>The times that the answered requests of one type took, and the number of refusals of the limiter.\<close>

fun answered_times :: "u8 \<Rightarrow> ('db, 'm, 'c, 'w, 'j) hub_env \<Rightarrow> ('w hub_event \<times> nat) list \<Rightarrow> ('db, 'm, 'c) hub_runtime \<Rightarrow> nat list" where
  "answered_times ty E [] h = []"
| "answered_times ty E ((e, elapsed) # es) h =
     (if answers_type ty (event_answer E e h) then [elapsed] else []) @ answered_times ty E es (hub_step E e h)"

text \<open>Whether the limiter refuses a store in an event: the hook is asked for a STORE whose sender is the
  peer of the connection and not a peer hub, and for the advertisement of the hub itself.\<close>

definition over_limit :: "hub_hook_state \<Rightarrow> clock \<Rightarrow> descriptor \<Rightarrow> bool" where
  "over_limit k ck d \<longleftrightarrow> \<not> limiter_allows (hk_limiter k) (publisher d) (ck_instant ck)"

fun refused_store :: "('db, 'm, 'c, 'w, 'j) hub_env \<Rightarrow> 'w hub_event \<Rightarrow> ('db, 'm, 'c) hub_runtime \<Rightarrow> bool" where
  "refused_store E (Request ck fr peer) h =
     (\<not> hs_poisoned (hr_server h) \<and> peer \<noteq> None \<and> peer = claimed_sender (he_codec E) fr \<and> msg_type fr = MSG_STORE \<and>
      \<not> fst (peer_hub_check (he_prims E) (he_redb E) (he_cache E) ck (hr_server h) peer) \<and>
      over_limit (hook_of (hr_server h)) ck
        (store_descriptor_field (the (decoded (from_cbor_store (he_codec E) (body fr))))))"
| "refused_store E (Advertise locked ck) h =
     (case hs_peering (hr_server h) of
        None \<Rightarrow> False
      | Some pm \<Rightarrow> \<not> hs_poisoned (hr_server h) \<and> \<not> locked \<and>
          (case self_advertisement_descriptor (he_prims E) (he_metadata E) pm (ck_hub_ads ck) of
             Err _ \<Rightarrow> False | Ok d \<Rightarrow> over_limit (hook_of (hr_server h)) ck d))"
| "refused_store E _ h = False"

fun refusals :: "('db, 'm, 'c, 'w, 'j) hub_env \<Rightarrow> 'w hub_event list \<Rightarrow> ('db, 'm, 'c) hub_runtime \<Rightarrow> nat" where
  "refusals E [] h = 0"
| "refusals E (e # es) h = (if refused_store E e h then 1 else 0) + refusals E es (hub_step E e h)"

definition counter_of :: "u64 option \<Rightarrow> u64" where
  "counter_of x = (case x of None \<Rightarrow> 0 | Some n \<Rightarrow> n)"

subsection \<open>The hook records the refusals\<close>

definition recorded :: "bool \<Rightarrow> (string \<rightharpoonup> u64) option \<Rightarrow> (string \<rightharpoonup> u64) option" where
  "recorded refused family = (if refused then map_option (record_rate_limited ''store'') family else family)"

lemma recorded_simps [simp]: "recorded False f = f" "recorded b None = None"
  by (simp_all add: recorded_def)

lemma handle_find_value_hook:
  assumes "handle_find_value P B n m t t' = Some (r, n')" and "dn_hooks n = Some (hub_hook P Q c)"
  shows "dn_hook_state n' = dn_hook_state n"
proof -
  obtain n1 where n1: "update_routing_table P n (fv_sender m) (fv_sender_addr m) t = Some n1"
    using assms(1) by (auto simp: handle_find_value_def split: option.splits)
  note keep = update_routing_table_keeps [OF n1]
  show ?thesis
    using assms keep by (auto simp: handle_find_value_def n1 hub_hook_def Let_def split: prod.splits if_splits option.splits)
qed

lemma handle_store_recorded:
  assumes "blake3_ok P" and "node_ok P n" and "dn_hooks n = Some (hub_hook P Q c)" and "handle_store P B n m t t' = Some (r, n')"
  shows "hk_rate_limited (dn_hook_state n') =
     recorded (\<not> limiter_allows (hk_limiter (dn_hook_state n)) (publisher (store_descriptor_field m)) (hk_now (dn_hook_state n)))
       (hk_rate_limited (dn_hook_state n))"
  using assms(4)
  by (auto intro: handle_store_hub [OF assms(1-3), of B m t t'] simp: hub_pre_store_recorded recorded_def)

lemma outcome_recorded:
  assumes "blake3_ok P" and "node_ok P n" and "dn_hooks n = Some (hub_hook P Q c)"
    and "outcome P C R M ck h n fr = Some (m, n')"
  shows "hk_rate_limited (dn_hook_state n') =
     recorded (msg_type fr = MSG_STORE \<and> \<not> h \<and> \<not> limiter_allows (hk_limiter (dn_hook_state n))
        (publisher (store_descriptor_field (the (decoded (from_cbor_store C (body fr)))))) (hk_now (dn_hook_state n)))
       (hk_rate_limited (dn_hook_state n))"
proof -
  consider "msg_type fr = MSG_STORE" | "msg_type fr \<noteq> MSG_STORE" by blast
  then show ?thesis
  proof cases
    case 1
    then have "(if h then Some (store_unlimited P R M n (store_descriptor_field (the (decoded (from_cbor_store C (body fr))))) (ck_store ck))
        else handle_store P (hub_backend P R M) n (the (decoded (from_cbor_store C (body fr)))) (ck_table ck) (ck_store ck)) =
        Some (case m of WStoreAck r \<Rightarrow> r, n')"
      using assms(4) by (auto simp: outcome_def Let_def msg_type_defs)
    then show ?thesis using 1 handle_store_recorded [OF assms(1-3)]
      by (cases h) (auto simp: store_unlimited_def case_prod_unfold Let_def)
  next
    case 2
    then have "dn_hook_state n' = dn_hook_state n"
      using assms(3,4) update_routing_table_keeps(3)
      by (fastforce simp: outcome_def handle_ping_def handle_find_node_def intro: handle_find_value_hook
          split: if_splits option.splits)
    then show ?thesis using 2 by simp
  qed
qed

definition hub_family :: "('db, 'm, 'c) hub_runtime \<Rightarrow> (string \<rightharpoonup> u64) option" where
  "hub_family h = hk_rate_limited (hook_of (hr_server h))"

text \<open>A hub whose node and hook are the configured ones.\<close>

definition hooked :: "('db, 'm, 'c, 'w, 'j) hub_env \<Rightarrow> ('db, 'm, 'c) hub_runtime \<Rightarrow> bool" where
  "hooked E h \<longleftrightarrow> blake3_ok (he_prims E) \<and> node_ok (he_prims E) (hs_node (hr_server h)) \<and>
     dn_hooks (hs_node (hr_server h)) = Some (hub_hook (he_prims E) (he_sqlite E) (hc_policy (hr_config h)))"

lemma hub_holds_hooked: "hub_env_ok E v cv \<Longrightarrow> hub_holds E v cv ok h \<Longrightarrow> hooked E h"
  by (simp add: hooked_def hub_env_ok_def hub_holds_def server_holds_def node_holds_def)

lemma request_recorded:
  assumes "hooked E h"
  shows "hub_family (hub_step E (Request ck fr peer) h) = recorded (refused_store E (Request ck fr peer) h) (hub_family h)"
proof (cases "hs_poisoned (hr_server h)")
  case True
  then show ?thesis by (simp add: hub_family_def poisoned_drops)
next
  case False
  let ?P = "he_prims E" and ?C = "he_codec E" and ?srv = "hr_server h"
  obtain b srv1 where pc: "peer_hub_check ?P (he_redb E) (he_cache E) ck ?srv peer = (b, srv1)" by (rule prod.exhaust)
  obtain st where st: "hs_node srv1 = (hs_node ?srv)\<lparr>dn_store := st\<rparr>"
    by (rule peer_hub_check_node [OF pc]) (rule that)
  let ?n = "at_instant ck (hs_node srv1)"
  have n: "blake3_ok ?P" "node_ok ?P ?n" "dn_hooks ?n = Some (hub_hook ?P (he_sqlite E) (hc_policy (hr_config h)))"
    using assms by (simp_all add: hooked_def at_instant_def st)
  have k: "hk_limiter (dn_hook_state ?n) = hk_limiter (hook_of ?srv)" "hk_now (dn_hook_state ?n) = ck_instant ck"
    "hk_rate_limited (dn_hook_state ?n) = hub_family h" "hk_rate_limited (hook_of srv1) = hub_family h"
    by (simp_all add: at_instant_def st hub_family_def)
  note eq = handle_protocol_request_eq [OF False pc, of ?C fr]
  show ?thesis
  proof (cases "peer \<noteq> None \<and> peer = claimed_sender ?C fr")
    case True
    let ?o = "outcome ?P ?C (he_redb E) (he_cache E) ck b ?n fr"
    have refused: "refused_store E (Request ck fr peer) h \<longleftrightarrow> msg_type fr = MSG_STORE \<and> \<not> b \<and>
        \<not> limiter_allows (hk_limiter (dn_hook_state ?n)) (publisher (store_descriptor_field (the (decoded (from_cbor_store ?C (body fr))))))
          (hk_now (dn_hook_state ?n))"
      using True False pc k by (auto simp: over_limit_def)
    show ?thesis
    proof (cases ?o)
      case None
      have "msg_type fr \<noteq> MSG_STORE"
        using None handlers_total(2) [OF n(1,2), of "he_backend E"
            "the (decoded (from_cbor_store ?C (body fr)))" "ck_table ck" "ck_store ck"]
        by (cases b) (auto simp: outcome_def Let_def msg_type_defs)
      then show ?thesis using True eq None k(4) refused by (simp add: hub_family_def respond_def)
    next
      case (Some mn)
      obtain m n' where mn: "mn = (m, n')" by (rule prod.exhaust)
      have "hk_rate_limited (dn_hook_state n') = recorded (refused_store E (Request ck fr peer) h) (hub_family h)"
        using outcome_recorded [OF n Some [unfolded mn]] unfolding refused k(3) .
      moreover have "hs_node (hr_server (hub_step E (Request ck fr peer) h)) = n'"
        using eq [unfolded if_P [OF True]] Some mn by (simp add: respond_def split: sum.split)
      ultimately show ?thesis by (simp only: hub_family_def)
    qed
  next
    case no: False
    then have "\<not> refused_store E (Request ck fr peer) h" by auto
    then show ?thesis using eq no k(4) unfolding hub_family_def by (simp only: if_False hub_step.simps) simp
  qed
qed

lemma advertise_recorded:
  assumes "hooked E h"
  shows "hk_rate_limited (hook_of (advertise E locked ck (hr_server h))) =
     recorded (refused_store E (Advertise locked ck) h) (hub_family h)"
proof (cases "hs_peering (hr_server h) = None \<or> hs_poisoned (hr_server h) \<or> locked")
  case True
  then show ?thesis by (auto simp: hub_family_def advertise_def split: option.split)
next
  case False
  then obtain pm where pm: "hs_peering (hr_server h) = Some pm" "\<not> hs_poisoned (hr_server h)" "\<not> locked" by auto
  let ?P = "he_prims E" and ?n = "at_instant ck (hs_node (hr_server h))"
  have n: "blake3_ok ?P" "node_ok ?P ?n" "dn_hooks ?n = Some (hub_hook ?P (he_sqlite E) (hc_policy (hr_config h)))"
    using assms by (simp_all add: hooked_def at_instant_def)
  show ?thesis
  proof (cases "self_advertisement_descriptor ?P (he_metadata E) pm (ck_hub_ads ck)")
    case (Inl e)
    then show ?thesis using pm by (simp add: advertise_def publish_self_advertisement_def hub_family_def at_instant_def)
  next
    case (Inr d)
    let ?m = "\<lparr>store_sender = pm_identity pm, store_sender_addr = pm_addr pm, store_descriptor_field = d\<rparr>"
    obtain r n' where h: "handle_store ?P (he_backend E) ?n ?m (ck_table ck) (ck_store ck) = Some (r, n')"
      using handlers_total(2) [OF n(1,2)] by fastforce
    from handle_store_recorded [OF n h] show ?thesis
      using pm Inr h by (simp add: advertise_def publish_self_advertisement_def hub_family_def over_limit_def at_instant_def)
  qed
qed

lemma hub_step_recorded:
  assumes "hooked E h"
  shows "hub_family (hub_step E e h) = recorded (refused_store E e h) (hub_family h)"
proof (cases e)
  case (Request ck fr peer)
  then show ?thesis using request_recorded [OF assms] by simp
next
  case (Advertise locked ck)
  then show ?thesis using advertise_recorded [OF assms, of locked ck] by (simp add: hub_family_def)
qed (auto simp: hub_family_def expiry_task_def limiter_task_def map_hook_state_def discovery_round_def run_discovery_def
    gossip_task_def health_task_def seed_hub_def hub_admin_def Let_def split: option.split prod.split)

lemma bootstrap_seed_recorded: "hs_node (fst (bootstrap_hub E seeds srv w)) =
    (hs_node srv)\<lparr>dn_store := dn_store (hs_node (fst (bootstrap_hub E seeds srv w)))\<rparr>"
  by (simp add: bootstrap_hub_def split: option.split prod.split)

text \<open>The start: the first advertisement is all that asks the hook.\<close>

lemma start_recorded:
  assumes "hooked E h" and "run_start E ck now clk h w = Ok (h1, w1)"
  shows "hub_family h1 = recorded (refused_store E (Advertise False ck) h) (hub_family h)"
proof -
  obtain srv2 w2 where b: "bootstrap_hub E (pr_seed_peers (hc_peering (hr_config h))) (advertise E False ck (hr_server h)) w =
      (srv2, w2)" by (rule prod.exhaust)
  have "hk_rate_limited (hook_of srv2) = hk_rate_limited (hook_of (advertise E False ck (hr_server h)))"
    using arg_cong [OF bootstrap_seed_recorded [of E "pr_seed_peers (hc_peering (hr_config h))" "advertise E False ck (hr_server h)" w],
        of dn_hook_state] by (simp add: b)
  moreover have "hub_family h1 = hk_rate_limited (hook_of srv2)"
    using assms(2) b by (auto simp: run_start_def Let_def hub_family_def seed_hub_def split: sum.splits option.splits)
  ultimately show ?thesis using advertise_recorded [OF assms(1), of False ck] by simp
qed

text \<open>What a family has more than another: \<open>n\<close> stores.\<close>

definition family_counts :: "nat \<Rightarrow> (string \<rightharpoonup> u64) option \<Rightarrow> (string \<rightharpoonup> u64) option \<Rightarrow> bool" where
  "family_counts n x y \<longleftrightarrow>
     (case (x, y) of
        (Some f, Some g) \<Rightarrow> counter_of (g ''store'') = counter_of (f ''store'') + of_nat n \<and> dom g \<subseteq> dom f \<union> {''store''}
      | _ \<Rightarrow> x = None \<and> y = None)"

lemma family_counts_recorded: "family_counts (if b then 1 else 0) f (recorded b f)"
  by (cases f) (auto simp: family_counts_def recorded_def record_rate_limited_def counter_of_def split: option.split)

lemma family_counts_trans:
  "family_counts n x y \<Longrightarrow> family_counts k y z \<Longrightarrow> family_counts (n + k) x z"
  by (auto simp: family_counts_def split: option.splits) blast

lemma hub_run_recorded:
  assumes "hub_env_ok E v cv" and "hub_holds E v cv ok h"
  shows "family_counts (refusals E es h) (hub_family h) (hub_family (hub_run E es h))"
  using assms(2)
proof (induction es arbitrary: h)
  case Nil
  then show ?case using family_counts_recorded [of False "hub_family h"] by (simp add: hub_run_def)
next
  case (Cons e es)
  have "family_counts (if refused_store E e h then 1 else 0) (hub_family h) (hub_family (hub_step E e h))"
    unfolding hub_step_recorded [OF hub_holds_hooked [OF assms(1) Cons.prems]] by (rule family_counts_recorded)
  from family_counts_trans [OF this Cons.IH [OF hub_step_holds [OF assms(1) Cons.prems]]]
  show ?case by (simp add: hub_run_def)
qed

subsection \<open>What the handler records\<close>

text \<open>What one metrics record has more than another, but for the family.\<close>

definition counted :: "nat list \<Rightarrow> nat list \<Rightarrow> hub_metrics \<Rightarrow> hub_metrics \<Rightarrow> bool" where
  "counted ss qs m m' \<longleftrightarrow>
     stores_total m' = stores_total m + of_nat (length ss) \<and> queries_total m' = queries_total m + of_nat (length qs) \<and>
     store_duration_seconds m' = (store_duration_seconds m)\<lparr>observations := observations (store_duration_seconds m) @ ss\<rparr> \<and>
     query_duration_seconds m' = (query_duration_seconds m)\<lparr>observations := observations (query_duration_seconds m) @ qs\<rparr> \<and>
     descriptors_total m' = descriptors_total m \<and> evictions_total m' = evictions_total m \<and>
     peers_connected m' = peers_connected m \<and> gossip_rounds_total m' = gossip_rounds_total m \<and>
     connections_active m' = connections_active m"

lemma counted_refl: "counted [] [] m m"
  by (auto simp: counted_def)

lemma counted_trans:
  "counted ss qs m m1 \<Longrightarrow> counted ss' qs' m1 m2 \<Longrightarrow> counted (ss @ ss') (qs @ qs') m m2"
  unfolding counted_def by simp

lemma counted_family: "counted [] [] m (with_hook_family h m)"
  by (auto simp: counted_def with_hook_family_def split: option.split)

lemma counted_request:
  "counted (if msg_type fr = MSG_STORE \<and> resp \<noteq> None then [t] else []) (if msg_type fr = MSG_FIND_VALUE \<and> resp \<noteq> None then [t] else [])
     m (record_request fr resp t m)"
  by (auto simp: counted_def record_request_def record_store_def record_query_def observe_def msg_type_defs)

lemma metered_step_counted:
  assumes "hr_metrics h"
  shows "counted (if answers_type MSG_STORE (event_answer E e h) then [t] else [])
     (if answers_type MSG_FIND_VALUE (event_answer E e h) then [t] else []) m (snd (metered_step E (e, t) (h, m)))"
proof (cases "event_answer E e h")
  case None
  then show ?thesis using assms counted_family by (simp add: metered_step_def Let_def answers_type_def)
next
  case (Some a)
  obtain fr resp where a: "a = (fr, resp)" by (rule prod.exhaust)
  have "answers_type ty (Some a) \<longleftrightarrow> msg_type fr = ty \<and> resp \<noteq> None" for ty
    by (cases resp) (auto simp: answers_type_def a)
  then show ?thesis
    using assms Some counted_trans [OF counted_family [of m "hub_step E e h"] counted_request [of fr resp t]]
    by (simp only: metered_step_def Let_def a) simp
qed

lemma metered_step_hub [simp]: "fst (metered_step E (e, t) (h, m)) = hub_step E e h"
  by (simp add: metered_step_def Let_def)

lemma record_request_family [simp]: "rate_limited_total (record_request fr resp t m) = rate_limited_total m"
  by (simp add: record_request_def record_store_def record_query_def)

lemma metered_step_family:
  assumes "hr_metrics h" and "hub_family (hub_step E e h) = Some f"
  shows "rate_limited_total (snd (metered_step E (e, t) (h, m))) = f"
  using assms by (simp add: metered_step_def Let_def with_hook_family_def hub_family_def split: option.split prod.split)

lemma metered_run_Cons:
  "metered_run E ((e, t) # es) (h, m) = metered_run E es (hub_step E e h, snd (metered_step E (e, t) (h, m)))"
  by (simp add: metered_run_def) (metis metered_step_hub prod.collapse)

lemma metered_run_counted:
  assumes "hr_metrics h"
  shows "counted (answered_times MSG_STORE E es h) (answered_times MSG_FIND_VALUE E es h) m (snd (metered_run E es (h, m)))"
  using assms
proof (induction es arbitrary: h m)
  case Nil
  then show ?case by (simp add: metered_run_def counted_refl)
next
  case (Cons x es)
  obtain e t where x: "x = (e, t)" by (rule prod.exhaust)
  have "hr_metrics (hub_step E e h)" using Cons.prems by simp
  from counted_trans [OF metered_step_counted [OF Cons.prems] Cons.IH [OF this], of E e t m]
  show ?case by (simp only: x metered_run_Cons answered_times.simps)
qed

lemma metered_run_hub: "fst (metered_run E es (h, m)) = hub_run E (map fst es) h"
proof (induction es arbitrary: h m)
  case (Cons x es)
  then show ?case by (cases x) (simp add: metered_run_Cons hub_run_def)
qed (simp add: metered_run_def hub_run_def)

lemma metered_run_family:
  assumes "hub_env_ok E v cv" and "hub_holds E v cv ok h" and "hr_metrics h" and "hub_family h = Some (rate_limited_total m)"
  shows "hub_family (hub_run E (map fst es) h) = Some (rate_limited_total (snd (metered_run E es (h, m))))"
  using assms(2-4)
proof (induction es arbitrary: h m)
  case (Cons x es)
  obtain e t where x: "x = (e, t)" by (rule prod.exhaust)
  obtain f where f: "hub_family (hub_step E e h) = Some f"
    using hub_step_recorded [OF hub_holds_hooked [OF assms(1) Cons.prems(1)], of e] Cons.prems(3)
    by (cases "refused_store E e h") (simp_all add: recorded_def)
  have "hub_family (hub_step E e h) = Some (rate_limited_total (snd (metered_step E (e, t) (h, m))))"
    using metered_step_family [OF Cons.prems(2) f] f by simp
  from Cons.IH [OF hub_step_holds [OF assms(1) Cons.prems(1)] _ this] Cons.prems(2)
  show ?case by (simp add: x metered_run_Cons hub_run_def)
qed (simp add: metered_run_def hub_run_def)

text \<open>C35. What the metrics of a hub say. Keeping them does not change the hub; built with metrics enabled,
  started and driven by any events, its store and query counters are the numbers, modulo \<open>2^64\<close>, of
  the STORE and FIND_VALUE requests that were answered - an answer that refuses counts, a request
  that gets none does not -, the histograms hold their times, and the rate-limit counter, which
  has the label \<open>store\<close> only, is the number of stores that the limiter refused: those of
  authenticated senders that are not peer hubs, and of the hub's own advertisement, whose publisher
  is over its limit at that moment. The other five metrics that the hub exports - descriptors,
  evictions, connected peers, gossip rounds, connections - are zero for ever, whatever the
  storage holds and whoever is connected.\<close>

theorem metrics_exact:
  assumes "hub_env_ok E v cv" and "opens E v UNIV" and "build E c kp = Ok h0"
    and "run_start E ck0 now clk h0 w = Ok (h1, w1)" and "metrics_enabled (hc_observability c)"
    and "metered_run E es (h1, with_hook_family h1 hub_metrics_new) = (h', m)"
  shows "h' = hub_run E (map fst es) h1 \<and>
     stores_total m = of_nat (length (answered_times MSG_STORE E es h1)) \<and>
     queries_total m = of_nat (length (answered_times MSG_FIND_VALUE E es h1)) \<and>
     observations (store_duration_seconds m) = answered_times MSG_STORE E es h1 \<and>
     observations (query_duration_seconds m) = answered_times MSG_FIND_VALUE E es h1 \<and>
     counter_of (rate_limited_total m ''store'') =
       of_nat ((if refused_store E (Advertise False ck0) h0 then 1 else 0) + refusals E (map fst es) h1) \<and>
     dom (rate_limited_total m) \<subseteq> {''store''} \<and>
     descriptors_total m = 0 \<and> evictions_total m = 0 \<and> peers_connected m = 0 \<and> gossip_rounds_total m = 0 \<and>
     connections_active m = 0"
proof -
  let ?m = "with_hook_family h1 hub_metrics_new"
  have h0: "hub_holds E v cv UNIV h0"
    using build_holds [OF assms(1,3,2)] by (simp add: policy_within_def own_within_def)
  then have h1: "hub_holds E v cv UNIV h1" using run_start_holds [OF assms(1) _ assms(4)] by blast
  have "hr_metrics h0" "hub_family h0 = Some Map.empty"
    using assms(3,5)
    by (auto simp: build_def hub_family_def hub_node_new_def hook_metrics_def Let_def with_hooks_def with_store_def split: sum.splits)
  moreover have "hr_metrics h1 = hr_metrics h0"
    using assms(4) by (auto simp: run_start_def Let_def split: sum.splits prod.splits)
  ultimately have on: "hr_metrics h1" "hub_family h0 = Some Map.empty" by simp_all
  have start: "family_counts (if refused_store E (Advertise False ck0) h0 then 1 else 0) (Some Map.empty) (hub_family h1)"
    unfolding start_recorded [OF hub_holds_hooked [OF assms(1) h0] assms(4)] on(2) by (rule family_counts_recorded)
  then have fam: "hub_family h1 = Some (rate_limited_total ?m)"
    by (auto simp: family_counts_def with_hook_family_def hub_family_def split: option.splits)
  have "hub_family (hub_run E (map fst es) h1) = Some (rate_limited_total m)"
    using metered_run_family [OF assms(1) h1 on(1) fam, of es] assms(6) by simp
  then have "family_counts ((if refused_store E (Advertise False ck0) h0 then 1 else 0) + refusals E (map fst es) h1)
      (Some Map.empty) (Some (rate_limited_total m))"
    using family_counts_trans [OF start hub_run_recorded [OF assms(1) h1, of "map fst es"]] by simp
  moreover have "counted (answered_times MSG_STORE E es h1) (answered_times MSG_FIND_VALUE E es h1) hub_metrics_new m"
    using counted_trans [OF counted_family metered_run_counted [OF on(1), of E es]] assms(6)
    by (metis append_Nil snd_conv)
  ultimately show ?thesis
    using metered_run_hub [of E es h1 ?m] assms(6)
    by (simp add: counted_def family_counts_def hub_metrics_new_def histogram_new_def counter_of_def)
qed

text \<open>A hub whose limiter admits no store refuses the one store it is sent, and counts it.\<close>

definition strict_hub_config :: hub_config where
  "strict_hub_config = demo_hub_config\<lparr>hc_rate_limit := \<lparr>ip_limits = Map.empty, identity_limits = [Op_store \<mapsto> 0], window_secs = 60\<rparr>\<rparr>"

lemma metrics_exact_witness:
  "\<exists>h h' m. build demo_hub_env strict_hub_config \<lparr>signing_key = [9]\<rparr> = Ok h \<and>
     metered_run demo_hub_env [(Request demo_clock (frame_new (replicate 16 8) MSG_STORE []) (Some demo_peer_id), 40)]
       (h, hub_metrics_new) = (h', m) \<and>
     counter_of (rate_limited_total m ''store'') = 1 \<and> stores_total m = 1 \<and>
     observations (store_duration_seconds m) = [40] \<and> queries_total m = 0 \<and> peers_connected m = 0"
proof -
  let ?fr = "frame_new (replicate 16 8) MSG_STORE []"
  let ?es = "[(Request demo_clock ?fr (Some demo_peer_id), 40 :: nat)]"
  have pm: "hub_peer_manager demo_hub_env strict_hub_config kp = Ok None" for kp
    by (simp add: hub_peer_manager_def strict_hub_config_def demo_hub_config_def peering_config_default_def)
  have on: "metrics_enabled (hc_observability strict_hub_config)"
    by (simp add: strict_hub_config_def demo_hub_config_def observability_config_default_def)
  obtain h where h: "build demo_hub_env strict_hub_config \<lparr>signing_key = [9]\<rparr> = Ok h"
    by (simp add: build_def pm)
  have b: "hr_config h = strict_hub_config" "hs_peering (hr_server h) = None" "\<not> hs_poisoned (hr_server h)"
      "hk_limiter (hook_of (hr_server h)) = hub_rate_limiter_new (hc_rate_limit strict_hub_config)"
      "hk_rate_limited (hook_of (hr_server h)) = Some Map.empty"
    using h by (auto simp: build_def pm hub_node_new_def Let_def with_hooks_def with_store_def hook_metrics_def on)
  have start: "run_start demo_hub_env demo_clock 0 (\<lambda>_. 0) h [] = Ok (h, [])"
    using b(1,2) by (simp add: run_start_def advertise_def bootstrap_hub_def hub_seed_entries_def strict_hub_config_def
        demo_hub_config_def seeding_config_default_def)
  have "claimed_sender (he_codec demo_hub_env) ?fr = Some demo_peer_id"
      "full_request (he_prims demo_hub_env) (he_codec demo_hub_env) ?fr"
    by (simp_all add: claimed_sender_def full_request_def requested_def msg_type_defs demo_hub_env_def demo_peer_store_def)
  note q = this
  obtain resp where "event_answer demo_hub_env (Request demo_clock ?fr (Some demo_peer_id)) h = Some (?fr, Some resp)"
    using hub_answers [OF demo_hub_env_ok(1,2) _ h start, of "[]" ?fr demo_peer_id demo_clock] q by (auto simp: hub_run_def)
  then have t: "answered_times MSG_FIND_VALUE demo_hub_env ?es h = []" "answered_times MSG_STORE demo_hub_env ?es h = [40]"
    by (simp_all add: answers_type_def msg_type_defs del: event_answer.simps)
  have over: "over_limit (hook_of (hr_server h)) demo_clock d" for d
    by (simp add: over_limit_def limiter_allows_def b(4) hub_rate_limiter_new_def strict_hub_config_def)
  have n: "refused_store demo_hub_env (Advertise False demo_clock) h = False" "refusals demo_hub_env (map fst ?es) h = 1"
    using b(2,3) q(1) over by (simp_all add: peer_hub_check_def)
  have fam: "with_hook_family h hub_metrics_new = hub_metrics_new"
    by (simp add: with_hook_family_def b(5) hub_metrics_new_def)
  obtain h' ms where run: "metered_run demo_hub_env ?es (h, hub_metrics_new) = (h', ms)" by (rule prod.exhaust)
  then have "counter_of (rate_limited_total ms ''store'') = 1 \<and> stores_total ms = 1 \<and>
      observations (store_duration_seconds ms) = [40] \<and> queries_total ms = 0 \<and> peers_connected ms = 0"
    using metrics_exact [OF demo_hub_env_ok(1,2) h start on, unfolded fam, OF run] t n by simp
  then show ?thesis using h run by blast
qed

end
