(* ===== verification/Hub_Tasks.thy ===== *)
theory Hub_Tasks
  imports Hub_System
begin

section \<open>mesh-hub: tasks that interleave at their locks\<close>

text \<open>
  Hub_Runtime runs every request and every round of a background task in one step. Here the tasks
  of a hub run next to each other as in the code and give way to each other wherever the code
  takes a lock or awaits an answer. A \<open>task\<close> is a point of the program together with the values that
  are live there; \<open>go_next\<close> goes on to the next such point. Two locks matter: the mutex of the
  node is never held over an await, so what happens under it is one step; the async mutex of the
  peer manager is held while a peer is asked, so its holder is part of the state. Nothing says
  when an awaited answer comes: \<^verbatim>\<open>send_request\<close> has no timeout.
\<close>

subsection \<open>The code between two awaits\<close>

text \<open>What \<open>PeerManager::health_check\<close> does with the answer of a peer; \<open>t\<close> is the time read.\<close>

definition pinged ::
  "codec \<Rightarrow> nat \<Rightarrow> string \<Rightarrow> (transport_error + frame) option \<Rightarrow> 'c peer_manager \<Rightarrow> 'c peer_manager" where
  "pinged C t d result pm =
     (case result of
        Some (Ok response) \<Rightarrow>
          if msg_type response = MSG_PONG then
            if is_ok (from_cbor_pong C (body response)) then
              modify_peer d (\<lambda>p. p\<lparr>ps_failures := 0, ps_status := Connected, ps_last_seen := t\<rparr>) pm
            else pm
          else modify_peer d fail_peer pm
      | _ \<Rightarrow> modify_peer d fail_peer pm)"

definition peer_connection :: "'c peer_manager \<Rightarrow> string \<Rightarrow> 'c option" where
  "peer_connection pm d = (case map_of (pm_peers pm) d of None \<Rightarrow> None | Some p \<Rightarrow> ps_connection p)"

text \<open>\<open>PeerManager::connect_to_peer\<close> up to the connection, and what it does with its outcome.\<close>

definition connect_target ::
  "prims \<Rightarrow> (string \<Rightarrow> string + socket_addr) \<Rightarrow> 'c peer_manager \<Rightarrow> identity \<Rightarrow> node_addr \<Rightarrow>
   connect_error + socket_addr option" where
  "connect_target P parse pm i a =
     (if connected_peer_count pm \<ge> pm_max_peers pm then Ok None
      else if (case map_of (pm_peers pm) (did P i) of
                 Some p \<Rightarrow> ps_status p = Connected \<and> ps_connection p \<noteq> None | None \<Rightarrow> False)
      then Ok None
      else (case validate_outbound_addr parse (address a) (pm_allowlist pm) of
              Err e \<Rightarrow> Err (Outbound_rejected e)
            | Ok sa \<Rightarrow> Ok (Some sa)))"

definition connect_done ::
  "string \<Rightarrow> node_addr \<Rightarrow> transport_error + 'c \<Rightarrow> nat \<Rightarrow> 'c peer_manager \<Rightarrow> 'c peer_manager" where
  "connect_done d a result t pm =
     (case result of
        Ok c \<Rightarrow> insert_peer d \<lparr>ps_connection = Some c, ps_addr = a, ps_status = Connected,
                  ps_last_seen = t, ps_failures = 0\<rparr> pm
      | Err e \<Rightarrow> insert_peer d
          (case map_of (pm_peers pm) d of
             Some p \<Rightarrow> p\<lparr>ps_status := Disconnected, ps_failures := ps_failures p + 1\<rparr>
           | None \<Rightarrow> \<lparr>ps_connection = None, ps_addr = a, ps_status = Disconnected,
                      ps_last_seen = t, ps_failures = 1\<rparr>) pm)"

lemma connect_to_peer_parts:
  "connect_to_peer P Q pm i a w =
     (case connect_target P (q_parse Q) pm i a of
        Err e \<Rightarrow> (Err e, pm, w)
      | Ok None \<Rightarrow> (Ok (), pm, w)
      | Ok (Some sa) \<Rightarrow>
          (case q_connect Q sa w of (k, w1) \<Rightarrow>
             (case q_instant Q w1 of (t, w2) \<Rightarrow>
                (case k of Ok c \<Rightarrow> Ok () | Err e \<Rightarrow> Err (Connect_error e), connect_done (did P i) a k t pm, w2))))"
  by (simp add: connect_to_peer_def connect_target_def connect_done_def Let_def split: sum.split prod.split)

subsection \<open>Tasks\<close>

text \<open>The points where a task can be. A request: arrived, and checked (it knows whether it comes from a
  peer hub). The rounds: due, then waiting for a lock, at work, waiting for an answer. The lists are
  what is still to do. In a gossip round the first list is the batch, the second what is left of
  it for the first of the peers.\<close>

datatype 'c task =
    Arrived clock frame "identity option"
  | Checked bool clock frame "identity option"
  | Health_due
  | Health_round "string list"
  | Health_waits string "string list"
  | Gossip_due
  | Gossip_wants "descriptor list"
  | Gossip_round "descriptor list" "descriptor list" u32 "string list"
  | Gossip_waits "descriptor list" "descriptor list" u32 "string list"
  | Discover_due
  | Discover_parse "descriptor list"
  | Discover_next "(identity \<times> node_addr \<times> hub_metadata) list"
  | Discover_connect identity node_addr "(identity \<times> node_addr \<times> hub_metadata) list"
  | Discover_waits identity node_addr "(identity \<times> node_addr \<times> hub_metadata) list"
  | Advertise_due
  | Advertise_store store_msg

text \<open>Tasks whose next step takes the lock of the peer manager, those that hold it, and those that wait
  for the network.\<close>

fun wants :: "'c task \<Rightarrow> bool" where
  "wants (Arrived ck fr peer) = (peer \<noteq> None)"
| "wants Health_due = True"
| "wants (Gossip_wants ds) = True"
| "wants (Discover_parse ads) = True"
| "wants (Discover_next found) = (found \<noteq> [])"
| "wants (Discover_connect i a found) = True"
| "wants _ = False"

fun holds :: "'c task \<Rightarrow> bool" where
  "holds (Health_round ds) = True"
| "holds (Health_waits d ds) = True"
| "holds (Gossip_round batch rest k ds) = True"
| "holds (Gossip_waits batch rest k ds) = True"
| "holds (Discover_waits i a found) = True"
| "holds _ = False"

fun awaits :: "'c task \<Rightarrow> bool" where
  "awaits (Health_waits d ds) = True"
| "awaits (Gossip_waits batch rest k ds) = True"
| "awaits (Discover_waits i a found) = True"
| "awaits _ = False"

text \<open>What a step gets from outside - clock readings and a fresh message id, or what was awaited - and
  what it does to the outside.\<close>

datatype 'c input =
    Go clock bytes
  | Answer "transport_error + frame" nat
  | Connection "transport_error + 'c" nat

datatype 'c effect = Silent | Asks 'c frame | Connects socket_addr | Responds frame | Drops

definition set_peering ::
  "'c peer_manager \<Rightarrow> ('db, 'm, 'c) hub_runtime \<Rightarrow> ('db, 'm, 'c) hub_runtime" where
  "set_peering pm h = h\<lparr>hr_server := (hr_server h)\<lparr>hs_peering := Some pm\<rparr>\<rparr>"

definition set_node ::
  "('db, 'm) hub_node \<Rightarrow> ('db, 'm, 'c) hub_runtime \<Rightarrow> ('db, 'm, 'c) hub_runtime" where
  "set_node n h = h\<lparr>hr_server := (hr_server h)\<lparr>hs_node := n\<rparr>\<rparr>"

text \<open>A step of a peering task; without a peer manager there is none.\<close>

definition with_peering ::
  "('db, 'm, 'c) hub_runtime \<Rightarrow> ('c peer_manager \<Rightarrow> 'c effect \<times> 'c task option \<times> ('db, 'm, 'c) hub_runtime) \<Rightarrow>
   'c effect \<times> 'c task option \<times> ('db, 'm, 'c) hub_runtime" where
  "with_peering h f = (case hs_peering (hr_server h) of None \<Rightarrow> (Silent, None, h) | Some pm \<Rightarrow> f pm)"

text \<open>The steps: what the code does from one such point to the next. Each gives its effect, where the task
  is then (\<open>None\<close>: it is over), and the hub; a panic at the poisoned lock ends the task. First a
  request: the check of its sender, under the lock of the peer manager, and the handler.\<close>

type_synonym ('db, 'm, 'c) step = "'c effect \<times> 'c task option \<times> ('db, 'm, 'c) hub_runtime"

definition request_check ::
  "('db, 'm, 'c, 'w, 'j) hub_env \<Rightarrow> clock \<Rightarrow> frame \<Rightarrow> identity option \<Rightarrow> ('db, 'm, 'c) hub_runtime \<Rightarrow> ('db, 'm, 'c) step" where
  "request_check E ck fr peer h =
     (if hs_poisoned (hr_server h) then (Drops, None, h)
      else (case peer_hub_check (he_prims E) (he_redb E) (he_cache E) ck (hr_server h) peer of
              (hub, srv) \<Rightarrow> (Silent, Some (Checked hub ck fr peer), h\<lparr>hr_server := srv\<rparr>)))"

definition request_answer ::
  "('db, 'm, 'c, 'w, 'j) hub_env \<Rightarrow> bool \<Rightarrow> clock \<Rightarrow> frame \<Rightarrow> identity option \<Rightarrow> ('db, 'm, 'c) hub_runtime \<Rightarrow>
   ('db, 'm, 'c) step" where
  "request_answer E hub ck fr peer h =
     (case answer_request (he_prims E) (he_codec E) (he_redb E) (he_cache E) ck hub (hr_server h) fr peer of
        (resp, srv) \<Rightarrow> (case resp of Some r \<Rightarrow> Responds r | None \<Rightarrow> Drops, None, h\<lparr>hr_server := srv\<rparr>))"

text \<open>A health check: the list of peers, then for each the PING (over its connection, if there is one)
  and its answer.\<close>

definition health_begin :: "('db, 'm, 'c) hub_runtime \<Rightarrow> ('db, 'm, 'c) step" where
  "health_begin h = with_peering h (\<lambda>pm.
     (Silent, Some (Health_round (map fst (filter (\<lambda>(d, p). ps_status p \<noteq> Disconnected) (pm_peers pm)))), h))"

definition health_ask ::
  "('db, 'm, 'c, 'w, 'j) hub_env \<Rightarrow> bytes \<Rightarrow> string \<Rightarrow> string list \<Rightarrow> ('db, 'm, 'c) hub_runtime \<Rightarrow> ('db, 'm, 'c) step" where
  "health_ask E u d ds h = with_peering h (\<lambda>pm.
     case to_cbor (he_codec E) (own_ping pm) of
       Err e \<Rightarrow> (Silent, Some (Health_round ds), h)
     | Ok b \<Rightarrow>
         (case peer_connection pm d of
            None \<Rightarrow> (Silent, Some (Health_round ds), set_peering (pinged (he_codec E) 0 d None pm) h)
          | Some c \<Rightarrow> (Asks c (frame_new u MSG_PING b), Some (Health_waits d ds), h)))"

definition health_answer ::
  "('db, 'm, 'c, 'w, 'j) hub_env \<Rightarrow> transport_error + frame \<Rightarrow> nat \<Rightarrow> string \<Rightarrow> string list \<Rightarrow> ('db, 'm, 'c) hub_runtime \<Rightarrow>
   ('db, 'm, 'c) step" where
  "health_answer E r t d ds h = with_peering h (\<lambda>pm.
     (Silent, Some (Health_round ds), set_peering (pinged (he_codec E) t d (Some r) pm) h))"

text \<open>A gossip round: the descriptors of the moment, later the batch and the peers, then for each peer and
  each descriptor the STORE, and the count of failures after the batch.\<close>

definition gossip_snapshot ::
  "('db, 'm, 'c, 'w, 'j) hub_env \<Rightarrow> clock \<Rightarrow> ('db, 'm, 'c) hub_runtime \<Rightarrow> ('db, 'm, 'c) step" where
  "gossip_snapshot E k h =
     (if hs_poisoned (hr_server h) then (Silent, None, h)
      else
        let ds = all_descriptors (he_redb E) (cs_inner (dn_store (hs_node (hr_server h)))) (ck_store k)
        in (Silent, if ds = [] then None else Some (Gossip_wants ds), h))"

definition gossip_begin :: "descriptor list \<Rightarrow> ('db, 'm, 'c) hub_runtime \<Rightarrow> ('db, 'm, 'c) step" where
  "gossip_begin ds h = with_peering h (\<lambda>pm.
     let batch = take MAX_GOSSIP_BATCH ds
     in (Silent, if batch = [] then None else Some (Gossip_round batch batch 0
           (map fst (filter (\<lambda>(d, p). ps_status p = Connected \<and> ps_connection p \<noteq> None) (pm_peers pm)))), h))"

definition gossip_ask ::
  "('db, 'm, 'c, 'w, 'j) hub_env \<Rightarrow> bytes \<Rightarrow> descriptor list \<Rightarrow> descriptor \<Rightarrow> descriptor list \<Rightarrow> u32 \<Rightarrow> string \<Rightarrow> string list \<Rightarrow>
   ('db, 'm, 'c) hub_runtime \<Rightarrow> ('db, 'm, 'c) step" where
  "gossip_ask E u batch desc rest failures d ds h = with_peering h (\<lambda>pm.
     case to_cbor (he_codec E) (WStore \<lparr>store_sender = pm_identity pm, store_sender_addr = pm_addr pm,
            store_descriptor_field = desc\<rparr>) of
       Err e \<Rightarrow> (Silent, Some (Gossip_round batch rest failures (d # ds)), h)
     | Ok b \<Rightarrow>
         (case peer_connection pm d of
            None \<Rightarrow> (Silent, Some (Gossip_round batch rest (failures + 1) (d # ds)), h)
          | Some c \<Rightarrow> (Asks c (frame_new u MSG_STORE b), Some (Gossip_waits batch rest failures (d # ds)), h)))"

definition gossip_answer ::
  "transport_error + frame \<Rightarrow> descriptor list \<Rightarrow> descriptor list \<Rightarrow> u32 \<Rightarrow> string list \<Rightarrow> ('db, 'm, 'c) hub_runtime \<Rightarrow>
   ('db, 'm, 'c) step" where
  "gossip_answer r batch rest failures ds h =
     (Silent, Some (Gossip_round batch rest (if is_ok r then failures else failures + 1) ds), h)"

definition gossip_peer_done ::
  "descriptor list \<Rightarrow> u32 \<Rightarrow> string \<Rightarrow> string list \<Rightarrow> ('db, 'm, 'c) hub_runtime \<Rightarrow> ('db, 'm, 'c) step" where
  "gossip_peer_done batch failures d ds h = with_peering h (\<lambda>pm.
     (Silent, Some (Gossip_round batch batch 0 ds),
      set_peering (if failures > 0 then modify_peer d (\<lambda>p. p\<lparr>ps_failures := ps_failures p + failures\<rparr>) pm else pm) h))"

text \<open>A discovery round: the advertisements of the moment, later the peers in them, then for each
  whether to connect, and connecting.\<close>

definition discover_read ::
  "('db, 'm, 'c, 'w, 'j) hub_env \<Rightarrow> clock \<Rightarrow> ('db, 'm, 'c) hub_runtime \<Rightarrow> ('db, 'm, 'c) step" where
  "discover_read E k h =
     (if hs_poisoned (hr_server h) then (Silent, None, h)
      else
        let (ads, st) = be_get (he_backend E) (dn_store (hs_node (hr_server h)))
              (ROUTING_KEY_INFRASTRUCTURE_HUB (he_prims E)) None (ck_hub_ads k)
        in (Silent, if ads = [] then None else Some (Discover_parse ads),
            set_node ((hs_node (hr_server h))\<lparr>dn_store := st\<rparr>) h))"

definition discover_peers ::
  "('db, 'm, 'c, 'w, 'j) hub_env \<Rightarrow> descriptor list \<Rightarrow> ('db, 'm, 'c) hub_runtime \<Rightarrow> ('db, 'm, 'c) step" where
  "discover_peers E ads h = with_peering h (\<lambda>pm.
     (Silent, Some (Discover_next (discover_peers_from_descriptors (he_prims E) (he_metadata E) pm ads)), h))"

definition discover_check ::
  "('db, 'm, 'c, 'w, 'j) hub_env \<Rightarrow> identity \<Rightarrow> node_addr \<Rightarrow> (identity \<times> node_addr \<times> hub_metadata) list \<Rightarrow>
   ('db, 'm, 'c) hub_runtime \<Rightarrow> ('db, 'm, 'c) step" where
  "discover_check E i a found h = with_peering h (\<lambda>pm.
     (Silent,
      if (case map_of (pm_peers pm) (did (he_prims E) i) of None \<Rightarrow> True | Some p \<Rightarrow> ps_status p = Disconnected)
      then Some (Discover_connect i a found) else Some (Discover_next found), h))"

definition discover_dial ::
  "('db, 'm, 'c, 'w, 'j) hub_env \<Rightarrow> identity \<Rightarrow> node_addr \<Rightarrow> (identity \<times> node_addr \<times> hub_metadata) list \<Rightarrow>
   ('db, 'm, 'c) hub_runtime \<Rightarrow> ('db, 'm, 'c) step" where
  "discover_dial E i a found h = with_peering h (\<lambda>pm.
     case connect_target (he_prims E) (q_parse (he_quic E)) pm i a of
       Ok (Some sa) \<Rightarrow> (Connects sa, Some (Discover_waits i a found), h)
     | _ \<Rightarrow> (Silent, Some (Discover_next found), h))"

definition discover_dialled ::
  "('db, 'm, 'c, 'w, 'j) hub_env \<Rightarrow> transport_error + 'c \<Rightarrow> nat \<Rightarrow> identity \<Rightarrow> node_addr \<Rightarrow>
   (identity \<times> node_addr \<times> hub_metadata) list \<Rightarrow> ('db, 'm, 'c) hub_runtime \<Rightarrow> ('db, 'm, 'c) step" where
  "discover_dialled E r t i a found h = with_peering h (\<lambda>pm.
     (Silent, Some (Discover_next found), set_peering (connect_done (did (he_prims E) i) a r t pm) h))"

text \<open>An advertisement: built if the peer manager is free at once (\<^verbatim>\<open>try_lock\<close>), then stored through the
  node's own handler.\<close>

definition advertise_build ::
  "('db, 'm, 'c, 'w, 'j) hub_env \<Rightarrow> bool \<Rightarrow> clock \<Rightarrow> ('db, 'm, 'c) hub_runtime \<Rightarrow> ('db, 'm, 'c) step" where
  "advertise_build E free k h = with_peering h (\<lambda>pm.
     if free then
       (case self_advertisement_descriptor (he_prims E) (he_metadata E) pm (ck_hub_ads k) of
          Err e \<Rightarrow> (Silent, None, set_node (at_instant k (hs_node (hr_server h))) h)
        | Ok d \<Rightarrow> (Silent, Some (Advertise_store \<lparr>store_sender = pm_identity pm, store_sender_addr = pm_addr pm,
                     store_descriptor_field = d\<rparr>), h))
     else (Silent, None, h))"

definition advertise_post ::
  "('db, 'm, 'c, 'w, 'j) hub_env \<Rightarrow> clock \<Rightarrow> store_msg \<Rightarrow> ('db, 'm, 'c) hub_runtime \<Rightarrow> ('db, 'm, 'c) step" where
  "advertise_post E k m h =
     (if hs_poisoned (hr_server h) then (Silent, None, h)
      else (case handle_store (he_prims E) (he_backend E) (at_instant k (hs_node (hr_server h))) m (ck_table k) (ck_store k) of
              None \<Rightarrow> (Silent, None, h\<lparr>hr_server := (hr_server h)\<lparr>hs_poisoned := True\<rparr>\<rparr>)
            | Some (r, n) \<Rightarrow> (Silent, None, set_node n h)))"

lemmas step_defs [simp] = request_check_def request_answer_def health_begin_def health_ask_def health_answer_def
  gossip_snapshot_def gossip_begin_def gossip_ask_def gossip_answer_def gossip_peer_done_def
  discover_read_def discover_peers_def discover_check_def discover_dial_def discover_dialled_def
  advertise_build_def advertise_post_def

text \<open>The step at each point, with clock readings \<open>k\<close> and a fresh message id \<open>u\<close>; none while the task waits
  for the network. \<open>free\<close>: nobody holds the peer manager.\<close>

fun go_next ::
  "('db, 'm, 'c, 'w, 'j) hub_env \<Rightarrow> bool \<Rightarrow> clock \<Rightarrow> bytes \<Rightarrow> 'c task \<Rightarrow> ('db, 'm, 'c) hub_runtime \<Rightarrow>
   ('db, 'm, 'c) step option" where
  "go_next E free k u (Arrived ck fr peer) h = Some (request_check E ck fr peer h)"
| "go_next E free k u (Checked hub ck fr peer) h = Some (request_answer E hub ck fr peer h)"
| "go_next E free k u Health_due h = Some (health_begin h)"
| "go_next E free k u (Health_round []) h = Some (Silent, None, h)"
| "go_next E free k u (Health_round (d # ds)) h = Some (health_ask E u d ds h)"
| "go_next E free k u Gossip_due h = Some (gossip_snapshot E k h)"
| "go_next E free k u (Gossip_wants ds) h = Some (gossip_begin ds h)"
| "go_next E free k u (Gossip_round batch rest failures []) h = Some (Silent, None, h)"
| "go_next E free k u (Gossip_round batch [] failures (d # ds)) h = Some (gossip_peer_done batch failures d ds h)"
| "go_next E free k u (Gossip_round batch (desc # rest) failures (d # ds)) h =
     Some (gossip_ask E u batch desc rest failures d ds h)"
| "go_next E free k u Discover_due h = Some (discover_read E k h)"
| "go_next E free k u (Discover_parse ads) h = Some (discover_peers E ads h)"
| "go_next E free k u (Discover_next []) h = Some (Silent, None, h)"
| "go_next E free k u (Discover_next ((i, a, md) # found)) h = Some (discover_check E i a found h)"
| "go_next E free k u (Discover_connect i a found) h = Some (discover_dial E i a found h)"
| "go_next E free k u Advertise_due h = Some (advertise_build E free k h)"
| "go_next E free k u (Advertise_store m) h = Some (advertise_post E k m h)"
| "go_next E free k u (Health_waits d ds) h = None"
| "go_next E free k u (Gossip_waits batch rest failures ds) h = None"
| "go_next E free k u (Discover_waits i a found) h = None"

text \<open>The step when an answer has arrived, at time \<open>t\<close>, or a connection attempt is over.\<close>

fun answer_next ::
  "('db, 'm, 'c, 'w, 'j) hub_env \<Rightarrow> transport_error + frame \<Rightarrow> nat \<Rightarrow> 'c task \<Rightarrow> ('db, 'm, 'c) hub_runtime \<Rightarrow>
   ('db, 'm, 'c) step option" where
  "answer_next E r t (Health_waits d ds) h = Some (health_answer E r t d ds h)"
| "answer_next E r t (Gossip_waits batch rest failures ds) h = Some (gossip_answer r batch rest failures ds h)"
| "answer_next E r t _ h = None"

fun connection_next ::
  "('db, 'm, 'c, 'w, 'j) hub_env \<Rightarrow> transport_error + 'c \<Rightarrow> nat \<Rightarrow> 'c task \<Rightarrow> ('db, 'm, 'c) hub_runtime \<Rightarrow>
   ('db, 'm, 'c) step option" where
  "connection_next E r t (Discover_waits i a found) h = Some (discover_dialled E r t i a found h)"
| "connection_next E r t _ h = None"

fun task_next ::
  "('db, 'm, 'c, 'w, 'j) hub_env \<Rightarrow> bool \<Rightarrow> 'c input \<Rightarrow> 'c task \<Rightarrow> ('db, 'm, 'c) hub_runtime \<Rightarrow>
   ('db, 'm, 'c) step option" where
  "task_next E free (Go k u) p h = go_next E free k u p h"
| "task_next E free (Answer r t) p h = answer_next E r t p h"
| "task_next E free (Connection r t) p h = connection_next E r t p h"

subsection \<open>The hub and its tasks\<close>

record ('db, 'm, 'c) hub_tasks =
  tk_hub :: "('db, 'm, 'c) hub_runtime"
  tk_running :: "nat \<Rightarrow> 'c task option"
  tk_lock :: "nat option"

definition tasks_new :: "('db, 'm, 'c) hub_runtime \<Rightarrow> ('db, 'm, 'c) hub_tasks" where
  "tasks_new h = \<lparr>tk_hub = h, tk_running = (\<lambda>_. None), tk_lock = None\<rparr>"

text \<open>The lock after a step of task \<open>i\<close> that leaves it at \<open>t\<close>.\<close>

definition lock_after :: "nat \<Rightarrow> 'c task option \<Rightarrow> nat option \<Rightarrow> nat option" where
  "lock_after i t l =
     (if \<exists>u. t = Some u \<and> holds u then Some i else if l = Some i then None else l)"

text \<open>What may start: a request, and on a hub with peering the rounds. What takes only the node's lock, or
  the limiter's or the tenants', is an event of Hub_Runtime.\<close>

fun starts :: "('db, 'm, 'c) hub_server \<Rightarrow> 'c task \<Rightarrow> bool" where
  "starts srv (Arrived ck fr peer) = True"
| "starts srv t = (hs_peering srv \<noteq> None \<and> t \<in> {Health_due, Gossip_due, Discover_due, Advertise_due})"

fun atomic_event :: "'w hub_event \<Rightarrow> bool" where
  "atomic_event (Expire now) = True"
| "atomic_event (Clean_limiter now) = True"
| "atomic_event (Reseed now clk) = True"
| "atomic_event (Admin_request f req) = True"
| "atomic_event _ = False"

datatype ('c, 'w) tasks_label =
    Starts nat "'c task"
  | Moves nat "'c input" "'c effect"
  | Happens "'w hub_event"

inductive tasks_step ::
  "('db, 'm, 'c, 'w, 'j) hub_env \<Rightarrow> ('db, 'm, 'c) hub_tasks \<Rightarrow> ('c, 'w) tasks_label \<Rightarrow> ('db, 'm, 'c) hub_tasks \<Rightarrow> bool"
  for E where
  start: "tk_running s i = None \<Longrightarrow> starts (hr_server (tk_hub s)) t \<Longrightarrow>
     tasks_step E s (Starts i t) (s\<lparr>tk_running := (tk_running s)(i := Some t)\<rparr>)"
| move: "tk_running s i = Some t \<Longrightarrow> wants t \<longrightarrow> tk_lock s = None \<Longrightarrow>
     task_next E (tk_lock s = None) x t (tk_hub s) = Some (e, t', h') \<Longrightarrow>
     tasks_step E s (Moves i x e)
       \<lparr>tk_hub = h', tk_running = (tk_running s)(i := t'), tk_lock = lock_after i t' (tk_lock s)\<rparr>"
| event: "atomic_event e \<Longrightarrow> tasks_step E s (Happens e) (s\<lparr>tk_hub := hub_step E e (tk_hub s)\<rparr>)"

inductive_cases startE: "tasks_step E s (Starts i t) s'"
inductive_cases moveE: "tasks_step E s (Moves i x e) s'"
inductive_cases eventE: "tasks_step E s (Happens e) s'"

text \<open>A run, with the labels of its steps.\<close>

inductive tasks_run ::
  "('db, 'm, 'c, 'w, 'j) hub_env \<Rightarrow> ('db, 'm, 'c) hub_tasks \<Rightarrow> ('c, 'w) tasks_label list \<Rightarrow> ('db, 'm, 'c) hub_tasks \<Rightarrow> bool"
  for E where
  run_none: "tasks_run E s [] s"
| run_step: "tasks_step E s l s1 \<Longrightarrow> tasks_run E s1 ls s2 \<Longrightarrow> tasks_run E s (l # ls) s2"

lemma run_one: "tasks_step E s l s1 \<Longrightarrow> tasks_run E s [l] s1"
  by (blast intro: tasks_run.intros)

lemma run_append: "tasks_run E s ls s1 \<Longrightarrow> tasks_run E s1 ms s2 \<Longrightarrow> tasks_run E s (ls @ ms) s2"
  by (induction rule: tasks_run.induct) (auto intro: run_step)

text \<open>An invariant of the steps holds after every run.\<close>

lemma tasks_run_keeps:
  assumes "tasks_run E s ls s'" and "\<And>s l s'. l \<in> set ls \<Longrightarrow> I s \<Longrightarrow> tasks_step E s l s' \<Longrightarrow> I s'" and "I s"
  shows "I s'"
  using assms
proof (induction rule: tasks_run.induct)
  case (run_step s l s1 ls s2)
  have "I s1" by (rule run_step.prems(1) [OF _ run_step.prems(2) run_step.hyps(1)]) simp
  then show ?case using run_step.IH run_step.prems(1) by (metis list.set_intros(2))
qed simp

subsection \<open>The lock of the peer manager\<close>

lemma wants_not_holds: "wants t \<Longrightarrow> \<not> holds t"
  by (cases t) auto

lemma awaits_holds: "awaits t \<Longrightarrow> holds t"
  by (cases t) auto

lemma starts_not_holds: "starts srv t \<Longrightarrow> \<not> holds t"
  by (cases t) auto

lemmas task_next_split = option.splits sum.splits prod.splits if_splits

text \<open>Nobody comes to hold the lock without taking it.\<close>

lemma go_next_holds: "go_next E free k u t h = Some (e, Some t', h') \<Longrightarrow> holds t' \<Longrightarrow> holds t \<or> wants t"
  by (cases "(E, free, k, u, t, h)" rule: go_next.cases)
    (auto simp: with_peering_def Let_def split: task_next_split)

lemma answer_next_holds: "answer_next E r t0 t h = Some (e, Some t', h') \<Longrightarrow> holds t' \<Longrightarrow> holds t \<or> wants t"
  by (cases t) (auto simp: with_peering_def split: task_next_split)

lemma connection_next_holds: "connection_next E r t0 t h = Some (e, Some t', h') \<Longrightarrow> holds t' \<Longrightarrow> holds t \<or> wants t"
  by (cases t) (auto simp: with_peering_def split: task_next_split)

lemma task_next_holds: "task_next E free x t h = Some (e, Some t', h') \<Longrightarrow> holds t' \<Longrightarrow> holds t \<or> wants t"
  by (cases x) (auto dest: go_next_holds answer_next_holds connection_next_holds)

text \<open>The lock is held by the one task that is at a point where it holds it.\<close>

definition lock_ok :: "('db, 'm, 'c) hub_tasks \<Rightarrow> bool" where
  "lock_ok s \<longleftrightarrow> (\<forall>i. tk_lock s = Some i \<longleftrightarrow> (\<exists>t. tk_running s i = Some t \<and> holds t))"

lemma lock_okD: "lock_ok s \<Longrightarrow> tk_running s i = Some t \<Longrightarrow> holds t \<Longrightarrow> tk_lock s = Some i"
  by (auto simp: lock_ok_def)

lemma lock_ok_new [simp]: "lock_ok (tasks_new h)"
  by (simp add: lock_ok_def tasks_new_def)

lemma move_lock_ok:
  assumes "lock_ok s" and "tk_running s i = Some t" and "wants t \<longrightarrow> tk_lock s = None"
    and "\<And>u. t' = Some u \<Longrightarrow> holds u \<Longrightarrow> holds t \<or> wants t"
  shows "lock_ok \<lparr>tk_hub = h', tk_running = (tk_running s)(i := t'), tk_lock = lock_after i t' (tk_lock s)\<rparr>"
proof -
  have l: "tk_lock s = Some j \<longleftrightarrow> (\<exists>t. tk_running s j = Some t \<and> holds t)" for j
    using assms(1) by (simp add: lock_ok_def)
  have "lock_after i t' (tk_lock s) = Some j \<longleftrightarrow> (\<exists>t. ((tk_running s)(i := t')) j = Some t \<and> holds t)" for j
  proof (cases "j = i")
    case False
    show ?thesis
    proof (cases "\<exists>u. t' = Some u \<and> holds u")
      case True
      then have "holds t \<or> wants t" using assms(4) by blast
      then have "tk_lock s = Some i \<or> tk_lock s = None" using assms(2,3) l [of i] by auto
      then have "tk_lock s \<noteq> Some j" using False by auto
      then show ?thesis using True False l [of j] by (simp add: lock_after_def)
    qed (use False l [of j] in \<open>auto simp: lock_after_def\<close>)
  qed (auto simp: lock_after_def)
  then show ?thesis by (simp add: lock_ok_def)
qed

lemma tasks_step_lock: "tasks_step E s l s' \<Longrightarrow> lock_ok s \<Longrightarrow> lock_ok s'"
proof (induction rule: tasks_step.induct)
  case (start s i t)
  then show ?case using starts_not_holds [OF start(2)] by (auto simp: lock_ok_def)
next
  case (move s i t x e t' h')
  show ?case
    by (rule move_lock_ok [OF move(4,1,2)]) (use task_next_holds move(3) in blast)
qed (auto simp: lock_ok_def)

lemma tasks_run_lock: "tasks_run E s ls s' \<Longrightarrow> lock_ok s \<Longrightarrow> lock_ok s'"
  by (erule tasks_run_keeps) (auto intro: tasks_step_lock)

text \<open>What touches the peer table.\<close>

lemma respond_peering [simp]: "hs_peering (snd (respond C srv fr ty r)) = hs_peering srv"
  by (simp add: respond_def split: option.split sum.split)

lemma answer_peering: "answer_request P C R M ck h srv fr peer = (resp, srv') \<Longrightarrow> hs_peering srv' = hs_peering srv"
proof (cases "hs_poisoned srv")
  case False
  assume "answer_request P C R M ck h srv fr peer = (resp, srv')"
  then show ?thesis unfolding answer_request_eq [OF False] by (metis respond_peering snd_conv)
qed (auto simp: answer_request_def)

lemma set_sel [simp]:
  "hr_server (set_peering pm h) = (hr_server h)\<lparr>hs_peering := Some pm\<rparr>" "hr_server (set_node n h) = (hr_server h)\<lparr>hs_node := n\<rparr>"
  "hr_config (set_peering pm h) = hr_config h" "hr_config (set_node n h) = hr_config h"
  "hr_keypair (set_peering pm h) = hr_keypair h" "hr_keypair (set_node n h) = hr_keypair h"
  "hr_identity (set_peering pm h) = hr_identity h" "hr_identity (set_node n h) = hr_identity h"
  by (simp_all add: set_peering_def set_node_def)

lemma go_next_peering:
  "go_next E free k u t h = Some (e, t', h') \<Longrightarrow> \<not> holds t \<Longrightarrow> \<not> wants t \<Longrightarrow>
     hs_peering (hr_server h') = hs_peering (hr_server h)"
  by (cases "(E, free, k, u, t, h)" rule: go_next.cases)
    (auto simp: with_peering_def Let_def peer_hub_check_def dest: answer_peering split: task_next_split)

lemma task_next_peering:
  "task_next E free x t h = Some (e, t', h') \<Longrightarrow> \<not> holds t \<Longrightarrow> \<not> wants t \<Longrightarrow>
     hs_peering (hr_server h') = hs_peering (hr_server h)"
proof (cases x)
  case (Go k u)
  assume "task_next E free x t h = Some (e, t', h')" "\<not> holds t" "\<not> wants t"
  then show ?thesis using Go go_next_peering by simp
qed (cases t; auto)+

lemma event_peering: "atomic_event e \<Longrightarrow> hs_peering (hr_server (hub_step E e h)) = hs_peering (hr_server h)"
  by (cases e)
    (auto simp: expiry_task_def limiter_task_def map_hook_state_def seed_hub_def hub_admin_def Let_def split: option.split prod.split)

text \<open>While a task holds the lock, what the others do leaves the lock and the peer table alone, and
  none of them gets past a point where it takes the lock.\<close>

lemma step_beside:
  assumes "tasks_step E s l s'" and "lock_ok s" and "tk_lock s = Some i" and "\<And>x e. l \<noteq> Moves i x e"
  shows "tk_lock s' = Some i \<and> tk_running s' i = tk_running s i \<and>
     hs_peering (hr_server (tk_hub s')) = hs_peering (hr_server (tk_hub s))"
  using assms
proof (induction rule: tasks_step.induct)
  case (start s j t)
  then have "tk_running s i \<noteq> None" by (auto simp: lock_ok_def)
  then show ?case using start by auto
next
  case (move s j t x e t' h')
  have ji: "j \<noteq> i" using move(6) by auto
  then have t: "\<not> wants t" "\<not> holds t" using move(1,2,4,5) lock_okD [OF move(4,1)] by auto
  have "\<not> (\<exists>u. t' = Some u \<and> holds u)" using task_next_holds t move(3) by blast
  then show ?case using ji move(5) task_next_peering [OF move(3) t(2,1)] by (simp add: lock_after_def)
next
  case (event e s)
  then show ?case by (simp add: event_peering)
qed

text \<open>The peer manager belongs to one task at a time: whatever ran before, the lock is held by a task
  exactly if the task is at work with the peers, so there is never a second one; and until this
  task gives it back, no step of another task, no request and no event changes the peer table.\<close>

lemma peer_lock_exclusive:
  assumes "tasks_run E (tasks_new h) ls s"
  shows "(\<forall>i. tk_lock s = Some i \<longleftrightarrow> (\<exists>t. tk_running s i = Some t \<and> holds t)) \<and>
     (\<forall>i l s'. tk_lock s = Some i \<longrightarrow> (\<forall>x e. l \<noteq> Moves i x e) \<longrightarrow> tasks_step E s l s' \<longrightarrow>
        tk_lock s' = Some i \<and> tk_running s' i = tk_running s i \<and>
        hs_peering (hr_server (tk_hub s')) = hs_peering (hr_server (tk_hub s)))"
proof -
  have ok: "lock_ok s" by (rule tasks_run_lock [OF assms]) simp
  then have "\<forall>i. tk_lock s = Some i \<longleftrightarrow> (\<exists>t. tk_running s i = Some t \<and> holds t)" unfolding lock_ok_def .
  then show ?thesis using step_beside [OF _ ok] by blast
qed

subsection \<open>Silent peers\<close>

text \<open>Requests that can still be answered while the lock is taken: those that are past their check.\<close>

definition past_check :: "('db, 'm, 'c) hub_tasks \<Rightarrow> nat \<Rightarrow> bool" where
  "past_check s j \<longleftrightarrow> (\<exists>hub ck fr p. tk_running s j = Some (Checked hub ck fr (Some p)))"

lemma answer_nobody: "answer_request P C R M ck hub srv fr peer = (Some r, srv') \<Longrightarrow> \<exists>p. peer = Some p"
  using answer_request_eq [of srv P C R M ck hub fr peer] by (cases "hs_poisoned srv"; cases peer) (auto simp: answer_request_def)

lemma go_next_checked:
  "go_next E free k u t h = Some (e, Some (Checked hub ck fr (Some p)), h') \<Longrightarrow> t = Arrived ck fr (Some p)"
  by (cases "(E, free, k, u, t, h)" rule: go_next.cases)
    (auto simp: with_peering_def Let_def split: task_next_split)

lemma task_next_checked:
  "task_next E free x t h = Some (e, Some (Checked hub ck fr (Some p)), h') \<Longrightarrow> t = Arrived ck fr (Some p)"
proof (cases x)
  case (Go k u)
  assume "task_next E free x t h = Some (e, Some (Checked hub ck fr (Some p)), h')"
  then show ?thesis using Go go_next_checked by simp
qed (cases t; auto simp: with_peering_def split: task_next_split)+

lemma go_next_responds:
  "go_next E free k u t h = Some (Responds r, t', h') \<Longrightarrow> \<exists>hub ck fr p. t = Checked hub ck fr (Some p)"
  by (cases "(E, free, k, u, t, h)" rule: go_next.cases)
    (auto simp: with_peering_def Let_def dest: answer_nobody split: task_next_split)

lemma task_next_responds:
  "task_next E free x t h = Some (Responds r, t', h') \<Longrightarrow> \<exists>hub ck fr p. t = Checked hub ck fr (Some p)"
proof (cases x)
  case (Go k u)
  assume "task_next E free x t h = Some (Responds r, t', h')"
  then show ?thesis using Go go_next_responds by simp
qed (cases t; auto simp: with_peering_def split: task_next_split)+

lemma step_past_check:
  assumes "tasks_step E s l s'" and "tk_lock s \<noteq> None"
  shows "(past_check s' j \<longrightarrow> past_check s j) \<and> (l = Moves j x (Responds r) \<longrightarrow> past_check s j)"
  using assms
proof (induction rule: tasks_step.induct)
  case (start s i t)
  then show ?case by (cases t) (auto simp: past_check_def)
next
  case (move s i t y e t' h')
  have "past_check s j" if "j = i" "t' = Some (Checked hub ck fr (Some p))" for hub ck fr p
    using task_next_checked [OF move(3) [unfolded that(2)]] move(2,4) by simp
  moreover have "past_check s j" if "j = i" "e = Responds r"
    using task_next_responds [of E _ y t "tk_hub s" r t' h'] move(1,3) that by (auto simp: past_check_def)
  ultimately show ?case by (auto simp: past_check_def)
qed (auto simp: past_check_def)

lemma run_beside:
  assumes "tasks_run E s ls s'" and "lock_ok s" and "tk_lock s = Some i" and "\<And>x e. Moves i x e \<notin> set ls"
  shows "tk_lock s' = Some i \<and> tk_running s' i = tk_running s i \<and>
     hs_peering (hr_server (tk_hub s')) = hs_peering (hr_server (tk_hub s)) \<and>
     (\<forall>j x r. Moves j x (Responds r) \<in> set ls \<longrightarrow> past_check s j)"
  using assms
proof (induction rule: tasks_run.induct)
  case (run_step s l s1 ls s2)
  have b: "tk_lock s1 = Some i \<and> tk_running s1 i = tk_running s i \<and>
      hs_peering (hr_server (tk_hub s1)) = hs_peering (hr_server (tk_hub s))"
    using step_beside [OF run_step.hyps(1) run_step.prems(1,2)] run_step.prems(3) by (metis list.set_intros(1))
  have r: "past_check s1 j \<Longrightarrow> past_check s j" "l = Moves j x (Responds q) \<Longrightarrow> past_check s j" for j x q
    using step_past_check [OF run_step.hyps(1)] run_step.prems(2) by blast+
  have "lock_ok s1" by (rule tasks_step_lock [OF run_step.hyps(1) run_step.prems(1)])
  from run_step.IH [OF this conjunct1 [OF b]] run_step.prems(3)
  have "tk_lock s2 = Some i \<and> tk_running s2 i = tk_running s1 i \<and>
      hs_peering (hr_server (tk_hub s2)) = hs_peering (hr_server (tk_hub s1)) \<and>
      (\<forall>j x r. Moves j x (Responds r) \<in> set ls \<longrightarrow> past_check s1 j)" by (metis list.set_intros(2))
  then show ?case using b r by (metis set_ConsD)
qed simp

text \<open>C5. One silent peer stops a hub: from the moment a health check or a gossip round waits for an
  answer - or a discovery round for a connection - and as long as none comes, no request is
  answered whose sender had not been checked by then, whoever sent it, and neither the round
  nor any other gets on with the peers. The code sets no limit to the wait, and
  the keep-alive of the connection keeps it open as long as the peer's QUIC stack runs.\<close>

theorem silent_peer_stops_hub:
  assumes "tasks_run E (tasks_new h) ls0 s" and "tk_running s i = Some t" and "awaits t"
    and "tasks_run E s ls s'" and "\<forall>x e. Moves i x e \<notin> set ls"
  shows "(\<forall>j x fr. Moves j x (Responds fr) \<in> set ls \<longrightarrow>
       (\<exists>hub ck rq p. tk_running s j = Some (Checked hub ck rq (Some p)))) \<and>
     tk_lock s' = Some i \<and> tk_running s' i = Some t \<and>
     hs_peering (hr_server (tk_hub s')) = hs_peering (hr_server (tk_hub s))"
proof -
  have "lock_ok s" by (rule tasks_run_lock [OF assms(1)]) simp
  moreover have "tk_lock s = Some i" by (rule lock_okD [OF calculation assms(2) awaits_holds [OF assms(3)]])
  ultimately show ?thesis using run_beside [OF assms(4), of i] assms(2,5) unfolding past_check_def by auto
qed

subsection \<open>Progress and end\<close>

text \<open>How far a task is: whether it has got its lists, the peers left, what is left of the batch.\<close>

fun phase :: "'c task \<Rightarrow> nat" where
  "phase (Arrived ck fr peer) = 1"
| "phase Health_due = 1"
| "phase Gossip_due = 2"
| "phase (Gossip_wants ds) = 1"
| "phase Discover_due = 2"
| "phase (Discover_parse ads) = 1"
| "phase Advertise_due = 1"
| "phase _ = 0"

fun peers_left :: "'c task \<Rightarrow> nat" where
  "peers_left (Health_round ds) = 2 * length ds"
| "peers_left (Health_waits d ds) = 2 * length ds + 1"
| "peers_left (Gossip_round batch rest k ds) = length ds"
| "peers_left (Gossip_waits batch rest k ds) = length ds"
| "peers_left (Discover_next found) = 3 * length found"
| "peers_left (Discover_waits i a found) = 3 * length found + 1"
| "peers_left (Discover_connect i a found) = 3 * length found + 2"
| "peers_left _ = 0"

fun batch_left :: "'c task \<Rightarrow> nat" where
  "batch_left (Gossip_round batch rest k ds) = 2 * length rest"
| "batch_left (Gossip_waits batch rest k ds) = 2 * length rest + 1"
| "batch_left _ = 0"

definition task_order :: "('c task \<times> 'c task) set" where
  "task_order = measures [phase, peers_left, batch_left]"

lemma task_order_wf: "wf task_order"
  by (simp add: task_order_def)

lemma go_next_order: "go_next E free k u t h = Some (e, Some t', h') \<Longrightarrow> (t', t) \<in> task_order"
  by (cases "(E, free, k, u, t, h)" rule: go_next.cases)
    (auto simp: with_peering_def Let_def task_order_def split: task_next_split)

lemma task_next_order: "task_next E free x t h = Some (e, Some t', h') \<Longrightarrow> (t', t) \<in> task_order"
proof (cases x)
  case (Go k u)
  assume "task_next E free x t h = Some (e, Some t', h')"
  then show ?thesis using Go go_next_order by simp
qed (cases t; auto simp: with_peering_def task_order_def split: task_next_split)+

lemma go_next_total: "\<not> awaits t \<Longrightarrow> go_next E free k u t h \<noteq> None"
  by (cases "(E, free, k, u, t, h)" rule: go_next.cases) auto

text \<open>If no task waits for the network, some task can go on.\<close>

lemma hub_progress:
  assumes "lock_ok s" and "tk_running s i = Some t" and "\<And>j u. tk_running s j = Some u \<Longrightarrow> \<not> awaits u"
  shows "\<exists>j e s'. tasks_step E s (Moves j (Go k u) e) s'"
proof -
  obtain j t1 where j: "tk_running s j = Some t1" "wants t1 \<longrightarrow> tk_lock s = None"
  proof (cases "tk_lock s")
    case None
    then show ?thesis using that assms(2) by blast
  next
    case (Some j)
    then obtain t1 where "tk_running s j = Some t1" "holds t1" using assms(1) by (auto simp: lock_ok_def)
    then show ?thesis using that wants_not_holds by blast
  qed
  obtain e t' h' where "go_next E (tk_lock s = None) k u t1 (tk_hub s) = Some (e, t', h')"
    using go_next_total [OF assms(3) [OF j(1)]] by (metis not_None_eq prod_cases3)
  then show ?thesis using tasks_step.move [OF j, of E "Go k u"] by auto
qed

text \<open>A task of a run that is not started again moves finitely often.\<close>

lemma step_of_task:
  assumes "tasks_step E s l s'" and "\<And>t. l \<noteq> Starts i t"
  shows "tk_running s' i = tk_running s i \<and> (\<forall>x e. l \<noteq> Moves i x e) \<or>
     (\<exists>t. tk_running s i = Some t \<and> (\<forall>t'. tk_running s' i = Some t' \<longrightarrow> (t', t) \<in> task_order))"
  using assms by (induction rule: tasks_step.induct) (auto dest: task_next_order)

lemma moves_end:
  assumes "\<forall>n. tasks_step E (f n) (l n) (f (Suc n))" and "\<forall>n t. l n \<noteq> Starts i t"
  shows "\<exists>N. \<forall>m \<ge> N. \<forall>x e. l m \<noteq> Moves i x e"
proof -
  note step = step_of_task [OF assms(1) [rule_format] assms(2) [rule_format]]
  have over: "\<exists>N. \<forall>m \<ge> N. \<forall>x e. l m \<noteq> Moves i x e" if "tk_running (f n) i = None" for n
  proof -
    have "tk_running (f m) i = None" if "n \<le> m" for m
      using that
    proof (induction m rule: dec_induct)
      case (step m)
      then show ?case using step_of_task [OF assms(1) [rule_format] assms(2) [rule_format], of m] by auto
    qed (rule \<open>tk_running (f n) i = None\<close>)
    then show ?thesis using step by (metis option.distinct(1))
  qed
  have "tk_running (f n) i = Some t \<Longrightarrow> \<exists>N. \<forall>m \<ge> N. \<forall>x e. l m \<noteq> Moves i x e" for n t
  proof (induction t arbitrary: n rule: wf_induct_rule [OF task_order_wf])
    case (1 t)
    show ?case
    proof (cases "\<exists>m \<ge> n. tk_running (f m) i \<noteq> Some t")
      case True
      define m where "m = (LEAST m. n \<le> m \<and> tk_running (f m) i \<noteq> Some t)"
      have m: "n \<le> m" "tk_running (f m) i \<noteq> Some t"
        using LeastI_ex [of "\<lambda>m. n \<le> m \<and> tk_running (f m) i \<noteq> Some t"] True unfolding m_def by blast+
      then obtain k where k: "m = Suc k" "n \<le> k" using 1(2) by (cases m) (auto simp: le_Suc_eq)
      have "tk_running (f k) i = Some t"
        using not_less_Least [of k "\<lambda>m. n \<le> m \<and> tk_running (f m) i \<noteq> Some t"] k unfolding m_def by auto
      then have "tk_running (f m) i = None \<or> (\<exists>t'. tk_running (f m) i = Some t' \<and> (t', t) \<in> task_order)"
        using step [of k] m(2) k(1) by (cases "tk_running (f m) i") auto
      then show ?thesis using over 1(1) by blast
    next
      case False
      have "(t, t) \<notin> task_order" using task_order_wf by (meson wf_not_refl)
      then have "\<forall>m \<ge> n. \<forall>x e. l m \<noteq> Moves i x e" using False step by (metis le_SucI option.inject)
      then show ?thesis by blast
    qed
  qed
  then show ?thesis using over by (cases "tk_running (f 0) i") blast+
qed

text \<open>A task can go on if it can move without an answer of the network. A run is fair to a task if the task
  does not stay able to go on for ever without moving.\<close>

definition can_go ::
  "('db, 'm, 'c, 'w, 'j) hub_env \<Rightarrow> ('db, 'm, 'c) hub_tasks \<Rightarrow> nat \<Rightarrow> bool" where
  "can_go E s i \<longleftrightarrow> (\<exists>k u e s'. tasks_step E s (Moves i (Go k u) e) s')"

definition fair_to ::
  "('db, 'm, 'c, 'w, 'j) hub_env \<Rightarrow> (nat \<Rightarrow> ('db, 'm, 'c) hub_tasks) \<Rightarrow> (nat \<Rightarrow> ('c, 'w) tasks_label) \<Rightarrow> nat \<Rightarrow> bool" where
  "fair_to E f l i \<longleftrightarrow> (\<forall>n. (\<forall>m \<ge> n. can_go E (f m) i) \<longrightarrow> (\<exists>m \<ge> n. \<exists>x e. l m = Moves i x e))"

lemma can_go_iff:
  assumes "tk_running s i = Some t"
  shows "can_go E s i \<longleftrightarrow> \<not> awaits t \<and> (wants t \<longrightarrow> tk_lock s = None)"
proof
  assume "can_go E s i"
  then obtain k u e s' where "tasks_step E s (Moves i (Go k u) e) s'" by (auto simp: can_go_def)
  then obtain t' h' where "wants t \<longrightarrow> tk_lock s = None" and n: "go_next E (tk_lock s = None) k u t (tk_hub s) = Some (e, t', h')"
    using assms by (auto elim!: moveE)
  moreover have "\<not> awaits t" using n by (cases t) auto
  ultimately show "\<not> awaits t \<and> (wants t \<longrightarrow> tk_lock s = None)" by blast
next
  assume t: "\<not> awaits t \<and> (wants t \<longrightarrow> tk_lock s = None)"
  obtain e t' h' where "go_next E (tk_lock s = None) undefined undefined t (tk_hub s) = Some (e, t', h')"
    using go_next_total t by (metis not_None_eq prod_cases3)
  then show "can_go E s i"
    using tasks_step.move [OF assms, of E "Go undefined undefined"] t unfolding can_go_def by fastforce
qed

lemma step_other:
  assumes "tasks_step E s l s'" and "\<And>t. l \<noteq> Starts i t" and "\<And>x e. l \<noteq> Moves i x e"
  shows "tk_running s' i = tk_running s i"
  using assms by (induction rule: tasks_step.induct) auto

lemma stays:
  assumes "\<forall>n. tasks_step E (f n) (l n) (f (Suc n))" and "\<forall>n t. l n \<noteq> Starts i t"
    and "\<forall>m \<ge> N. \<forall>x e. l m \<noteq> Moves i x e" and "N \<le> m"
  shows "tk_running (f m) i = tk_running (f N) i"
  using assms(4)
proof (induction m rule: dec_induct)
  case (step m)
  then show ?case using step_other [of E "f m" "l m" "f (Suc m)" i] assms(1-3) by simp
qed simp

text \<open>If nothing can go on, whoever is running waits for the network or for the lock of somebody who does.\<close>

lemma stalled:
  assumes "lock_ok s" and "\<forall>j. \<not> can_go E s j" and "tk_running s i = Some t"
  shows "awaits t \<or> wants t \<and> (\<exists>j t'. tk_lock s = Some j \<and> tk_running s j = Some t' \<and> awaits t')"
proof (cases "awaits t")
  case False
  then have w: "wants t" "tk_lock s \<noteq> None" using assms(2) False can_go_iff [OF assms(3), of E] by auto
  then obtain j t' where j: "tk_lock s = Some j" "tk_running s j = Some t'" "holds t'"
    using assms(1) by (auto simp: lock_ok_def)
  then have "awaits t'" using assms(2) can_go_iff [OF j(2), of E] wants_not_holds [of t'] by auto
  then show ?thesis using w(1) j by blast
qed simp

text \<open>C27. A hub stalls in the network only. However its tasks interleave, a task that is not started anew
  makes finitely many steps - the rounds go once through the lists that they made when they got the
  lock - and stays where it is from then on; if the run is fair to it, it is over then, or it waits
  for an answer or a connection, or it waits for the lock of the peer manager, which is taken again
  and again. And in whatever state no task can go on, each running one waits for the network or for
  the lock of one that does.\<close>

theorem rounds_end:
  assumes "tasks_run E (tasks_new h) ls (f 0)" and "\<forall>n. tasks_step E (f n) (l n) (f (Suc n))"
  shows "(\<forall>i. (\<forall>n t. l n \<noteq> Starts i t) \<longrightarrow>
       (\<exists>N. (\<forall>m \<ge> N. (\<forall>x e. l m \<noteq> Moves i x e) \<and> tk_running (f m) i = tk_running (f N) i) \<and>
          (fair_to E f l i \<longrightarrow> (\<forall>t. tk_running (f N) i = Some t \<longrightarrow>
             awaits t \<or> wants t \<and> (\<forall>n. \<exists>m \<ge> n. tk_lock (f m) \<noteq> None))))) \<and>
     (\<forall>n. (\<forall>j. \<not> can_go E (f n) j) \<longrightarrow> (\<forall>i t. tk_running (f n) i = Some t \<longrightarrow>
        awaits t \<or> wants t \<and> (\<exists>j t'. tk_lock (f n) = Some j \<and> tk_running (f n) j = Some t' \<and> awaits t')))"
proof -
  have ok: "lock_ok (f n)" for n
  proof (induction n)
    case 0
    then show ?case by (rule tasks_run_lock [OF assms(1)]) simp
  next
    case (Suc n)
    then show ?case using assms(2) tasks_step_lock by blast
  qed
  have "\<exists>N. (\<forall>m \<ge> N. (\<forall>x e. l m \<noteq> Moves i x e) \<and> tk_running (f m) i = tk_running (f N) i) \<and>
      (fair_to E f l i \<longrightarrow> (\<forall>t. tk_running (f N) i = Some t \<longrightarrow>
         awaits t \<or> wants t \<and> (\<forall>n. \<exists>m \<ge> n. tk_lock (f m) \<noteq> None)))"
    if i: "\<forall>n t. l n \<noteq> Starts i t" for i
  proof -
    obtain N where N: "\<forall>m \<ge> N. \<forall>x e. l m \<noteq> Moves i x e" using moves_end [OF assms(2) i] by blast
    have same: "tk_running (f m) i = tk_running (f N) i" if "N \<le> m" for m by (rule stays [OF assms(2) i N that])
    have "awaits t \<or> wants t \<and> (\<forall>n. \<exists>m \<ge> n. tk_lock (f m) \<noteq> None)"
      if fair: "fair_to E f l i" and t: "tk_running (f N) i = Some t" for t
    proof (rule ccontr)
      assume "\<not> (awaits t \<or> wants t \<and> (\<forall>n. \<exists>m \<ge> n. tk_lock (f m) \<noteq> None))"
      then obtain n where n: "\<not> awaits t" "wants t \<longrightarrow> (\<forall>m \<ge> n. tk_lock (f m) = None)" by blast
      have "can_go E (f m) i" if "max n N \<le> m" for m
        using can_go_iff [of "f m" i t E] same [of m] t n that by simp
      then obtain m x e where "max n N \<le> m" "l m = Moves i x e" using fair unfolding fair_to_def by blast
      then show False using N by simp
    qed
    then show ?thesis using N same by blast
  qed
  then show ?thesis using stalled [OF ok] by blast
qed

subsection \<open>A task by itself\<close>

text \<open>A hub on which only one task, at \<open>t\<close>, is running.\<close>

definition alone :: "'c task option \<Rightarrow> ('db, 'm, 'c) hub_runtime \<Rightarrow> ('db, 'm, 'c) hub_tasks" where
  "alone t h = \<lparr>tk_hub = h, tk_running = (\<lambda>_. None)(0 := t), tk_lock = lock_after 0 t None\<rparr>"

lemma alone_None: "alone None h = tasks_new h"
  by (auto simp: alone_def tasks_new_def lock_after_def)

lemma alone_move:
  assumes "task_next E (\<not> holds t) x t h = Some (e, t', h')"
  shows "tasks_step E (alone (Some t) h) (Moves 0 x e) (alone t' h')"
  using tasks_step.move [of "alone (Some t) h" 0 t E x e t' h'] assms wants_not_holds [of t]
  by (auto simp: alone_def lock_after_def split: if_splits)

lemma alone_start:
  assumes "starts (hr_server h) t"
  shows "tasks_step E (tasks_new h) (Starts 0 t) (alone (Some t) h)"
  using tasks_step.start [of "tasks_new h" 0 t E] assms starts_not_holds [OF assms]
  by (simp add: alone_def tasks_new_def lock_after_def)

text \<open>A hub whose health check asks first over a connection that leads to \<open>b\<close>, and that check up to the
  first question.\<close>

definition probes ::
  "('db, 'm, 'c, 'w, 'j) hub_env \<Rightarrow> ('db, 'm, 'c) hub_runtime \<Rightarrow> ('c \<Rightarrow> nat option) \<Rightarrow> nat \<Rightarrow> bool" where
  "probes E h L b \<longleftrightarrow> (\<exists>pm d ds c body.
     hs_peering (hr_server h) = Some pm \<and>
     map fst (filter (\<lambda>(d, p). ps_status p \<noteq> Disconnected) (pm_peers pm)) = d # ds \<and>
     peer_connection pm d = Some c \<and> L c = Some b \<and> to_cbor (he_codec E) (own_ping pm) = Ok body)"

text \<open>A health check of an idle hub up to its first question.\<close>

lemma probe_steps:
  assumes "probes E h L b"
  obtains d ds c fr where
    "tasks_step E (tasks_new h) (Starts 0 Health_due) (alone (Some Health_due) h)"
    "tasks_step E (alone (Some Health_due) h) (Moves 0 (Go k u) Silent) (alone (Some (Health_round (d # ds))) h)"
    "tasks_step E (alone (Some (Health_round (d # ds))) h) (Moves 0 (Go k u) (Asks c fr)) (alone (Some (Health_waits d ds)) h)"
    "L c = Some b"
proof -
  obtain pm d ds c bs where p: "hs_peering (hr_server h) = Some pm"
    "map fst (filter (\<lambda>(d, p). ps_status p \<noteq> Disconnected) (pm_peers pm)) = d # ds"
    "peer_connection pm d = Some c" "L c = Some b" "to_cbor (he_codec E) (own_ping pm) = Ok bs"
    using assms by (auto simp: probes_def)
  have "tasks_step E (tasks_new h) (Starts 0 Health_due) (alone (Some Health_due) h)"
    by (rule alone_start) (use p(1) in simp)
  moreover have "tasks_step E (alone (Some Health_due) h) (Moves 0 (Go k u) Silent) (alone (Some (Health_round (d # ds))) h)"
    by (rule alone_move) (use p(1,2) in \<open>simp add: with_peering_def\<close>)
  moreover have "tasks_step E (alone (Some (Health_round (d # ds))) h) (Moves 0 (Go k u) (Asks c (frame_new u MSG_PING bs)))
      (alone (Some (Health_waits d ds)) h)"
    by (rule alone_move) (use p in \<open>simp add: with_peering_def\<close>)
  ultimately show thesis using that p(4) by blast
qed

lemma alone_asks: "tk_lock (alone (Some (Health_waits d ds)) h) = Some 0"
    "tk_running (alone (Some (Health_waits d ds)) h) 0 = Some (Health_waits d ds)"
    "tk_running (alone (Some t) h) (Suc j) = None"
  by (simp_all add: alone_def lock_after_def)

subsection \<open>Witnesses\<close>

text \<open>A hub with one peer, which it is connected to.\<close>

definition demo_linked_manager :: "unit peer_manager" where
  "demo_linked_manager = demo_manager\<lparr>pm_peers := [(''did'', demo_lost_peer\<lparr>ps_connection := Some ()\<rparr>)]\<rparr>"

definition demo_linked_hub :: "nat \<Rightarrow> (demo_db, bytes \<rightharpoonup> descriptor list, unit) hub_runtime" where
  "demo_linked_hub a = \<lparr>hr_config = demo_hub_config, hr_identity = short_identity (of_nat a), hr_keypair = \<lparr>signing_key = [9]\<rparr>,
     hr_metrics = True, hr_server = \<lparr>hs_node = hub_node_new demo_hub_env demo_hub_config \<lparr>signing_key = [9]\<rparr> (rs_db demo_store0) empty_db,
       hs_peering = Some demo_linked_manager, hs_poisoned = False\<rparr>\<rparr>"

lemma demo_linked_probes: "L () = Some b \<Longrightarrow> probes demo_hub_env (demo_linked_hub a) L b"
  by (simp add: probes_def demo_linked_hub_def demo_linked_manager_def demo_lost_peer_def peer_connection_def)

definition demo_visit :: "nat \<Rightarrow> unit task" where
  "demo_visit i = Arrived demo_clock (frame_new (replicate 16 (of_nat i)) MSG_FIND_VALUE []) (Some demo_peer_id)"

lemma demo_visit_starts: "tk_running s i = None \<Longrightarrow>
    tasks_step demo_hub_env s (Starts i (demo_visit n)) (s\<lparr>tk_running := (tk_running s)(i := Some (demo_visit n))\<rparr>)"
  by (rule tasks_step.start) (simp_all add: demo_visit_def)

text \<open>Its health check up to the moment when it waits.\<close>

lemma demo_waiting:
  obtains d ds ls where "tasks_run demo_hub_env (tasks_new (demo_linked_hub a)) ls (alone (Some (Health_waits d ds)) (demo_linked_hub a))"
proof (rule probe_steps [OF demo_linked_probes [of "\<lambda>_. Some 0" 0 a], where k = demo_clock and u = "[]"])
  fix d ds c fr
  assume 1: "tasks_step demo_hub_env (tasks_new (demo_linked_hub a)) (Starts 0 Health_due) (alone (Some Health_due) (demo_linked_hub a))"
    and 2: "tasks_step demo_hub_env (alone (Some Health_due) (demo_linked_hub a)) (Moves 0 (Go demo_clock []) Silent)
      (alone (Some (Health_round (d # ds))) (demo_linked_hub a))"
    and 3: "tasks_step demo_hub_env (alone (Some (Health_round (d # ds))) (demo_linked_hub a)) (Moves 0 (Go demo_clock []) (Asks c fr))
      (alone (Some (Health_waits d ds)) (demo_linked_hub a))"
  show thesis by (rule that [OF run_step [OF 1 run_step [OF 2 run_one [OF 3]]]])
qed simp

lemma silent_peer_stops_hub_witness:
  "\<exists>d ds s s'. tk_running s 0 = Some (Health_waits d ds) \<and>
     tasks_run demo_hub_env s [Starts 1 (demo_visit 1)] s' \<and> tk_running s' 0 = Some (Health_waits d ds) \<and> tk_lock s' = Some 0"
proof (rule demo_waiting [of 0])
  fix d ds ls
  let ?s = "alone (Some (Health_waits d ds)) (demo_linked_hub 0)"
  assume run: "tasks_run demo_hub_env (tasks_new (demo_linked_hub 0)) ls ?s"
  have step: "tasks_run demo_hub_env ?s [Starts 1 (demo_visit 1)] (?s\<lparr>tk_running := (tk_running ?s)(1 := Some (demo_visit 1))\<rparr>)"
    by (rule run_one [OF demo_visit_starts]) (simp add: alone_def)
  from silent_peer_stops_hub [OF run alone_asks(2) _ step] step show ?thesis using alone_asks(2) by fastforce
qed

text \<open>A hub whose health check asks its peer, which never answers, while the limiter is cleaned for ever.\<close>

lemma rounds_end_witness:
  "\<exists>f l d ds. (\<forall>n. tasks_step demo_hub_env (f n) (l n) (f (Suc n))) \<and> f 0 = alone (Some Health_due) (demo_linked_hub 0) \<and>
     (\<exists>x e. l 1 = Moves 0 x e) \<and> (\<forall>n \<ge> 2. l n = Happens (Clean_limiter 0)) \<and> fair_to demo_hub_env f l 0 \<and>
     (\<exists>N. \<forall>m \<ge> N. (\<forall>x e. l m \<noteq> Moves 0 x e) \<and> tk_running (f m) 0 = Some (Health_waits d ds))"
proof (rule probe_steps [OF demo_linked_probes [of "\<lambda>_. Some 0" 0 0], where k = demo_clock and u = "[]"])
  let ?h = "demo_linked_hub 0" and ?E = demo_hub_env
  fix d ds c fr
  assume 1: "tasks_step ?E (tasks_new ?h) (Starts 0 Health_due) (alone (Some Health_due) ?h)"
    and 2: "tasks_step ?E (alone (Some Health_due) ?h) (Moves 0 (Go demo_clock []) Silent) (alone (Some (Health_round (d # ds))) ?h)"
    and 3: "tasks_step ?E (alone (Some (Health_round (d # ds))) ?h) (Moves 0 (Go demo_clock []) (Asks c fr))
      (alone (Some (Health_waits d ds)) ?h)"
  define f where "f n = (case n of 0 \<Rightarrow> alone (Some Health_due) ?h | Suc 0 \<Rightarrow> alone (Some (Health_round (d # ds))) ?h
      | Suc (Suc k) \<Rightarrow> alone (Some (Health_waits d ds)) ((hub_step ?E (Clean_limiter 0) ^^ k) ?h))" for n
  define l :: "nat \<Rightarrow> (unit, socket_addr list) tasks_label" where "l n = (case n of 0 \<Rightarrow> Moves 0 (Go demo_clock []) Silent | Suc 0 \<Rightarrow> Moves 0 (Go demo_clock []) (Asks c fr)
      | Suc (Suc k) \<Rightarrow> Happens (Clean_limiter 0))" for n
  have run: "tasks_run ?E (tasks_new ?h) [Starts 0 Health_due] (f 0)" using run_one [OF 1] by (simp add: f_def)
  have "tasks_step ?E (f (Suc (Suc k))) (Happens (Clean_limiter 0)) (f (Suc (Suc (Suc k))))" for k
  proof -
    have "f (Suc (Suc (Suc k))) = (f (Suc (Suc k)))\<lparr>tk_hub := hub_step ?E (Clean_limiter 0) (tk_hub (f (Suc (Suc k))))\<rparr>"
      by (simp add: f_def alone_def)
    then show ?thesis by (simp only:) (rule tasks_step.event, simp)
  qed
  then have steps: "\<forall>n. tasks_step ?E (f n) (l n) (f (Suc n))"
    using 2 3 unfolding f_def l_def by (auto split: nat.split)
  have after: "l n = Happens (Clean_limiter 0)" "tk_running (f n) 0 = Some (Health_waits d ds)" if "2 \<le> n" for n
    using that by (auto simp: l_def f_def alone_def numeral_2_eq_2 split: nat.split)
  have "\<not> can_go ?E (f (max n 2)) 0" for n
    using can_go_iff [OF after(2), of "max n 2" ?E] by simp
  then have fair: "fair_to ?E f l 0" unfolding fair_to_def by (meson max.cobounded1)
  have "\<forall>n t. l n \<noteq> Starts 0 t" by (auto simp: l_def split: nat.split)
  then obtain N where N: "\<forall>m \<ge> N. (\<forall>x e. l m \<noteq> Moves 0 x e) \<and> tk_running (f m) 0 = tk_running (f N) 0"
    using conjunct1 [OF rounds_end [OF run steps]] by blast
  then have "tk_running (f N) 0 = tk_running (f (max N 2)) 0" by (metis max.cobounded1)
  then have "tk_running (f N) 0 = Some (Health_waits d ds)" using after(2) by simp
  then have end': "\<exists>N. \<forall>m \<ge> N. (\<forall>x e. l m \<noteq> Moves 0 x e) \<and> tk_running (f m) 0 = Some (Health_waits d ds)"
    using N by metis
  have first: "f 0 = alone (Some Health_due) ?h" "\<exists>x e. l 1 = Moves 0 x e" by (simp_all add: f_def l_def)
  have "\<forall>n \<ge> 2. l n = Happens (Clean_limiter 0)" using after(1) by blast
  note last = this
  show ?thesis
    by (rule exI [of _ f], rule exI [of _ l], rule exI [of _ d], rule exI [of _ ds])
      (intro conjI steps first last fair end')
qed simp

end
