(* ===== verification/Hub_Interleaving.thy ===== *)
theory Hub_Interleaving
  imports Hub_Tasks
begin

section \<open>mesh-hub: interleaved tasks and whole rounds\<close>

text \<open>
  The two views of a running hub: the steps of Hub_Tasks do all that the rounds of Hub_Runtime do, and
  the guarantees of Hub_System - validity of what is handed out, staying up - hold for every
  interleaving of the steps.
\<close>

subsection \<open>A round that nobody disturbs\<close>

definition leads ::
  "('db, 'm, 'c, 'w, 'j) hub_env \<Rightarrow> 'c task option \<Rightarrow> ('db, 'm, 'c) hub_runtime \<Rightarrow> 'c task option \<Rightarrow>
   ('db, 'm, 'c) hub_runtime \<Rightarrow> bool" where
  "leads E t h t' h' \<longleftrightarrow> (\<exists>ls. tasks_run E (alone t h) ls (alone t' h'))"

lemma leads_refl [simp]: "leads E t h t h"
  by (auto simp: leads_def intro: run_none)

lemma leads_trans: "leads E t h t1 h1 \<Longrightarrow> leads E t1 h1 t2 h2 \<Longrightarrow> leads E t h t2 h2"
  unfolding leads_def using run_append by blast

lemma leads_move:
  assumes "task_next E (\<not> holds t) x t h = Some (e, t', h')" and "leads E t' h' t2 h2"
  shows "leads E (Some t) h t2 h2"
proof -
  from alone_move [OF assms(1)] assms(2) show ?thesis by (auto simp: leads_def intro: run_step)
qed

lemma leads_start:
  assumes "starts (hr_server h) t" and "leads E (Some t) h t2 h2"
  shows "leads E None h t2 h2"
proof -
  from alone_start [OF assms(1)] assms(2) show ?thesis by (auto simp: leads_def alone_None intro: run_step)
qed

lemma leads_event: "atomic_event e \<Longrightarrow> leads E None h None (hub_step E e h)"
proof -
  assume "atomic_event e"
  then have "tasks_step E (alone None h) (Happens e) (alone None (hub_step E e h))"
    using tasks_step.event [of e E "alone None h"] by (simp add: alone_def lock_after_def)
  then show ?thesis by (auto simp: leads_def intro: run_one)
qed

lemma set_peering_same [simp]:
  "hs_peering (hr_server h) = Some pm \<Longrightarrow> set_peering pm h = h"
  "set_peering pm (set_peering pm' h) = set_peering pm h"
  by (auto simp: set_peering_def)

lemma with_peering_set [simp]: "with_peering (set_peering pm h) f = f pm"
  by (simp add: with_peering_def)

text \<open>The clock readings of one step.\<close>

definition at_micros :: "u64 \<Rightarrow> clock" where
  "at_micros now = \<lparr>ck_instant = 0, ck_hub_ads = now, ck_table = now, ck_store = now\<rparr>"

lemma at_micros_sel [simp]: "ck_hub_ads (at_micros now) = now" "ck_store (at_micros now) = now"
  by (simp_all add: at_micros_def)

subsubsection \<open>Health checks\<close>

lemma ask_peer_connection:
  "ask_peer Q pm d ty b w =
     (case q_id Q w of (i, w1) \<Rightarrow>
        (case peer_connection pm d of
           None \<Rightarrow> (None, w1)
         | Some c \<Rightarrow> (case q_request Q c (frame_new i ty b) w1 of (r, w2) \<Rightarrow> (Some r, w2))))"
  by (simp add: ask_peer_def peer_connection_def Let_def split: prod.split option.split)

lemma health_check_peer_pinged:
  "\<exists>t. fst (health_check_peer C Q d pm w) =
     (case to_cbor C (own_ping pm) of
        Err e \<Rightarrow> pm
      | Ok b \<Rightarrow> pinged C t d (fst (ask_peer Q pm d MSG_PING b w)) pm)"
proof -
  let ?b = "the (decoded (to_cbor C (own_ping pm)))"
  let ?w = "snd (ask_peer Q pm d MSG_PING ?b w)"
  show ?thesis
    by (rule exI [of _ "fst (q_instant Q ?w)"])
      (auto simp: health_check_peer_def pinged_def own_ping_def Let_def split: sum.split option.split prod.split)
qed

lemma health_leads: "leads E (Some (Health_round ds)) (set_peering pm h) None
    (set_peering (fst (health_check_peers (he_codec E) Q ds pm w)) h)"
proof (induction ds arbitrary: pm w)
  case Nil
  show ?case by (rule leads_move [of _ _ "Go (at_micros 0) []"], simp, simp)
next
  case (Cons d ds)
  obtain pm1 w1 where one: "health_check_peer (he_codec E) Q d pm w = (pm1, w1)" by (rule prod.exhaust)
  have rest: "leads E (Some (Health_round ds)) (set_peering pm1 h) None
      (set_peering (fst (health_check_peers (he_codec E) Q (d # ds) pm w)) h)" using Cons one by simp
  obtain t where t: "pm1 = (case to_cbor (he_codec E) (own_ping pm) of Err e \<Rightarrow> pm
      | Ok b \<Rightarrow> pinged (he_codec E) t d (fst (ask_peer Q pm d MSG_PING b w)) pm)"
    using health_check_peer_pinged [of "he_codec E" Q d pm w] one by auto
  show ?case
  proof (cases "to_cbor (he_codec E) (own_ping pm)")
    case (Inl e)
    then show ?thesis using rest t by (auto intro!: leads_move [of _ _ "Go (at_micros 0) []"])
  next
    case (Inr b)
    show ?thesis
    proof (cases "peer_connection pm d")
      case None
      then have "pm1 = pinged (he_codec E) 0 d None pm"
        using t Inr by (simp add: ask_peer_connection pinged_def case_prod_unfold)
      then show ?thesis using rest None Inr by (auto intro!: leads_move [of _ _ "Go (at_micros 0) []"])
    next
      case (Some c)
      then obtain r where r: "pm1 = pinged (he_codec E) t d (Some r) pm"
        using t Inr by (auto simp: ask_peer_connection case_prod_unfold)
      have "leads E (Some (Health_waits d ds)) (set_peering pm h) None
          (set_peering (fst (health_check_peers (he_codec E) Q (d # ds) pm w)) h)"
        using rest r by (auto intro!: leads_move [of _ _ "Answer r t"])
      then show ?thesis using Some Inr by (auto intro!: leads_move [of _ _ "Go (at_micros 0) []"])
    qed
  qed
qed

subsubsection \<open>Gossip\<close>

lemma gossip_to_leads:
  "leads E (Some (Gossip_round batch rest k (d # ds))) (set_peering pm h)
     (Some (Gossip_round batch [] (fst (gossip_to (he_codec E) Q pm d rest k w)) (d # ds))) (set_peering pm h)"
proof (induction rest arbitrary: k w)
  case (Cons desc rest)
  let ?to = "\<lambda>k w. leads E (Some (Gossip_round batch rest k (d # ds))) (set_peering pm h)
      (Some (Gossip_round batch [] (fst (gossip_to (he_codec E) Q pm d rest k w)) (d # ds))) (set_peering pm h)"
  show ?case
  proof (cases "to_cbor (he_codec E) (WStore \<lparr>store_sender = pm_identity pm, store_sender_addr = pm_addr pm,
      store_descriptor_field = desc\<rparr>)")
    case (Inl e)
    then show ?thesis using Cons [of k w] by (auto intro!: leads_move [of _ _ "Go (at_micros 0) []"])
  next
    case (Inr b)
    obtain i w1 where i: "q_id Q w = (i, w1)" by (rule prod.exhaust)
    show ?thesis
    proof (cases "peer_connection pm d")
      case None
      then show ?thesis using Cons [of "k + 1" w1] Inr i
        by (auto simp: ask_peer_connection intro!: leads_move [of _ _ "Go (at_micros 0) []"])
    next
      case (Some c)
      obtain r w2 where r: "q_request Q c (frame_new i MSG_STORE b) w1 = (r, w2)" by (rule prod.exhaust)
      have "leads E (Some (Gossip_waits batch rest k (d # ds))) (set_peering pm h)
          (Some (Gossip_round batch [] (fst (gossip_to (he_codec E) Q pm d (desc # rest) k w)) (d # ds))) (set_peering pm h)"
        using Cons [of "if is_ok r then k else k + 1" w2] Inr i r Some
        by (cases r) (auto simp: ask_peer_connection intro!: leads_move [of _ _ "Answer r 0"])
      then show ?thesis using Some Inr by (auto intro!: leads_move [of _ _ "Go (at_micros 0) []"])
    qed
  qed
qed simp

lemma gossip_leads: "leads E (Some (Gossip_round batch batch 0 ds)) (set_peering pm h) None
    (set_peering (fst (gossip_peers (he_codec E) Q batch ds pm w)) h)"
proof (induction ds arbitrary: pm w)
  case Nil
  show ?case by (rule leads_move [of _ _ "Go (at_micros 0) []"], simp, simp)
next
  case (Cons d ds)
  obtain k w1 where g: "gossip_to (he_codec E) Q pm d batch 0 w = (k, w1)" by (rule prod.exhaust)
  let ?pm = "if k > 0 then modify_peer d (\<lambda>p. p\<lparr>ps_failures := ps_failures p + k\<rparr>) pm else pm"
  have rest: "leads E (Some (Gossip_round batch batch 0 ds)) (set_peering ?pm h) None
      (set_peering (fst (gossip_peers (he_codec E) Q batch (d # ds) pm w)) h)"
    using Cons [of ?pm w1] g by simp
  have "leads E (Some (Gossip_round batch [] k (d # ds))) (set_peering pm h) None
      (set_peering (fst (gossip_peers (he_codec E) Q batch (d # ds) pm w)) h)"
    by (rule leads_move [OF _ rest, of _ "Go (at_micros 0) []"]) simp
  then show ?case using gossip_to_leads [of E batch batch 0 d ds pm h Q w] g by (auto intro: leads_trans)
qed

subsubsection \<open>Discovery\<close>

lemma discover_leads: "leads E (Some (Discover_next found)) (set_peering pm h) None
    (set_peering (fst (connect_discovered (he_prims E) (he_quic E) found pm w)) h)"
proof (induction found arbitrary: pm w)
  case Nil
  show ?case by (rule leads_move [of _ _ "Go (at_micros 0) []"], simp, simp)
next
  case (Cons p found)
  obtain i a md where p: "p = (i, a, md)" by (rule prod_cases3)
  show ?case
  proof (cases "case map_of (pm_peers pm) (did (he_prims E) i) of None \<Rightarrow> True | Some p \<Rightarrow> ps_status p = Disconnected")
    case False
    then have rest: "leads E (Some (Discover_next found)) (set_peering pm h) None
        (set_peering (fst (connect_discovered (he_prims E) (he_quic E) (p # found) pm w)) h)" using Cons p by simp
    show ?thesis by (rule leads_move [OF _ rest, of _ "Go (at_micros 0) []"]) (use False p in simp)
  next
    case True
    obtain r pm1 w1 where c: "connect_to_peer (he_prims E) (he_quic E) pm i a w = (r, pm1, w1)" by (rule prod_cases3)
    have rest: "leads E (Some (Discover_next found)) (set_peering pm1 h) None
        (set_peering (fst (connect_discovered (he_prims E) (he_quic E) (p # found) pm w)) h)"
      using Cons True p c by simp
    have "leads E (Some (Discover_connect i a found)) (set_peering pm h) None
        (set_peering (fst (connect_discovered (he_prims E) (he_quic E) (p # found) pm w)) h)"
    proof (cases "\<exists>sa. connect_target (he_prims E) (q_parse (he_quic E)) pm i a = Ok (Some sa)")
      case False
      then have "pm1 = pm" using c by (auto simp: connect_to_peer_parts split: sum.splits option.splits)
      then have "task_next E (\<not> holds (Discover_connect i a found)) (Go (at_micros 0) []) (Discover_connect i a found)
          (set_peering pm h) = Some (Silent, Some (Discover_next found), set_peering pm1 h)"
        using False by (auto split: sum.split option.split)
      then show ?thesis using rest by (rule leads_move)
    next
      case t: True
      then obtain k t where "pm1 = connect_done (did (he_prims E) i) a k t pm"
        using c by (auto simp: connect_to_peer_parts split: prod.splits)
      then have "leads E (Some (Discover_waits i a found)) (set_peering pm h) None
          (set_peering (fst (connect_discovered (he_prims E) (he_quic E) (p # found) pm w)) h)"
        using rest by (auto intro!: leads_move [of _ _ "Connection k t"])
      then show ?thesis using t by (auto intro!: leads_move [of _ _ "Go (at_micros 0) []"])
    qed
    then show ?thesis using True p by (auto intro!: leads_move [of _ _ "Go (at_micros 0) []"])
  qed
qed

subsubsection \<open>Events\<close>

lemma request_leads: "leads E None h None (hub_step E (Request ck fr peer) h)"
proof (rule leads_start [of _ "Arrived ck fr peer"])
  show "leads E (Some (Arrived ck fr peer)) h None (hub_step E (Request ck fr peer) h)"
  proof (cases "hs_poisoned (hr_server h)")
    case True
    then show ?thesis by (auto simp: poisoned_drops intro!: leads_move [of _ _ "Go (at_micros 0) []"])
  next
    case False
    obtain hub srv where c: "peer_hub_check (he_prims E) (he_redb E) (he_cache E) ck (hr_server h) peer = (hub, srv)"
      by (rule prod.exhaust)
    have "leads E (Some (Checked hub ck fr peer)) (h\<lparr>hr_server := srv\<rparr>) None (hub_step E (Request ck fr peer) h)"
      by (rule leads_move [of _ _ "Go (at_micros 0) []"], simp add: case_prod_unfold)
        (simp add: handle_protocol_request_steps(1) [OF False c])
    then show ?thesis using False c by (auto intro!: leads_move [of _ _ "Go (at_micros 0) []"])
  qed
qed simp

lemma health_event_leads: "leads E None h None (hub_step E (Check_health w) h)"
proof (cases "hs_peering (hr_server h)")
  case (Some pm)
  have round: "leads E (Some (Health_round (map fst (filter (\<lambda>(d, p). ps_status p \<noteq> Disconnected) (pm_peers pm))))) h None
      (set_peering (fst (run_health_check (he_codec E) (he_quic E) pm w)) h)"
    using health_leads [of E _ pm h "he_quic E" w] Some by (simp add: run_health_check_def health_check_def)
  have "leads E (Some Health_due) h None (set_peering (fst (run_health_check (he_codec E) (he_quic E) pm w)) h)"
    by (rule leads_move [OF _ round, of _ "Go (at_micros 0) []"]) (use Some in \<open>simp add: with_peering_def\<close>)
  then show ?thesis using Some by (auto simp: health_task_def set_peering_def intro!: leads_start [of _ Health_due])
qed (simp add: health_task_def)

lemma gossip_event_leads: "leads E None h None (hub_step E (Gossip w) h)"
proof (cases "hs_peering (hr_server h) = None \<or> hs_poisoned (hr_server h)")
  case True
  then show ?thesis by (auto simp: gossip_task_def split: option.split)
next
  case False
  then obtain pm where pm: "hs_peering (hr_server h) = Some pm" "\<not> hs_poisoned (hr_server h)" by auto
  obtain now w1 where now: "q_micros (he_quic E) w = (now, w1)" by (rule prod.exhaust)
  let ?ds = "all_descriptors (he_redb E) (cs_inner (dn_store (hs_node (hr_server h)))) now"
  let ?pm = "fst (run_gossip_round (he_codec E) (he_quic E) (he_redb E) (dn_store (hs_node (hr_server h))) pm w)"
  have "leads E (Some Gossip_due) h None (set_peering ?pm h)"
  proof (cases "?ds = []")
    case True
    then show ?thesis using pm now
      by (auto simp: run_gossip_round_def intro!: leads_move [of _ _ "Go (at_micros now) []"])
  next
    case False
    let ?batch = "take MAX_GOSSIP_BATCH ?ds"
    let ?dids = "map fst (filter (\<lambda>(d, p). ps_status p = Connected \<and> ps_connection p \<noteq> None) (pm_peers pm))"
    have batch: "?batch \<noteq> []" using False by (simp add: MAX_GOSSIP_BATCH_def)
    have round: "leads E (Some (Gossip_round ?batch ?batch 0 ?dids)) h None (set_peering ?pm h)"
      using gossip_leads [of E ?batch ?dids pm h "he_quic E" w1] pm now False batch
      by (simp add: run_gossip_round_def gossip_round_def Let_def)
    have "leads E (Some (Gossip_wants ?ds)) h None (set_peering ?pm h)"
      by (rule leads_move [OF _ round, of _ "Go (at_micros 0) []"]) (use pm batch in \<open>simp add: with_peering_def Let_def\<close>)
    then show ?thesis using pm False by (auto simp: Let_def intro!: leads_move [of _ _ "Go (at_micros now) []"])
  qed
  then show ?thesis using pm by (auto simp: gossip_task_def set_peering_def intro!: leads_start [of _ Gossip_due])
qed

lemma discover_event_leads: "leads E None h None (hub_step E (Discover w) h)"
proof (cases "hs_peering (hr_server h) = None \<or> hs_poisoned (hr_server h)")
  case True
  then show ?thesis by (auto simp: discovery_round_def split: option.split)
next
  case False
  then obtain pm where pm: "hs_peering (hr_server h) = Some pm" "\<not> hs_poisoned (hr_server h)" by auto
  obtain now w1 where now: "q_micros (he_quic E) w = (now, w1)" by (rule prod.exhaust)
  obtain ads st where ads: "be_get (he_backend E) (dn_store (hs_node (hr_server h)))
      (ROUTING_KEY_INFRASTRUCTURE_HUB (he_prims E)) None now = (ads, st)" by (rule prod.exhaust)
  let ?h = "set_node ((hs_node (hr_server h))\<lparr>dn_store := st\<rparr>) h"
  have h: "hs_peering (hr_server ?h) = Some pm" using pm by simp
  have "leads E (Some Discover_due) h None (hub_step E (Discover w) h)"
  proof (cases "ads = []")
    case True
    then have "hub_step E (Discover w) h = ?h" using pm now ads
      by (auto simp: discovery_round_def run_discovery_def set_node_def Let_def)
    moreover have "leads E (Some Discover_due) h None ?h"
      by (rule leads_move [OF _ leads_refl, where x = "Go (at_micros now) []"]) (use pm ads True in simp)
    ultimately show ?thesis by simp
  next
    case False
    let ?found = "discover_peers_from_descriptors (he_prims E) (he_metadata E) pm ads"
    have "hub_step E (Discover w) h = set_peering (fst (connect_discovered (he_prims E) (he_quic E) ?found pm w1)) ?h"
      using pm now ads False
      by (auto simp: discovery_round_def run_discovery_def set_node_def set_peering_def Let_def split: prod.split)
    then have "leads E (Some (Discover_next ?found)) ?h None (hub_step E (Discover w) h)"
      using discover_leads [of E ?found pm ?h w1] h by simp
    then have "leads E (Some (Discover_parse ads)) ?h None (hub_step E (Discover w) h)"
      using h by (auto simp: with_peering_def intro!: leads_move [of _ _ "Go (at_micros 0) []"])
    then show ?thesis using pm ads False by (auto simp: Let_def intro!: leads_move [of _ _ "Go (at_micros now) []"])
  qed
  then show ?thesis using pm by (auto intro!: leads_start [of _ Discover_due])
qed

lemma advertise_event_leads: "leads E None h None (hub_step E (Advertise locked ck) h)"
proof (cases "hs_peering (hr_server h) = None \<or> hs_poisoned (hr_server h) \<or> locked")
  case True
  then show ?thesis by (auto simp: advertise_def split: option.split)
next
  case False
  then obtain pm where pm: "hs_peering (hr_server h) = Some pm" "\<not> hs_poisoned (hr_server h)" "\<not> locked" by auto
  have "leads E (Some Advertise_due) h None (hub_step E (Advertise locked ck) h)"
  proof (cases "self_advertisement_descriptor (he_prims E) (he_metadata E) pm (ck_hub_ads ck)")
    case (Inl e)
    then show ?thesis using pm
      by (auto simp: with_peering_def advertise_def publish_self_advertisement_def set_node_def intro!: leads_move [of _ _ "Go ck []"])
  next
    case (Inr d)
    let ?m = "\<lparr>store_sender = pm_identity pm, store_sender_addr = pm_addr pm, store_descriptor_field = d\<rparr>"
    have "leads E (Some (Advertise_store ?m)) h None (hub_step E (Advertise locked ck) h)"
      using pm Inr
      by (cases "handle_store (he_prims E) (he_backend E) (at_instant ck (hs_node (hr_server h))) ?m (ck_table ck) (ck_store ck)")
        (auto simp: advertise_def publish_self_advertisement_def set_node_def intro!: leads_move [of _ _ "Go ck []"])
    then show ?thesis using pm Inr by (auto simp: with_peering_def intro!: leads_move [of _ _ "Go ck []"])
  qed
  then show ?thesis using pm by (auto intro!: leads_start [of _ Advertise_due])
qed

lemma event_leads: "leads E None h None (hub_step E e h)"
proof (cases "atomic_event e")
  case True
  then show ?thesis by (rule leads_event)
next
  case False
  then show ?thesis
    using request_leads health_event_leads gossip_event_leads discover_event_leads advertise_event_leads
    by (cases e) auto
qed

lemma run_leads: "leads E None h None (hub_run E es h)"
proof (induction es arbitrary: h)
  case (Cons e es)
  then show ?case using event_leads [of E h e] by (auto simp: hub_run_def intro: leads_trans)
qed (simp add: hub_run_def)

text \<open>The steps refine the rounds: for every sequence of events of Hub_Runtime - requests and whole
  rounds, one after another - there is a run of the interleaved tasks with the same outcome, at
  the end of which no task is left and the lock is free. So whatever holds of all interleaved runs
  holds of the runs by rounds, and every state that the latter reach is a state of the former.\<close>

lemma rounds_are_runs:
  "\<exists>ls. tasks_run E (tasks_new h) ls (tasks_new (hub_run E es h))"
  using run_leads [of E h es] by (simp add: leads_def alone_None)

subsection \<open>What a hub hands out, however its tasks interleave\<close>

lemma hub_holds_server:
  assumes "hub_holds E v cv ok h" and "server_holds E v cv (hc_policy (hr_config h)) ok (hr_server h')"
    and "hr_config h' = hr_config h" and "hr_keypair h' = hr_keypair h"
  shows "hub_holds E v cv ok h'"
  using assms by (simp add: hub_holds_def)

lemma go_next_config:
  "go_next E free k u t h = Some (e, t', h') \<Longrightarrow> hr_config h' = hr_config h \<and> hr_keypair h' = hr_keypair h"
  by (cases "(E, free, k, u, t, h)" rule: go_next.cases)
    (auto simp: with_peering_def Let_def split: task_next_split)

lemma set_node_holds:
  "hub_holds E v cv ok h \<Longrightarrow> node_holds E v cv (hc_policy (hr_config h)) ok n \<Longrightarrow> hub_holds E v cv ok (set_node n h)"
  by (auto simp: hub_holds_def server_holds_def)

lemma set_peering_holds:
  "hub_holds E v cv ok h \<Longrightarrow> hs_peering (hr_server h) \<noteq> None \<Longrightarrow> hub_holds E v cv ok (set_peering pm h)"
  by (auto simp: hub_holds_def server_holds_def)

lemma with_peering_holds:
  assumes "hub_holds E v cv ok h" and "with_peering h f = (e, t', h')"
    and "\<And>pm. hs_peering (hr_server h) = Some pm \<Longrightarrow> f pm = (e, t', h') \<Longrightarrow> hub_holds E v cv ok h'"
  shows "hub_holds E v cv ok h'"
  using assms by (auto simp: with_peering_def split: option.splits)

text \<open>A checked request of a peer hub: only a hub with peers has one.\<close>

fun task_holds :: "descriptor set \<Rightarrow> 'c task \<Rightarrow> bool" where
  "task_holds ok (Checked hub ck fr peer) = (hub \<longrightarrow> ok = UNIV)"
| "task_holds ok t = True"

lemma go_next_holds_hub:
  assumes env: "hub_env_ok E v cv" and h: "hub_holds E v cv ok h" and t: "task_holds ok t"
    and go: "go_next E free k u t h = Some (e, t', h')"
  shows "hub_holds E v cv ok h' \<and> (\<forall>u. t' = Some u \<longrightarrow> task_holds ok u)"
proof -
  have s: "server_holds E v cv (hc_policy (hr_config h)) ok (hr_server h)"
    and p: "policy_within E (hc_policy (hr_config h)) ok" and n: "node_holds E v cv (hc_policy (hr_config h)) ok (hs_node (hr_server h))"
    using h by (simp_all add: hub_holds_def server_holds_def)
  note config = go_next_config [OF go]
  show ?thesis
  proof (cases t)
    case (Arrived ck fr peer)
    obtain hub srv where c: "peer_hub_check (he_prims E) (he_redb E) (he_cache E) ck (hr_server h) peer = (hub, srv)"
      by (rule prod.exhaust)
    have "server_holds E v cv (hc_policy (hr_config h)) ok srv \<and> (hub \<longrightarrow> ok = UNIV)" by (rule peer_hub_check_holds [OF env s c])
    then show ?thesis using Arrived go c h by (auto intro: hub_holds_server split: if_splits)
  next
    case (Checked hub ck fr peer)
    have "server_holds E v cv (hc_policy (hr_config h)) ok (snd (answer_request (he_prims E) (he_codec E) (he_redb E)
        (he_cache E) ck hub (hr_server h) fr peer))"
      by (rule answer_holds [OF env p s]) (use t Checked in simp)
    then show ?thesis using Checked go h by (auto intro: hub_holds_server split: prod.splits)
  next
    case Discover_due
    have "store_holds E v cv ok (snd (be_get (he_backend E) (dn_store (hs_node (hr_server h))) key None now))" for key now
      using store_holds_get [OF env node_holds_store [OF n] prod.collapse [symmetric]] by blast
    then have "node_holds E v cv (hc_policy (hr_config h)) ok ((hs_node (hr_server h))\<lparr>dn_store := st\<rparr>)"
      if "be_get (he_backend E) (dn_store (hs_node (hr_server h))) key None now = (ads, st)" for key now ads st
      using n that by (metis node_holds_upd(2) snd_conv)
    then show ?thesis using Discover_due go h
      by (auto simp: Let_def intro: set_node_holds split: if_splits prod.splits)
  next
    case (Advertise_store m)
    have "node_holds E v cv (hc_policy (hr_config h)) ok (at_instant k (hs_node (hr_server h)))" using n by simp
    from handle_store_holds [OF env p this, of m "ck_table k" "ck_store k"] show ?thesis
      using Advertise_store go h by (auto intro: set_node_holds split: if_splits option.splits)
  next
    case Advertise_due
    then show ?thesis using go h n
      by (auto simp: with_peering_def intro: set_node_holds split: option.splits if_splits sum.splits)
  next
    case (Health_round ds)
    then show ?thesis using go h
      by (cases ds) (auto simp: with_peering_def intro: set_peering_holds split: option.splits sum.splits)
  next
    case (Gossip_round batch rest failures ds)
    then show ?thesis using go h
      by (cases ds; cases rest) (auto simp: with_peering_def intro: set_peering_holds split: option.splits sum.splits)
  next
    case (Discover_next found)
    then show ?thesis using go h
      by (cases found) (auto simp: with_peering_def split: option.splits if_splits)
  qed (use go h in \<open>auto simp: with_peering_def Let_def split: task_next_split\<close>)
qed

lemma task_next_holds_hub:
  assumes env: "hub_env_ok E v cv" and h: "hub_holds E v cv ok h" and t: "task_holds ok t"
    and next_step: "task_next E free x t h = Some (e, t', h')"
  shows "hub_holds E v cv ok h' \<and> (\<forall>u. t' = Some u \<longrightarrow> task_holds ok u)"
proof (cases x)
  case (Go k u)
  then show ?thesis using go_next_holds_hub [OF env h t] next_step by simp
next
  case (Answer r t0)
  then show ?thesis using next_step h
    by (cases t) (auto simp: with_peering_def intro: set_peering_holds split: option.splits)
next
  case (Connection r t0)
  then show ?thesis using next_step h
    by (cases t) (auto simp: with_peering_def intro: set_peering_holds split: option.splits)
qed

definition tasks_hold ::
  "('db, 'm, 'c, 'w, 'j) hub_env \<Rightarrow> ('db \<Rightarrow> redb_tables) \<Rightarrow> ('m \<Rightarrow> bytes \<rightharpoonup> descriptor list) \<Rightarrow> descriptor set \<Rightarrow>
   ('db, 'm, 'c) hub_tasks \<Rightarrow> bool" where
  "tasks_hold E v cv ok s \<longleftrightarrow> hub_holds E v cv ok (tk_hub s) \<and>
     (\<forall>i t. tk_running s i = Some t \<longrightarrow> task_holds ok t)"

lemma tasks_hold_new [simp]: "tasks_hold E v cv ok (tasks_new h) = hub_holds E v cv ok h"
  by (simp add: tasks_hold_def tasks_new_def)

lemma tasks_step_holds:
  assumes "tasks_step E s l s'" and "hub_env_ok E v cv" and "tasks_hold E v cv ok s"
  shows "tasks_hold E v cv ok s'"
  using assms
proof (induction rule: tasks_step.induct)
  case (start s i t)
  then show ?case by (cases t) (auto simp: tasks_hold_def)
next
  case (move s i t x e t' h')
  then have "hub_holds E v cv ok (tk_hub s)" "task_holds ok t" by (auto simp: tasks_hold_def)
  from task_next_holds_hub [OF move(4) this move(3)] show ?case using move(5) by (auto simp: tasks_hold_def)
qed (auto simp: tasks_hold_def hub_step_holds)

lemma tasks_run_holds:
  "tasks_run E s ls s' \<Longrightarrow> hub_env_ok E v cv \<Longrightarrow> tasks_hold E v cv ok s \<Longrightarrow> tasks_hold E v cv ok s'"
  by (erule tasks_run_keeps) (auto intro: tasks_step_holds)

lemma response_step:
  assumes "tasks_step E s (Moves i x (Responds fr')) s'"
  obtains hub ck fr p srv where "tk_running s i = Some (Checked hub ck fr (Some p))"
    and "answer_request (he_prims E) (he_codec E) (he_redb E) (he_cache E) ck hub (hr_server (tk_hub s)) fr (Some p) = (Some fr', srv)"
proof -
  obtain t t' h' where t: "tk_running s i = Some t" "task_next E (tk_lock s = None) x t (tk_hub s) = Some (Responds fr', t', h')"
    using assms by (cases rule: moveE) auto
  obtain hub ck fr p where c: "t = Checked hub ck fr (Some p)" using task_next_responds [OF t(2)] by blast
  obtain k u where "x = Go k u" using t(2) c by (cases x) auto
  then show thesis using that t c by (auto split: prod.splits option.splits)
qed

lemma answer_bound:
  assumes "answer_request P C R M ck hub srv fr peer = (Some fr', srv')"
  shows "peer = claimed_sender C fr \<and> (\<exists>b. fr' = frame_response fr (msg_type fr OR 0x80) b)"
proof -
  have "\<not> hs_poisoned srv" using assms by (auto simp: answer_request_def)
  from assms [unfolded answer_request_eq [OF this]] show ?thesis by (auto dest!: respond_Some split: if_splits)
qed

text \<open>C3. A hub hands out valid descriptors only, however its tasks interleave: built over a database of
  valid descriptors, started, and driven by any steps of any number of requests and rounds - each
  request checked on one state of the hub and answered on a later one, advertisements and gossip
  batches out of date when they are used, peers that answer anything or never -, it answers
  authenticated requests only, with the response type that belongs to them, and a FIND_VALUE with
  descriptors that their publishers signed, that are well-formed and pass the request's filters, at
  most as many as asked for. The database may be opened again at any point.\<close>

theorem interleaved_hub_serves_valid:
  assumes "hub_env_ok E v cv" and "opens E v UNIV"
    and "build E c kp = Ok h0" and "run_start E ck0 now clk h0 w = Ok (h1, w1)"
    and "tasks_run E (tasks_new h1) ls s"
  shows "opened_db E v UNIV (server_db (hr_server (tk_hub s))) \<and>
     (\<forall>i x fr' s'. tasks_step E s (Moves i x (Responds fr')) s' \<longrightarrow>
       (\<exists>hub ck fr p. tk_running s i = Some (Checked hub ck fr (Some p)) \<and> claimed_sender (he_codec E) fr = Some p \<and>
         msg_type fr' = msg_type fr OR 0x80 \<and> msg_id fr' = msg_id fr \<and>
         (msg_type fr = MSG_FIND_VALUE \<longrightarrow>
           (\<exists>m r b. from_cbor_find_value (he_codec E) (body fr) = Ok m \<and> to_cbor (he_codec E) (WFindValueResult r) = Ok b \<and>
              fr' = frame_response fr MSG_FIND_VALUE_RESULT b \<and>
              (\<forall>ds. fvr_descriptors r = Some ds \<longrightarrow> length ds \<le> unat (fv_max_results m) \<and> length ds \<le> 20 \<and>
                 (\<forall>d \<in> set ds. authentic (he_prims E) d \<and> well_formed d \<and> filter_matches (fv_filters m) d))))))"
proof -
  have "hub_holds E v cv UNIV h0"
    using build_holds [OF assms(1,3,2)] by (simp add: policy_within_def own_within_def)
  then have "tasks_hold E v cv UNIV (tasks_new h1)" using run_start_holds [OF assms(1) _ assms(4)] by simp
  then have "hub_holds E v cv UNIV (tk_hub s)" using tasks_run_holds [OF assms(5,1)] by (simp add: tasks_hold_def)
  then have s: "server_holds E v cv (hc_policy (hr_config (tk_hub s))) UNIV (hr_server (tk_hub s))" by (simp add: hub_holds_def)
  have "\<exists>hub ck fr p. tk_running s i = Some (Checked hub ck fr (Some p)) \<and> claimed_sender (he_codec E) fr = Some p \<and>
      msg_type fr' = msg_type fr OR 0x80 \<and> msg_id fr' = msg_id fr \<and>
      (msg_type fr = MSG_FIND_VALUE \<longrightarrow>
        (\<exists>m r b. from_cbor_find_value (he_codec E) (body fr) = Ok m \<and> to_cbor (he_codec E) (WFindValueResult r) = Ok b \<and>
           fr' = frame_response fr MSG_FIND_VALUE_RESULT b \<and>
           (\<forall>ds. fvr_descriptors r = Some ds \<longrightarrow> length ds \<le> unat (fv_max_results m) \<and> length ds \<le> 20 \<and>
              (\<forall>d \<in> set ds. authentic (he_prims E) d \<and> well_formed d \<and> filter_matches (fv_filters m) d))))"
    if "tasks_step E s (Moves i x (Responds fr')) s'" for i x fr' s'
  proof (rule response_step [OF that])
    fix hub ck fr p srv
    assume r: "tk_running s i = Some (Checked hub ck fr (Some p))"
      "answer_request (he_prims E) (he_codec E) (he_redb E) (he_cache E) ck hub (hr_server (tk_hub s)) fr (Some p) = (Some fr', srv)"
    have "claimed_sender (he_codec E) fr = Some p \<and> msg_type fr' = msg_type fr OR 0x80 \<and> msg_id fr' = msg_id fr"
      using answer_bound [OF r(2)] by (auto simp: frame_response_def)
    then show ?thesis using r(1) answer_find_value [OF assms(1) s _ r(2)] by (metis (no_types, lifting))
  qed
  then show ?thesis using opened_db_again [OF assms(1) s] by blast
qed

subsection \<open>Staying up, however the tasks interleave\<close>

fun full_task :: "prims \<Rightarrow> codec \<Rightarrow> 'c task \<Rightarrow> bool" where
  "full_task P C (Arrived ck fr peer) = full_request P C fr"
| "full_task P C (Checked hub ck fr peer) = full_request P C fr"
| "full_task P C t = True"

fun full_label :: "prims \<Rightarrow> codec \<Rightarrow> ('c, 'w) tasks_label \<Rightarrow> bool" where
  "full_label P C (Starts i t) = full_task P C t"
| "full_label P C l = True"

definition tasks_up :: "('db, 'm, 'c, 'w, 'j) hub_env \<Rightarrow> ('db, 'm, 'c) hub_tasks \<Rightarrow> bool" where
  "tasks_up E s \<longleftrightarrow> \<not> hs_poisoned (hr_server (tk_hub s)) \<and>
     (\<forall>i t. tk_running s i = Some t \<longrightarrow> full_task (he_prims E) (he_codec E) t)"

lemma go_next_full:
  "go_next E free k u t h = Some (e, Some t', h') \<Longrightarrow> full_task P C t \<Longrightarrow> full_task P C t'"
  by (cases "(E, free, k, u, t, h)" rule: go_next.cases)
    (auto simp: with_peering_def Let_def split: task_next_split)

lemma go_next_up:
  assumes env: "hub_env_ok E v cv" and h: "hub_holds E v cv UNIV h" and up: "\<not> hs_poisoned (hr_server h)"
    and enc: "\<And>m. is_ok (to_cbor (he_codec E) m)" and full: "full_task (he_prims E) (he_codec E) t"
    and go: "go_next E free k u t h = Some (e, t', h')"
  shows "\<not> hs_poisoned (hr_server h')"
proof -
  have s: "server_holds E v cv (hc_policy (hr_config h)) UNIV (hr_server h)"
    and p: "policy_within E (hc_policy (hr_config h)) UNIV"
    and n: "node_holds E v cv (hc_policy (hr_config h)) UNIV (at_instant k (hs_node (hr_server h)))"
    using h by (simp_all add: hub_holds_def server_holds_def)
  show ?thesis
  proof (cases t)
    case (Arrived ck fr peer)
    then show ?thesis using go up handle_protocol_request_steps(2) [OF up] by (auto split: prod.splits)
  next
    case (Checked hub ck fr peer)
    obtain resp srv where a: "answer_request (he_prims E) (he_codec E) (he_redb E) (he_cache E) ck hub (hr_server h) fr peer = (resp, srv)"
      by (rule prod.exhaust)
    have "full_request (he_prims E) (he_codec E) fr" using full Checked by simp
    from answer_up [OF env s up enc this a] show ?thesis using Checked go a by auto
  next
    case (Advertise_store m)
    obtain r n' where "handle_store (he_prims E) (he_backend E) (at_instant k (hs_node (hr_server h))) m (ck_table k) (ck_store k) = Some (r, n')"
      by (rule handle_store_holds [OF env p n])
    then show ?thesis using Advertise_store go up by auto
  next
    case (Health_round ds)
    then show ?thesis using go up by (cases ds) (auto simp: with_peering_def split: task_next_split)
  next
    case (Gossip_round batch rest failures ds)
    then show ?thesis using go up by (cases ds; cases rest) (auto simp: with_peering_def split: task_next_split)
  next
    case (Discover_next found)
    then show ?thesis using go up by (cases found) (auto simp: with_peering_def split: task_next_split)
  qed (use go up in \<open>auto simp: with_peering_def Let_def split: task_next_split\<close>)
qed

lemma task_next_up:
  assumes "hub_env_ok E v cv" and "hub_holds E v cv UNIV h" and "\<not> hs_poisoned (hr_server h)"
    and "\<And>m. is_ok (to_cbor (he_codec E) m)" and "full_task (he_prims E) (he_codec E) t"
    and next_step: "task_next E free x t h = Some (e, t', h')"
  shows "\<not> hs_poisoned (hr_server h') \<and> (\<forall>u. t' = Some u \<longrightarrow> full_task (he_prims E) (he_codec E) u)"
proof (cases x)
  case (Go k u)
  then show ?thesis using go_next_up [OF assms(1-5)] go_next_full next_step assms(5) by simp blast
qed (use assms(3) next_step in \<open>cases t; auto simp: with_peering_def split: option.splits\<close>)+

lemma tasks_step_up:
  assumes "tasks_step E s l s'" and "hub_env_ok E v cv" and "\<And>m. is_ok (to_cbor (he_codec E) m)"
    and "full_label (he_prims E) (he_codec E) l" and "tasks_hold E v cv UNIV s \<and> tasks_up E s"
  shows "tasks_hold E v cv UNIV s' \<and> tasks_up E s'"
proof
  show "tasks_hold E v cv UNIV s'" by (rule tasks_step_holds [OF assms(1,2) conjunct1 [OF assms(5)]])
  have h: "hub_holds E v cv UNIV (tk_hub s)" using assms(5) by (simp add: tasks_hold_def)
  show "tasks_up E s'"
    using assms(1,4,5) h
  proof (induction rule: tasks_step.induct)
    case (move s i t x e t' h')
    then have "\<not> hs_poisoned (hr_server (tk_hub s))" "full_task (he_prims E) (he_codec E) t" by (auto simp: tasks_up_def)
    from task_next_up [OF assms(2) move(6) this(1) assms(3) this(2) move(3)] show ?case
      using move(5) by (auto simp: tasks_up_def)
  next
    case (event e s)
    have "full_event (he_prims E) (he_codec E) e" using event(1) by (cases e) auto
    then have "\<not> hs_poisoned (hr_server (hub_step E e (tk_hub s)))"
      using hub_step_up [OF assms(2,3), of e "tk_hub s"] event(3,4) by (simp add: tasks_up_def)
    then show ?case using event by (simp add: tasks_up_def)
  qed (auto simp: tasks_up_def)
qed

lemma request_steps:
  assumes "hub_env_ok E v cv" and "server_holds E v cv c UNIV (hr_server (tk_hub s))" and "\<not> hs_poisoned (hr_server (tk_hub s))"
    and "\<And>m. is_ok (to_cbor (he_codec E) m)" and "claimed_sender (he_codec E) fr = Some p"
    and "full_request (he_prims E) (he_codec E) fr" and "tk_lock s = None" and "tk_running s i = None"
  obtains s0 s1 s2 m b where "tasks_step E s (Starts i (Arrived ck fr (Some p))) s0"
    and "tasks_step E s0 (Moves i (Go k u) Silent) s1"
    and "tasks_step E s1 (Moves i (Go k' u') (Responds (frame_response fr (msg_type fr OR 0x80) b))) s2"
    and "tk_running s2 = tk_running s" and "tk_lock s2 = None" and "to_cbor (he_codec E) m = Ok b" and "answers (msg_type fr) m"
proof -
  obtain hub srv where c: "peer_hub_check (he_prims E) (he_redb E) (he_cache E) ck (hr_server (tk_hub s)) (Some p) = (hub, srv)"
    by (rule prod.exhaust)
  have sv1: "server_holds E v cv c UNIV srv" and up1: "\<not> hs_poisoned srv"
    using peer_hub_check_holds [OF assms(1,2) c] handle_protocol_request_steps(2) [OF assms(3) c] by simp_all
  obtain resp srv2 where a: "answer_request (he_prims E) (he_codec E) (he_redb E) (he_cache E) ck hub srv fr (Some p) = (resp, srv2)"
    by (rule prod.exhaust)
  obtain m b where m: "resp = Some (frame_response fr (msg_type fr OR 0x80) b)" "to_cbor (he_codec E) m = Ok b" "answers (msg_type fr) m"
    using answer_up [OF assms(1) sv1 up1 assms(4,6) a] assms(5) by auto
  let ?r = "tk_running s" and ?h = "tk_hub s"
  let ?s0 = "s\<lparr>tk_running := ?r(i := Some (Arrived ck fr (Some p)))\<rparr>"
  let ?s1 = "\<lparr>tk_hub = ?h\<lparr>hr_server := srv\<rparr>, tk_running = ?r(i := Some (Checked hub ck fr (Some p))), tk_lock = None\<rparr>"
  let ?s2 = "\<lparr>tk_hub = ?h\<lparr>hr_server := srv2\<rparr>, tk_running = ?r, tk_lock = None\<rparr>"
  have "tasks_step E s (Starts i (Arrived ck fr (Some p))) ?s0" by (rule tasks_step.start) (use assms(8) in simp_all)
  moreover have "tasks_step E ?s0 (Moves i (Go k u) Silent) ?s1"
    using tasks_step.move [of ?s0 i "Arrived ck fr (Some p)" E "Go k u"] assms(3,7) c by (simp add: lock_after_def)
  moreover have "tasks_step E ?s1 (Moves i (Go k' u') (Responds (frame_response fr (msg_type fr OR 0x80) b))) ?s2"
    using tasks_step.move [of ?s1 i "Checked hub ck fr (Some p)" E "Go k' u'"] a m(1) fun_upd_triv [of ?r i] assms(8)
    by (simp add: lock_after_def)
  ultimately show thesis using that [of ?s0 ?s1 b ?s2 m] m by simp
qed

text \<open>C4. A hub whose peers answer stays up, however its tasks interleave: if the targets and keys of
  requests have 32 bytes (in a release build: at least 32), no run poisons its lock, and whenever no task waits at the
  peers a request that names the peer of its connection is answered in two steps of its own
  - check and answer - with the message that belongs to it.\<close>

theorem interleaved_hub_answers:
  assumes "hub_env_ok E v cv" and "opens E v UNIV" and "\<And>m. is_ok (to_cbor (he_codec E) m)"
    and "build E c kp = Ok h0" and "run_start E ck0 now clk h0 w = Ok (h1, w1)"
    and "tasks_run E (tasks_new h1) ls s" and "\<forall>l \<in> set ls. full_label (he_prims E) (he_codec E) l"
    and "claimed_sender (he_codec E) fr = Some p" and "full_request (he_prims E) (he_codec E) fr"
    and "tk_lock s = None" and "tk_running s i = None"
  shows "\<not> hs_poisoned (hr_server (tk_hub s)) \<and>
     (\<exists>m b s'. tasks_run E s [Starts i (Arrived ck fr (Some p)), Moves i (Go k u) Silent,
          Moves i (Go k' u') (Responds (frame_response fr (msg_type fr OR 0x80) b))] s' \<and>
        tk_running s' = tk_running s \<and> tk_lock s' = None \<and> to_cbor (he_codec E) m = Ok b \<and> answers (msg_type fr) m)"
proof -
  have "hub_holds E v cv UNIV h0 \<and> \<not> hs_poisoned (hr_server h0)"
    using build_holds [OF assms(1,4,2)] by (simp add: policy_within_def own_within_def)
  then have "tasks_hold E v cv UNIV (tasks_new h1) \<and> tasks_up E (tasks_new h1)"
    using run_start_holds [OF assms(1) _ assms(5)] by (auto simp: tasks_up_def tasks_new_def tasks_hold_def)
  then have s: "tasks_hold E v cv UNIV s \<and> tasks_up E s"
    using tasks_run_keeps [OF assms(6), of "\<lambda>s. tasks_hold E v cv UNIV s \<and> tasks_up E s"]
      tasks_step_up [OF _ assms(1,3)] assms(7) by blast
  then have up: "\<not> hs_poisoned (hr_server (tk_hub s))"
    and sv: "server_holds E v cv (hc_policy (hr_config (tk_hub s))) UNIV (hr_server (tk_hub s))"
    by (auto simp: tasks_up_def tasks_hold_def hub_holds_def)
  show ?thesis
    by (rule request_steps [OF assms(1) sv up assms(3,8-11), of ck k u k' u'])
      (use up in \<open>blast intro: run_step run_one\<close>)
qed

subsection \<open>Witnesses\<close>

lemma demo_up:
  assumes "build demo_hub_env demo_hub_config \<lparr>signing_key = [9]\<rparr> = Ok h"
    and "run_start demo_hub_env demo_clock 0 (\<lambda>_. 0) h [] = Ok (h, [])"
  shows "server_holds demo_hub_env demo_view id (hc_policy (hr_config (hub_run demo_hub_env demo_events h))) UNIV
      (hr_server (hub_run demo_hub_env demo_events h))"
    and "\<not> hs_poisoned (hr_server (hub_run demo_hub_env demo_events h))"
proof -
  have h: "hub_holds demo_hub_env demo_view id UNIV h"
    using build_holds [OF demo_hub_env_ok(1) assms(1) demo_hub_env_ok(2)] by (simp add: policy_within_def own_within_def)
  show "server_holds demo_hub_env demo_view id (hc_policy (hr_config (hub_run demo_hub_env demo_events h))) UNIV
      (hr_server (hub_run demo_hub_env demo_events h))"
    using hub_run_holds [OF demo_hub_env_ok(1) h] by (simp add: hub_holds_def)
  show "\<not> hs_poisoned (hr_server (hub_run demo_hub_env demo_events h))"
    using hub_answers [OF demo_hub_env_ok(1,2) _ assms, of demo_events "frame_new (replicate 16 8) MSG_FIND_VALUE []" demo_peer_id
        demo_clock] demo_hub_requests by auto
qed

text \<open>After the events a FIND_VALUE arrives, is checked and answered.\<close>

lemma interleaved_hub_serves_valid_witness:
  "\<exists>h ls s fr' s' hub ck fr p. build demo_hub_env demo_hub_config \<lparr>signing_key = [9]\<rparr> = Ok h \<and>
     tasks_run demo_hub_env (tasks_new h) ls s \<and> tasks_step demo_hub_env s (Moves 0 (Go demo_clock []) (Responds fr')) s' \<and>
     msg_type fr' = MSG_FIND_VALUE_RESULT \<and> tk_running s 0 = Some (Checked hub ck fr (Some p)) \<and>
     claimed_sender (he_codec demo_hub_env) fr = Some p \<and> opened_db demo_hub_env demo_view UNIV (server_db (hr_server (tk_hub s)))"
proof (rule demo_hub_built)
  fix h
  assume h: "build demo_hub_env demo_hub_config \<lparr>signing_key = [9]\<rparr> = Ok h"
    "run_start demo_hub_env demo_clock 0 (\<lambda>_. 0) h [] = Ok (h, [])"
  let ?fr = "frame_new (replicate 16 8) MSG_FIND_VALUE []"
  let ?s = "tasks_new (hub_run demo_hub_env demo_events h)"
  have sel: "tk_lock ?s = None" "tk_running ?s 0 = None" by (simp_all add: tasks_new_def)
  have up: "server_holds demo_hub_env demo_view id (hc_policy (hr_config (hub_run demo_hub_env demo_events h))) UNIV (hr_server (tk_hub ?s))"
    "\<not> hs_poisoned (hr_server (tk_hub ?s))" using demo_up [OF h] by (simp_all add: tasks_new_def)
  have enc: "is_ok (to_cbor (he_codec demo_hub_env) m)" for m by simp
  obtain ls where run: "tasks_run demo_hub_env (tasks_new h) ls ?s"
    using run_leads [of demo_hub_env h demo_events] by (auto simp: leads_def alone_None)
  show ?thesis
  proof (rule request_steps [OF demo_hub_env_ok(1) up enc demo_hub_requests(1,2) sel, where ck = demo_clock and k = demo_clock and u = "[]" and k' = demo_clock and u' = "[]"])
    fix s0 s1 s2 m b
    assume "tasks_step demo_hub_env ?s (Starts 0 (Arrived demo_clock ?fr (Some demo_peer_id))) s0"
      and "tasks_step demo_hub_env s0 (Moves 0 (Go demo_clock []) Silent) s1"
      and last_step: "tasks_step demo_hub_env s1 (Moves 0 (Go demo_clock []) (Responds (frame_response ?fr (msg_type ?fr OR 0x80) b))) s2"
    then have run1: "tasks_run demo_hub_env (tasks_new h)
        (ls @ [Starts 0 (Arrived demo_clock ?fr (Some demo_peer_id)), Moves 0 (Go demo_clock []) Silent]) s1"
      using run by (blast intro: run_append run_step run_one)
    note valid = interleaved_hub_serves_valid [OF demo_hub_env_ok(1,2) h run1]
    have "\<exists>hub ck rq p. tk_running s1 0 = Some (Checked hub ck rq (Some p)) \<and> claimed_sender (he_codec demo_hub_env) rq = Some p"
      using conjunct2 [OF valid] last_step by blast
    moreover have "msg_type (frame_response ?fr (msg_type ?fr OR 0x80) b) = MSG_FIND_VALUE_RESULT"
      by (simp add: frame_response_def msg_type_defs)
    ultimately show ?thesis using conjunct1 [OF valid] run1 last_step h(1) by blast
  qed
qed

lemma interleaved_hub_answers_witness:
  "\<exists>h b s'. build demo_hub_env demo_hub_config \<lparr>signing_key = [9]\<rparr> = Ok h \<and>
     tasks_run demo_hub_env (tasks_new h\<lparr>tk_running := (tk_running (tasks_new h))(1 := Some (demo_visit 1))\<rparr>)
       [Starts 0 (Arrived demo_clock (frame_new (replicate 16 8) MSG_FIND_VALUE []) (Some demo_peer_id)),
        Moves 0 (Go demo_clock []) Silent,
        Moves 0 (Go demo_clock []) (Responds (frame_response (frame_new (replicate 16 8) MSG_FIND_VALUE []) MSG_FIND_VALUE_RESULT b))] s'"
proof (rule demo_hub_built)
  fix h
  assume h: "build demo_hub_env demo_hub_config \<lparr>signing_key = [9]\<rparr> = Ok h"
    "run_start demo_hub_env demo_clock 0 (\<lambda>_. 0) h [] = Ok (h, [])"
  have run: "tasks_run demo_hub_env (tasks_new h) [Starts 1 (demo_visit 1)]
      (tasks_new h\<lparr>tk_running := (tk_running (tasks_new h))(1 := Some (demo_visit 1))\<rparr>)"
    by (rule run_one [OF demo_visit_starts]) (simp add: tasks_new_def)
  have full: "\<forall>l \<in> set [Starts 1 (demo_visit 1)]. full_label (he_prims demo_hub_env) (he_codec demo_hub_env) l"
    using demo_hub_requests(2) by (simp add: demo_visit_def)
  have ty: "msg_type (frame_new i MSG_FIND_VALUE []) OR 0x80 = MSG_FIND_VALUE_RESULT" for i by (simp add: msg_type_defs)
  have enc: "is_ok (to_cbor (he_codec demo_hub_env) m)" for m by simp
  from interleaved_hub_answers [OF demo_hub_env_ok(1,2) enc h run full demo_hub_requests(1,2) [of "replicate 16 8"], where i = 0
      and ck = demo_clock and k = demo_clock and u = "[]" and k' = demo_clock and u' = "[]", unfolded ty] h(1)
  show ?thesis by (simp add: tasks_new_def) blast
qed

end
