(* ===== verification/Hub_Mesh.thy ===== *)
theory Hub_Mesh
  imports Hub_Interleaving
begin

section \<open>Several hubs\<close>

text \<open>
  Hubs that call each other, as one system: the tasks of each hub (Hub_Tasks), and the calls that
  its tasks wait for. A call goes to the hub that the connection leads to, becomes a request there -
  its sender is the caller, by mutual TLS -, and comes back with the answer, or with an error if
  the handler drops the request. Peers that are no hubs of the system answer anything or never,
  and clients of any identity may send anything at any time. Connections of the system hold
  except where a label says that one breaks.
\<close>

datatype call =
    Sent nat frame
  | Served nat nat
  | Returned "transport_error + frame"
  | Elsewhere

record ('db, 'm, 'c) mesh =
  me_hub :: "nat \<Rightarrow> ('db, 'm, 'c) hub_tasks"
  me_calls :: "nat \<times> nat \<Rightarrow> call option"

definition mesh_new :: "(nat \<Rightarrow> ('db, 'm, 'c) hub_runtime) \<Rightarrow> ('db, 'm, 'c) mesh" where
  "mesh_new hs = \<lparr>me_hub = (\<lambda>a. tasks_new (hs a)), me_calls = (\<lambda>_. None)\<rparr>"

datatype ('c, 'w) mesh_label = At nat "('c, 'w) tasks_label" | Breaks nat "('c, 'w) tasks_label"

fun hub_of :: "('c, 'w) mesh_label \<Rightarrow> nat" where
  "hub_of (At a l) = a"
| "hub_of (Breaks a l) = a"

fun label_of :: "('c, 'w) mesh_label \<Rightarrow> ('c, 'w) tasks_label" where
  "label_of (At a l) = l"
| "label_of (Breaks a l) = l"

text \<open>Steps that concern no call, and what the end of a handler means to the caller.\<close>

fun quiet :: "('c, 'w) tasks_label \<Rightarrow> bool" where
  "quiet (Moves i (Answer r t) e) = False"
| "quiet (Moves i x (Asks c fr)) = False"
| "quiet (Moves i x (Responds fr)) = False"
| "quiet (Moves i x Drops) = False"
| "quiet _ = True"

fun ends_call :: "'c effect \<Rightarrow> transport_error + frame \<Rightarrow> bool" where
  "ends_call (Responds fr) r = (r = Ok fr)"
| "ends_call Drops r = (\<not> is_ok r)"
| "ends_call _ r = False"

definition mesh_update ::
  "nat \<Rightarrow> ('db, 'm, 'c) hub_tasks \<Rightarrow> (nat \<times> nat \<Rightarrow> call option) \<Rightarrow> ('db, 'm, 'c) mesh \<Rightarrow> ('db, 'm, 'c) mesh" where
  "mesh_update a s calls m = m\<lparr>me_hub := (me_hub m)(a := s), me_calls := calls\<rparr>"

text \<open>\<open>L a c\<close> is the hub that connection \<open>c\<close> of hub \<open>a\<close> leads to, if it is one of the system.\<close>

inductive mesh_step ::
  "(nat \<Rightarrow> ('db, 'm, 'c, 'w, 'j) hub_env) \<Rightarrow> (nat \<Rightarrow> 'c \<Rightarrow> nat option) \<Rightarrow> ('db, 'm, 'c) mesh \<Rightarrow> ('c, 'w) mesh_label \<Rightarrow>
   ('db, 'm, 'c) mesh \<Rightarrow> bool"
  for E L where
  m_local: "tasks_step (E a) (me_hub m a) l s \<Longrightarrow> quiet l \<Longrightarrow>
     mesh_step E L m (At a l) (mesh_update a s (me_calls m) m)"
| m_client: "tasks_step (E a) (me_hub m a) (Moves j x e) s \<Longrightarrow> ends_call e r \<Longrightarrow>
     (\<forall>k. me_calls m k \<noteq> Some (Served a j)) \<Longrightarrow>
     mesh_step E L m (At a (Moves j x e)) (mesh_update a s (me_calls m) m)"
| m_ask: "tasks_step (E a) (me_hub m a) (Moves i x (Asks c fr)) s \<Longrightarrow>
     mesh_step E L m (At a (Moves i x (Asks c fr)))
       (mesh_update a s ((me_calls m)((a, i) := Some (case L a c of Some b \<Rightarrow> Sent b fr | None \<Rightarrow> Elsewhere))) m)"
| m_arrive: "me_calls m (a, i) = Some (Sent b fr) \<Longrightarrow>
     tasks_step (E b) (me_hub m b) (Starts j (Arrived ck fr (Some (hr_identity (tk_hub (me_hub m a)))))) s \<Longrightarrow>
     mesh_step E L m (At b (Starts j (Arrived ck fr (Some (hr_identity (tk_hub (me_hub m a)))))))
       (mesh_update b s ((me_calls m)((a, i) := Some (Served b j))) m)"
| m_answer: "me_calls m (a, i) = Some (Served b j) \<Longrightarrow> tasks_step (E b) (me_hub m b) (Moves j x e) s \<Longrightarrow> ends_call e r \<Longrightarrow>
     mesh_step E L m (At b (Moves j x e)) (mesh_update b s ((me_calls m)((a, i) := Some (Returned r))) m)"
| m_return: "me_calls m (a, i) = Some (Returned r) \<Longrightarrow> tasks_step (E a) (me_hub m a) (Moves i (Answer r t) e) s \<Longrightarrow>
     mesh_step E L m (At a (Moves i (Answer r t) e)) (mesh_update a s ((me_calls m)((a, i) := None)) m)"
| m_elsewhere: "me_calls m (a, i) = Some Elsewhere \<Longrightarrow> tasks_step (E a) (me_hub m a) (Moves i (Answer r t) e) s \<Longrightarrow>
     mesh_step E L m (At a (Moves i (Answer r t) e)) (mesh_update a s ((me_calls m)((a, i) := None)) m)"
| m_break: "me_calls m (a, i) \<noteq> None \<Longrightarrow> tasks_step (E a) (me_hub m a) (Moves i (Answer (Err r) t) e) s \<Longrightarrow>
     mesh_step E L m (Breaks a (Moves i (Answer (Err r) t) e)) (mesh_update a s ((me_calls m)((a, i) := None)) m)"

inductive mesh_run ::
  "(nat \<Rightarrow> ('db, 'm, 'c, 'w, 'j) hub_env) \<Rightarrow> (nat \<Rightarrow> 'c \<Rightarrow> nat option) \<Rightarrow> ('db, 'm, 'c) mesh \<Rightarrow>
   ('c, 'w) mesh_label list \<Rightarrow> ('db, 'm, 'c) mesh \<Rightarrow> bool"
  for E L where
  mesh_none: "mesh_run E L m [] m"
| mesh_cons: "mesh_step E L m l m1 \<Longrightarrow> mesh_run E L m1 ls m2 \<Longrightarrow> mesh_run E L m (l # ls) m2"

lemma mesh_update_sel [simp]:
  "me_hub (mesh_update a s calls m) b = (if b = a then s else me_hub m b)" "me_calls (mesh_update a s calls m) = calls"
  by (simp_all add: mesh_update_def)

text \<open>A step of the system is a step of one hub; each hub by itself runs as in Hub_Tasks.\<close>

lemma mesh_step_hub:
  "mesh_step E L m l m' \<Longrightarrow>
     tasks_step (E (hub_of l)) (me_hub m (hub_of l)) (label_of l) (me_hub m' (hub_of l)) \<and>
     (\<forall>b. b \<noteq> hub_of l \<longrightarrow> me_hub m' b = me_hub m b)"
  by (induction rule: mesh_step.induct) auto

lemma mesh_run_hub:
  assumes "mesh_run E L m ls m'"
  shows "tasks_run (E a) (me_hub m a) (map label_of (filter (\<lambda>l. hub_of l = a) ls)) (me_hub m' a)"
  using assms
proof (induction rule: mesh_run.induct)
  case (mesh_cons m l m1 ls m2)
  note step = mesh_step_hub [OF mesh_cons.hyps(1)]
  show ?case
  proof (cases "hub_of l = a")
    case True
    then show ?thesis using step mesh_cons.IH by (auto intro: run_step)
  next
    case False
    then show ?thesis using step mesh_cons.IH by auto
  qed
qed (simp add: run_none)

lemma mesh_run_lock: "mesh_run E L (mesh_new hs) ls m \<Longrightarrow> lock_ok (me_hub m a)"
  by (rule tasks_run_lock [OF mesh_run_hub]) (auto simp: mesh_new_def)

lemma mesh_step_lock:
  assumes "mesh_step E L m l m'" and "\<And>a. lock_ok (me_hub m a)"
  shows "lock_ok (me_hub m' a)"
proof (cases "hub_of l = a")
  case True
  then show ?thesis using mesh_step_hub [OF assms(1)] tasks_step_lock [OF _ assms(2) [of a]] by blast
next
  case False
  then show ?thesis using mesh_step_hub [OF assms(1)] assms(2) [of a] by simp
qed

subsection \<open>Deadlock\<close>

text \<open>A hub waits for another: the task that holds its peer manager waits for the answer to a call
  that is on the way there, or is a request there that has not got past its check.\<close>

fun asks :: "'c task \<Rightarrow> bool" where
  "asks (Health_waits d ds) = True"
| "asks (Gossip_waits batch rest k ds) = True"
| "asks _ = False"

definition pending :: "('db, 'm, 'c) mesh \<Rightarrow> nat \<Rightarrow> nat \<Rightarrow> nat \<Rightarrow> bool" where
  "pending m a i b \<longleftrightarrow> (\<exists>fr. me_calls m (a, i) = Some (Sent b fr)) \<or>
     (\<exists>j ck fr p. me_calls m (a, i) = Some (Served b j) \<and> tk_running (me_hub m b) j = Some (Arrived ck fr (Some p)))"

definition waits_for :: "('db, 'm, 'c) mesh \<Rightarrow> nat \<Rightarrow> nat \<Rightarrow> bool" where
  "waits_for m a b \<longleftrightarrow> (\<exists>i t. tk_lock (me_hub m a) = Some i \<and> tk_running (me_hub m a) i = Some t \<and> asks t \<and> pending m a i b)"

definition deadlocked :: "('db, 'm, 'c) mesh \<Rightarrow> nat set \<Rightarrow> bool" where
  "deadlocked m D \<longleftrightarrow> (\<forall>a \<in> D. \<exists>b \<in> D. waits_for m a b)"

lemma asks_step:
  assumes "tasks_step E s (Moves i x e) s'" and "tk_running s i = Some t" and "asks t"
  shows "\<exists>r u. x = Answer r u \<and> e = Silent"
proof -
  obtain t' h' where "task_next E (tk_lock s = None) x t (tk_hub s) = Some (e, t', h')"
    using assms(1,2) by (cases rule: moveE) auto
  then show ?thesis using assms(3) by (cases t; cases x) (auto simp: with_peering_def split: option.splits)
qed

lemma blocked_step:
  assumes "tasks_step E s l s'" and "tk_lock s \<noteq> None" and "tk_running s j = Some (Arrived ck fr (Some p))"
  shows "tk_running s' j = tk_running s j \<and> (\<forall>x e. l \<noteq> Moves j x e)"
  using assms by (induction rule: tasks_step.induct) auto

lemma starts_running: "tasks_step E s (Starts j t) s' \<Longrightarrow> tk_running s' j = Some t"
  by (cases rule: startE) auto

text \<open>A call on its way arrives at its hub, a request that has not got past its check stays.\<close>

lemma sent_step:
  assumes "mesh_step E L m l m'" and "me_calls m (a, i) = Some (Sent b fr)"
    and "tk_running (me_hub m a) i = Some t" and "asks t" and "\<And>l'. l \<noteq> Breaks a l'"
  shows "pending m' a i b"
  using assms
proof (induction rule: mesh_step.induct)
  case (m_ask a' m i' x c fr' s)
  then have "(a', i') \<noteq> (a, i)" using asks_step [of "E a" "me_hub m a" i x "Asks c fr'" s t] by auto
  then show ?case using m_ask(2) by (auto simp: pending_def)
next
  case (m_arrive m a' i' b' fr' j ck s)
  show ?case using m_arrive(1,3) starts_running [OF m_arrive(2)] by (auto simp: pending_def)
qed (auto simp: pending_def)

lemma served_step:
  assumes "mesh_step E L m l m'" and "me_calls m (a, i) = Some (Served b j)"
    and "tk_running (me_hub m b) j = Some (Arrived ck fr (Some p))" and "tk_lock (me_hub m b) \<noteq> None"
    and "tk_running (me_hub m a) i = Some t" and "asks t" and "\<And>l'. l \<noteq> Breaks a l'"
  shows "pending m' a i b"
proof -
  have "tk_running (me_hub m' b) j = Some (Arrived ck fr (Some p))"
    using mesh_step_hub [OF assms(1)] blocked_step [OF _ assms(4,3)] assms(3) by (cases "hub_of l = b") auto
  moreover have "me_calls m' (a, i) = Some (Served b j)"
    using assms(1,2,5-7)
  proof (cases rule: mesh_step.cases)
    case (m_ask a' i' x c fr' s)
    then have "(a', i') \<noteq> (a, i)" using asks_step [of "E a" "me_hub m a" i x "Asks c fr'" s t] assms(5,6) by auto
    then show ?thesis using m_ask assms(2) by auto
  next
    case (m_answer a' i' b' j' x e s r)
    have "b' \<noteq> b \<or> j' \<noteq> j" using blocked_step [of "E b" "me_hub m b" _ s j ck fr p] m_answer(4) assms(3,4) by auto
    then show ?thesis using m_answer assms(2) by auto
  qed auto
  ultimately show ?thesis by (auto simp: pending_def)
qed

lemma pending_step:
  assumes "mesh_step E L m l m'" and "pending m a i b" and "tk_lock (me_hub m b) \<noteq> None"
    and "tk_running (me_hub m a) i = Some t" and "asks t" and "\<And>l'. l \<noteq> Breaks a l'"
  shows "pending m' a i b"
  using assms(2) sent_step [OF assms(1) _ assms(4-6)] served_step [OF assms(1) _ _ assms(3-6)]
  unfolding pending_def [of m] by blast

text \<open>The caller itself cannot go on.\<close>

lemma pending_waits:
  assumes "mesh_step E L m l m'" and "pending m a i b"
    and "tk_running (me_hub m a) i = Some t" and "asks t" and "\<And>l'. l \<noteq> Breaks a l'" and "hub_of l = a"
  shows "label_of l \<noteq> Moves i x e"
proof
  assume l: "label_of l = Moves i x e"
  then have "tasks_step (E a) (me_hub m a) (Moves i x e) (me_hub m' a)" using mesh_step_hub [OF assms(1)] assms(6) by auto
  from asks_step [OF this assms(3,4)] obtain r u where x: "x = Answer r u" "e = Silent" by blast
  from assms(1) show False
    by (cases rule: mesh_step.cases) (use l x assms(2,5,6) in \<open>auto simp: pending_def\<close>)
qed

lemma waits_step:
  assumes "mesh_step E L m l m'" and "lock_ok (me_hub m a)" and "waits_for m a b" and "tk_lock (me_hub m b) \<noteq> None"
    and "\<And>l'. l \<noteq> Breaks a l'"
  shows "waits_for m' a b \<and> tk_lock (me_hub m' a) = tk_lock (me_hub m a) \<and>
     (hub_of l = a \<longrightarrow> (\<forall>x e. label_of l \<noteq> Moves (the (tk_lock (me_hub m a))) x e))"
proof -
  obtain i t where w: "tk_lock (me_hub m a) = Some i" "tk_running (me_hub m a) i = Some t" "asks t" "pending m a i b"
    using assms(3) by (auto simp: waits_for_def)
  note still = pending_step [OF assms(1) w(4) assms(4) w(2,3) assms(5)]
    and waits = pending_waits [OF assms(1) w(4,2,3) assms(5)]
  have "tk_lock (me_hub m' a) = Some i \<and> tk_running (me_hub m' a) i = Some t"
  proof (cases "hub_of l = a")
    case True
    then show ?thesis
      using step_beside [OF conjunct1 [OF mesh_step_hub [OF assms(1)]], of i] waits assms(2) w(1,2) by auto
  next
    case False
    then show ?thesis using mesh_step_hub [OF assms(1)] w(1,2) by auto
  qed
  then show ?thesis using still waits w(1,3) by (auto simp: waits_for_def)
qed

lemma deadlock_run:
  assumes "mesh_run E L m ls m'" and "\<And>a. lock_ok (me_hub m a)" and "deadlocked m D"
    and "\<And>a l. a \<in> D \<Longrightarrow> Breaks a l \<notin> set ls" and "a \<in> D"
  shows "deadlocked m' D \<and> tk_lock (me_hub m a) \<noteq> None \<and>
     (\<forall>x e. At a (Moves (the (tk_lock (me_hub m a))) x e) \<notin> set ls)"
  using assms
proof (induction rule: mesh_run.induct)
  case (mesh_none m)
  then show ?case by (force simp: deadlocked_def waits_for_def)
next
  case (mesh_cons m l m1 ls m2)
  have ok: "lock_ok (me_hub m1 a)" for a by (rule mesh_step_lock [OF mesh_cons.hyps(1) mesh_cons.prems(1)])
  have held: "tk_lock (me_hub m b) \<noteq> None" if "b \<in> D" for b
    using mesh_cons.prems(2) that by (force simp: deadlocked_def waits_for_def)
  have "l \<noteq> Breaks c l'" if "c \<in> D" for c l' using mesh_cons.prems(3) [OF that] by auto
  note step = waits_step [OF mesh_cons.hyps(1) mesh_cons.prems(1) _ held this]
  have d: "deadlocked m1 D" using mesh_cons.prems(2) step unfolding deadlocked_def by blast
  have same: "tk_lock (me_hub m1 a) = tk_lock (me_hub m a)" "hub_of l = a \<Longrightarrow> label_of l \<noteq> Moves (the (tk_lock (me_hub m a))) x e" for x e
    using mesh_cons.prems(2,4) step unfolding deadlocked_def by blast+
  from mesh_cons.IH [OF ok d _ mesh_cons.prems(4)] mesh_cons.prems(3) same held [OF mesh_cons.prems(4)]
  show ?case by (cases l) auto
qed

lemma deadlock_silent:
  assumes "mesh_run E L (mesh_new hs) ls0 m" and "deadlocked m D"
    and "mesh_run E L m ls m'" and "\<forall>a \<in> D. \<forall>l. Breaks a l \<notin> set ls"
    and "a \<in> D" and "At a (Moves j x (Responds fr)) \<in> set ls"
  shows "past_check (me_hub m a) j"
proof -
  have ok: "lock_ok (me_hub m a)" for a by (rule mesh_run_lock [OF assms(1)])
  have held: "tk_lock (me_hub m a) \<noteq> None \<and> (\<forall>x e. At a (Moves (the (tk_lock (me_hub m a))) x e) \<notin> set ls)"
    using deadlock_run [OF assms(3) ok assms(2) _ assms(5)] assms(4) by blast
  then obtain i where i: "tk_lock (me_hub m a) = Some i" by auto
  let ?ls = "map label_of (filter (\<lambda>l. hub_of l = a) ls)"
  have "Moves i x e \<notin> set ?ls" for x e
    using held i assms(4,5) by (auto simp: image_iff) (metis hub_of.simps label_of.simps mesh_label.exhaust)
  moreover have "Moves j x (Responds fr) \<in> set ?ls" using assms(6) by force
  ultimately show ?thesis using run_beside [OF mesh_run_hub [OF assms(3)] ok i] by blast
qed

lemma deadlock_stays:
  assumes "mesh_run E L (mesh_new hs) ls0 m" and "deadlocked m D"
    and "mesh_run E L m ls m'" and "\<forall>a \<in> D. \<forall>l. Breaks a l \<notin> set ls"
  shows "deadlocked m' D"
proof (cases "D = {}")
  case False
  then obtain a where "a \<in> D" by blast
  then show ?thesis using deadlock_run [OF assms(3) mesh_run_lock [OF assms(1)] assms(2)] assms(4) by blast
qed (simp add: deadlocked_def)

text \<open>Hubs that ask each other at the same time never answer again: if in a set of hubs each holds its
  peer manager while it waits for the answer to a PING or STORE that is on its way to, or waits
  for the lock of, another hub of the set, then this is so at every later moment - whatever
  clients, other hubs and the background tasks do - until one of the connections breaks; and until
  then none of these hubs answers a request whose sender it had not checked before.\<close>

theorem mutual_calls_deadlock:
  assumes "mesh_run E L (mesh_new hs) ls0 m" and "deadlocked m D"
    and "mesh_run E L m ls m'" and "\<forall>a \<in> D. \<forall>l. Breaks a l \<notin> set ls"
  shows "deadlocked m' D \<and>
     (\<forall>a \<in> D. \<forall>j x fr. At a (Moves j x (Responds fr)) \<in> set ls \<longrightarrow>
        (\<exists>hub ck rq p. tk_running (me_hub m a) j = Some (Checked hub ck rq (Some p))))"
  using deadlock_stays [OF assms] deadlock_silent [OF assms] unfolding past_check_def by blast

text \<open>Such a state is near: two hubs whose first questions go to each other.\<close>

lemma mutual_probes:
  assumes "a \<noteq> b" and "probes (E a) (hs a) (L a) b" and "probes (E b) (hs b) (L b) a"
  obtains ls m where "mesh_run E L (mesh_new hs) ls m" and "deadlocked m {a, b}"
    and "\<And>h j. h \<in> {a, b} \<Longrightarrow> \<not> past_check (me_hub m h) j"
proof -
  obtain da dsa ca fra where A: "tasks_step (E a) (tasks_new (hs a)) (Starts 0 Health_due) (alone (Some Health_due) (hs a))"
    "tasks_step (E a) (alone (Some Health_due) (hs a)) (Moves 0 (Go k u) Silent) (alone (Some (Health_round (da # dsa))) (hs a))"
    "tasks_step (E a) (alone (Some (Health_round (da # dsa))) (hs a)) (Moves 0 (Go k u) (Asks ca fra)) (alone (Some (Health_waits da dsa)) (hs a))"
    "L a ca = Some b" by (rule probe_steps [OF assms(2)])
  obtain db dsb cb frb where B: "tasks_step (E b) (tasks_new (hs b)) (Starts 0 Health_due) (alone (Some Health_due) (hs b))"
    "tasks_step (E b) (alone (Some Health_due) (hs b)) (Moves 0 (Go k u) Silent) (alone (Some (Health_round (db # dsb))) (hs b))"
    "tasks_step (E b) (alone (Some (Health_round (db # dsb))) (hs b)) (Moves 0 (Go k u) (Asks cb frb)) (alone (Some (Health_waits db dsb)) (hs b))"
    "L b cb = Some a" by (rule probe_steps [OF assms(3)])
  let ?m1 = "mesh_update a (alone (Some Health_due) (hs a)) (\<lambda>_. None) (mesh_new hs)"
  let ?m2 = "mesh_update a (alone (Some (Health_round (da # dsa))) (hs a)) (\<lambda>_. None) ?m1"
  let ?m3 = "mesh_update b (alone (Some Health_due) (hs b)) (\<lambda>_. None) ?m2"
  let ?m4 = "mesh_update b (alone (Some (Health_round (db # dsb))) (hs b)) (\<lambda>_. None) ?m3"
  let ?m5 = "mesh_update a (alone (Some (Health_waits da dsa)) (hs a)) ((\<lambda>_. None)((a, 0) := Some (Sent b fra))) ?m4"
  let ?m6 = "mesh_update b (alone (Some (Health_waits db dsb)) (hs b)) (((\<lambda>_. None)((a, 0) := Some (Sent b fra)))((b, 0) := Some (Sent a frb))) ?m5"
  have new: "me_hub (mesh_new hs) h = tasks_new (hs h)" "me_calls (mesh_new hs) = (\<lambda>_. None)" for h
    by (simp_all add: mesh_new_def)
  have "mesh_step E L (mesh_new hs) (At a (Starts 0 Health_due)) ?m1"
    using mesh_step.m_local [of E a "mesh_new hs"] A(1) new by auto
  moreover have "mesh_step E L ?m1 (At a (Moves 0 (Go k u) Silent)) ?m2"
    using mesh_step.m_local [of E a ?m1] A(2) by auto
  moreover have "mesh_step E L ?m2 (At b (Starts 0 Health_due)) ?m3"
    using mesh_step.m_local [of E b ?m2] B(1) new assms(1) by auto
  moreover have "mesh_step E L ?m3 (At b (Moves 0 (Go k u) Silent)) ?m4"
    using mesh_step.m_local [of E b ?m3] B(2) by auto
  moreover have "mesh_step E L ?m4 (At a (Moves 0 (Go k u) (Asks ca fra))) ?m5"
    using mesh_step.m_ask [of E a ?m4 0 "Go k u" ca fra _ L] A(3,4) assms(1) by auto
  moreover have "mesh_step E L ?m5 (At b (Moves 0 (Go k u) (Asks cb frb))) ?m6"
    using mesh_step.m_ask [of E b ?m5 0 "Go k u" cb frb _ L] B(3,4) assms(1) by auto
  ultimately have "mesh_run E L (mesh_new hs) [At a (Starts 0 Health_due), At a (Moves 0 (Go k u) Silent),
      At b (Starts 0 Health_due), At b (Moves 0 (Go k u) Silent), At a (Moves 0 (Go k u) (Asks ca fra)),
      At b (Moves 0 (Go k u) (Asks cb frb))] ?m6"
    by (blast intro: mesh_run.intros)
  moreover have "deadlocked ?m6 {a, b}"
    using assms(1) by (auto simp: deadlocked_def waits_for_def pending_def alone_asks)
  moreover have "\<not> past_check (me_hub ?m6 h) j" if "h \<in> {a, b}" for h j
    using that assms(1) by (auto simp: alone_def past_check_def)
  ultimately show thesis by (rule that)
qed

text \<open>C6. Two hubs that are peers of each other can stop each other for good: if each is connected to the
  other, and both - idle, with their health checks at the same default interval - come to ping
  before either has answered, both hold their peer managers while each PING waits for the other's;
  from then on neither answers any request of anybody, until the connection breaks.\<close>

theorem hubs_deadlock:
  assumes "a \<noteq> b" and "probes (E a) (hs a) (L a) b" and "probes (E b) (hs b) (L b) a"
  shows "\<exists>ls m. mesh_run E L (mesh_new hs) ls m \<and>
     (\<forall>ms m'. mesh_run E L m ms m' \<longrightarrow> (\<forall>l. Breaks a l \<notin> set ms \<and> Breaks b l \<notin> set ms) \<longrightarrow>
        deadlocked m' {a, b} \<and>
        (\<forall>j x fr. At a (Moves j x (Responds fr)) \<notin> set ms \<and> At b (Moves j x (Responds fr)) \<notin> set ms))"
proof -
  obtain ls m where m: "mesh_run E L (mesh_new hs) ls m" "deadlocked m {a, b}"
    "\<And>h j. h \<in> {a, b} \<Longrightarrow> \<not> past_check (me_hub m h) j"
    by (rule mutual_probes [OF assms]) blast
  have "deadlocked m' {a, b} \<and>
      (\<forall>j x fr. At a (Moves j x (Responds fr)) \<notin> set ms \<and> At b (Moves j x (Responds fr)) \<notin> set ms)"
    if "mesh_run E L m ms m'" "\<forall>l. Breaks a l \<notin> set ms \<and> Breaks b l \<notin> set ms" for ms m'
  proof -
    have "\<forall>h \<in> {a, b}. \<forall>l. Breaks h l \<notin> set ms" using that(2) by blast
    from deadlock_stays [OF m(1,2) that(1) this] deadlock_silent [OF m(1,2) that(1) this] m(3) show ?thesis by blast
  qed
  then show ?thesis using m(1) by blast
qed

subsection \<open>Witnesses\<close>

definition demo_link :: "nat \<Rightarrow> unit \<Rightarrow> nat option" where
  "demo_link a c = Some (1 - a)"

lemma demo_links:
  "probes demo_hub_env (demo_linked_hub 0) (demo_link 0) 1" "probes demo_hub_env (demo_linked_hub 1) (demo_link 1) 0"
  by (simp_all add: demo_linked_probes demo_link_def)

lemma mutual_calls_deadlock_witness:
  "\<exists>ls m m'. mesh_run (\<lambda>_. demo_hub_env) demo_link (mesh_new demo_linked_hub) ls m \<and> deadlocked m {0, 1} \<and>
     mesh_run (\<lambda>_. demo_hub_env) demo_link m [At 0 (Happens (Clean_limiter 0))] m' \<and> deadlocked m' {0, 1}"
proof (rule mutual_probes [of 0 1 "\<lambda>_. demo_hub_env" demo_linked_hub demo_link])
  fix ls m
  assume m: "mesh_run (\<lambda>_. demo_hub_env) demo_link (mesh_new demo_linked_hub) ls m" "deadlocked m {0, 1}"
  let ?s = "(me_hub m 0)\<lparr>tk_hub := hub_step demo_hub_env (Clean_limiter 0) (tk_hub (me_hub m 0))\<rparr>"
  have "mesh_step (\<lambda>_. demo_hub_env) demo_link m (At 0 (Happens (Clean_limiter 0))) (mesh_update 0 ?s (me_calls m) m)"
    by (rule mesh_step.m_local) (rule tasks_step.event, simp_all)
  then have run: "mesh_run (\<lambda>_. demo_hub_env) demo_link m [At 0 (Happens (Clean_limiter 0))] (mesh_update 0 ?s (me_calls m) m)"
    by (blast intro: mesh_run.intros)
  from mutual_calls_deadlock [OF m run] m run show ?thesis by auto
qed (use demo_links in simp_all)

lemma hubs_deadlock_witness:
  "\<exists>ls m. mesh_run (\<lambda>_. demo_hub_env) demo_link (mesh_new demo_linked_hub) ls m \<and> deadlocked m {0, 1}"
  using hubs_deadlock [of 0 1 "\<lambda>_. demo_hub_env" demo_linked_hub demo_link] demo_links
  by (force intro: mesh_run.intros)

end
