(* ===== verification/Spec2Isabelle.thy ===== *)
theory Spec2Isabelle
  imports Disk_Spec Gateway Wire Metrics Hub_Mesh
begin

text \<open>
  \<^bold>\<open>The mesh protocol: a verification development.\<close>

  The repository is a Rust workspace for capability discovery without a central directory. Signed
  \<^emph>\<open>descriptors\<close> are published under routing keys into a Kademlia-like DHT and found there. Nodes talk
  over QUIC with mutual TLS, in frames of a 24-byte header and a CBOR body. The crates, from below:

  \<^item> mesh-core: hashes, identities, descriptors, frames, messages;
  \<^item> mesh-transport: certificates, endpoints and frame streams on QUIC;
  \<^item> mesh-dht: distance, routing table, the storage interface and the in-memory store, the node with
    its request handlers, hooks and lookups;
  \<^item> mesh-node: a plain node and the client commands; mesh-client: the client library;
    mesh-gateway: an HTTP front end over the client;
  \<^item> mesh-hub: a node with a disk store, a cache, tenants, a rate limiter and a store policy behind a
    hook, peering with other hubs, an admin API and seeding.

  A request enters at the listener of an endpoint, which knows the peer's identity from its
  certificate. The server decodes the body, compares the sender that it names with this identity
  and calls the node's handler, which updates the routing table, asks the hook and works on the
  storage; the answer goes back on the same stream. Hubs also call each other: they find peers by
  the advertisements in their own storage, gossip descriptors to them and check their health.

  \<^bold>\<open>How code became definitions.\<close>

  Structs are records, enums datatypes, the integers words of their width, \<^verbatim>\<open>Result\<close> a sum (\<open>Err\<close>,
  \<open>Ok\<close>). A method with \<^verbatim>\<open>&mut self\<close> returns its result and the new state. A panic is \<open>None\<close> (of the
  node's handlers, for instance), and what a panic does to the program is modelled where the code
  meets it: a hub's mutex is poisoned (\<open>hs_poisoned\<close>), a plain node locks on regardless. Clock readings and
  random bytes are arguments, one for each call in the code. Code of other crates is a record of
  functions that the definitions take, with its documented laws as hypotheses: \<open>prims\<close> (blake3,
  ed25519-dalek, bs58, hex, ciborium; \<open>blake3_ok\<close>, \<open>ed25519_ok\<close>, \<open>cbor_ok\<close>), \<open>codec\<close> (serde for the
  messages), \<open>redb\<close> (\<open>redb_ok\<close>: tables with the usual laws, every operation may fail), \<open>cache\<close>
  (\<open>cache_ok\<close>: a hit is what was put, anything may be evicted), \<open>sqlite\<close> (errors of statements),
  \<open>quic\<close> and \<open>net\<close> (the network, over a world that may answer anything), \<open>tls_lib\<close> (rcgen and
  rustls; \<open>handshake_ok\<close>, \<open>certified\<close>), \<open>json\<close>. No hypothesis says that BLAKE3 has no collisions:
  where one would matter the theorem has it as an alternative. Theory Demo has closed instances
  of \<open>prims\<close>; with them and with small databases, caches and networks the witness after each property
  shows that its hypotheses hold somewhere.

  \<^verbatim>\<open>debug_assert!\<close> is compiled into debug builds only: the flag \<open>debug_assertions\<close> of \<open>prims\<close> is the build.
  It decides what \<open>xor_distance\<close> does with digests of more than 32 bytes (a panic, or the first 32 are
  read; shorter ones panic in both), so the theorems on panics have the premise \<open>full P h\<close>: 32 bytes, and
  in a release build at least 32. A call to the network that returns, returns an answer or an error;
  the code has no timeouts around its requests, and what follows from that is the subject of Hub_Tasks
  and Hub_Mesh, elsewhere calls return. Sums that SQLite computes beyond 64 bits become floating-point
  values there; Tenants keeps such rows apart (\<open>real_balances\<close>), as the code fails to read them.

  \<^bold>\<open>The theories.\<close>

  \<^item> Prelude: words, bytes, \<open>Result\<close>, lists and maps, the collections \<open>panic_free\<close>, \<open>invariants\<close>,
    \<open>frame_rules\<close>. Core: hash.rs, identity.rs, error.rs, routing.rs, schema.rs of mesh-core and the
    keys of mesh-schemas.
  \<^item> Descriptor: descriptor.rs. \<open>validate\<close> accepts exactly authentic, live and well-formed descriptors;
    \<open>create\<close> makes such; accepted descriptors are tamper evident.
  \<^item> Frame: frame.rs, the streams of connection.rs, the certificate search of tls.rs. Encoding and
    decoding are inverse; a stream gives back one frame. Messages: message.rs.
  \<^item> Endpoint: the rest of tls.rs and endpoint.rs: making the certificate, the two TLS
    configurations, connecting, serving the streams of connections. Who each side takes the other for, and
    what an exchange on a stream returns.
  \<^item> Distance, Routing_Table: distance.rs, routing.rs of mesh-dht. The table invariant, optimality of
    \<open>closest_nodes\<close>, which nodes can be displaced.
  \<^item> Storage_Spec: the trait \<^verbatim>\<open>DescriptorStorage\<close> as the record \<open>backend\<close>; its contract as the locale
    \<open>descriptor_storage\<close>, interpreted on the in-memory store; and the locale \<open>storage_simulation\<close> of a store
    that does over any history what a specification says, interpreted on the in-memory and on the
    disk store. Descriptor_Store: the in-memory store of storage.rs. Catalog: its abstract
    specification (a catalog of slots, without tables) and the refinement.
  \<^item> Dht_Node, Lookup: node.rs and hooks.rs, generic in the storage: the locale \<open>node_backend\<close> is what the
    node relies on, interpreted on the in-memory store and proved for the hub's storage over any
    database with the laws. Handlers are total on full-length keys, answers are valid,
    lookups end.
  \<^item> Requests, Node_Server, Commands: what the two servers share, the server of mesh-node and its
    commands. Client: mesh-client and the connection cache of QuicTransport (the same code in
    mesh-node). Gateway: mesh-gateway. Round trips from publishing to discovery across all of them, in a
    network of one node (\<open>one_node\<close>: every other address fails) for clients and gateways in any
    state (\<open>client_ok\<close>, \<open>gateway_state\<close>: as \<open>main\<close> starts one and after any requests).
  \<^item> Redb_Storage, Hub_Storage: storage/redb.rs and storage/mod.rs, and their properties. Disk_Spec: an
    abstract specification of the disk store (a shelf with one version for each slot), the relation
    of its tables to a shelf and the refinement over any history, restarts included. Hub_Contents: the set of
    descriptors a hub can hand out and what each operation adds to it.
  \<^item> Network, Hub_Limits, Tenants, Hub_Policy, Admin: network.rs, rate_limit.rs, tenant.rs with auth.rs,
    policy.rs with hooks.rs, admin.rs. Exactness of filter, limiter and hook; what any sequence of operations
    of the tenant manager takes from a tenant; challenges.
  \<^item> Peering: peering.rs; among others a peer whose requests fail is given up and found again. Hub_Server:
    \<open>handle_protocol_request\<close> of lib.rs, seeding.rs; responses, policy, and what a gossip round leaves in
    the tables of the receiving hub.
  \<^item> Hub_Runtime: config.rs, \<open>build\<close> and \<open>run\<close> of lib.rs, main.rs. A running hub is the record
    \<open>hub_runtime\<close>; after \<open>run_start\<close> everything is a \<open>hub_event\<close> - a request, a round of a background
    task, an admin request - and \<open>hub_run\<close> folds \<open>hub_step\<close> over any list of them. Hub_System: the invariant
    \<open>hub_holds\<close> kept by every event, and with it what a whole hub guarantees. Metrics: metrics.rs and
    what its counters mean over a run (the family of rate-limit counters is part of the hook's state,
    where the hook records its refusals). Wire: a client, its endpoint, the hub's endpoint and a hub
    with any past.
  \<^item> Hub_Tasks: the same hub in steps between the locks and the awaits. A \<open>task\<close> is a point in the code of a
    request or a round (\<open>health_ask\<close>: from the next peer to \<^verbatim>\<open>send_request(..).await\<close>); \<open>tasks_step\<close> moves any
    of any number of tasks; the lock of the peer manager, held over awaits, is part of the state. Who
    holds it, what stalls, that rounds end, and what a task waits for when a fair run leaves it where it
    is. Hub_Interleaving: the rounds of Hub_Runtime are runs
    of these steps, and the invariant of Hub_System holds after every interleaved run. Hub_Mesh: any
    number of hubs whose calls to each other are in flight (\<open>mesh_step\<close>), and how they deadlock.

  \<^bold>\<open>The properties.\<close>

  What is stored and served is valid (in memory, on disk, through the cache, in a whole hub), old
  sequences do not come back, the policy binds whom it should, connections go where the filter
  allows, limits and quotas are exact, however the tasks of a hub interleave. Servers and hubs start and keep answering; lookups end;
  published capabilities are found. Some properties state what the code does although it means
  something else: identities taken from the first pattern
  in a certificate, one short target that stops a hub for good, the bearer token that is never
  compared, foreign stores that count against a publisher, metrics that never move, one silent peer that
  stops a hub, two hubs that wait for each other for good, conflicting updates of one sequence that
  replace each other, capabilities that a gateway does not show.

  \<^bold>\<open>Bounds and fuel.\<close>

  Only \<open>lookup_value\<close> runs an unbounded loop. It takes fuel, a number of rounds: more rounds than there are
  ids of known or reported nodes always suffice, and more fuel changes nothing
  (\<open>lookup_value_ends\<close>). Other loops are structural recursion on the lists they consume. Sizes are
  explicit where the code converts them: body lengths below \<open>2^32\<close>, frames of up to one megabyte on a
  stream, counters modulo \<open>2^64\<close>; no theorem bounds the number of nodes, descriptors, peers, events
  or requests.

  \<^bold>\<open>Not modelled.\<close>

  \<^item> The inside of third-party crates: quinn, rustls, rcgen, redb, moka, rusqlite, axum, serde, TOML, clap,
    prometheus_client's registry and text format. Where the code relies on them they are the
    parameters above. X.509 certificates are byte strings; that a handshake needs a key fitting the
    certificate is the parameter \<open>proves\<close>.
  \<^item> Scheduling: which task or event comes next is arbitrary. Timers, intervals, the idle timeout of a QUIC
    connection and shutdown are left out; a lock is given to any task that waits for it, and that a
    task is woken at all is no theorem. In Hub_Runtime a request or a round is one event and the network calls
    in it return; Hub_Tasks has neither restriction. The start of a hub (\<open>run_start\<close>, with the bootstrap
    from its seeds) is one step, before anything else runs. What takes only the node's mutex, or
    those of limiter and tenants, is one step in both. The streams of a plain node are served one after another.
  \<^item> Reading and writing files beyond key files and the loaded configuration, logging, command lines, the
    opening of database files (a parameter that yields a database with the laws, or an error).
  \<^item> The SDKs (Python, TypeScript), the bridges, deployment files and examples.

  What could still be added: the exposition format of the metrics; the timers, with the time after which
  a lost connection is noticed; the contents of several hubs over a run in which they gossip.
\<close>

end
